(* ===== verification/Prelude.thy ===== *)
theory Prelude
  imports Main "HOL-Library.Word"
begin

text \<open>
  Shared vocabulary of the development: the machine types of the Pico 2 W firmware (the
  RP2350 is a little-endian 32-bit machine, so \<open>size_t\<close> and \<open>unsigned\<close> have 32 bits), the
  reading and overwriting of byte ranges, little-endian fields, and the generic lemmas on lists,
  words and masks that the component theories use.

  Sizes and indices that the code keeps within an array are natural numbers; every place where the
  C expression could wrap is written with \<open>size_sub\<close> or at the width of a word.
\<close>

unbundle bit_operations_syntax

type_synonym u8 = "8 word"
type_synonym u16 = "16 word"
type_synonym u32 = "32 word"
type_synonym u64 = "64 word"
type_synonym bytes = "u8 list"

named_theorems layout \<open>numeric constants of the memory layout, for unfolding\<close>
named_theorems slice_simps \<open>reading a range of a list after a write\<close>

section \<open>Unsigned arithmetic at the width of \<open>size_t\<close>\<close>

definition size_sub :: "nat \<Rightarrow> nat \<Rightarrow> nat" where
  "size_sub a b = (a + 2 ^ 32 - b mod 2 ^ 32) mod 2 ^ 32"

lemma size_sub_eq [simp]:
  assumes "b \<le> a" and "a < 2 ^ 32"
  shows "size_sub a b = a - b"
proof -
  have "a + 2 ^ 32 - b = (a - b) + 2 ^ 32"
    using assms by simp
  moreover have "b mod 2 ^ 32 = b" and "a - b < 2 ^ 32"
    using assms by (simp, simp)
  ultimately show ?thesis
    unfolding size_sub_def by (metis mod_add_self2 mod_less)
qed

section \<open>Masks\<close>

lemma and_pow2_minus_1: "(x::nat) AND (2 ^ k - Suc 0) = x mod 2 ^ k"
  unfolding One_nat_def [symmetric]
  by (metis mask_eq_exp_minus_1 take_bit_eq_mask take_bit_eq_mod)

section \<open>Exclusive or on words\<close>

lemma word_xor_eq_0_iff: "a XOR b = 0 \<longleftrightarrow> a = (b :: 'a::len word)"
  by (auto simp: bit_eq_iff bit_xor_iff)

lemma word_xor_interchange:
  "(a XOR b) XOR (c XOR d) = (a XOR c) XOR (b XOR (d :: 'a::len word))"
  by (rule bit_word_eqI) (auto simp: bit_xor_iff)

lemma unat_bound: "unat (w :: 'a::len word) < 2 ^ LENGTH('a)"
  by (rule unsigned_less)

lemma unat_widen: "LENGTH('a) \<le> LENGTH('b) \<Longrightarrow> unat (ucast (w :: 'a::len word) :: 'b::len word) = unat w"
  by (simp add: unsigned_ucast_eq take_bit_nat_eq_self order_less_le_trans [OF unat_bound])

lemma byte_bit_beyond: "8 \<le> n \<Longrightarrow> \<not> bit (b :: u8) n"
  by (simp add: impossible_bit)

section \<open>Ranges of byte arrays\<close>

text \<open>
  \<open>slice off n xs\<close> is what a \<open>memcpy\<close> of \<open>n\<close> bytes from \<open>xs + off\<close> reads;
  \<open>splice off ys xs\<close> is the array after a \<open>memcpy\<close> of \<open>ys\<close> to \<open>xs + off\<close>.
\<close>

definition slice :: "nat \<Rightarrow> nat \<Rightarrow> 'a list \<Rightarrow> 'a list" where
  "slice off n xs = take n (drop off xs)"

definition splice :: "nat \<Rightarrow> 'a list \<Rightarrow> 'a list \<Rightarrow> 'a list" where
  "splice off ys xs = take off xs @ ys @ drop (off + length ys) xs"

lemma length_slice [simp]: "length (slice off n xs) = min n (length xs - off)"
  by (simp add: slice_def)

lemma length_splice [simp]:
  "off + length ys \<le> length xs \<Longrightarrow> length (splice off ys xs) = length xs"
  by (simp add: splice_def)

lemma nth_slice: "i < n \<Longrightarrow> off + i < length xs \<Longrightarrow> slice off n xs ! i = xs ! (off + i)"
  by (simp add: slice_def)

lemma nth_splice:
  assumes "off + length ys \<le> length xs" and "i < length xs"
  shows "splice off ys xs ! i =
    (if off \<le> i \<and> i < off + length ys then ys ! (i - off) else xs ! i)"
  using assms by (auto simp: splice_def nth_append min_def)

lemma slice_splice_same [slice_simps]:
  assumes "off + length ys \<le> length xs" and "n = length ys"
  shows "slice off n (splice off ys xs) = ys"
  using assms by (simp add: slice_def splice_def)

lemma slice_splice_disjoint [slice_simps]:
  assumes "off + length ys \<le> length xs" and "a + n \<le> length xs"
    and "a + n \<le> off \<or> off + length ys \<le> a"
  shows "slice a n (splice off ys xs) = slice a n xs"
  using assms by (intro nth_equalityI) (auto simp: nth_slice nth_splice)

lemma splice_slice_id:
  assumes "off + n \<le> length xs"
  shows "splice off (slice off n xs) xs = xs"
  using assms by (intro nth_equalityI) (auto simp: nth_slice nth_splice)

section \<open>Little-endian fields\<close>

definition le16 :: "u16 \<Rightarrow> bytes" where
  "le16 w = [ucast w, ucast (drop_bit 8 w)]"

definition le32 :: "u32 \<Rightarrow> bytes" where
  "le32 w = [ucast w, ucast (drop_bit 8 w), ucast (drop_bit 16 w), ucast (drop_bit 24 w)]"

fun rd16 :: "bytes \<Rightarrow> u16" where
  "rd16 (a # b # _) = ucast a OR push_bit 8 (ucast b)"
| "rd16 _ = 0"

fun rd32 :: "bytes \<Rightarrow> u32" where
  "rd32 (a # b # c # d # _) =
     ucast a OR push_bit 8 (ucast b) OR push_bit 16 (ucast c) OR push_bit 24 (ucast d)"
| "rd32 _ = 0"

lemma length_le32 [simp]: "length (le32 w) = 4"
  by (simp add: le32_def)

lemma length_le16 [simp]: "length (le16 w) = 2"
  by (simp add: le16_def)

lemma rd32_le32 [simp]: "rd32 (le32 w @ rest) = w"
proof (rule bit_word_eqI)
  fix n
  assume "n < LENGTH(32)"
  then consider "n < 8" | "8 \<le> n" "n < 16" | "16 \<le> n" "n < 24" | "24 \<le> n" "n < 32"
    by fastforce
  then show "bit (rd32 (le32 w @ rest)) n \<longleftrightarrow> bit w n"
    by cases (auto simp: le32_def bit_simps)
qed

lemma rd16_le16 [simp]: "rd16 (le16 w @ rest) = w"
  by (rule bit_word_eqI) (auto simp: le16_def bit_simps)

lemma div_eq_drop: "n div 256 = drop_bit 8 n" for n :: nat
  by (simp add: drop_bit_eq_div)

lemma le16_of_nat: "le16 (of_nat n) = [of_nat n, of_nat (n div 256)]"
proof -
  have "(ucast (drop_bit 8 (of_nat n :: u16)) :: u8) = of_nat (n div 256)"
    by (rule bit_word_eqI) (auto simp: bit_simps div_eq_drop)
  moreover have "(ucast (of_nat n :: u16) :: u8) = of_nat n"
    by (rule bit_word_eqI) (auto simp: bit_simps)
  ultimately show ?thesis
    by (simp add: le16_def)
qed

lemma le32_rd32: "le32 (rd32 [a, b, c, d]) = [a, b, c, d]"
proof -
  have "ucast (drop_bit 0 (rd32 [a, b, c, d])) = a" "ucast (drop_bit 8 (rd32 [a, b, c, d])) = b"
    "ucast (drop_bit 16 (rd32 [a, b, c, d])) = c" "ucast (drop_bit 24 (rd32 [a, b, c, d])) = d"
    by (rule bit_word_eqI; auto simp: bit_simps byte_bit_beyond)+
  then show ?thesis
    by (simp add: le32_def)
qed

section \<open>C strings\<close>

text \<open>
  A C string is the list of its bytes before the terminating zero. \<open>ascii\<close> gives the bytes of a
  literal, \<open>to_lower\<close> is \<open>tolower\<close> in the C locale, \<open>starts_ci p s\<close> is \<open>!strncasecmp (s, p, strlen (p))\<close>
  and \<open>equal_ci\<close> is \<open>!strcasecmp\<close>.
\<close>

definition ascii :: "string \<Rightarrow> bytes" where
  "ascii s = map of_char s"

lemma length_ascii: "length (ascii s) = length s"
  by (simp add: ascii_def)

definition to_lower :: "u8 \<Rightarrow> u8" where
  "to_lower c = (if 65 \<le> c \<and> c \<le> 90 then c + 32 else c)"

definition to_upper :: "u8 \<Rightarrow> u8" where
  "to_upper c = (if 97 \<le> c \<and> c \<le> 122 then c - 32 else c)"

text \<open>The string a byte buffer holds, up to its first zero.\<close>

definition cstr :: "bytes \<Rightarrow> bytes" where
  "cstr bs = takeWhile (\<lambda>c. c \<noteq> 0) bs"

definition starts_ci :: "bytes \<Rightarrow> bytes \<Rightarrow> bool" where
  "starts_ci p s \<longleftrightarrow> map to_lower (take (length p) s) = map to_lower p"

definition equal_ci :: "bytes \<Rightarrow> bytes \<Rightarrow> bool" where
  "equal_ci s t \<longleftrightarrow> map to_lower s = map to_lower t"

definition is_digit :: "u8 \<Rightarrow> bool" where
  "is_digit c \<longleftrightarrow> 48 \<le> c \<and> c \<le> 57"

definition is_alpha :: "u8 \<Rightarrow> bool" where
  "is_alpha c \<longleftrightarrow> 97 \<le> c \<and> c \<le> 122 \<or> 65 \<le> c \<and> c \<le> 90"

text \<open>Decimal output, as \<open>%u\<close> and \<open>%lld\<close> print it.\<close>

fun decimal :: "nat \<Rightarrow> bytes" where
  "decimal n = (if n < 10 then [of_nat n + 48] else decimal (n div 10) @ [of_nat (n mod 10) + 48])"

declare decimal.simps [simp del]

definition decimal_int :: "int \<Rightarrow> bytes" where
  "decimal_int i = (if i < 0 then 45 # decimal (nat (- i)) else decimal (nat i))"

section \<open>Error codes of the services\<close>

text \<open>The codes of \<open>io_service_error_t\<close> that the services answer with, and the largest payload of a request or response.\<close>

abbreviation IO_SERVICE_MAX_PAYLOAD :: nat where "IO_SERVICE_MAX_PAYLOAD \<equiv> 2048"
abbreviation IO_SERVICE_OK :: u8 where "IO_SERVICE_OK \<equiv> 0"
abbreviation IO_SERVICE_UNKNOWN_GROUP :: u8 where "IO_SERVICE_UNKNOWN_GROUP \<equiv> 1"
abbreviation IO_SERVICE_UNKNOWN_OPERATION :: u8 where "IO_SERVICE_UNKNOWN_OPERATION \<equiv> 2"
abbreviation IO_SERVICE_INVALID_LENGTH :: u8 where "IO_SERVICE_INVALID_LENGTH \<equiv> 3"
abbreviation IO_SERVICE_INVALID_PARAMETER :: u8 where "IO_SERVICE_INVALID_PARAMETER \<equiv> 4"
abbreviation IO_SERVICE_UNAVAILABLE :: u8 where "IO_SERVICE_UNAVAILABLE \<equiv> 5"
abbreviation IO_SERVICE_BUSY_ERROR :: u8 where "IO_SERVICE_BUSY_ERROR \<equiv> 6"
abbreviation IO_SERVICE_INVALID_STATE :: u8 where "IO_SERVICE_INVALID_STATE \<equiv> 8"
abbreviation IO_SERVICE_UNDERFLOW :: u8 where "IO_SERVICE_UNDERFLOW \<equiv> 9"
abbreviation IO_SERVICE_STORAGE_OPEN :: u8 where "IO_SERVICE_STORAGE_OPEN \<equiv> 0x10"
abbreviation IO_SERVICE_STORAGE_READ :: u8 where "IO_SERVICE_STORAGE_READ \<equiv> 0x11"
abbreviation IO_SERVICE_STORAGE_WRITE :: u8 where "IO_SERVICE_STORAGE_WRITE \<equiv> 0x12"
abbreviation IO_SERVICE_CAPACITY :: u8 where "IO_SERVICE_CAPACITY \<equiv> 0x13"
abbreviation IO_SERVICE_NOT_FOUND :: u8 where "IO_SERVICE_NOT_FOUND \<equiv> 0x14"
abbreviation IO_SERVICE_CLOCK_UNSYNCED :: u8 where "IO_SERVICE_CLOCK_UNSYNCED \<equiv> 0x15"
abbreviation IO_SERVICE_REBOOT_CONFIRMATION :: u8 where "IO_SERVICE_REBOOT_CONFIRMATION \<equiv> 0x16"

section \<open>Runs of a component and refinement\<close>

text \<open>
  A component is a step function from a state and an operation to an output and a state;
  \<open>run_ops\<close> runs a sequence of operations. The locale \<open>machine_refinement\<close> is the contract of an
  implementation with respect to a specification of the same operations: from a state that
  satisfies the invariant, a step has the specification's output and lands in a state that
  satisfies the invariant and abstracts to the specification's state. Inside it the contract is
  lifted to every run.
\<close>

fun run_ops :: "('s \<Rightarrow> 'op \<Rightarrow> 'out \<times> 's) \<Rightarrow> 's \<Rightarrow> 'op list \<Rightarrow> 'out list \<times> 's" where
  "run_ops step s [] = ([], s)"
| "run_ops step s (x # xs) =
     (let (out, s1) = step s x; (outs, s2) = run_ops step s1 xs in (out # outs, s2))"

locale machine_refinement =
  fixes cstep :: "'s \<Rightarrow> 'op \<Rightarrow> 'out \<times> 's"
    and astep :: "'a \<Rightarrow> 'op \<Rightarrow> 'out \<times> 'a"
    and abs :: "'s \<Rightarrow> 'a"
    and inv :: "'s \<Rightarrow> bool"
  assumes step_sim: "inv s \<Longrightarrow> inv (snd (cstep s x)) \<and>
      astep (abs s) x = (fst (cstep s x), abs (snd (cstep s x)))"
begin

lemma run_sim:
  "inv s \<Longrightarrow> inv (snd (run_ops cstep s xs)) \<and>
    run_ops astep (abs s) xs = (fst (run_ops cstep s xs), abs (snd (run_ops cstep s xs)))"
proof (induction xs arbitrary: s)
  case Nil
  then show ?case by simp
next
  case (Cons x xs)
  obtain out s1 where s1: "cstep s x = (out, s1)"
    by (cases "cstep s x")
  with step_sim [OF Cons.prems, of x] have "inv s1" and "astep (abs s) x = (out, abs s1)"
    by simp_all
  with Cons.IH [of s1] s1 show ?case
    by (simp add: case_prod_beta)
qed

end

end
