(* ===== verification/Terminal_Queue.thy ===== *)
theory Terminal_Queue
  imports Prelude
begin

text \<open>
  The terminal queues of \<open>src/src/common/terminal_queue.c\<close>: two ring buffers between the Z80's
  terminal ports (core 0) and the USB or browser client (core 1), and the ownership flags that
  decide which client feeds and drains them.

  \<^item> \<open>terminal_ring\<close> and the \<open>ring_*\<close> operations are the ring buffer; \<open>ring_list\<close> is the queue
    it stands for, \<open>ring_ok\<close> its well-formedness.
  \<^item> the locale \<open>bounded_fifo\<close> is the contract the terminal relies on, interpreted below on the
    ring buffer.
  \<^item> \<open>terminal\<close> is the file's static state, with one definition per function. The code runs every
    locked function inside \<open>terminal_lock\<close>, so a function is one atomic step; the unlocked
    reads at a function's entry (\<open>tx_pending\<close>, a ring's count) are part of the step.
  \<^item> \<open>term_spec\<close> is what the terminal promises: two bounded lists and three flags. \<open>term_step\<close> and
    \<open>spec_step\<close> perform any operation on the two, and the refinement relates every run.
\<close>

section \<open>The ring buffer\<close>

record terminal_ring =
  rg_data :: bytes
  rg_capacity :: nat
  rg_head :: nat
  rg_count :: nat
  rg_peak :: nat

definition ring_set_count :: "terminal_ring \<Rightarrow> nat \<Rightarrow> terminal_ring" where
  "ring_set_count r n = r\<lparr>rg_count := n\<rparr>"

definition ring_count :: "terminal_ring \<Rightarrow> nat" where
  "ring_count r = rg_count r"

definition ring_add :: "terminal_ring \<Rightarrow> u8 \<Rightarrow> terminal_ring" where
  "ring_add r value =
     (let count = rg_count r;
          r1 = r\<lparr>rg_data := (rg_data r)[(rg_head r + count) AND (rg_capacity r - 1) := value]\<rparr>;
          count = count + 1;
          r2 = ring_set_count r1 count
      in if count > rg_peak r2 then r2\<lparr>rg_peak := count\<rparr> else r2)"

definition ring_drop_oldest :: "terminal_ring \<Rightarrow> terminal_ring" where
  "ring_drop_oldest r =
     (let r1 = r\<lparr>rg_head := (rg_head r + 1) AND (rg_capacity r - 1)\<rparr>
      in ring_set_count r1 (size_sub (rg_count r1) 1))"

text \<open>The two \<open>memcpy\<close> calls append the tail end of the array and its wrapped beginning.\<close>

definition ring_peek :: "terminal_ring \<Rightarrow> nat \<Rightarrow> bytes" where
  "ring_peek r cap =
     (let count = (if cap < rg_count r then cap else rg_count r);
          first = size_sub (rg_capacity r) (rg_head r);
          first = (if first > count then count else first)
      in slice (rg_head r) first (rg_data r) @ slice 0 (size_sub count first) (rg_data r))"

definition ring_remove :: "terminal_ring \<Rightarrow> nat \<Rightarrow> bytes \<times> terminal_ring" where
  "ring_remove r cap =
     (let out = ring_peek r cap;
          r1 = r\<lparr>rg_head := (rg_head r + length out) AND (rg_capacity r - 1)\<rparr>
      in (out, ring_set_count r1 (size_sub (rg_count r1) (length out))))"

definition ring_ok :: "terminal_ring \<Rightarrow> bool" where
  "ring_ok r \<longleftrightarrow> (\<exists>k < 31. rg_capacity r = 2 ^ k) \<and> length (rg_data r) = rg_capacity r \<and>
     rg_head r < rg_capacity r \<and> rg_count r \<le> rg_capacity r"

definition ring_list :: "terminal_ring \<Rightarrow> bytes" where
  "ring_list r = map (\<lambda>i. rg_data r ! ((rg_head r + i) mod rg_capacity r)) [0..<rg_count r]"

section \<open>The contract of a bounded queue\<close>

definition keep_last :: "nat \<Rightarrow> 'a list \<Rightarrow> 'a list" where
  "keep_last n xs = drop (length xs - n) xs"

locale bounded_fifo =
  fixes contents :: "'q \<Rightarrow> 'a list"
    and cap :: "'q \<Rightarrow> nat"
    and ok :: "'q \<Rightarrow> bool"
    and add :: "'q \<Rightarrow> 'a \<Rightarrow> 'q"
    and drop_oldest :: "'q \<Rightarrow> 'q"
    and peek :: "'q \<Rightarrow> nat \<Rightarrow> 'a list"
    and remove :: "'q \<Rightarrow> nat \<Rightarrow> 'a list \<times> 'q"
  assumes bounded: "ok q \<Longrightarrow> length (contents q) \<le> cap q"
    and cap_pos: "ok q \<Longrightarrow> 0 < cap q"
    and add_spec: "ok q \<Longrightarrow> length (contents q) < cap q \<Longrightarrow>
      ok (add q x) \<and> cap (add q x) = cap q \<and> contents (add q x) = contents q @ [x]"
    and drop_spec: "ok q \<Longrightarrow> contents q \<noteq> [] \<Longrightarrow>
      ok (drop_oldest q) \<and> cap (drop_oldest q) = cap q \<and> contents (drop_oldest q) = tl (contents q)"
    and peek_spec: "ok q \<Longrightarrow> peek q n = take n (contents q)"
    and remove_spec: "ok q \<Longrightarrow> remove q n = (out, q') \<Longrightarrow>
      out = take n (contents q) \<and> ok q' \<and> cap q' = cap q \<and> contents q' = drop n (contents q)"
begin

lemma add_all:
  assumes "ok q" and "length (contents q) + length xs \<le> cap q"
  shows "ok (foldl add q xs) \<and> cap (foldl add q xs) = cap q \<and>
    contents (foldl add q xs) = contents q @ xs"
  using assms
proof (induction xs arbitrary: q)
  case Nil
  then show ?case by simp
next
  case (Cons x xs)
  then have "ok (add q x) \<and> cap (add q x) = cap q \<and> contents (add q x) = contents q @ [x]"
    by (intro add_spec) auto
  with Cons.IH [of "add q x"] Cons.prems show ?case
    by simp
qed

lemma push_overwriting:
  fixes x
  assumes "ok q"
  defines "q' \<equiv> add (if length (contents q) = cap q then drop_oldest q else q) x"
  shows "ok q' \<and> cap q' = cap q \<and> contents q' = keep_last (cap q) (contents q @ [x])"
proof (cases "length (contents q) = cap q")
  case True
  with cap_pos [OF assms(1)] have ne: "contents q \<noteq> []"
    by auto
  note d = drop_spec [OF assms(1) ne]
  have "length (contents (drop_oldest q)) < cap (drop_oldest q)"
    using d True cap_pos [OF assms(1)] by simp
  with d have "ok q' \<and> cap q' = cap q \<and> contents q' = tl (contents q) @ [x]"
    using add_spec [of "drop_oldest q" x] True by (simp add: q'_def)
  moreover have "keep_last (cap q) (contents q @ [x]) = tl (contents q) @ [x]"
    using True cap_pos [OF assms(1)] by (simp add: keep_last_def drop_Suc)
  ultimately show ?thesis by simp
next
  case False
  with bounded [OF assms(1)] have "length (contents q) < cap q"
    by simp
  with add_spec [OF assms(1) this] False show ?thesis
    by (simp add: q'_def keep_last_def)
qed

end

section \<open>The ring buffer implements the contract\<close>

lemma ring_okD:
  assumes "ring_ok r"
  obtains k where "k < 31" and "rg_capacity r = 2 ^ k" and "rg_capacity r < 2 ^ 31"
    and "length (rg_data r) = rg_capacity r" and "rg_head r < rg_capacity r"
    and "rg_count r \<le> rg_capacity r" and "0 < rg_capacity r"
proof -
  from assms obtain k where k: "k < 31" "rg_capacity r = 2 ^ k"
    by (auto simp: ring_ok_def)
  then have "rg_capacity r < 2 ^ 31" and "0 < rg_capacity r"
    by (simp_all del: power_numeral)
  with k assms that show thesis
    by (auto simp: ring_ok_def)
qed

lemma ring_mask: "ring_ok r \<Longrightarrow> n AND (rg_capacity r - Suc 0) = n mod rg_capacity r"
  by (erule ring_okD) (simp add: and_pow2_minus_1)

lemma length_ring_list [simp]: "length (ring_list r) = rg_count r"
  by (simp add: ring_list_def)

lemma nth_ring_list [simp]:
  "i < rg_count r \<Longrightarrow> ring_list r ! i = rg_data r ! ((rg_head r + i) mod rg_capacity r)"
  by (simp add: ring_list_def)

lemma mod_add_distinct:
  assumes "i < j" and "j < (n::nat)" and "h < n"
  shows "(h + i) mod n \<noteq> (h + j) mod n"
proof
  assume "(h + i) mod n = (h + j) mod n"
  then have "n dvd (h + j) - (h + i)"
    using assms by (metis mod_eq_dvd_iff_nat add_left_mono less_imp_le)
  with assms show False
    by (auto dest: dvd_imp_le)
qed

lemma ring_add_ok:
  assumes "ring_ok r" and "rg_count r < rg_capacity r"
  shows "ring_ok (ring_add r v)"
  using assms by (auto simp: ring_ok_def ring_add_def ring_set_count_def Let_def)

lemma ring_add_list:
  assumes ok: "ring_ok r" and room: "rg_count r < rg_capacity r"
  shows "ring_list (ring_add r v) = ring_list r @ [v]"
proof (rule nth_equalityI)
  show "length (ring_list (ring_add r v)) = length (ring_list r @ [v])"
    by (simp add: ring_add_def ring_set_count_def Let_def)
next
  fix i
  assume "i < length (ring_list (ring_add r v))"
  then have i: "i < Suc (rg_count r)"
    by (simp add: ring_add_def ring_set_count_def Let_def split: if_splits)
  from ok have len: "length (rg_data r) = rg_capacity r" and h: "rg_head r < rg_capacity r"
    by (auto simp: ring_ok_def)
  have neq: "(rg_head r + rg_count r) mod rg_capacity r \<noteq> (rg_head r + i) mod rg_capacity r"
    if "i < rg_count r"
    using mod_add_distinct [OF that room h] by simp
  show "ring_list (ring_add r v) ! i = (ring_list r @ [v]) ! i"
    using i len h neq
    by (cases "i < rg_count r")
       (auto simp: ring_add_def ring_set_count_def Let_def ring_mask [OF ok] nth_append less_Suc_eq)
qed

lemma ring_drop_ok: "ring_ok r \<Longrightarrow> ring_list r \<noteq> [] \<Longrightarrow> ring_ok (ring_drop_oldest r)"
  by (erule ring_okD)
     (auto simp: ring_ok_def ring_drop_oldest_def ring_set_count_def Let_def and_pow2_minus_1
        ring_list_def)

lemma ring_drop_list:
  assumes ok: "ring_ok r" and ne: "ring_list r \<noteq> []"
  shows "ring_list (ring_drop_oldest r) = tl (ring_list r)"
proof -
  have pos: "0 < rg_count r"
    using ne by (simp flip: length_0_conv)
  have lt: "rg_count r < 2 ^ 32"
    using ok by (auto elim!: ring_okD)
  show ?thesis
    using pos lt
    by (intro nth_equalityI)
       (auto simp: ring_drop_oldest_def ring_set_count_def Let_def ring_mask [OF ok] nth_tl
          mod_simps)
qed

lemma ring_peek_list:
  assumes ok: "ring_ok r"
  shows "ring_peek r n = take n (ring_list r)"
proof -
  from ok have len: "length (rg_data r) = rg_capacity r" and h: "rg_head r < rg_capacity r"
    and c: "rg_count r \<le> rg_capacity r" and cap: "rg_capacity r < 2 ^ 31"
    by (auto elim!: ring_okD)
  define m where "m = min n (rg_count r)"
  define f where "f = min m (rg_capacity r - rg_head r)"
  have peek: "ring_peek r n = slice (rg_head r) f (rg_data r) @ slice 0 (m - f) (rg_data r)"
    using h c cap by (auto simp: ring_peek_def Let_def m_def f_def min_def)
  have f: "f \<le> rg_capacity r - rg_head r" "f \<le> m" "m \<le> rg_count r"
    by (auto simp: f_def m_def)
  have wrap: "(rg_head r + i) mod rg_capacity r = i - f" if "f \<le> i" "i < m" for i
  proof -
    from that have fe: "f = rg_capacity r - rg_head r"
      by (auto simp: f_def min_def split: if_splits)
    with that f h c have "rg_head r + i = (i - f) + rg_capacity r" and "i - f < rg_capacity r"
      by auto
    then show ?thesis by simp
  qed
  show ?thesis
  proof (rule nth_equalityI)
    show "length (ring_peek r n) = length (take n (ring_list r))"
      using f len h c by (simp add: peek m_def)
  next
    fix i
    assume "i < length (ring_peek r n)"
    then have i: "i < m"
      using f len h c by (simp add: peek m_def)
    then show "ring_peek r n ! i = take n (ring_list r) ! i"
      using f len h c wrap
      by (cases "i < f") (auto simp: peek nth_append nth_slice m_def)
  qed
qed

lemma ring_remove_list:
  assumes ok: "ring_ok r" and rm: "ring_remove r n = (out, r')"
  shows "out = take n (ring_list r) \<and> ring_ok r' \<and> rg_capacity r' = rg_capacity r \<and>
    ring_list r' = drop n (ring_list r)"
proof -
  from ok have c: "rg_count r < 2 ^ 32" and pos: "0 < rg_capacity r"
    by (auto elim!: ring_okD)
  have out: "out = take n (ring_list r)"
    using rm by (simp add: ring_remove_def Let_def ring_peek_list [OF ok])
  let ?k = "min (rg_count r) n"
  have r': "r' = r\<lparr>rg_head := (rg_head r + ?k) mod rg_capacity r, rg_count := rg_count r - ?k\<rparr>"
    using rm c
    by (auto simp: ring_remove_def Let_def ring_peek_list [OF ok] ring_mask [OF ok]
        ring_set_count_def)
  have "ring_ok r'"
    using ok pos by (auto simp: r' ring_ok_def)
  moreover have "ring_list r' = drop n (ring_list r)"
    by (intro nth_equalityI) (auto simp: r' mod_simps min_def add.assoc)
  ultimately show ?thesis
    by (simp add: out r')
qed

interpretation ring: bounded_fifo ring_list rg_capacity ring_ok ring_add ring_drop_oldest
    ring_peek ring_remove
proof unfold_locales
  fix q :: terminal_ring and x n out q'
  show "ring_ok q \<Longrightarrow> length (ring_list q) \<le> rg_capacity q"
    by (auto elim!: ring_okD)
  show "ring_ok q \<Longrightarrow> 0 < rg_capacity q"
    by (erule ring_okD)
  show "ring_ok q \<Longrightarrow> length (ring_list q) < rg_capacity q \<Longrightarrow>
      ring_ok (ring_add q x) \<and> rg_capacity (ring_add q x) = rg_capacity q \<and>
      ring_list (ring_add q x) = ring_list q @ [x]"
    using ring_add_ok [of q x] ring_add_list [of q x]
    by (simp add: ring_add_def ring_set_count_def Let_def)
  show "ring_ok q \<Longrightarrow> ring_list q \<noteq> [] \<Longrightarrow>
      ring_ok (ring_drop_oldest q) \<and> rg_capacity (ring_drop_oldest q) = rg_capacity q \<and>
      ring_list (ring_drop_oldest q) = tl (ring_list q)"
    using ring_drop_ok [of q] ring_drop_list [of q]
    by (simp add: ring_drop_oldest_def ring_set_count_def Let_def)
  show "ring_ok q \<Longrightarrow> ring_peek q n = take n (ring_list q)"
    by (rule ring_peek_list)
  show "ring_ok q \<Longrightarrow> ring_remove q n = (out, q') \<Longrightarrow>
      out = take n (ring_list q) \<and> ring_ok q' \<and> rg_capacity q' = rg_capacity q \<and>
      ring_list q' = drop n (ring_list q)"
    by (rule ring_remove_list)
qed

section \<open>The terminal\<close>

record terminal =
  rx_queue :: terminal_ring
  tx_queue :: terminal_ring
  client_connected :: u32
  browser_connected :: u32
  tx_pending :: u32
  usb_connected :: bool
  rx_drops :: u32
  tx_drops :: u32

abbreviation TERM_DATA_PORT :: u8 where "TERM_DATA_PORT \<equiv> 0x00"
abbreviation TERM_STATUS_PORT :: u8 where "TERM_STATUS_PORT \<equiv> 0x01"
abbreviation TERM_RX_DEPTH :: nat where "TERM_RX_DEPTH \<equiv> 128"
abbreviation TERM_TX_DEPTH :: nat where "TERM_TX_DEPTH \<equiv> 512"
abbreviation TERM_STATUS_RX_READY :: u8 where "TERM_STATUS_RX_READY \<equiv> 0x01"
abbreviation TERM_STATUS_TX_ROOM :: u8 where "TERM_STATUS_TX_ROOM \<equiv> 0x02"
abbreviation TERM_STATUS_CLIENT :: u8 where "TERM_STATUS_CLIENT \<equiv> 0x80"

text \<open>The values of the file's static variables when the program starts.\<close>

definition terminal_boot :: terminal where
  "terminal_boot =
     \<lparr>rx_queue = \<lparr>rg_data = replicate TERM_RX_DEPTH 0, rg_capacity = TERM_RX_DEPTH,
        rg_head = 0, rg_count = 0, rg_peak = 0\<rparr>,
      tx_queue = \<lparr>rg_data = replicate TERM_TX_DEPTH 0, rg_capacity = TERM_TX_DEPTH,
        rg_head = 0, rg_count = 0, rg_peak = 0\<rparr>,
      client_connected = 0, browser_connected = 0, tx_pending = 0, usb_connected = False,
      rx_drops = 0, tx_drops = 0\<rparr>"

definition clear_queues :: "terminal \<Rightarrow> terminal" where
  "clear_queues s =
     s\<lparr>rx_queue := ring_set_count ((rx_queue s)\<lparr>rg_head := 0\<rparr>) 0,
       tx_queue := ring_set_count ((tx_queue s)\<lparr>rg_head := 0\<rparr>) 0,
       tx_pending := 0\<rparr>"

definition z80_terminal_queue_init :: "terminal \<Rightarrow> terminal" where
  "z80_terminal_queue_init s =
     (let s1 = clear_queues s
      in s1\<lparr>rx_queue := (rx_queue s1)\<lparr>rg_peak := 0\<rparr>, tx_queue := (tx_queue s1)\<lparr>rg_peak := 0\<rparr>,
           client_connected := 0, browser_connected := 0, usb_connected := False,
           rx_drops := 0, tx_drops := 0\<rparr>)"

definition z80_terminal_client_connected :: "terminal \<Rightarrow> bool" where
  "z80_terminal_client_connected s \<longleftrightarrow> client_connected s \<noteq> 0"

definition z80_terminal_browser_connected :: "terminal \<Rightarrow> bool" where
  "z80_terminal_browser_connected s \<longleftrightarrow> browser_connected s \<noteq> 0"

definition z80_terminal_output_pending :: "terminal \<Rightarrow> bool" where
  "z80_terminal_output_pending s \<longleftrightarrow> tx_pending s \<noteq> 0"

definition z80_terminal_io_read :: "terminal \<Rightarrow> u8 \<Rightarrow> u8 \<times> terminal" where
  "z80_terminal_io_read s port =
     (if port = TERM_STATUS_PORT then
        let connected = z80_terminal_client_connected s
        in ((if ring_count (rx_queue s) \<noteq> 0 then TERM_STATUS_RX_READY else 0) OR
            (if \<not> connected \<or> ring_count (tx_queue s) < TERM_TX_DEPTH
             then TERM_STATUS_TX_ROOM else 0) OR
            (if connected then TERM_STATUS_CLIENT else 0), s)
      else if ring_count (rx_queue s) = 0 then (0, s)
      else if rg_count (rx_queue s) \<noteq> 0 then
        (rg_data (rx_queue s) ! rg_head (rx_queue s),
         s\<lparr>rx_queue := ring_drop_oldest (rx_queue s)\<rparr>)
      else (0, s))"

definition z80_terminal_io_write :: "terminal \<Rightarrow> u8 \<Rightarrow> u8 \<Rightarrow> terminal" where
  "z80_terminal_io_write s port value =
     (if port \<noteq> TERM_DATA_PORT then s
      else if z80_terminal_client_connected s then
        if rg_count (tx_queue s) < TERM_TX_DEPTH then
          let was_empty = rg_count (tx_queue s) = 0;
              s1 = s\<lparr>tx_queue := ring_add (tx_queue s) value\<rparr>
          in if was_empty then s1\<lparr>tx_pending := 1\<rparr> else s1
        else s\<lparr>tx_drops := tx_drops s + 1\<rparr>
      else s)"

text \<open>The body of the two receive paths that overwrite the oldest byte when the queue is full.\<close>

definition newline_to_return :: "u8 \<Rightarrow> u8" where
  "newline_to_return b = (if b = 0x0A then 0x0D else b)"

definition rx_push :: "terminal \<Rightarrow> u8 \<Rightarrow> terminal" where
  "rx_push s b =
     (let s1 = (if rg_count (rx_queue s) = TERM_RX_DEPTH
                then s\<lparr>rx_queue := ring_drop_oldest (rx_queue s), rx_drops := rx_drops s + 1\<rparr>
                else s)
      in s1\<lparr>rx_queue := ring_add (rx_queue s1) (newline_to_return b)\<rparr>)"

text \<open>A null \<open>data\<close> pointer is \<open>None\<close>; the loop takes the lock once per byte.\<close>

definition z80_terminal_receive :: "terminal \<Rightarrow> bytes option \<Rightarrow> terminal" where
  "z80_terminal_receive s data =
     (case data of None \<Rightarrow> s | Some bs \<Rightarrow> foldl rx_push s bs)"

text \<open>
  For the functions that fill a caller's buffer, \<open>null\<close> says that the pointer is null, the result is
  the bytes copied, and the returned count is the result's length.
\<close>

definition z80_terminal_peek :: "terminal \<Rightarrow> bool \<Rightarrow> nat \<Rightarrow> bytes" where
  "z80_terminal_peek s null capacity =
     (if null \<or> capacity = 0 \<or> tx_pending s = 0 then [] else ring_peek (tx_queue s) capacity)"

text \<open>The locked block that both supply functions run.\<close>

definition tx_take :: "terminal \<Rightarrow> nat \<Rightarrow> bytes \<times> terminal" where
  "tx_take s capacity =
     (let (out, tx) = ring_remove (tx_queue s) capacity;
          s1 = s\<lparr>tx_queue := tx\<rparr>
      in (out, if rg_count (tx_queue s1) = 0 then s1\<lparr>tx_pending := 0\<rparr> else s1))"

definition z80_terminal_supply :: "terminal \<Rightarrow> bool \<Rightarrow> nat \<Rightarrow> bytes \<times> terminal" where
  "z80_terminal_supply s null capacity =
     (if null \<or> capacity = 0 \<or> tx_pending s = 0 then ([], s)
      else tx_take s capacity)"

definition z80_terminal_browser_try_receive :: "terminal \<Rightarrow> bytes option \<Rightarrow> bool \<times> terminal" where
  "z80_terminal_browser_try_receive s data =
     (case data of None \<Rightarrow> (False, s)
      | Some bs \<Rightarrow>
          if length bs = 0 \<or> length bs > TERM_RX_DEPTH then (False, s)
          else if z80_terminal_browser_connected s \<and>
              size_sub TERM_RX_DEPTH (rg_count (rx_queue s)) \<ge> length bs
          then (True, s\<lparr>rx_queue := foldl ring_add (rx_queue s) (map newline_to_return bs)\<rparr>)
          else (False, s))"

definition z80_terminal_browser_connect :: "terminal \<Rightarrow> terminal" where
  "z80_terminal_browser_connect s =
     (clear_queues s)\<lparr>browser_connected := 1, client_connected := 1\<rparr>"

definition z80_terminal_set_connected :: "terminal \<Rightarrow> bool \<Rightarrow> terminal" where
  "z80_terminal_set_connected s connected =
     (let s1 = s\<lparr>client_connected := of_bool connected\<rparr>
      in if \<not> connected
         then s1\<lparr>tx_queue := ring_set_count ((tx_queue s1)\<lparr>rg_head := 0\<rparr>) 0, tx_pending := 0\<rparr>
         else s1)"

definition z80_terminal_browser_disconnect :: "terminal \<Rightarrow> terminal" where
  "z80_terminal_browser_disconnect s =
     (if z80_terminal_browser_connected s
      then clear_queues (s\<lparr>browser_connected := 0, client_connected := of_bool (usb_connected s)\<rparr>)
      else s)"

definition z80_terminal_usb_connected :: "terminal \<Rightarrow> bool \<Rightarrow> terminal" where
  "z80_terminal_usb_connected s connected =
     (let s1 = (if \<not> z80_terminal_browser_connected s then
                  let s2 = s\<lparr>client_connected := of_bool connected\<rparr>
                  in if usb_connected s2 \<noteq> connected then clear_queues s2 else s2
                else s)
      in s1\<lparr>usb_connected := connected\<rparr>)"

definition z80_terminal_usb_receive :: "terminal \<Rightarrow> u8 \<Rightarrow> terminal" where
  "z80_terminal_usb_receive s value =
     (if usb_connected s \<and> \<not> z80_terminal_browser_connected s then rx_push s value else s)"

definition z80_terminal_usb_supply :: "terminal \<Rightarrow> bool \<Rightarrow> nat \<Rightarrow> bytes \<times> terminal" where
  "z80_terminal_usb_supply s null capacity =
     (if null \<or> capacity = 0 \<or> tx_pending s = 0 then ([], s)
      else if usb_connected s \<and> \<not> z80_terminal_browser_connected s then
        tx_take s capacity
      else ([], s))"

record terminal_buffer_stats =
  rx_used :: u32
  rx_capacity :: u32
  rx_peak :: u32
  tx_used :: u32
  tx_capacity :: u32
  tx_peak :: u32

definition z80_terminal_get_buffer_stats :: "terminal \<Rightarrow> terminal_buffer_stats" where
  "z80_terminal_get_buffer_stats s =
     \<lparr>rx_used = of_nat (rg_count (rx_queue s)), rx_capacity = of_nat TERM_RX_DEPTH,
      rx_peak = of_nat (rg_peak (rx_queue s)),
      tx_used = of_nat (rg_count (tx_queue s)), tx_capacity = of_nat TERM_TX_DEPTH,
      tx_peak = of_nat (rg_peak (tx_queue s))\<rparr>"

section \<open>What the terminal promises\<close>

text \<open>
  The specification keeps the two queues as lists. Peaks are statistics of the implementation and
  have no counterpart.
\<close>

record term_spec =
  sp_rx :: bytes
  sp_tx :: bytes
  sp_client :: bool
  sp_browser :: bool
  sp_usb :: bool
  sp_rx_drops :: u32
  sp_tx_drops :: u32

datatype term_op =
    Init
  | IoRead u8
  | IoWrite u8 u8
  | Receive "bytes option"
  | Peek bool nat
  | Supply bool nat
  | OutputPending
  | BrowserTryReceive "bytes option"
  | BrowserConnect
  | BrowserDisconnect
  | SetConnected bool
  | UsbConnected bool
  | UsbReceive u8
  | UsbSupply bool nat

datatype term_out = NoOut | OutByte u8 | OutBytes bytes | OutFlag bool

fun term_step :: "terminal \<Rightarrow> term_op \<Rightarrow> term_out \<times> terminal" where
  "term_step s Init = (NoOut, z80_terminal_queue_init s)"
| "term_step s (IoRead p) = (let (v, s') = z80_terminal_io_read s p in (OutByte v, s'))"
| "term_step s (IoWrite p v) = (NoOut, z80_terminal_io_write s p v)"
| "term_step s (Receive d) = (NoOut, z80_terminal_receive s d)"
| "term_step s (Peek null n) = (OutBytes (z80_terminal_peek s null n), s)"
| "term_step s (Supply null n) =
     (let (bs, s') = z80_terminal_supply s null n in (OutBytes bs, s'))"
| "term_step s OutputPending = (OutFlag (z80_terminal_output_pending s), s)"
| "term_step s (BrowserTryReceive d) =
     (let (b, s') = z80_terminal_browser_try_receive s d in (OutFlag b, s'))"
| "term_step s BrowserConnect = (NoOut, z80_terminal_browser_connect s)"
| "term_step s BrowserDisconnect = (NoOut, z80_terminal_browser_disconnect s)"
| "term_step s (SetConnected c) = (NoOut, z80_terminal_set_connected s c)"
| "term_step s (UsbConnected c) = (NoOut, z80_terminal_usb_connected s c)"
| "term_step s (UsbReceive v) = (NoOut, z80_terminal_usb_receive s v)"
| "term_step s (UsbSupply null n) =
     (let (bs, s') = z80_terminal_usb_supply s null n in (OutBytes bs, s'))"

definition spec_push :: "term_spec \<Rightarrow> u8 \<Rightarrow> term_spec" where
  "spec_push a b =
     a\<lparr>sp_rx := keep_last TERM_RX_DEPTH (sp_rx a @ [newline_to_return b]),
       sp_rx_drops := sp_rx_drops a + (if length (sp_rx a) = TERM_RX_DEPTH then 1 else 0)\<rparr>"

fun spec_step :: "term_spec \<Rightarrow> term_op \<Rightarrow> term_out \<times> term_spec" where
  "spec_step a Init =
     (NoOut, \<lparr>sp_rx = [], sp_tx = [], sp_client = False, sp_browser = False, sp_usb = False,
              sp_rx_drops = 0, sp_tx_drops = 0\<rparr>)"
| "spec_step a (IoRead p) =
     (if p = TERM_STATUS_PORT then
        (OutByte ((if sp_rx a \<noteq> [] then TERM_STATUS_RX_READY else 0) OR
                  (if \<not> sp_client a \<or> length (sp_tx a) < TERM_TX_DEPTH
                   then TERM_STATUS_TX_ROOM else 0) OR
                  (if sp_client a then TERM_STATUS_CLIENT else 0)), a)
      else case sp_rx a of [] \<Rightarrow> (OutByte 0, a)
           | x # xs \<Rightarrow> (OutByte x, a\<lparr>sp_rx := xs\<rparr>))"
| "spec_step a (IoWrite p v) =
     (NoOut,
      if p \<noteq> TERM_DATA_PORT \<or> \<not> sp_client a then a
      else if length (sp_tx a) < TERM_TX_DEPTH then a\<lparr>sp_tx := sp_tx a @ [v]\<rparr>
      else a\<lparr>sp_tx_drops := sp_tx_drops a + 1\<rparr>)"
| "spec_step a (Receive d) =
     (NoOut, case d of None \<Rightarrow> a | Some bs \<Rightarrow> foldl spec_push a bs)"
| "spec_step a (Peek null n) = (OutBytes (if null then [] else take n (sp_tx a)), a)"
| "spec_step a (Supply null n) =
     (if null then (OutBytes [], a)
      else (OutBytes (take n (sp_tx a)), a\<lparr>sp_tx := drop n (sp_tx a)\<rparr>))"
| "spec_step a OutputPending = (OutFlag (sp_tx a \<noteq> []), a)"
| "spec_step a (BrowserTryReceive d) =
     (case d of None \<Rightarrow> (OutFlag False, a)
      | Some bs \<Rightarrow>
          if bs \<noteq> [] \<and> sp_browser a \<and> length (sp_rx a) + length bs \<le> TERM_RX_DEPTH
          then (OutFlag True, a\<lparr>sp_rx := sp_rx a @ map newline_to_return bs\<rparr>)
          else (OutFlag False, a))"
| "spec_step a BrowserConnect =
     (NoOut, a\<lparr>sp_rx := [], sp_tx := [], sp_browser := True, sp_client := True\<rparr>)"
| "spec_step a BrowserDisconnect =
     (NoOut, if sp_browser a
             then a\<lparr>sp_rx := [], sp_tx := [], sp_browser := False, sp_client := sp_usb a\<rparr> else a)"
| "spec_step a (SetConnected c) =
     (NoOut, if c then a\<lparr>sp_client := True\<rparr> else a\<lparr>sp_client := False, sp_tx := []\<rparr>)"
| "spec_step a (UsbConnected c) =
     (NoOut,
      if sp_browser a then a\<lparr>sp_usb := c\<rparr>
      else if sp_usb a \<noteq> c then a\<lparr>sp_client := c, sp_rx := [], sp_tx := [], sp_usb := c\<rparr>
      else a\<lparr>sp_client := c\<rparr>)"
| "spec_step a (UsbReceive v) = (NoOut, if sp_usb a \<and> \<not> sp_browser a then spec_push a v else a)"
| "spec_step a (UsbSupply null n) =
     (if null \<or> \<not> (sp_usb a \<and> \<not> sp_browser a) then (OutBytes [], a)
      else (OutBytes (take n (sp_tx a)), a\<lparr>sp_tx := drop n (sp_tx a)\<rparr>))"

definition term_abs :: "terminal \<Rightarrow> term_spec" where
  "term_abs s =
     \<lparr>sp_rx = ring_list (rx_queue s), sp_tx = ring_list (tx_queue s),
      sp_client = (client_connected s \<noteq> 0), sp_browser = (browser_connected s \<noteq> 0),
      sp_usb = usb_connected s, sp_rx_drops = rx_drops s, sp_tx_drops = tx_drops s\<rparr>"

definition term_inv :: "terminal \<Rightarrow> bool" where
  "term_inv s \<longleftrightarrow>
     ring_ok (rx_queue s) \<and> rg_capacity (rx_queue s) = TERM_RX_DEPTH \<and>
     ring_ok (tx_queue s) \<and> rg_capacity (tx_queue s) = TERM_TX_DEPTH \<and>
     (tx_pending s \<noteq> 0 \<longleftrightarrow> rg_count (tx_queue s) \<noteq> 0)"

lemmas terminal_defs =
  z80_terminal_queue_init_def z80_terminal_io_read_def z80_terminal_io_write_def
  z80_terminal_receive_def z80_terminal_peek_def z80_terminal_supply_def
  z80_terminal_browser_try_receive_def z80_terminal_browser_connect_def
  z80_terminal_browser_disconnect_def z80_terminal_set_connected_def
  z80_terminal_usb_connected_def z80_terminal_usb_receive_def z80_terminal_usb_supply_def
  z80_terminal_client_connected_def z80_terminal_browser_connected_def
  z80_terminal_output_pending_def

lemma ring_list_Nil_iff: "ring_list r = [] \<longleftrightarrow> rg_count r = 0"
  by (simp flip: length_0_conv)

lemma ring_cleared:
  "ring_ok r \<Longrightarrow> ring_ok (r\<lparr>rg_head := 0, rg_count := 0\<rparr>)"
  "ring_ok r \<Longrightarrow> ring_ok (r\<lparr>rg_head := 0, rg_count := 0, rg_peak := p\<rparr>)"
  "ring_list (r\<lparr>rg_head := 0, rg_count := 0\<rparr>) = []"
  "ring_list (r\<lparr>rg_head := 0, rg_count := 0, rg_peak := p\<rparr>) = []"
  by (auto simp: ring_ok_def ring_list_def)

lemma ring_first:
  "ring_ok r \<Longrightarrow> rg_count r \<noteq> 0 \<Longrightarrow> ring_list r = rg_data r ! rg_head r # tl (ring_list r)"
  using nth_ring_list [of 0 r] by (cases "ring_list r") (auto simp: ring_ok_def ring_list_Nil_iff)

lemma rx_push_sim:
  assumes "term_inv s"
  shows "term_inv (rx_push s b) \<and> term_abs (rx_push s b) = spec_push (term_abs s) b"
  using assms ring.push_overwriting [of "rx_queue s" "newline_to_return b"]
  by (auto simp: term_inv_def rx_push_def Let_def term_abs_def spec_push_def)

lemma foldl_rx_push_sim:
  "term_inv s \<Longrightarrow> term_inv (foldl rx_push s bs) \<and>
     term_abs (foldl rx_push s bs) = foldl spec_push (term_abs s) bs"
  by (induction bs arbitrary: s) (auto simp: rx_push_sim)

lemma pending_empty: "term_inv s \<Longrightarrow> tx_pending s = 0 \<Longrightarrow> ring_list (tx_queue s) = []"
  by (simp add: term_inv_def ring_list_Nil_iff)

lemma tx_take_sim:
  assumes inv: "term_inv s" and rm: "tx_take s n = (out, s')"
  shows "out = take n (ring_list (tx_queue s)) \<and> term_inv s' \<and>
    term_abs s' = (term_abs s)\<lparr>sp_tx := drop n (ring_list (tx_queue s))\<rparr>"
proof -
  obtain tx where tx: "ring_remove (tx_queue s) n = (out, tx)"
    using rm by (auto simp: tx_take_def Let_def split: prod.splits)
  note r = ring.remove_spec [OF _ tx]
  have "rg_count tx = rg_count (tx_queue s) - n"
    using r inv length_ring_list [of tx] by (simp add: term_inv_def)
  with r inv rm tx show ?thesis
    by (auto simp: tx_take_def Let_def term_inv_def term_abs_def split: if_splits)
qed

lemma tx_add_sim:
  assumes "term_inv s" and "rg_count (tx_queue s) < TERM_TX_DEPTH"
  shows "term_inv (s\<lparr>tx_queue := ring_add (tx_queue s) v, tx_pending := 1\<rparr>) \<and>
    (rg_count (tx_queue s) \<noteq> 0 \<longrightarrow> term_inv (s\<lparr>tx_queue := ring_add (tx_queue s) v\<rparr>)) \<and>
    ring_list (ring_add (tx_queue s) v) = ring_list (tx_queue s) @ [v]"
proof -
  have "ring_list (ring_add (tx_queue s) v) = ring_list (tx_queue s) @ [v]"
    using assms ring.add_spec [of "tx_queue s" v] by (simp add: term_inv_def)
  then have "rg_count (ring_add (tx_queue s) v) = Suc (rg_count (tx_queue s))"
    using length_ring_list [of "ring_add (tx_queue s) v"] by simp
  then show ?thesis
    using assms ring.add_spec [of "tx_queue s" v] by (auto simp: term_inv_def)
qed

lemma try_receive_sim:
  assumes "term_inv s" and "rg_count (rx_queue s) + length bs \<le> TERM_RX_DEPTH"
  defines "s' \<equiv> s\<lparr>rx_queue := foldl ring_add (rx_queue s) (map newline_to_return bs)\<rparr>"
  shows "term_inv s' \<and>
    term_abs s' = (term_abs s)\<lparr>sp_rx := ring_list (rx_queue s) @ map newline_to_return bs\<rparr>"
  using assms ring.add_all [of "rx_queue s" "map newline_to_return bs"]
  by (auto simp: term_inv_def term_abs_def)

lemma term_step_sim:
  assumes inv: "term_inv s"
  shows "term_inv (snd (term_step s x)) \<and>
    spec_step (term_abs s) x = (fst (term_step s x), term_abs (snd (term_step s x)))"
proof (cases x)
  case (IoRead p)
  show ?thesis
  proof (cases "p = TERM_STATUS_PORT \<or> rg_count (rx_queue s) = 0")
    case True
    with inv IoRead show ?thesis
      by (auto simp: terminal_defs term_abs_def ring_count_def Let_def ring_list_def)
  next
    case False
    with inv IoRead ring.drop_spec [of "rx_queue s"] ring_first [of "rx_queue s"] show ?thesis
      by (auto simp: terminal_defs term_abs_def ring_count_def Let_def term_inv_def
          ring_list_Nil_iff split: list.splits)
  qed
next
  case (IoWrite p v)
  with inv tx_add_sim [OF inv, of v] show ?thesis
    by (auto simp: terminal_defs term_abs_def Let_def term_inv_def)
next
  case (Receive d)
  with inv foldl_rx_push_sim [OF inv] show ?thesis
    by (auto simp: terminal_defs split: option.splits)
next
  case (Peek null n)
  with inv ring.peek_spec [of "tx_queue s" n] pending_empty [OF inv] show ?thesis
    by (auto simp: terminal_defs term_abs_def term_inv_def)
next
  case (Supply null n)
  obtain out s' where take: "tx_take s n = (out, s')"
    by (cases "tx_take s n")
  show ?thesis
  proof (cases "n = 0 \<or> tx_pending s = 0")
    case True
    with Supply inv pending_empty [OF inv] show ?thesis
      by (auto simp: terminal_defs term_abs_def)
  next
    case False
    with Supply inv tx_take_sim [OF inv take] take show ?thesis
      by (auto simp: terminal_defs term_abs_def)
  qed
next
  case (UsbSupply null n)
  obtain out s' where take: "tx_take s n = (out, s')"
    by (cases "tx_take s n")
  show ?thesis
  proof (cases "n = 0 \<or> tx_pending s = 0")
    case True
    with UsbSupply inv pending_empty [OF inv] show ?thesis
      by (auto simp: terminal_defs term_abs_def)
  next
    case False
    with UsbSupply inv tx_take_sim [OF inv take] take show ?thesis
      by (auto simp: terminal_defs term_abs_def)
  qed
next
  case (BrowserTryReceive d)
  have "rg_count (rx_queue s) \<le> TERM_RX_DEPTH"
    using inv ring.bounded [of "rx_queue s"] by (simp add: term_inv_def)
  with BrowserTryReceive inv try_receive_sim [OF inv] show ?thesis
    by (auto simp: terminal_defs term_abs_def split: option.splits)
next
  case (UsbReceive v)
  with inv rx_push_sim [OF inv, of v] show ?thesis
    by (auto simp: terminal_defs term_abs_def)
qed (use inv in \<open>auto simp: terminal_defs term_abs_def term_inv_def clear_queues_def
      ring_set_count_def ring_cleared ring_list_Nil_iff Let_def\<close>)

interpretation terminal: machine_refinement term_step spec_step term_abs term_inv
  by unfold_locales (rule term_step_sim)

lemma term_inv_boot: "term_inv terminal_boot"
proof -
  have "\<exists>k<31. (128::nat) = 2 ^ k" and "\<exists>k<31. (512::nat) = 2 ^ k"
    by (rule exI [of _ 7], simp) (rule exI [of _ 9], simp)
  then show ?thesis
    by (simp add: term_inv_def terminal_boot_def ring_ok_def)
qed

section \<open>Sessions\<close>

text \<open>
  A session is a stretch of operations during which the client does not change. \<open>tx_writes\<close> are
  the bytes the Z80 sends in it, \<open>tx_drained\<close> the bytes the client takes out.
\<close>

fun session_op :: "term_op \<Rightarrow> bool" where
  "session_op Init = False"
| "session_op BrowserConnect = False"
| "session_op BrowserDisconnect = False"
| "session_op (SetConnected _) = False"
| "session_op (UsbConnected _) = False"
| "session_op _ = True"

fun tx_writes :: "term_op list \<Rightarrow> bytes" where
  "tx_writes [] = []"
| "tx_writes (IoWrite p v # xs) = (if p = TERM_DATA_PORT then v # tx_writes xs else tx_writes xs)"
| "tx_writes (_ # xs) = tx_writes xs"

fun tx_drained :: "term_op list \<Rightarrow> term_out list \<Rightarrow> bytes" where
  "tx_drained (Supply _ _ # xs) (OutBytes bs # os) = bs @ tx_drained xs os"
| "tx_drained (UsbSupply _ _ # xs) (OutBytes bs # os) = bs @ tx_drained xs os"
| "tx_drained (_ # xs) (_ # os) = tx_drained xs os"
| "tx_drained _ _ = []"

lemma spec_push_tx [simp]:
  "sp_tx (spec_push a b) = sp_tx a" "sp_client (spec_push a b) = sp_client a"
  by (simp_all add: spec_push_def)

lemma foldl_spec_push_tx [simp]:
  "sp_tx (foldl spec_push a bs) = sp_tx a" "sp_client (foldl spec_push a bs) = sp_client a"
  by (induction bs arbitrary: a) simp_all

lemma spec_session_step:
  assumes "session_op x" and "sp_client a"
    and "length (sp_tx a) + length (tx_writes (x # xs)) \<le> TERM_TX_DEPTH"
    and "spec_step a x = (out, a1)"
  shows "sp_client a1 \<and> length (sp_tx a1) + length (tx_writes xs) \<le> TERM_TX_DEPTH \<and>
    (\<exists>d w. d @ sp_tx a1 = sp_tx a @ w \<and> tx_writes (x # xs) = w @ tx_writes xs \<and>
       (\<forall>os. tx_drained (x # xs) (out # os) = d @ tx_drained xs os))"
  using assms by (cases x) (auto split: if_splits option.splits list.splits)

lemma spec_session_lossless:
  assumes "list_all session_op xs" and "sp_client a"
    and "length (sp_tx a) + length (tx_writes xs) \<le> TERM_TX_DEPTH"
    and "run_ops spec_step a xs = (outs, a')"
  shows "tx_drained xs outs @ sp_tx a' = sp_tx a @ tx_writes xs"
  using assms
proof (induction xs arbitrary: a outs)
  case Nil
  then show ?case by simp
next
  case (Cons x xs)
  obtain out a1 os where step: "spec_step a x = (out, a1)" and outs: "outs = out # os"
    and rest: "run_ops spec_step a1 xs = (os, a')"
    using Cons.prems(4) by (auto simp: Let_def split: prod.splits)
  from spec_session_step [OF _ _ Cons.prems(3) step] Cons.prems(1,2)
  obtain d w where a1: "sp_client a1" "length (sp_tx a1) + length (tx_writes xs) \<le> TERM_TX_DEPTH"
    and dw: "d @ sp_tx a1 = sp_tx a @ w" "tx_writes (x # xs) = w @ tx_writes xs"
      "tx_drained (x # xs) (out # os) = d @ tx_drained xs os"
    by auto
  have "tx_drained xs os @ sp_tx a' = sp_tx a1 @ tx_writes xs"
    using Cons.IH [OF _ a1 rest] Cons.prems(1) by simp
  with dw show ?case
    by (metis append.assoc outs)
qed

section \<open>Properties\<close>

text \<open>
  C4. Whatever sequence of port accesses, USB and browser events the two cores perform from power
  up, in whatever order, the ring-buffer implementation answers each of them exactly as the list
  specification does, and its queues stand for the specification's lists at the end.
\<close>

theorem terminal_refines_spec:
  "fst (run_ops term_step terminal_boot ops) = fst (run_ops spec_step (term_abs terminal_boot) ops) \<and>
   term_abs (snd (run_ops term_step terminal_boot ops)) =
     snd (run_ops spec_step (term_abs terminal_boot) ops)"
  using terminal.run_sim [OF term_inv_boot, of ops] by simp

text \<open>
  Inside a session of a connected client, no byte is lost, duplicated or reordered: as long as
  the bytes the Z80 sends fit the transmit ring, the bytes the client has taken followed by the
  bytes still queued are the bytes queued at the start followed by the bytes sent.
\<close>

theorem terminal_session_lossless:
  assumes inv: "term_inv s" and client: "z80_terminal_client_connected s"
    and session: "list_all session_op ops"
    and fits: "rg_count (tx_queue s) + length (tx_writes ops) \<le> TERM_TX_DEPTH"
  shows "tx_drained ops (fst (run_ops term_step s ops)) @
      ring_list (tx_queue (snd (run_ops term_step s ops))) =
    ring_list (tx_queue s) @ tx_writes ops"
proof -
  have "run_ops spec_step (term_abs s) ops =
      (fst (run_ops term_step s ops), term_abs (snd (run_ops term_step s ops)))"
    using terminal.run_sim [OF inv, of ops] by simp
  then show ?thesis
    using spec_session_lossless [OF session, of "term_abs s"] client fits
    by (simp add: term_abs_def z80_terminal_client_connected_def)
qed

theorem terminal_session_lossless_witness:
  "tx_drained [IoWrite 0 72, IoWrite 0 73, Supply False 8]
     (fst (run_ops term_step (z80_terminal_browser_connect terminal_boot)
        [IoWrite 0 72, IoWrite 0 73, Supply False 8])) @
   ring_list (tx_queue (snd (run_ops term_step (z80_terminal_browser_connect terminal_boot)
        [IoWrite 0 72, IoWrite 0 73, Supply False 8]))) = [72, 73]"
proof -
  let ?s = "z80_terminal_browser_connect terminal_boot"
  have inv: "term_inv ?s"
    using term_step_sim [OF term_inv_boot, of BrowserConnect] by simp
  have s: "z80_terminal_client_connected ?s" "rg_count (tx_queue ?s) = 0"
    by (simp_all add: z80_terminal_browser_connect_def z80_terminal_client_connected_def
        clear_queues_def ring_set_count_def)
  have ops: "list_all session_op [IoWrite 0 72, IoWrite 0 73, Supply False 8]"
    by simp
  have fits: "rg_count (tx_queue ?s) + length (tx_writes [IoWrite 0 72, IoWrite 0 73, Supply False 8])
      \<le> TERM_TX_DEPTH"
    by (simp add: s)
  have "ring_list (tx_queue ?s) = []"
    by (simp add: ring_list_def s)
  then show ?thesis
    using terminal_session_lossless [OF inv s(1) ops fits] by simp
qed

text \<open>
  Ownership: while a browser holds the terminal, nothing arriving from USB reaches the Z80 and
  USB takes no output; when the browser takes over or leaves, both queues are empty, so no
  byte of one client is delivered to another, and the terminal then belongs to USB again exactly
  if USB is connected.
\<close>

theorem terminal_ownership:
  assumes "z80_terminal_browser_connected s"
  shows "z80_terminal_usb_receive s v = s \<and> z80_terminal_usb_supply s null n = ([], s) \<and>
    term_abs (z80_terminal_browser_connect s) =
      (term_abs s)\<lparr>sp_rx := [], sp_tx := [], sp_browser := True, sp_client := True\<rparr> \<and>
    term_abs (z80_terminal_browser_disconnect s) =
      (term_abs s)\<lparr>sp_rx := [], sp_tx := [], sp_browser := False, sp_client := usb_connected s\<rparr>"
  using assms
  by (auto simp: terminal_defs term_abs_def clear_queues_def ring_set_count_def ring_cleared)

theorem terminal_ownership_witness:
  "z80_terminal_usb_receive (z80_terminal_browser_connect terminal_boot) 65 =
     z80_terminal_browser_connect terminal_boot"
proof -
  have "z80_terminal_browser_connected (z80_terminal_browser_connect terminal_boot)"
    by (simp add: z80_terminal_browser_connect_def z80_terminal_browser_connected_def)
  from terminal_ownership [OF this, of 65 False 8] show ?thesis
    by simp
qed

end
