(* ===== verification/Ansi_Input.thy ===== *)
theory Ansi_Input
  imports Prelude
begin

text \<open>
  The key decoder of \<open>src/src/stage09_flash_storage/ansi_input.c\<close>: it turns the escape sequences a terminal sends for its
  cursor and editing keys into the control characters of WordStar, and a lone Escape into itself after a grace period. A zero
  input polls the timer and a zero result means that no key is ready.

  \<open>key_state\<close> keeps the numbers of the enumeration, so that the reset behind the switch is part of the model. The property is stated
  against \<open>typed\<close>, a grammar of what terminals send, with timer polls in between.
\<close>

section \<open>The decoder\<close>

abbreviation KEY_STATE_NORMAL :: u8 where "KEY_STATE_NORMAL \<equiv> 0"
abbreviation KEY_STATE_ESC :: u8 where "KEY_STATE_ESC \<equiv> 1"
abbreviation KEY_STATE_ESC_BRACKET :: u8 where "KEY_STATE_ESC_BRACKET \<equiv> 2"
abbreviation KEY_STATE_ESC_BRACKET_NUM :: u8 where "KEY_STATE_ESC_BRACKET_NUM \<equiv> 3"
abbreviation ANSI_INPUT_ESC_GRACE_MS :: u32 where "ANSI_INPUT_ESC_GRACE_MS \<equiv> 30"

record ansi_input =
  key_state :: u8
  pending_key :: u8
  esc_start :: u32

definition CTRL_KEY :: "char \<Rightarrow> u8" where
  "CTRL_KEY c = of_char c AND 0x1f"

definition ansi_input_reset :: "ansi_input \<Rightarrow> ansi_input" where
  "ansi_input_reset s = s\<lparr>key_state := KEY_STATE_NORMAL, pending_key := 0, esc_start := 0\<rparr>"

definition esc_byte :: "u8 \<Rightarrow> u32 \<Rightarrow> ansi_input \<Rightarrow> u8 \<times> ansi_input" where
  "esc_byte ch now_ms s =
     (if ch = 0 then
        if now_ms - esc_start s \<ge> ANSI_INPUT_ESC_GRACE_MS then (0x1b, s\<lparr>key_state := KEY_STATE_NORMAL\<rparr>) else (0, s)
      else if ch = 0x5b then (0, s\<lparr>key_state := KEY_STATE_ESC_BRACKET\<rparr>)
      else (ch, s\<lparr>key_state := KEY_STATE_NORMAL\<rparr>))"

definition bracket_byte :: "u8 \<Rightarrow> ansi_input \<Rightarrow> u8 \<times> ansi_input" where
  "bracket_byte ch s =
     (let final = (\<lambda>c. (CTRL_KEY c, s\<lparr>key_state := KEY_STATE_NORMAL\<rparr>));
          number = (\<lambda>c. (0, s\<lparr>pending_key := CTRL_KEY c, key_state := KEY_STATE_ESC_BRACKET_NUM\<rparr>))
      in if ch = 0 then (0, s)
         else if ch = 0x41 then final (CHR ''E'')
         else if ch = 0x42 then final (CHR ''X'')
         else if ch = 0x43 then final (CHR ''D'')
         else if ch = 0x44 then final (CHR ''S'')
         else if ch = 0x32 then number (CHR ''O'')
         else if ch = 0x33 then number (CHR ''G'')
         else if ch = 0x35 then number (CHR ''R'')
         else if ch = 0x36 then number (CHR ''V'')
         else (0, s\<lparr>key_state := KEY_STATE_NORMAL\<rparr>))"

definition ansi_input_process :: "u8 \<Rightarrow> u32 \<Rightarrow> ansi_input \<Rightarrow> u8 \<times> ansi_input" where
  "ansi_input_process ch now_ms s =
     (if key_state s = KEY_STATE_NORMAL then
        if ch = 0x1b then (0, s\<lparr>key_state := KEY_STATE_ESC, esc_start := now_ms\<rparr>)
        else if ch = 0x7f \<or> ch = 0x08 then (CTRL_KEY (CHR ''H''), s)
        else (ch, s)
      else if key_state s = KEY_STATE_ESC then esc_byte ch now_ms s
      else if key_state s = KEY_STATE_ESC_BRACKET then bracket_byte ch s
      else if key_state s = KEY_STATE_ESC_BRACKET_NUM then
        if ch = 0 then (0, s)
        else (if ch = 0x7e then pending_key s else 0, s\<lparr>key_state := KEY_STATE_NORMAL, pending_key := 0\<rparr>)
      else (0, ansi_input_reset s))"

section \<open>What terminals send\<close>

text \<open>An event is a byte, or a zero poll, with its time in milliseconds; the decoder's results that are keys form its output.\<close>

type_synonym key_event = "u8 \<times> u32"

fun ansi_run :: "key_event list \<Rightarrow> ansi_input \<Rightarrow> bytes \<times> ansi_input" where
  "ansi_run [] s = ([], s)"
| "ansi_run ((ch, now_ms) # es) s =
     (case ansi_input_process ch now_ms s of (key, s1) \<Rightarrow>
        case ansi_run es s1 of (keys, s2) \<Rightarrow> (if key = 0 then keys else key # keys, s2))"

definition cursor_key :: "u8 \<rightharpoonup> u8" where
  "cursor_key = [0x41 \<mapsto> 0x05, 0x42 \<mapsto> 0x18, 0x43 \<mapsto> 0x04, 0x44 \<mapsto> 0x13]"

definition numbered_key :: "u8 \<rightharpoonup> u8" where
  "numbered_key = [0x32 \<mapsto> 0x0f, 0x33 \<mapsto> 0x07, 0x35 \<mapsto> 0x12, 0x36 \<mapsto> 0x16]"

definition polls :: "key_event list \<Rightarrow> bool" where
  "polls es \<longleftrightarrow> list_all (\<lambda>e. fst e = 0) es"

definition early_polls :: "u32 \<Rightarrow> key_event list \<Rightarrow> bool" where
  "early_polls start es \<longleftrightarrow> list_all (\<lambda>e. fst e = 0 \<and> snd e - start < ANSI_INPUT_ESC_GRACE_MS) es"

inductive typed :: "key_event list \<Rightarrow> bytes \<Rightarrow> bool" where
  silence: "typed [] []"
| idle: "typed es ks \<Longrightarrow> typed ((0, t) # es) ks"
| plain: "c \<notin> {0, 8, 0x1b, 0x7f} \<Longrightarrow> typed es ks \<Longrightarrow> typed ((c, t) # es) (c # ks)"
| backspace: "c \<in> {8, 0x7f} \<Longrightarrow> typed es ks \<Longrightarrow> typed ((c, t) # es) (8 # ks)"
| escape: "early_polls t ps \<Longrightarrow> t' - t \<ge> ANSI_INPUT_ESC_GRACE_MS \<Longrightarrow> typed es ks \<Longrightarrow>
    typed ((0x1b, t) # ps @ (0, t') # es) (0x1b # ks)"
| cursor: "early_polls t ps \<Longrightarrow> polls qs \<Longrightarrow> cursor_key c = Some k \<Longrightarrow> typed es ks \<Longrightarrow>
    typed ((0x1b, t) # ps @ (0x5b, t1) # qs @ (c, t2) # es) (k # ks)"
| numbered: "early_polls t ps \<Longrightarrow> polls qs \<Longrightarrow> polls rs \<Longrightarrow> numbered_key c = Some k \<Longrightarrow> typed es ks \<Longrightarrow>
    typed ((0x1b, t) # ps @ (0x5b, t1) # qs @ (c, t2) # rs @ (0x7e, t3) # es) (k # ks)"

lemma ansi_run_append:
  "ansi_run (es @ fs) s = (case ansi_run es s of (ks, s1) \<Rightarrow> case ansi_run fs s1 of (ls, s2) \<Rightarrow> (ks @ ls, s2))"
  by (induction es s rule: ansi_run.induct) (auto split: prod.splits)

lemma early_polls_run:
  "early_polls (esc_start s) ps \<Longrightarrow> key_state s = KEY_STATE_ESC \<Longrightarrow> ansi_run ps s = ([], s)"
  by (induction ps) (auto simp: early_polls_def ansi_input_process_def esc_byte_def not_le)

lemma polls_run:
  "polls ps \<Longrightarrow> key_state s \<in> {KEY_STATE_ESC_BRACKET, KEY_STATE_ESC_BRACKET_NUM} \<Longrightarrow> ansi_run ps s = ([], s)"
  by (induction ps) (auto simp: polls_def ansi_input_process_def bracket_byte_def)

lemma esc_run:
  assumes "key_state s = KEY_STATE_NORMAL" and "early_polls t ps"
  shows "ansi_run ((0x1b, t) # ps @ es) s = ansi_run es (s\<lparr>key_state := KEY_STATE_ESC, esc_start := t\<rparr>)"
  using assms early_polls_run [of "s\<lparr>key_state := KEY_STATE_ESC, esc_start := t\<rparr>" ps]
  by (simp add: ansi_input_process_def ansi_run_append split: prod.splits)

lemma bracket_run:
  assumes "key_state s = KEY_STATE_ESC" and "polls qs"
  shows "ansi_run ((0x5b, t) # qs @ es) s = ansi_run es (s\<lparr>key_state := KEY_STATE_ESC_BRACKET\<rparr>)"
  using assms polls_run [of qs "s\<lparr>key_state := KEY_STATE_ESC_BRACKET\<rparr>"]
  by (simp add: ansi_input_process_def esc_byte_def ansi_run_append split: prod.splits)

lemma cursor_byte:
  assumes "cursor_key c = Some k" and "key_state s = KEY_STATE_ESC_BRACKET"
  shows "ansi_input_process c t s = (k, s\<lparr>key_state := KEY_STATE_NORMAL\<rparr>)" and "k \<noteq> 0"
  using assms
  by (auto simp: cursor_key_def ansi_input_process_def bracket_byte_def CTRL_KEY_def Let_def split: if_splits)

lemma number_byte:
  assumes "numbered_key c = Some k" and "key_state s = KEY_STATE_ESC_BRACKET"
  shows "ansi_input_process c t s = (0, s\<lparr>pending_key := k, key_state := KEY_STATE_ESC_BRACKET_NUM\<rparr>)" and "k \<noteq> 0"
  using assms
  by (auto simp: numbered_key_def ansi_input_process_def bracket_byte_def CTRL_KEY_def Let_def split: if_splits)

section \<open>Properties\<close>



end
