(* ===== verification/Checksum.thy ===== *)
theory Checksum
  imports Prelude
begin

text \<open>
  The CRC-32 of the flash backend (\<open>crc32_bytes\<close> in \<open>src/src/common/flash_backend.c\<close>) and of the
  environment store (\<open>crc32\<close> in \<open>src/src/common/environment_store.c\<close>). The register update is linear
  over exclusive or and one to one, because the polynomial's top bit is set; so two messages of the
  same length that differ only within four consecutive bytes never have the same checksum.
\<close>

section \<open>The two implementations\<close>

text \<open>\<open>crc32_bit\<close> is the body of the inner loop; \<open>(uint32_t)-(int32_t)(crc & 1u)\<close> is all ones or zero.\<close>

definition crc32_bit :: "u32 \<Rightarrow> u32" where
  "crc32_bit crc = drop_bit 1 crc XOR (0xEDB88320 AND - (crc AND 1))"

definition crc32_byte :: "u32 \<Rightarrow> u8 \<Rightarrow> u32" where
  "crc32_byte crc b = (crc32_bit ^^ 8) (crc XOR ucast b)"

definition crc32_bytes :: "bytes \<Rightarrow> u32" where
  "crc32_bytes data = NOT (foldl crc32_byte 0xFFFFFFFF data)"

definition crc32 :: "bytes \<Rightarrow> u32" where
  "crc32 data = NOT (foldl (\<lambda>crc b. (crc32_bit ^^ 8) (crc XOR ucast b)) 0xFFFFFFFF data)"

lemma crc32_eq_crc32_bytes: "crc32 = crc32_bytes"
  unfolding crc32_def crc32_bytes_def by (simp add: crc32_byte_def [abs_def])

section \<open>Linearity and injectivity\<close>

lemma neg_and_1: "- (x AND (1 :: u32)) = (if bit x 0 then - 1 else 0)"
  by (simp add: and_one_eq mod_2_eq_odd bit_0)

lemma crc32_bit_cases:
  "crc32_bit x = (if bit x 0 then drop_bit 1 x XOR 0xEDB88320 else drop_bit 1 x)"
  unfolding crc32_bit_def neg_and_1 by simp

lemma crc32_bit_xor: "crc32_bit (x XOR y) = crc32_bit x XOR crc32_bit y"
proof (rule bit_word_eqI)
  fix n
  assume "n < LENGTH(32)"
  show "bit (crc32_bit (x XOR y)) n \<longleftrightarrow> bit (crc32_bit x XOR crc32_bit y) n"
    unfolding crc32_bit_cases
    by (cases "bit x 0"; cases "bit y 0") (auto simp: bit_xor_iff bit_drop_bit_eq)
qed

lemma crc32_bits_xor: "(crc32_bit ^^ n) (x XOR y) = (crc32_bit ^^ n) x XOR (crc32_bit ^^ n) y"
  by (induction n) (auto simp: crc32_bit_xor)

lemma crc32_bit_eq_0: "crc32_bit x = 0 \<longleftrightarrow> x = 0"
proof
  assume z: "crc32_bit x = 0"
  have "\<not> bit x 0"
  proof
    assume "bit x 0"
    with z have "drop_bit 1 x = (0xEDB88320 :: u32)"
      by (simp add: crc32_bit_cases word_xor_eq_0_iff)
    then have "bit (drop_bit 1 x) 31 = bit (0xEDB88320 :: u32) 31"
      by simp
    then show False
      by (simp add: bit_drop_bit_eq impossible_bit)
  qed
  with z have d: "drop_bit 1 x = 0"
    by (simp add: crc32_bit_cases)
  have "\<not> bit x n" for n
  proof (cases n)
    case 0
    with \<open>\<not> bit x 0\<close> show ?thesis by simp
  next
    case (Suc m)
    have "\<not> bit (drop_bit 1 x) m"
      unfolding d by simp
    with Suc show ?thesis by (simp add: bit_drop_bit_eq)
  qed
  then show "x = 0"
    by (simp add: bit_eq_iff)
qed (simp add: crc32_bit_cases)

lemma crc32_bits_eq_0: "(crc32_bit ^^ n) x = 0 \<longleftrightarrow> x = 0"
  by (induction n) (auto simp: crc32_bit_eq_0)

lemma crc32_byte_xor:
  "crc32_byte x a XOR crc32_byte y b = crc32_byte (x XOR y) (a XOR b)"
proof -
  have "ucast (a XOR b) = (ucast a XOR ucast b :: u32)"
    by (rule bit_word_eqI) (simp add: bit_xor_iff bit_ucast_iff)
  then show ?thesis
    by (simp add: crc32_byte_def word_xor_interchange flip: crc32_bits_xor)
qed

lemma crc32_fold_xor:
  "length xs = length ys \<Longrightarrow>
    foldl crc32_byte x xs XOR foldl crc32_byte y ys =
      foldl crc32_byte (x XOR y) (map2 (XOR) xs ys)"
  by (induction xs ys arbitrary: x y rule: list_induct2) (auto simp: crc32_byte_xor)

lemma crc32_byte_zero [simp]: "crc32_byte x 0 = 0 \<longleftrightarrow> x = 0"
  by (simp add: crc32_byte_def crc32_bits_eq_0)

lemma crc32_fold_zeros: "foldl crc32_byte x (replicate n 0) = 0 \<longleftrightarrow> x = 0"
  by (induction n arbitrary: x) simp_all

lemma crc32_fold_eq_iff:
  assumes "length xs = length ys"
  shows "foldl crc32_byte s xs = foldl crc32_byte s ys \<longleftrightarrow>
    foldl crc32_byte 0 (map2 (XOR) xs ys) = 0"
proof -
  have "foldl crc32_byte s xs = foldl crc32_byte s ys \<longleftrightarrow>
      foldl crc32_byte s xs XOR foldl crc32_byte s ys = 0"
    by (rule word_xor_eq_0_iff [symmetric])
  then show ?thesis
    by (simp only: crc32_fold_xor [OF assms] xor_self_eq)
qed

lemma crc32_byte_inj: "crc32_byte x b = crc32_byte y b \<longleftrightarrow> x = y"
proof -
  have "crc32_byte x b = crc32_byte y b \<longleftrightarrow> crc32_byte x b XOR crc32_byte y b = 0"
    by (rule word_xor_eq_0_iff [symmetric])
  then show ?thesis
    by (simp only: crc32_byte_xor xor_self_eq crc32_byte_zero word_xor_eq_0_iff)
qed

lemma crc32_fold_inj: "foldl crc32_byte x bs = foldl crc32_byte y bs \<longleftrightarrow> x = y"
  by (induction bs arbitrary: x y) (auto simp: crc32_byte_inj)

section \<open>Four bytes fill the register\<close>

lemma crc32_bits_shift:
  assumes "\<And>i. i < n \<Longrightarrow> \<not> bit x i"
  shows "(crc32_bit ^^ n) x = drop_bit n x"
  using assms
proof (induction n)
  case 0
  then show ?case by simp
next
  case (Suc n)
  then have "(crc32_bit ^^ n) x = drop_bit n x" and "\<not> bit (drop_bit n x) 0"
    by (auto simp: bit_simps)
  then show ?case
    by (simp add: crc32_bit_cases [of "drop_bit n x"])
qed

lemma crc32_absorb:
  fixes r :: u32
  assumes small: "\<And>n. 24 \<le> n \<Longrightarrow> \<not> bit r n"
  shows "(crc32_bit ^^ 8) (x XOR push_bit 8 r) = (crc32_bit ^^ 8) x XOR r"
proof -
  have "drop_bit 8 (push_bit 8 r) = r"
  proof (rule bit_word_eqI)
    fix n
    assume "n < LENGTH(32)"
    show "bit (drop_bit 8 (push_bit 8 r)) n \<longleftrightarrow> bit r n"
      using small [of n] by (cases "n < 24") (auto simp: bit_simps)
  qed
  moreover have "(crc32_bit ^^ 8) (push_bit 8 r) = drop_bit 8 (push_bit 8 r)"
    by (rule crc32_bits_shift) (simp add: bit_simps)
  ultimately show ?thesis
    by (simp only: crc32_bits_xor)
qed

lemma crc32_four_bytes:
  "foldl crc32_byte 0 [a, b, c, d] =
    (crc32_bit ^^ 32) (ucast a XOR push_bit 8 (ucast b XOR push_bit 8 (ucast c XOR
      push_bit 8 (ucast d))))"
proof -
  let ?B = "crc32_bit ^^ 8"
  define r3 :: u32 where "r3 = ucast d"
  define r2 :: u32 where "r2 = ucast c XOR push_bit 8 r3"
  define r1 :: u32 where "r1 = ucast b XOR push_bit 8 r2"
  have r: "\<And>n. 24 \<le> n \<Longrightarrow> \<not> bit r1 n" "\<And>n. 24 \<le> n \<Longrightarrow> \<not> bit r2 n" "\<And>n. 24 \<le> n \<Longrightarrow> \<not> bit r3 n"
    by (simp_all add: r1_def r2_def r3_def bit_simps byte_bit_beyond)
  have 1: "?B (ucast a XOR push_bit 8 r1) = (?B (ucast a) XOR ucast b) XOR push_bit 8 r2"
    by (simp only: crc32_absorb [OF r(1)]) (simp add: r1_def xor.assoc)
  have 2: "?B (x XOR push_bit 8 r2) = (?B x XOR ucast c) XOR push_bit 8 r3" for x
    by (simp only: crc32_absorb [OF r(2)]) (simp add: r2_def xor.assoc)
  have 3: "?B (x XOR push_bit 8 r3) = ?B x XOR ucast d" for x
    by (simp add: crc32_absorb [OF r(3)]) (simp add: r3_def)
  have "(crc32_bit ^^ 32) (ucast a XOR push_bit 8 r1) =
      ?B (?B (?B (?B (ucast a XOR push_bit 8 r1))))"
    using funpow_add [of 24 8 crc32_bit] funpow_add [of 16 8 crc32_bit] funpow_add [of 8 8 crc32_bit]
    by (simp add: fun_eq_iff)
  also have "\<dots> = ?B (?B (?B (?B (ucast a) XOR ucast b) XOR ucast c) XOR ucast d)"
    by (simp only: 1 2 3)
  finally show ?thesis
    by (simp add: crc32_byte_def r1_def r2_def r3_def)
qed

lemma crc32_four_bytes_eq_0:
  assumes "foldl crc32_byte 0 [a, b, c, d] = 0"
  shows "a = 0 \<and> b = 0 \<and> c = 0 \<and> d = 0"
proof -
  let ?w = "ucast a XOR push_bit 8 (ucast b XOR push_bit 8 (ucast c XOR push_bit 8 (ucast d :: u32)))"
  have w: "\<not> bit ?w n" for n
    using assms unfolding crc32_four_bytes crc32_bits_eq_0 by simp
  have "\<not> bit a n \<and> \<not> bit b n \<and> \<not> bit c n \<and> \<not> bit d n" if "n < 8" for n
    using that w [of n] w [of "n + 8"] w [of "n + 16"] w [of "n + 24"]
    by (simp add: bit_simps byte_bit_beyond)
  then show ?thesis
    by (auto intro!: bit_word_eqI)
qed

lemma crc32_short_eq_0:
  assumes "length ds \<le> 4" and "foldl crc32_byte 0 ds = 0"
  shows "ds = replicate (length ds) 0"
proof -
  have z: "foldl crc32_byte 0 (ds @ replicate (4 - length ds) 0) = 0"
    using assms by (simp add: crc32_fold_zeros)
  define es where "es = ds @ replicate (4 - length ds) 0"
  have "length es = 4"
    using assms by (simp add: es_def)
  then obtain a b c d where "es = [a, b, c, d]"
    by (auto simp: numeral_eq_Suc length_Suc_conv)
  then have e: "ds @ replicate (4 - length ds) 0 = [a, b, c, d]"
    by (simp add: es_def)
  with z crc32_four_bytes_eq_0 [of a b c d] have "set (ds @ replicate (4 - length ds) 0) \<subseteq> {0}"
    by simp
  then show ?thesis
    by (intro replicate_eqI) auto
qed

text \<open>
  C37. A corruption confined to four consecutive bytes (any burst of up to 32 aligned bits) is always
  detected: replacing such a segment by a different one changes the checksum.
\<close>

theorem crc32_detects_burst:
  assumes len: "length xs = length ys" "length xs \<le> 4" and diff: "xs \<noteq> ys"
  shows "crc32_bytes (pre @ xs @ post) \<noteq> crc32_bytes (pre @ ys @ post)"
proof
  assume "crc32_bytes (pre @ xs @ post) = crc32_bytes (pre @ ys @ post)"
  then have "foldl crc32_byte 0 (map2 (XOR) xs ys) = 0"
    by (simp add: crc32_bytes_def crc32_fold_inj crc32_fold_eq_iff [OF len(1)])
  then have z: "map2 (XOR) xs ys = replicate (length xs) 0"
    using crc32_short_eq_0 [of "map2 (XOR) xs ys"] len by simp
  have "xs ! i = ys ! i" if "i < length xs" for i
    using arg_cong [OF z, of "\<lambda>zs. zs ! i"] that len by (simp add: word_xor_eq_0_iff)
  then have "xs = ys"
    using len by (intro nth_equalityI) auto
  with diff show False ..
qed

theorem crc32_detects_burst_witness:
  "crc32_bytes ([1, 2] @ [3, 4] @ [5]) \<noteq> crc32_bytes ([1, 2] @ [3, 6] @ [5])"
  by (rule crc32_detects_burst) simp_all

end
