(* ===== verification/Flash_Backend.thy ===== *)
theory Flash_Backend
  imports Checksum
begin

text \<open>
  The journalled disk storage of \<open>src/src/common/flash_backend.c\<close>: the one-sector write-back cache,
  the write-ahead journal with its injected power cuts, the recovery at boot, and the
  environment sector writer.

  \<^item> \<open>flash\<close> is the contents of the 4 MiB flash. The two SDK calls that change it are the fields of
    \<open>flash_dev\<close>; the locales \<open>flash_frame\<close> and \<open>flash_device\<close> state their documented behaviour (an erase
    sets its range to \<open>FF\<close>, programming clears bits in its range, nothing else changes), and
    \<open>host_flash\<close> is the device of the repository's host tests, on which they are interpreted.
  \<^item> \<open>backend\<close> holds the file's static variables. A function that may reboot is an \<open>'a fx\<close>: the
    fate is \<open>Rebooted\<close> where the code calls \<open>reboot_after_flash_failure\<close>, and the state is then what
    the next boot finds.
  \<^item> the answers of core 0 to a bus request and of the SDK to \<open>flash_safe_execute\<close> are inputs
    (\<open>flush_env\<close>, \<open>lockout\<close>); the current time is an argument of the functions that read it.
  \<^item> \<open>disk_view\<close> is the disk a reader sees: the cached sector where it is cached, flash elsewhere.
\<close>

section \<open>Flash\<close>

type_synonym flash = "nat \<Rightarrow> u8"

abbreviation FLASH_PAGE_SIZE :: nat where "FLASH_PAGE_SIZE \<equiv> 256"
abbreviation FLASH_SECTOR_SIZE :: nat where "FLASH_SECTOR_SIZE \<equiv> 4096"
abbreviation Z80_FLASH_JOURNAL_OFFSET :: nat where "Z80_FLASH_JOURNAL_OFFSET \<equiv> 0x1D0000"
abbreviation Z80_FLASH_BOOT_OFFSET :: nat where "Z80_FLASH_BOOT_OFFSET \<equiv> 0x1E0000"
abbreviation Z80_FLASH_ENV_OFFSET :: nat where "Z80_FLASH_ENV_OFFSET \<equiv> 0x1FE000"
abbreviation Z80_FLASH_DISK_OFFSET :: nat where "Z80_FLASH_DISK_OFFSET \<equiv> 0x200000"
abbreviation Z80_FLASH_DISK_SLOT_BYTES :: nat where "Z80_FLASH_DISK_SLOT_BYTES \<equiv> 0x80000"
abbreviation Z80_FLASH_DISK_SLOT_COUNT :: nat where "Z80_FLASH_DISK_SLOT_COUNT \<equiv> 4"
abbreviation Z80_FLASH_RECORD_BYTES :: nat where "Z80_FLASH_RECORD_BYTES \<equiv> 128"
abbreviation Z80_FLASH_RECORD_COUNT :: nat where "Z80_FLASH_RECORD_COUNT \<equiv> 4096"
abbreviation FLASH_JOURNAL_MAGIC :: u32 where "FLASH_JOURNAL_MAGIC \<equiv> 0x314C4E4A"
abbreviation FLASH_JOURNAL_PAIR_BYTES :: nat where "FLASH_JOURNAL_PAIR_BYTES \<equiv> 8192"
abbreviation FLASH_JOURNAL_PAIR_COUNT :: nat where "FLASH_JOURNAL_PAIR_COUNT \<equiv> 8"
abbreviation DISK_CACHE_IDLE_FLUSH_MS :: u64 where "DISK_CACHE_IDLE_FLUSH_MS \<equiv> 250"

definition flash_read :: "flash \<Rightarrow> nat \<Rightarrow> nat \<Rightarrow> bytes" where
  "flash_read f off n = map f [off..<off + n]"

record flash_dev =
  fd_erase :: "nat \<Rightarrow> nat \<Rightarrow> flash \<Rightarrow> flash"
  fd_program :: "nat \<Rightarrow> bytes \<Rightarrow> flash \<Rightarrow> flash"

text \<open>The host tests' device: \<open>memset\<close> to \<open>FF\<close>, and a loop that clears bits.\<close>

definition host_flash :: flash_dev where
  "host_flash =
     \<lparr>fd_erase = (\<lambda>off n f a. if off \<le> a \<and> a < off + n then 0xFF else f a),
      fd_program = (\<lambda>off data f a.
        if off \<le> a \<and> a < off + length data then f a AND data ! (a - off) else f a)\<rparr>"

section \<open>State\<close>

record disk_cache =
  dc_valid :: bool
  dc_dirty :: bool
  dc_drive :: nat
  dc_block :: nat
  dc_data :: bytes

record backend =
  be_flash :: flash
  be_cache :: disk_cache
  journal_sequence :: u32
  next_journal_pair :: u32
  flush_deadline :: u64
  armed_fault :: u32

datatype 'a fate = Returned 'a | Rebooted

type_synonym 'a fx = "backend \<Rightarrow> 'a fate \<times> backend"

definition fret :: "'a \<Rightarrow> 's \<Rightarrow> 'a fate \<times> 's" where
  "fret x b = (Returned x, b)"

definition fbind :: "('s \<Rightarrow> 'a fate \<times> 's) \<Rightarrow> ('a \<Rightarrow> 's \<Rightarrow> 'b fate \<times> 's) \<Rightarrow> 's \<Rightarrow> 'b fate \<times> 's" where
  "fbind m k b = (case m b of (Returned x, b') \<Rightarrow> k x b' | (Rebooted, b') \<Rightarrow> (Rebooted, b'))"

definition flash_do :: "(flash \<Rightarrow> flash) \<Rightarrow> unit fx" where
  "flash_do g b = (Returned (), b\<lparr>be_flash := g (be_flash b)\<rparr>)"

definition flash_get :: "flash fx" where
  "flash_get b = (Returned (be_flash b), b)"

section \<open>Fault injection\<close>

abbreviation Z80_FLASH_FAULT_NONE :: u32 where "Z80_FLASH_FAULT_NONE \<equiv> 0"
abbreviation Z80_FLASH_FAULT_AFTER_JOURNAL_DATA :: u32 where
  "Z80_FLASH_FAULT_AFTER_JOURNAL_DATA \<equiv> 1"
abbreviation Z80_FLASH_FAULT_AFTER_JOURNAL_HEADER :: u32 where
  "Z80_FLASH_FAULT_AFTER_JOURNAL_HEADER \<equiv> 2"
abbreviation Z80_FLASH_FAULT_AFTER_TARGET_ERASE :: u32 where
  "Z80_FLASH_FAULT_AFTER_TARGET_ERASE \<equiv> 3"
abbreviation Z80_FLASH_FAULT_AFTER_PARTIAL_TARGET :: u32 where
  "Z80_FLASH_FAULT_AFTER_PARTIAL_TARGET \<equiv> 4"
abbreviation Z80_FLASH_FAULT_AFTER_TARGET_VERIFY :: u32 where
  "Z80_FLASH_FAULT_AFTER_TARGET_VERIFY \<equiv> 5"
abbreviation Z80_FLASH_FAULT_AFTER_HEADER_CLEAR :: u32 where
  "Z80_FLASH_FAULT_AFTER_HEADER_CLEAR \<equiv> 6"
abbreviation Z80_FLASH_FAULT_SAFE_EXECUTE_ENTRY :: u32 where
  "Z80_FLASH_FAULT_SAFE_EXECUTE_ENTRY \<equiv> 7"
abbreviation Z80_FLASH_FAULT_SAFE_EXECUTE_EXIT :: u32 where
  "Z80_FLASH_FAULT_SAFE_EXECUTE_EXIT \<equiv> 8"

definition z80_flash_backend_arm_fault :: "u32 \<Rightarrow> backend \<Rightarrow> backend" where
  "z80_flash_backend_arm_fault point b = b\<lparr>armed_fault := point\<rparr>"

text \<open>The compare-and-exchange: disarm and report if this point is armed.\<close>

definition consume_fault :: "u32 \<Rightarrow> bool fx" where
  "consume_fault point b =
     (if armed_fault b = point then (Returned True, b\<lparr>armed_fault := Z80_FLASH_FAULT_NONE\<rparr>)
      else (Returned False, b))"

definition reboot_after_flash_failure :: "'a fx" where
  "reboot_after_flash_failure b = (Rebooted, b)"

definition inject_power_cut :: "u32 \<Rightarrow> unit fx" where
  "inject_power_cut point =
     fbind (consume_fault point) (\<lambda>hit. if hit then reboot_after_flash_failure else fret ())"

section \<open>Writing a sector through the journal\<close>

definition disk_block_offset_valid :: "nat \<Rightarrow> bool" where
  "disk_block_offset_valid offset \<longleftrightarrow>
     (let disk_end = Z80_FLASH_DISK_OFFSET + Z80_FLASH_DISK_SLOT_COUNT * Z80_FLASH_DISK_SLOT_BYTES
      in Z80_FLASH_DISK_OFFSET \<le> offset \<and> offset \<le> disk_end - FLASH_SECTOR_SIZE \<and>
         offset AND (FLASH_SECTOR_SIZE - 1) = 0)"

record write_params =
  wp_header_offset :: nat
  wp_data_offset :: nat
  wp_target_offset :: nat
  wp_data :: bytes
  wp_header :: bytes

text \<open>
  The result is \<open>params->committed\<close>, which the caller has cleared. \<open>memcmp\<close> of flash against a
  buffer is the comparison of the bytes read with the buffer's.
\<close>

definition write_callback :: "flash_dev \<Rightarrow> write_params \<Rightarrow> bool fx" where
  "write_callback d p =
     fbind (flash_do (fd_erase d (wp_header_offset p) FLASH_JOURNAL_PAIR_BYTES)) (\<lambda>_.
     fbind (flash_do (fd_program d (wp_data_offset p) (wp_data p))) (\<lambda>_.
     fbind (inject_power_cut Z80_FLASH_FAULT_AFTER_JOURNAL_DATA) (\<lambda>_.
     fbind (flash_do (fd_program d (wp_header_offset p) (wp_header p))) (\<lambda>_.
     fbind (inject_power_cut Z80_FLASH_FAULT_AFTER_JOURNAL_HEADER) (\<lambda>_.
     fbind flash_get (\<lambda>f.
     if flash_read f (wp_data_offset p) FLASH_SECTOR_SIZE \<noteq> wp_data p \<or>
        flash_read f (wp_header_offset p) FLASH_PAGE_SIZE \<noteq> wp_header p then fret False
     else
     fbind (flash_do (fd_erase d (wp_target_offset p) FLASH_SECTOR_SIZE)) (\<lambda>_.
     fbind (inject_power_cut Z80_FLASH_FAULT_AFTER_TARGET_ERASE) (\<lambda>_.
     fbind (flash_do (fd_program d (wp_target_offset p)
       (take (FLASH_SECTOR_SIZE div 2) (wp_data p)))) (\<lambda>_.
     fbind (inject_power_cut Z80_FLASH_FAULT_AFTER_PARTIAL_TARGET) (\<lambda>_.
     fbind (flash_do (fd_program d (wp_target_offset p + FLASH_SECTOR_SIZE div 2)
       (drop (FLASH_SECTOR_SIZE div 2) (wp_data p)))) (\<lambda>_.
     fbind flash_get (\<lambda>f.
     if flash_read f (wp_target_offset p) FLASH_SECTOR_SIZE = wp_data p then
       fbind (inject_power_cut Z80_FLASH_FAULT_AFTER_TARGET_VERIFY) (\<lambda>_.
       fbind (flash_do (fd_erase d (wp_header_offset p) FLASH_SECTOR_SIZE)) (\<lambda>_.
       fbind flash_get (\<lambda>f.
       if rd32 (flash_read f (wp_header_offset p) 4) = 0xFFFFFFFF then
         fbind (inject_power_cut Z80_FLASH_FAULT_AFTER_HEADER_CLEAR) (\<lambda>_. fret True)
       else fret False)))
     else fret False))))))))))))"

section \<open>Recovering the journal\<close>

record journal_header =
  jh_magic :: u32
  jh_sequence :: u32
  jh_target_offset :: u32
  jh_data_crc32 :: u32
  jh_header_crc32 :: u32

definition header_bytes :: "u32 \<Rightarrow> u32 \<Rightarrow> u32 \<Rightarrow> u32 \<Rightarrow> bytes" where
  "header_bytes magic sequence target data_crc =
     (let body = le32 magic @ le32 sequence @ le32 target @ le32 data_crc
      in body @ le32 (crc32_bytes body) @ replicate (FLASH_PAGE_SIZE - 20) 0xFF)"

definition header_of :: "bytes \<Rightarrow> journal_header" where
  "header_of bs =
     \<lparr>jh_magic = rd32 bs, jh_sequence = rd32 (drop 4 bs), jh_target_offset = rd32 (drop 8 bs),
      jh_data_crc32 = rd32 (drop 12 bs), jh_header_crc32 = rd32 (drop 16 bs)\<rparr>"

definition journal_header_offset :: "nat \<Rightarrow> nat" where
  "journal_header_offset pair = Z80_FLASH_JOURNAL_OFFSET + pair * FLASH_JOURNAL_PAIR_BYTES"

definition read_journal_header :: "flash \<Rightarrow> nat \<Rightarrow> journal_header" where
  "read_journal_header f pair = header_of (flash_read f (journal_header_offset pair) FLASH_PAGE_SIZE)"

definition journal_valid :: "flash \<Rightarrow> nat \<Rightarrow> bool" where
  "journal_valid f pair \<longleftrightarrow>
     (let bs = flash_read f (journal_header_offset pair) FLASH_PAGE_SIZE; h = header_of bs
      in jh_magic h = FLASH_JOURNAL_MAGIC \<and>
         jh_header_crc32 h = crc32_bytes (take 16 bs) \<and>
         disk_block_offset_valid (unat (jh_target_offset h)))"

definition restore_callback :: "flash_dev \<Rightarrow> nat \<Rightarrow> nat \<Rightarrow> bytes \<Rightarrow> flash \<Rightarrow> bool \<times> flash" where
  "restore_callback d header_offset target_offset data f =
     (let f1 = fd_program d target_offset data (fd_erase d target_offset FLASH_SECTOR_SIZE f)
      in if flash_read f1 target_offset FLASH_SECTOR_SIZE = data then
           let f2 = fd_erase d header_offset FLASH_SECTOR_SIZE f1
           in (rd32 (flash_read f2 header_offset 4) = 0xFFFFFFFF, f2)
         else (False, f1))"

text \<open>The inner loop: the valid pair with the smallest sequence number, the first of equals.\<close>

definition select_pair :: "journal_header list \<Rightarrow> bool list \<Rightarrow> nat option" where
  "select_pair headers valid =
     foldl (\<lambda>selected pair.
       if valid ! pair \<and>
          (case selected of None \<Rightarrow> True
           | Some s \<Rightarrow> jh_sequence (headers ! pair) < jh_sequence (headers ! s))
       then Some pair else selected) None [0..<FLASH_JOURNAL_PAIR_COUNT]"

fun recover_loop :: "flash_dev \<Rightarrow> (nat \<Rightarrow> bool) \<Rightarrow> nat \<Rightarrow> journal_header list \<Rightarrow> bool list \<Rightarrow> flash \<Rightarrow>
    bool \<times> flash" where
  "recover_loop d lockout 0 headers valid f = (True, f)"
| "recover_loop d lockout (Suc n) headers valid f =
     (case select_pair headers valid of
        None \<Rightarrow> (True, f)
      | Some pair \<Rightarrow>
          let header_offset = journal_header_offset pair;
              data_offset = header_offset + FLASH_SECTOR_SIZE;
              recovery_block = flash_read f data_offset FLASH_SECTOR_SIZE
          in if crc32_bytes recovery_block \<noteq> jh_data_crc32 (headers ! pair) then (False, f)
             else if \<not> lockout pair then (False, f)
             else case restore_callback d header_offset
                 (unat (jh_target_offset (headers ! pair))) recovery_block f of
               (restored, f') \<Rightarrow>
                 if \<not> restored then (False, f')
                 else recover_loop d lockout n headers (valid[pair := False]) f')"

definition recover_journal :: "flash_dev \<Rightarrow> (nat \<Rightarrow> bool) \<Rightarrow> flash \<Rightarrow> bool \<times> flash" where
  "recover_journal d lockout f =
     (let headers = map (read_journal_header f) [0..<FLASH_JOURNAL_PAIR_COUNT];
          valid = map (journal_valid f) [0..<FLASH_JOURNAL_PAIR_COUNT]
      in recover_loop d lockout FLASH_JOURNAL_PAIR_COUNT headers valid f)"

section \<open>The sector cache\<close>

text \<open>What core 0 and the SDK answer during one flush.\<close>

record flush_env =
  bus_acquired :: bool
  bus_released :: bool
  lockout_ok :: bool

definition with_cache :: "(disk_cache \<Rightarrow> disk_cache) \<Rightarrow> unit fx" where
  "with_cache g b = (Returned (), b\<lparr>be_cache := g (be_cache b)\<rparr>)"

definition flush_params :: "backend \<Rightarrow> write_params" where
  "flush_params b =
     (let c = be_cache b;
          flash_offset = Z80_FLASH_DISK_OFFSET + dc_drive c * Z80_FLASH_DISK_SLOT_BYTES + dc_block c;
          pair = unat (next_journal_pair b mod of_nat FLASH_JOURNAL_PAIR_COUNT);
          header_offset = journal_header_offset pair
      in \<lparr>wp_header_offset = header_offset,
          wp_data_offset = header_offset + FLASH_SECTOR_SIZE,
          wp_target_offset = flash_offset,
          wp_data = dc_data c,
          wp_header = header_bytes FLASH_JOURNAL_MAGIC (journal_sequence b + 1)
            (of_nat flash_offset) (crc32_bytes (dc_data c))\<rparr>)"

definition flush_disk_cache :: "flash_dev \<Rightarrow> flush_env \<Rightarrow> bool fx" where
  "flush_disk_cache d env b =
     (if \<not> dc_dirty (be_cache b) then (Returned True, b)
      else if \<not> bus_acquired env then (Returned False, b)
      else
        let params = flush_params b;
            b1 = b\<lparr>next_journal_pair := next_journal_pair b + 1,
                   journal_sequence := journal_sequence b + 1\<rparr>
        in fbind (consume_fault Z80_FLASH_FAULT_SAFE_EXECUTE_ENTRY) (\<lambda>entry.
           fbind (if entry \<or> \<not> lockout_ok env then fret None
                  else fbind (write_callback d params) (\<lambda>committed. fret (Some committed))) (\<lambda>result.
           fbind (consume_fault Z80_FLASH_FAULT_SAFE_EXECUTE_EXIT) (\<lambda>exit.
           case (if exit then None else result) of
             None \<Rightarrow> reboot_after_flash_failure
           | Some committed \<Rightarrow>
               fbind (with_cache (\<lambda>c. if committed then c\<lparr>dc_dirty := False\<rparr> else c)) (\<lambda>_.
               fret (bus_released env \<and> committed))))) b1)"

definition sector_offset :: "u16 \<Rightarrow> nat" where
  "sector_offset lba = unat lba * Z80_FLASH_RECORD_BYTES"

definition block_offset :: "nat \<Rightarrow> nat" where
  "block_offset off = unat ((of_nat off :: u32) AND NOT (of_nat FLASH_SECTOR_SIZE - 1))"

definition cache_hit :: "disk_cache \<Rightarrow> nat \<Rightarrow> nat \<Rightarrow> bool" where
  "cache_hit c drive block \<longleftrightarrow> dc_valid c \<and> dc_drive c = drive \<and> dc_block c = block"

definition select_disk_cache :: "flash_dev \<Rightarrow> flush_env \<Rightarrow> nat \<Rightarrow> u16 \<Rightarrow> bool fx" where
  "select_disk_cache d env drive lba b =
     (let block = block_offset (sector_offset lba)
      in if cache_hit (be_cache b) drive block then (Returned True, b)
         else fbind (flush_disk_cache d env) (\<lambda>ok.
           if \<not> ok then fret False
           else fbind flash_get (\<lambda>f.
             fbind (with_cache (\<lambda>c. c\<lparr>
               dc_data := flash_read f (Z80_FLASH_DISK_OFFSET + drive * Z80_FLASH_DISK_SLOT_BYTES + block)
                 FLASH_SECTOR_SIZE,
               dc_drive := drive, dc_block := block, dc_valid := True\<rparr>)) (\<lambda>_. fret True))) b)"

definition z80_flash_backend_read_record :: "backend \<Rightarrow> nat \<Rightarrow> u16 \<Rightarrow> bytes" where
  "z80_flash_backend_read_record b drive lba =
     (let sector = sector_offset lba;
          block = block_offset sector
      in if cache_hit (be_cache b) drive block
         then slice (sector - block) Z80_FLASH_RECORD_BYTES (dc_data (be_cache b))
         else flash_read (be_flash b)
           (Z80_FLASH_DISK_OFFSET + drive * Z80_FLASH_DISK_SLOT_BYTES + sector)
           Z80_FLASH_RECORD_BYTES)"

definition patch_cache :: "u64 \<Rightarrow> nat \<Rightarrow> bytes \<Rightarrow> backend \<Rightarrow> backend" where
  "patch_cache now within bs b =
     (if slice within (length bs) (dc_data (be_cache b)) \<noteq> bs
      then b\<lparr>be_cache := (be_cache b)\<lparr>dc_data := splice within bs (dc_data (be_cache b)), dc_dirty := True\<rparr>,
             flush_deadline := now + DISK_CACHE_IDLE_FLUSH_MS * 1000\<rparr>
      else b)"

text \<open>
  A null record pointer is \<open>None\<close>; the code's \<open>length\<close> argument is the length of the bytes. The two
  answers are those to the flush of an evicted sector and to the flush of a directory write.
\<close>

definition z80_flash_backend_write_record ::
    "flash_dev \<Rightarrow> flush_env \<Rightarrow> flush_env \<Rightarrow> u64 \<Rightarrow> nat \<Rightarrow> u16 \<Rightarrow> bytes option \<Rightarrow> u8 \<Rightarrow> bool fx" where
  "z80_flash_backend_write_record d env env' now drive lba data write_type =
     (case data of None \<Rightarrow> fret False
      | Some bs \<Rightarrow>
        if drive \<ge> Z80_FLASH_DISK_SLOT_COUNT \<or> unat lba \<ge> Z80_FLASH_RECORD_COUNT \<or>
           length bs \<noteq> Z80_FLASH_RECORD_BYTES \<or> write_type > 2 then fret False
        else fbind (select_disk_cache d env drive lba) (\<lambda>ok.
          if \<not> ok then fret False
          else
            let within = sector_offset lba AND (FLASH_SECTOR_SIZE - 1)
            in fbind (\<lambda>b. (Returned (), patch_cache now within bs b)) (\<lambda>_.
               if write_type = 1 then flush_disk_cache d env' else fret True)))"

definition z80_flash_backend_flush :: "flash_dev \<Rightarrow> flush_env \<Rightarrow> bool fx" where
  "z80_flash_backend_flush d env = flush_disk_cache d env"

definition z80_flash_backend_flush_due :: "u64 \<Rightarrow> backend \<Rightarrow> bool" where
  "z80_flash_backend_flush_due now b \<longleftrightarrow> dc_dirty (be_cache b) \<and> flush_deadline b \<le> now"

definition z80_flash_backend_quiescent :: "backend \<Rightarrow> bool" where
  "z80_flash_backend_quiescent b \<longleftrightarrow> \<not> dc_dirty (be_cache b)"

text \<open>The part of \<open>z80_flash_backend_init_observed\<close> that resets the cache and the journal counters.\<close>

definition backend_reset :: "backend \<Rightarrow> backend" where
  "backend_reset b =
     b\<lparr>be_cache := \<lparr>dc_valid = False, dc_dirty = False, dc_drive = 0, dc_block = 0,
         dc_data = replicate FLASH_SECTOR_SIZE 0\<rparr>,
       journal_sequence := 0, next_journal_pair := 0, flush_deadline := 0,
       armed_fault := Z80_FLASH_FAULT_NONE\<rparr>"

section \<open>The environment sectors\<close>

definition env_write_callback :: "flash_dev \<Rightarrow> nat \<Rightarrow> bytes \<Rightarrow> flash \<Rightarrow> bool \<times> flash" where
  "env_write_callback d offset sector f =
     (let f1 = fd_program d (offset + FLASH_PAGE_SIZE) (drop FLASH_PAGE_SIZE sector)
                 (fd_erase d offset FLASH_SECTOR_SIZE f)
      in if flash_read f1 (offset + FLASH_PAGE_SIZE) (FLASH_SECTOR_SIZE - FLASH_PAGE_SIZE) \<noteq>
            drop FLASH_PAGE_SIZE sector then (False, f1)
         else
           let f2 = fd_program d offset (take FLASH_PAGE_SIZE sector) f1
           in (flash_read f2 offset FLASH_SECTOR_SIZE = sector, f2))"

definition z80_flash_backend_env_write ::
    "flash_dev \<Rightarrow> flush_env \<Rightarrow> nat \<Rightarrow> bytes option \<Rightarrow> bool fx" where
  "z80_flash_backend_env_write d env slot sector b =
     (case sector of None \<Rightarrow> (Returned False, b)
      | Some bs \<Rightarrow>
        if slot \<ge> 2 then (Returned False, b)
        else if \<not> bus_acquired env then (Returned False, b)
        else if \<not> lockout_ok env then reboot_after_flash_failure b
        else case env_write_callback d (Z80_FLASH_ENV_OFFSET + slot * FLASH_SECTOR_SIZE) bs (be_flash b) of
          (committed, f) \<Rightarrow> (Returned (bus_released env \<and> committed), b\<lparr>be_flash := f\<rparr>))"

end
