(* ===== verification/Flash_Journal.thy ===== *)
theory Flash_Journal
  imports Flash_Backend "HOL-Library.Multiset"
begin

text \<open>
  The write-ahead journal of \<open>flash_backend.c\<close>: the contracts of a flash device, the headers, what
  the writer leaves behind at each of its steps, recovery as a replay in sequence order, and
  what recovery makes of an interrupted write.
\<close>


section \<open>The contract of a flash device\<close>

text \<open>
  \<open>flash_frame\<close>: an operation changes nothing outside its range. \<open>journal_flash\<close> adds that
  operations inside the journal region are exact. \<open>flash_device\<close> adds that all of them are.
\<close>

definition in_journal :: "nat \<Rightarrow> nat \<Rightarrow> bool" where
  "in_journal off n \<longleftrightarrow> Z80_FLASH_JOURNAL_OFFSET \<le> off \<and> off + n \<le> Z80_FLASH_BOOT_OFFSET"

locale flash_frame =
  fixes d :: flash_dev
  assumes erase_frame: "a < off \<or> off + n \<le> a \<Longrightarrow> fd_erase d off n f a = f a"
    and program_frame: "a < off \<or> off + length bs \<le> a \<Longrightarrow> fd_program d off bs f a = f a"

locale journal_flash = flash_frame +
  assumes erase_journal: "in_journal off n \<Longrightarrow> off \<le> a \<Longrightarrow> a < off + n \<Longrightarrow> fd_erase d off n f a = 0xFF"
    and program_journal: "in_journal off (length bs) \<Longrightarrow> off \<le> a \<Longrightarrow> a < off + length bs \<Longrightarrow>
      fd_program d off bs f a = f a AND bs ! (a - off)"

locale flash_device = flash_frame +
  assumes erase_in: "off \<le> a \<Longrightarrow> a < off + n \<Longrightarrow> fd_erase d off n f a = 0xFF"
    and program_in: "off \<le> a \<Longrightarrow> a < off + length bs \<Longrightarrow>
      fd_program d off bs f a = f a AND bs ! (a - off)"

sublocale flash_device \<subseteq> journal_flash
  by unfold_locales (auto simp: erase_in program_in)

interpretation host: flash_device host_flash
  by unfold_locales (auto simp: host_flash_def)

section \<open>Reading flash\<close>

lemma length_flash_read [simp]: "length (flash_read f off n) = n"
  by (simp add: flash_read_def)

lemma nth_flash_read [simp]: "i < n \<Longrightarrow> flash_read f off n ! i = f (off + i)"
  by (simp add: flash_read_def)

lemma flash_read_eq_iff:
  "flash_read f off n = bs \<longleftrightarrow> length bs = n \<and> (\<forall>i < n. f (off + i) = bs ! i)"
  by (auto simp: list_eq_iff_nth_eq)

lemma flash_read_cong:
  "(\<And>a. off \<le> a \<Longrightarrow> a < off + n \<Longrightarrow> f a = g a) \<Longrightarrow> flash_read f off n = flash_read g off n"
  by (simp add: flash_read_def)

lemma slice_flash_read: "a + k \<le> n \<Longrightarrow> slice a k (flash_read f off n) = flash_read f (off + a) k"
  by (rule nth_equalityI) (auto simp: nth_slice ac_simps)

lemma rd32_flash_read:
  assumes "4 \<le> n"
  shows "rd32 (flash_read f off n) = rd32 [f off, f (off + 1), f (off + 2), f (off + 3)]"
proof -
  from assms have "[off..<off + n] = off # (off + 1) # (off + 2) # (off + 3) # [off + 4..<off + n]"
    by (simp add: upt_conv_Cons numeral_eq_Suc)
  then show ?thesis
    by (simp add: flash_read_def)
qed

definition flash_put :: "nat \<Rightarrow> bytes \<Rightarrow> flash \<Rightarrow> flash" where
  "flash_put off bs f = (\<lambda>a. if off \<le> a \<and> a < off + length bs then bs ! (a - off) else f a)"

definition flash_fill :: "nat \<Rightarrow> nat \<Rightarrow> flash \<Rightarrow> flash" where
  "flash_fill off n f = (\<lambda>a. if off \<le> a \<and> a < off + n then 0xFF else f a)"

lemma flash_read_put_same [simp]: "n = length bs \<Longrightarrow> flash_read (flash_put off bs f) off n = bs"
  by (auto simp: flash_read_eq_iff flash_put_def)

lemma flash_read_put_other [simp]:
  "a + n \<le> off \<or> off + length bs \<le> a \<Longrightarrow> flash_read (flash_put off bs f) a n = flash_read f a n"
  by (rule flash_read_cong) (auto simp: flash_put_def)

lemma flash_read_fill_other [simp]:
  "a + n \<le> off \<or> off + k \<le> a \<Longrightarrow> flash_read (flash_fill off k f) a n = flash_read f a n"
  by (rule flash_read_cong) (auto simp: flash_fill_def)

context flash_device
begin

lemma erase_eq [simp]: "fd_erase d off n f = flash_fill off n f"
proof
  fix a
  show "fd_erase d off n f a = flash_fill off n f a"
    by (cases "off \<le> a \<and> a < off + n") (auto simp: flash_fill_def erase_in erase_frame)
qed

lemma program_erased:
  assumes "\<And>a. off \<le> a \<Longrightarrow> a < off + length bs \<Longrightarrow> f a = 0xFF"
  shows "fd_program d off bs f = flash_put off bs f"
proof
  fix a
  have "(0xFF :: u8) AND w = w" for w :: u8
  proof -
    have "(0xFF :: u8) = - 1"
      by simp
    then show ?thesis
      by (metis and.left_neutral)
  qed
  then show "fd_program d off bs f a = flash_put off bs f a"
    using assms [of a] program_in [of off a bs f] program_frame [of a off bs f]
    by (auto simp: flash_put_def not_less not_le)
qed

end

section \<open>Journal headers\<close>

lemma length_header_bytes [simp]: "length (header_bytes m s t c) = FLASH_PAGE_SIZE"
  by (simp add: header_bytes_def Let_def)

lemma header_roundtrip [simp]:
  "header_of (header_bytes m s t c) =
     \<lparr>jh_magic = m, jh_sequence = s, jh_target_offset = t, jh_data_crc32 = c,
      jh_header_crc32 = crc32_bytes (take 16 (header_bytes m s t c))\<rparr>"
  by (simp add: header_bytes_def header_of_def Let_def)

lemma journal_valid_cong:
  assumes "\<And>a. journal_header_offset p \<le> a \<Longrightarrow> a < journal_header_offset p + FLASH_PAGE_SIZE \<Longrightarrow> f a = g a"
  shows "journal_valid f p = journal_valid g p" "read_journal_header f p = read_journal_header g p"
  using flash_read_cong [OF assms] by (simp_all add: journal_valid_def read_journal_header_def)

lemma cleared_invalid:
  assumes "\<And>a. journal_header_offset p \<le> a \<Longrightarrow> a < journal_header_offset p + 4 \<Longrightarrow> f a = 0xFF"
  shows "\<not> journal_valid f p" "rd32 (flash_read f (journal_header_offset p) 4) = 0xFFFFFFFF"
proof -
  have "rd32 (flash_read f (journal_header_offset p) n) = 0xFFFFFFFF" if "4 \<le> n" for n
    using assms that by (simp add: rd32_flash_read)
  from this [of 4] this [of FLASH_PAGE_SIZE]
  show "\<not> journal_valid f p" "rd32 (flash_read f (journal_header_offset p) 4) = 0xFFFFFFFF"
    by (simp_all add: journal_valid_def header_of_def Let_def)
qed

section \<open>Selecting the next pair\<close>

lemma select_fold:
  fixes k :: "nat \<Rightarrow> u32"
  defines "pick \<equiv> \<lambda>valid selected pair. if valid ! pair \<and>
     (case selected of None \<Rightarrow> True | Some s \<Rightarrow> k pair < k s) then Some pair else selected"
  shows "case foldl (pick valid) None [0..<n] of
      None \<Rightarrow> \<forall>p<n. \<not> valid ! p
    | Some s \<Rightarrow> s < n \<and> valid ! s \<and> (\<forall>p<n. valid ! p \<longrightarrow> k s \<le> k p \<and> (k p = k s \<longrightarrow> s \<le> p))"
proof (induction n)
  case 0
  then show ?case by simp
next
  case (Suc n)
  then show ?case
    by (auto simp: pick_def less_Suc_eq not_less split: option.splits)
qed

lemma select_pair_spec:
  "case select_pair headers valid of
     None \<Rightarrow> \<forall>p<8. \<not> valid ! p
   | Some s \<Rightarrow> s < 8 \<and> valid ! s \<and> (\<forall>p<8. valid ! p \<longrightarrow>
       jh_sequence (headers ! s) \<le> jh_sequence (headers ! p) \<and>
       (jh_sequence (headers ! p) = jh_sequence (headers ! s) \<longrightarrow> s \<le> p))"
  unfolding select_pair_def by (rule select_fold)

section \<open>Replaying the journal\<close>

text \<open>
  The specification of recovery: restore the valid pairs in the order of their sequence numbers,
  each with its target and its journalled data, and clear its header.
\<close>

definition pair_target :: "flash \<Rightarrow> nat \<Rightarrow> nat" where
  "pair_target f p = unat (jh_target_offset (read_journal_header f p))"

definition pair_data :: "flash \<Rightarrow> nat \<Rightarrow> bytes" where
  "pair_data f p = flash_read f (journal_header_offset p + FLASH_SECTOR_SIZE) FLASH_SECTOR_SIZE"

definition replay_pair :: "flash \<Rightarrow> flash \<Rightarrow> nat \<Rightarrow> flash" where
  "replay_pair f0 f p =
     flash_fill (journal_header_offset p) FLASH_SECTOR_SIZE (flash_put (pair_target f0 p) (pair_data f0 p) f)"

definition replay_order :: "flash \<Rightarrow> nat list" where
  "replay_order f = sort_key (\<lambda>p. jh_sequence (read_journal_header f p))
     (filter (journal_valid f) [0..<FLASH_JOURNAL_PAIR_COUNT])"

definition journal_intact :: "flash \<Rightarrow> bool" where
  "journal_intact f \<longleftrightarrow> list_all (\<lambda>p. journal_valid f p \<longrightarrow>
     crc32_bytes (pair_data f p) = jh_data_crc32 (read_journal_header f p)) [0..<FLASH_JOURNAL_PAIR_COUNT]"

definition journal_clean :: "flash \<Rightarrow> bool" where
  "journal_clean f \<longleftrightarrow> list_all (\<lambda>p. \<not> journal_valid f p) [0..<FLASH_JOURNAL_PAIR_COUNT]"

lemma sort_key_first_min:
  fixes k :: "nat \<Rightarrow> 'b::linorder"
  assumes "sorted xs" and "distinct xs" and x: "x \<in> set xs"
    and min: "\<And>y. y \<in> set xs \<Longrightarrow> k x \<le> k y \<and> (k y = k x \<longrightarrow> x \<le> y)"
  shows "sort_key k xs = x # sort_key k (remove1 x xs)"
proof (rule properties_for_sort_key)
  show "mset (x # sort_key k (remove1 x xs)) = mset xs"
    using x by simp
  show "sorted (map k (x # sort_key k (remove1 x xs)))"
    using min assms(2) by simp
next
  fix y
  have "filter (\<lambda>z. k z = k y) (x # sort_key k (remove1 x xs)) = filter (\<lambda>z. k z = k y) xs"
  proof (cases "k y = k x")
    case False
    then show ?thesis
      by (simp add: sort_key_stable filter_remove1 remove1_idem)
  next
    case True
    let ?ys = "filter (\<lambda>z. k z = k x) xs"
    have "sorted ?ys" and "distinct ?ys" and "x \<in> set ?ys" and "\<And>y. y \<in> set ?ys \<Longrightarrow> x \<le> y"
      using assms(1,2) x min by (auto simp: sorted_wrt_filter)
    then have "?ys = x # remove1 x ?ys"
      by (cases ?ys) force+
    with True show ?thesis
      by (simp add: sort_key_stable filter_remove1)
  qed
  then show "filter (\<lambda>z. k y = k z) (x # sort_key k (remove1 x xs)) = filter (\<lambda>z. k y = k z) xs"
    by (simp add: eq_commute)
qed

lemma disk_block_bounds:
  assumes "disk_block_offset_valid t"
  shows "0x200000 \<le> t" "t + 0x1000 \<le> 0x400000" "t mod 0x1000 = 0"
  using assms and_pow2_minus_1 [of t 12] by (simp_all add: disk_block_offset_valid_def Let_def)

lemma journal_pair_bounds:
  assumes "p < 8"
  shows "0x1D0000 \<le> journal_header_offset p" "journal_header_offset p + 0x2000 \<le> 0x1E0000"
  using assms by (simp_all add: journal_header_offset_def)

lemma journal_pair_disjoint:
  assumes "p \<noteq> q"
  shows "journal_header_offset p + 0x2000 \<le> journal_header_offset q \<or>
    journal_header_offset q + 0x2000 \<le> journal_header_offset p"
  using assms by (cases "p < q") (auto simp: journal_header_offset_def)

lemma journal_valid_target: "journal_valid f p \<Longrightarrow> disk_block_offset_valid (pair_target f p)"
  by (simp add: journal_valid_def pair_target_def read_journal_header_def Let_def)

lemma length_pair_data [simp]: "length (pair_data f p) = FLASH_SECTOR_SIZE"
  by (simp add: pair_data_def)

lemma replay_pair_other:
  assumes "disk_block_offset_valid (pair_target f0 p)" and "p < 8" and "q < 8" and "p \<noteq> q"
  shows "pair_data (replay_pair f0 f p) q = pair_data f q"
    and "journal_valid (replay_pair f0 f p) q = journal_valid f q"
    and "read_journal_header (replay_pair f0 f p) q = read_journal_header f q"
proof -
  note facts = disk_block_bounds [OF assms(1)] journal_pair_bounds [OF assms(3)]
    journal_pair_disjoint [OF assms(4)]
  have eq: "replay_pair f0 f p a = f a"
    if "journal_header_offset q \<le> a" "a < journal_header_offset q + 0x2000" for a
    using facts that by (auto simp: replay_pair_def flash_fill_def flash_put_def)
  show "pair_data (replay_pair f0 f p) q = pair_data f q"
    unfolding pair_data_def by (rule flash_read_cong) (simp add: eq)
  show "journal_valid (replay_pair f0 f p) q = journal_valid f q"
    and "read_journal_header (replay_pair f0 f p) q = read_journal_header f q"
    by (rule journal_valid_cong, simp add: eq)+
qed

lemma replay_pair_same:
  "\<not> journal_valid (replay_pair f0 f p) p"
  by (rule cleared_invalid) (simp add: replay_pair_def flash_fill_def)

context flash_device
begin

lemma restore_exact:
  assumes "length data = FLASH_SECTOR_SIZE"
  shows "restore_callback d (journal_header_offset p) t data f =
    (True, flash_fill (journal_header_offset p) FLASH_SECTOR_SIZE (flash_put t data f))"
proof -
  have "fd_program d t data (flash_fill t FLASH_SECTOR_SIZE f) = flash_put t data f"
    using assms by (subst program_erased) (auto simp: flash_put_def flash_fill_def)
  moreover have "rd32 (flash_read (flash_fill (journal_header_offset p) FLASH_SECTOR_SIZE g)
      (journal_header_offset p) 4) = 0xFFFFFFFF" for g
    by (rule cleared_invalid) (simp add: flash_fill_def)
  ultimately show ?thesis
    using assms by (simp add: restore_callback_def Let_def)
qed

lemma recover_loop_exact:
  assumes "length valid = 8" and "headers = map (read_journal_header f0) [0..<8]"
    and "\<And>p. p < 8 \<Longrightarrow> valid ! p \<Longrightarrow> journal_valid f0 p \<and> pair_data f p = pair_data f0 p \<and>
      crc32_bytes (pair_data f0 p) = jh_data_crc32 (read_journal_header f0 p)"
    and "length (filter (\<lambda>p. valid ! p) [0..<8]) \<le> n"
  shows "recover_loop d (\<lambda>_. True) n headers valid f =
    (True, foldl (replay_pair f0) f (sort_key (\<lambda>p. jh_sequence (read_journal_header f0 p))
       (filter (\<lambda>p. valid ! p) [0..<8])))"
  using assms
proof (induction n arbitrary: valid f)
  case 0
  then show ?case by simp
next
  case (Suc n)
  let ?vs = "filter (\<lambda>p. valid ! p) [0..<8]"
  show ?case
  proof (cases "select_pair headers valid")
    case None
    with select_pair_spec [where headers = headers and valid = valid] have "?vs = []"
      by (simp add: filter_empty_conv)
    with None show ?thesis by (simp del: upt_rec_numeral)
  next
    case (Some p)
    with select_pair_spec [where headers = headers and valid = valid] Suc.prems(2)
    have p: "p < 8" "valid ! p" and min: "\<And>q. q \<in> set ?vs \<Longrightarrow>
        jh_sequence (read_journal_header f0 p) \<le> jh_sequence (read_journal_header f0 q) \<and>
        (jh_sequence (read_journal_header f0 q) = jh_sequence (read_journal_header f0 p) \<longrightarrow> p \<le> q)"
      by (auto simp del: upt_rec_numeral)
    have vs: "filter (\<lambda>q. valid[p := False] ! q) [0..<8] = remove1 p ?vs"
      using p Suc.prems(1)
      by (subst distinct_remove1_removeAll)
        (auto simp: removeAll_filter_not_eq nth_list_update conj_commute
          simp del: upt_rec_numeral intro!: filter_cong split: if_splits)
    have sort: "sort_key (\<lambda>p. jh_sequence (read_journal_header f0 p)) ?vs =
        p # sort_key (\<lambda>p. jh_sequence (read_journal_header f0 p)) (remove1 p ?vs)"
      using p min by (intro sort_key_first_min) (auto simp: sorted_wrt_filter simp del: upt_rec_numeral)
    note v = Suc.prems(3) [OF p]
    have t: "disk_block_offset_valid (pair_target f0 p)"
      using v by (simp add: journal_valid_target)
    have "recover_loop d (\<lambda>_. True) n headers (valid[p := False]) (replay_pair f0 f p) =
      (True, foldl (replay_pair f0) (replay_pair f0 f p)
        (sort_key (\<lambda>p. jh_sequence (read_journal_header f0 p)) (remove1 p ?vs)))"
      unfolding vs [symmetric]
    proof (rule Suc.IH)
      fix q
      assume q: "q < 8" "valid[p := False] ! q"
      then have "q \<noteq> p" "valid ! q"
        using Suc.prems(1) p by (auto simp: nth_list_update split: if_splits)
      with Suc.prems(3) [of q] q replay_pair_other [OF t, of q f] p
      show "journal_valid f0 q \<and> pair_data (replay_pair f0 f p) q = pair_data f0 q \<and>
        crc32_bytes (pair_data f0 q) = jh_data_crc32 (read_journal_header f0 q)"
        by simp
    next
      have "p \<in> set ?vs" using p by simp
      with Suc.prems(4) show "length (filter (\<lambda>q. valid[p := False] ! q) [0..<8]) \<le> n"
        unfolding vs by (simp add: length_remove1 del: upt_rec_numeral)
    qed (use Suc.prems in simp_all)
    moreover have "headers ! p = read_journal_header f0 p"
      using Suc.prems(2) p by simp
    ultimately show ?thesis
      using Some v by (simp add: sort Let_def restore_exact pair_data_def [symmetric]
          replay_pair_def [symmetric] pair_target_def [symmetric] del: upt_rec_numeral)
  qed
qed

lemma recover_journal_exact:
  assumes "journal_intact f"
  shows "recover_journal d (\<lambda>_. True) f = (True, foldl (replay_pair f) f (replay_order f))"
proof -
  have "filter (\<lambda>p. map (journal_valid f) [0..<8] ! p) [0..<8] = filter (journal_valid f) [0..<8]"
    by (rule filter_cong) (simp_all del: upt_rec_numeral)
  moreover have "length (filter (journal_valid f) [0..<8]) \<le> 8"
    by (rule order.trans [OF length_filter_le]) simp
  ultimately show ?thesis
    unfolding recover_journal_def Let_def replay_order_def
    using assms by (subst recover_loop_exact [where f0 = f]) (auto simp: journal_intact_def list_all_iff simp del: upt_rec_numeral)
qed

end

section \<open>Running the writer\<close>

named_theorems fx_simps \<open>one step of the effect monad\<close>

lemma fx_steps [fx_simps]:
  "fbind (fret x) k b = k x b"
  "fbind (flash_do g) k' b = k' () (b\<lparr>be_flash := g (be_flash b)\<rparr>)"
  "fbind flash_get k'' b = k'' (be_flash b) b"
  "fbind (inject_power_cut point) k' b =
     (if armed_fault b = point then (Rebooted, b\<lparr>armed_fault := Z80_FLASH_FAULT_NONE\<rparr>) else k' () b)"
  "fret x b = (Returned x, b)"
  by (auto simp: fbind_def fret_def flash_do_def flash_get_def inject_power_cut_def consume_fault_def
      reboot_after_flash_failure_def)

text \<open>What the flash holds: the journalled sector, or the finished one.\<close>

definition journal_holds :: "write_params \<Rightarrow> flash \<Rightarrow> bool" where
  "journal_holds p f \<longleftrightarrow> flash_read f (wp_header_offset p) FLASH_PAGE_SIZE = wp_header p \<and>
     flash_read f (wp_data_offset p) FLASH_SECTOR_SIZE = wp_data p"

definition header_blank :: "write_params \<Rightarrow> flash \<Rightarrow> bool" where
  "header_blank p f \<longleftrightarrow> flash_read f (wp_header_offset p) FLASH_SECTOR_SIZE = replicate FLASH_SECTOR_SIZE 0xFF"

definition target_holds :: "write_params \<Rightarrow> bytes \<Rightarrow> flash \<Rightarrow> bool" where
  "target_holds p data f \<longleftrightarrow> flash_read f (wp_target_offset p) FLASH_SECTOR_SIZE = data"

definition params_ok :: "nat \<Rightarrow> write_params \<Rightarrow> bool" where
  "params_ok pair p \<longleftrightarrow> pair < FLASH_JOURNAL_PAIR_COUNT \<and> wp_header_offset p = journal_header_offset pair \<and>
     wp_data_offset p = journal_header_offset pair + FLASH_SECTOR_SIZE \<and>
     disk_block_offset_valid (wp_target_offset p) \<and> length (wp_data p) = FLASH_SECTOR_SIZE \<and>
     (\<exists>sequence. wp_header p = header_bytes FLASH_JOURNAL_MAGIC sequence (of_nat (wp_target_offset p))
        (crc32_bytes (wp_data p)))"

definition same_outside :: "write_params \<Rightarrow> flash \<Rightarrow> flash \<Rightarrow> bool" where
  "same_outside p f g \<longleftrightarrow> (\<forall>a. \<not> (wp_header_offset p \<le> a \<and> a < wp_header_offset p + FLASH_JOURNAL_PAIR_BYTES) \<longrightarrow>
     \<not> (wp_target_offset p \<le> a \<and> a < wp_target_offset p + FLASH_SECTOR_SIZE) \<longrightarrow> g a = f a)"

definition journal_data :: "flash_dev \<Rightarrow> write_params \<Rightarrow> flash \<Rightarrow> flash" where
  "journal_data d p f = fd_program d (wp_data_offset p) (wp_data p)
     (fd_erase d (wp_header_offset p) FLASH_JOURNAL_PAIR_BYTES f)"

definition journal_written :: "flash_dev \<Rightarrow> write_params \<Rightarrow> flash \<Rightarrow> flash" where
  "journal_written d p f = fd_program d (wp_header_offset p) (wp_header p) (journal_data d p f)"

definition target_erased :: "flash_dev \<Rightarrow> write_params \<Rightarrow> flash \<Rightarrow> flash" where
  "target_erased d p f = fd_erase d (wp_target_offset p) FLASH_SECTOR_SIZE (journal_written d p f)"

definition target_half :: "flash_dev \<Rightarrow> write_params \<Rightarrow> flash \<Rightarrow> flash" where
  "target_half d p f = fd_program d (wp_target_offset p) (take 2048 (wp_data p)) (target_erased d p f)"

definition target_full :: "flash_dev \<Rightarrow> write_params \<Rightarrow> flash \<Rightarrow> flash" where
  "target_full d p f = fd_program d (wp_target_offset p + 2048) (drop 2048 (wp_data p)) (target_half d p f)"

definition header_cleared :: "flash_dev \<Rightarrow> write_params \<Rightarrow> flash \<Rightarrow> flash" where
  "header_cleared d p f = fd_erase d (wp_header_offset p) FLASH_SECTOR_SIZE (target_full d p f)"

lemma write_callback_run:
  fixes b
  defines "f \<equiv> be_flash b" and "reboot \<equiv> \<lambda>g. (Rebooted, b\<lparr>be_flash := g, armed_fault := 0\<rparr>)"
    and "return \<equiv> \<lambda>x g. (Returned x, b\<lparr>be_flash := g\<rparr>)"
  shows "write_callback d p b =
    (if armed_fault b = 1 then reboot (journal_data d p f)
     else if armed_fault b = 2 then reboot (journal_written d p f)
     else if \<not> journal_holds p (journal_written d p f) then return False (journal_written d p f)
     else if armed_fault b = 3 then reboot (target_erased d p f)
     else if armed_fault b = 4 then reboot (target_half d p f)
     else if \<not> target_holds p (wp_data p) (target_full d p f) then return False (target_full d p f)
     else if armed_fault b = 5 then reboot (target_full d p f)
     else if rd32 (flash_read (header_cleared d p f) (wp_header_offset p) 4) \<noteq> 0xFFFFFFFF
       then return False (header_cleared d p f)
     else if armed_fault b = 6 then reboot (header_cleared d p f)
     else return True (header_cleared d p f))"
  unfolding write_callback_def fx_simps
  by (simp add: fx_simps f_def reboot_def return_def journal_data_def journal_written_def target_erased_def
      target_half_def target_full_def header_cleared_def target_holds_def journal_holds_def conj_commute)

lemma write_callback_keep:
  assumes "write_callback d p b = (fate, b')"
  shows "be_cache b' = be_cache b" "journal_sequence b' = journal_sequence b"
    "next_journal_pair b' = next_journal_pair b" "flush_deadline b' = flush_deadline b"
  using assms unfolding write_callback_run by (auto split: if_splits)

context journal_flash
begin

lemma params_okD:
  assumes "params_ok pair p"
  shows "0x1D0000 \<le> wp_header_offset p" "wp_data_offset p = wp_header_offset p + 0x1000"
    "wp_header_offset p + 0x2000 \<le> 0x1E0000" "0x200000 \<le> wp_target_offset p"
    "length (wp_data p) = 0x1000" "length (wp_header p) = 0x100"
  using assms journal_pair_bounds [of pair] disk_block_bounds [of "wp_target_offset p"]
  by (auto simp: params_ok_def)

lemma FF_and [simp]: "(0xFF :: u8) AND w = w"
proof -
  have "(0xFF :: u8) = - 1"
    by simp
  then show ?thesis
    by (metis and.left_neutral)
qed

lemma journal_data_at:
  assumes "params_ok pair p"
  shows "journal_data d p f a = (if wp_header_offset p \<le> a \<and> a < wp_data_offset p then 0xFF
     else if wp_data_offset p \<le> a \<and> a < wp_data_offset p + 0x1000 then wp_data p ! (a - wp_data_offset p)
     else f a)"
proof -
  note ok = params_okD [OF assms(1)]
  let ?e = "fd_erase d (wp_header_offset p) 0x2000 f"
  have e: "?e a = (if wp_header_offset p \<le> a \<and> a < wp_header_offset p + 0x2000 then 0xFF else f a)"
    using ok erase_journal [of "wp_header_offset p" "0x2000" a f] erase_frame [of a "wp_header_offset p" "0x2000" f]
    by (auto simp: in_journal_def)
  have "journal_data d p f a = (if wp_data_offset p \<le> a \<and> a < wp_data_offset p + 0x1000
      then ?e a AND wp_data p ! (a - wp_data_offset p) else ?e a)"
    using ok program_journal [of "wp_data_offset p" "wp_data p" a ?e]
      program_frame [of a "wp_data_offset p" "wp_data p" ?e]
    by (auto simp: in_journal_def journal_data_def)
  with e ok show ?thesis by auto
qed

lemma journal_written_at:
  assumes "params_ok pair p"
  shows "journal_written d p f a = (if wp_header_offset p \<le> a \<and> a < wp_header_offset p + 0x100
       then wp_header p ! (a - wp_header_offset p)
     else if wp_header_offset p \<le> a \<and> a < wp_data_offset p then 0xFF
     else if wp_data_offset p \<le> a \<and> a < wp_data_offset p + 0x1000 then wp_data p ! (a - wp_data_offset p)
     else f a)"
proof -
  note ok = params_okD [OF assms]
  let ?g = "journal_data d p f"
  have "journal_written d p f a = (if wp_header_offset p \<le> a \<and> a < wp_header_offset p + 0x100
      then ?g a AND wp_header p ! (a - wp_header_offset p) else ?g a)"
    using ok program_journal [of "wp_header_offset p" "wp_header p" a ?g]
      program_frame [of a "wp_header_offset p" "wp_header p" ?g]
    by (auto simp: in_journal_def journal_written_def)
  with journal_data_at [OF assms, of f a] ok show ?thesis by auto
qed

lemma journal_holds_off_target:
  assumes "params_ok pair p"
    and "\<And>a. a < wp_target_offset p \<or> wp_target_offset p + 0x1000 \<le> a \<Longrightarrow> g a = journal_written d p f a"
  shows "journal_holds p g" "same_outside p f g"
proof -
  note ok = params_okD [OF assms(1)]
  show "journal_holds p g"
    using ok by (auto simp: journal_holds_def flash_read_eq_iff assms(2) journal_written_at [OF assms(1)])
  show "same_outside p f g"
    using ok assms(2) by (auto simp: same_outside_def journal_written_at [OF assms(1)] not_less not_le)
qed

lemma header_erased:
  assumes "params_ok pair p" and "target_holds p data g" and "same_outside p f g"
  defines "h \<equiv> fd_erase d (wp_header_offset p) FLASH_SECTOR_SIZE g"
  shows "header_blank p h" "target_holds p data h" "same_outside p f h"
proof -
  note ok = params_okD [OF assms(1)]
  have h: "h a = (if wp_header_offset p \<le> a \<and> a < wp_header_offset p + 0x1000 then 0xFF else g a)" for a
    using ok erase_journal [of "wp_header_offset p" "0x1000" a g] erase_frame [of a "wp_header_offset p" "0x1000" g]
    by (auto simp: in_journal_def h_def)
  show "header_blank p h"
    by (auto simp: header_blank_def flash_read_eq_iff h)
  show "target_holds p data h"
    using assms(2) ok by (auto simp: target_holds_def flash_read_eq_iff h)
  show "same_outside p f h"
    using assms(3) by (auto simp: same_outside_def h)
qed

text \<open>
  The four situations the writer can leave behind: nothing but a journal without header; a complete
  journal (whatever the target looks like); the new sector with its header cleared.
\<close>

lemma write_callback_outcome:
  assumes p: "params_ok pair p" and run: "write_callback d p b = (fate, b')"
  defines "f \<equiv> be_flash b" and "g \<equiv> be_flash b'"
  shows "same_outside p f g \<and>
    (fate = Rebooted \<and> header_blank p g \<and> target_holds p (flash_read f (wp_target_offset p) FLASH_SECTOR_SIZE) g \<or>
     fate \<noteq> Returned True \<and> journal_holds p g \<or>
     header_blank p g \<and> target_holds p (wp_data p) g)" (is "?P g fate")
proof -
  note ok = params_okD [OF p]
  let ?stages = "{journal_written d p f, target_erased d p f, target_half d p f, target_full d p f}"
  have 1: "?P (journal_data d p f) Rebooted"
    using ok by (auto simp: header_blank_def target_holds_def flash_read_eq_iff same_outside_def
        journal_data_at [OF p])
  have "g' a = journal_written d p f a" if "g' \<in> ?stages"
      "a < wp_target_offset p \<or> wp_target_offset p + 0x1000 \<le> a" for g' a
    using that ok
    by (auto simp: target_erased_def target_half_def target_full_def erase_frame program_frame)
  then have 2: "journal_holds p g' \<and> same_outside p f g'" if "g' \<in> ?stages" for g'
    using that journal_holds_off_target [OF p, of g' f] by blast
  have 3: "header_blank p (header_cleared d p f) \<and> target_holds p (wp_data p) (header_cleared d p f) \<and>
      same_outside p f (header_cleared d p f)"
    if "target_holds p (wp_data p) (target_full d p f)"
    using header_erased [OF p that, of f] 2 [of "target_full d p f"] by (simp add: header_cleared_def)
  have "(g = journal_data d p f \<and> fate = Rebooted) \<or> (g \<in> ?stages \<and> fate \<noteq> Returned True) \<or>
      (g = header_cleared d p f \<and> target_holds p (wp_data p) (target_full d p f))"
    using run unfolding write_callback_run g_def f_def by (auto split: if_splits)
  with 1 2 3 show ?thesis
    by blast
qed

end

section \<open>Recovery after an interrupted write\<close>

lemma pair_valid_outside:
  assumes "params_ok pair p" and "same_outside p f g" and "q < 8" and "q \<noteq> pair"
  shows "journal_valid g q = journal_valid f q"
proof (rule journal_valid_cong)
  fix a
  assume "journal_header_offset q \<le> a" "a < journal_header_offset q + FLASH_PAGE_SIZE"
  with assms journal_pair_disjoint [OF assms(4)] journal_pair_bounds [OF assms(3)]
    disk_block_bounds [of "wp_target_offset p"]
  show "g a = f a"
    by (auto simp: params_ok_def same_outside_def)
qed

lemma blank_invalid:
  assumes "params_ok pair p" and "header_blank p g"
  shows "\<not> journal_valid g pair"
proof (rule cleared_invalid)
  fix a
  assume a: "journal_header_offset pair \<le> a" "a < journal_header_offset pair + 4"
  define i where "i = a - journal_header_offset pair"
  have "i < 4096" "a = journal_header_offset pair + i"
    using a by (simp_all add: i_def)
  with assms show "g a = 0xFF"
    by (simp add: params_ok_def header_blank_def flash_read_eq_iff)
qed

lemma blank_clean:
  assumes "params_ok pair p" and "same_outside p f g" and "journal_clean f" and "header_blank p g"
  shows "journal_clean g"
  unfolding journal_clean_def list_all_iff
proof (intro ballI)
  fix q
  assume "q \<in> set [0..<8]"
  with assms pair_valid_outside [OF assms(1,2), of q] blank_invalid [OF assms(1,4)]
  show "\<not> journal_valid g q"
    by (cases "q = pair") (auto simp: journal_clean_def list_all_iff simp del: upt_rec_numeral)
qed

lemma held_pair:
  assumes "params_ok pair p" and "journal_holds p g"
  shows "journal_valid g pair" "pair_target g pair = wp_target_offset p" "pair_data g pair = wp_data p"
    "jh_data_crc32 (read_journal_header g pair) = crc32_bytes (wp_data p)"
proof -
  from assms obtain sequence where h: "flash_read g (journal_header_offset pair) FLASH_PAGE_SIZE =
      header_bytes FLASH_JOURNAL_MAGIC sequence (of_nat (wp_target_offset p)) (crc32_bytes (wp_data p))"
    by (auto simp: params_ok_def journal_holds_def)
  have t: "disk_block_offset_valid (wp_target_offset p)" and w: "wp_target_offset p < 0x400000"
    using assms disk_block_bounds [of "wp_target_offset p"] by (auto simp: params_ok_def)
  have u: "unat (of_nat (wp_target_offset p) :: u32) = wp_target_offset p"
    using w by (simp add: unat_of_nat)
  show "journal_valid g pair" "pair_target g pair = wp_target_offset p"
    "jh_data_crc32 (read_journal_header g pair) = crc32_bytes (wp_data p)"
    using t u by (simp_all add: journal_valid_def pair_target_def read_journal_header_def h)
  show "pair_data g pair = wp_data p"
    using assms by (simp add: pair_data_def params_ok_def journal_holds_def)
qed

lemma clean_order [simp]: "journal_clean f \<Longrightarrow> replay_order f = []" "journal_clean f \<Longrightarrow> journal_intact f"
  by (simp_all add: journal_clean_def replay_order_def journal_intact_def list_all_iff filter_empty_conv
      del: upt_rec_numeral)

lemma filter_single: "distinct xs \<Longrightarrow> x \<in> set xs \<Longrightarrow> filter (\<lambda>y. y = x) xs = [x]"
  by (induction xs) (auto simp: filter_empty_conv)

lemma held_order:
  assumes "params_ok pair p" and "same_outside p f g" and "journal_clean f" and "journal_holds p g"
  shows "replay_order g = [pair]" "journal_intact g"
proof -
  have "journal_valid g q \<longleftrightarrow> q = pair" if "q < 8" for q
    using assms(3) that pair_valid_outside [OF assms(1,2), of q] held_pair(1) [OF assms(1,4)]
    by (cases "q = pair") (auto simp: journal_clean_def list_all_iff simp del: upt_rec_numeral)
  then have v: "q \<in> set [0..<8] \<Longrightarrow> journal_valid g q \<longleftrightarrow> q = pair" for q
    by (simp del: upt_rec_numeral)
  have "filter (journal_valid g) [0..<8] = filter (\<lambda>q. q = pair) [0..<8]"
    by (rule filter_cong [OF refl v])
  also have "\<dots> = [pair]"
    using assms(1) by (intro filter_single) (auto simp: params_ok_def simp del: upt_rec_numeral)
  finally show "replay_order g = [pair]"
    by (simp add: replay_order_def)
  show "journal_intact g"
    using v held_pair [OF assms(1,4)] by (auto simp: journal_intact_def list_all_iff simp del: upt_rec_numeral)
qed

definition recovered :: "write_params \<Rightarrow> flash \<Rightarrow> bytes \<Rightarrow> flash \<Rightarrow> bool" where
  "recovered p f data f' \<longleftrightarrow> journal_clean f' \<and>
     (\<forall>a. Z80_FLASH_BOOT_OFFSET \<le> a \<longrightarrow>
        f' a = (if wp_target_offset p \<le> a \<and> a < wp_target_offset p + FLASH_SECTOR_SIZE
                then data ! (a - wp_target_offset p) else f a))"

lemma recovered_blank:
  assumes p: "params_ok pair p" and s: "same_outside p f g" and "journal_clean f" and "header_blank p g"
    and t: "target_holds p data g"
  shows "recovered p f data g"
  unfolding recovered_def
proof (intro conjI allI impI)
  show "journal_clean g"
    by (rule blank_clean) fact+
  fix a
  assume a: "Z80_FLASH_BOOT_OFFSET \<le> a"
  show "g a = (if wp_target_offset p \<le> a \<and> a < wp_target_offset p + FLASH_SECTOR_SIZE
      then data ! (a - wp_target_offset p) else f a)"
  proof (cases "wp_target_offset p \<le> a \<and> a < wp_target_offset p + FLASH_SECTOR_SIZE")
    case True
    with t have "g (wp_target_offset p + (a - wp_target_offset p)) = data ! (a - wp_target_offset p)"
      unfolding target_holds_def flash_read_eq_iff by (metis add_less_imp_less_left le_add_diff_inverse)
    with True show ?thesis by simp
  next
    case False
    with s a p journal_pair_bounds [of pair] show ?thesis
      by (auto simp: same_outside_def params_ok_def)
  qed
qed

lemma recovered_held:
  assumes p: "params_ok pair p" and s: "same_outside p f g" and c: "journal_clean f" and j: "journal_holds p g"
  shows "recovered p f (wp_data p) (replay_pair g g pair)"
proof (rule recovered_blank [OF p _ c])
  note h = held_pair [OF p j]
  note ok = journal_pair_bounds [of pair] disk_block_bounds [of "wp_target_offset p"]
  show "same_outside p f (replay_pair g g pair)"
    using s p by (auto simp: same_outside_def replay_pair_def h flash_fill_def flash_put_def params_ok_def)
  show "header_blank p (replay_pair g g pair)"
    using p by (auto simp: header_blank_def flash_read_eq_iff replay_pair_def flash_fill_def params_ok_def)
  show "target_holds p (wp_data p) (replay_pair g g pair)"
    using p ok by (auto simp: target_holds_def flash_read_eq_iff replay_pair_def flash_fill_def flash_put_def
        h params_ok_def)
qed

lemma write_then_recover:
  assumes w: "journal_flash dw" and r: "flash_device dr" and p: "params_ok pair p"
    and c: "journal_clean (be_flash b)" and run: "write_callback dw p b = (fate, b')"
  shows "\<exists>f'. recover_journal dr (\<lambda>_. True) (be_flash b') = (True, f') \<and>
    (recovered p (be_flash b) (wp_data p) f' \<or>
     fate = Rebooted \<and> recovered p (be_flash b)
       (flash_read (be_flash b) (wp_target_offset p) FLASH_SECTOR_SIZE) f')"
proof -
  note out = journal_flash.write_callback_outcome [OF w p run]
  then have s: "same_outside p (be_flash b) (be_flash b')"
    by simp
  note rec = flash_device.recover_journal_exact [OF r, of "be_flash b'"]
  show ?thesis
  proof (cases "journal_holds p (be_flash b')")
    case True
    with rec held_order [OF p s c] recovered_held [OF p s c] show ?thesis
      by simp
  next
    case False
    with out have blank: "header_blank p (be_flash b')" by auto
    with rec recovered_blank [OF p s c blank] blank_clean [OF p s c blank] out False show ?thesis
      by auto
  qed
qed

section \<open>Replaying clears the journal\<close>

lemma replay_valid_subset:
  assumes "\<And>p. p \<in> set ps \<Longrightarrow> p < 8 \<and> journal_valid f0 p" and "q < 8"
    and "journal_valid (foldl (replay_pair f0) f ps) q"
  shows "journal_valid f q \<and> q \<notin> set ps"
  using assms
proof (induction ps arbitrary: f)
  case Nil
  then show ?case by simp
next
  case (Cons p ps)
  then have p: "p < 8" "disk_block_offset_valid (pair_target f0 p)"
    by (auto intro: journal_valid_target)
  from Cons have "journal_valid (replay_pair f0 f p) q \<and> q \<notin> set ps"
    by simp
  then show ?case
    using replay_pair_same [of f0 f p] replay_pair_other(2) [OF p(2,1), of q f] Cons.prems(2)
    by (cases "q = p") auto
qed

lemma replay_clean: "journal_clean (foldl (replay_pair f) f (replay_order f))"
  unfolding journal_clean_def list_all_iff
proof (intro ballI notI)
  fix q
  assume q: "q \<in> set [0..<8]" and v: "journal_valid (foldl (replay_pair f) f (replay_order f)) q"
  have "journal_valid f q \<and> q \<notin> set (replay_order f)"
    using q by (intro replay_valid_subset [OF _ _ v]) (auto simp: replay_order_def simp del: upt_rec_numeral)
  with q show False
    by (simp add: replay_order_def del: upt_rec_numeral)
qed

section \<open>Properties\<close>

text \<open>
  C6. Recovery at boot is the replay of the journal in the order of its sequence numbers: whatever
  number of pending entries the eight pairs hold, every one whose data still matches its
  checksum is written to its target, oldest first, and its header is cleared; recovery then
  reports success, no entry is pending, and a second recovery changes nothing.
\<close>

theorem recovery_replays_in_order:
  assumes "flash_device d" and "journal_intact f"
  defines "f' \<equiv> foldl (replay_pair f) f (replay_order f)"
  shows "recover_journal d (\<lambda>_. True) f = (True, f') \<and> journal_clean f' \<and>
    recover_journal d (\<lambda>_. True) f' = (True, f')"
  using flash_device.recover_journal_exact [OF assms(1)] assms(2) replay_clean [of f]
  by (simp add: f'_def)

text \<open>A flash with one journalled sector, as a power cut before the target write leaves it.\<close>

definition sample_params :: write_params where
  "sample_params = \<lparr>wp_header_offset = journal_header_offset 2,
     wp_data_offset = journal_header_offset 2 + FLASH_SECTOR_SIZE, wp_target_offset = Z80_FLASH_DISK_OFFSET,
     wp_data = replicate FLASH_SECTOR_SIZE 0xE5,
     wp_header = header_bytes FLASH_JOURNAL_MAGIC 1 (of_nat Z80_FLASH_DISK_OFFSET)
       (crc32_bytes (replicate FLASH_SECTOR_SIZE 0xE5))\<rparr>"

lemma sample_params_ok: "params_ok 2 sample_params"
  using and_pow2_minus_1 [of Z80_FLASH_DISK_OFFSET 12]
  unfolding params_ok_def by (auto simp: sample_params_def disk_block_offset_valid_def)

lemma blank_journal: "journal_clean (\<lambda>_. 0xFF)"
  using cleared_invalid(1) by (simp add: journal_clean_def list_all_iff)

theorem recovery_replays_in_order_witness:
  "\<exists>f'. recover_journal host_flash (\<lambda>_. True) (journal_written host_flash sample_params (\<lambda>_. 0xFF)) = (True, f') \<and>
     journal_clean f' \<and> flash_read f' Z80_FLASH_DISK_OFFSET FLASH_SECTOR_SIZE = replicate FLASH_SECTOR_SIZE 0xE5"
proof -
  let ?f = "journal_written host_flash sample_params (\<lambda>_. 0xFF)"
  note h = host.journal_holds_off_target [OF sample_params_ok refl, of "\<lambda>_. 0xFF"]
  note o = held_order [OF sample_params_ok h(2) blank_journal h(1)]
  have "recovered sample_params (\<lambda>_. 0xFF) (wp_data sample_params) (replay_pair ?f ?f 2)"
    by (rule recovered_held [OF sample_params_ok h(2) blank_journal h(1)])
  then have "flash_read (replay_pair ?f ?f 2) Z80_FLASH_DISK_OFFSET FLASH_SECTOR_SIZE = replicate FLASH_SECTOR_SIZE 0xE5"
    by (simp add: recovered_def flash_read_eq_iff sample_params_def)
  then show ?thesis
    using recovery_replays_in_order [OF host.flash_device_axioms o(2)] o(1) by simp
qed

end
