(* ===== verification/Flash_Records.thy ===== *)
theory Flash_Records
  imports Flash_Journal
begin

text \<open>
  The sector cache of \<open>flash_backend.c\<close> over the journal: its invariant \<open>cache_ok\<close>, the disk \<open>disk_view\<close>
  that a reader sees, what flushing, selecting, reading and writing a record do to it, and the
  properties of the disk storage.
\<close>

section \<open>The cache\<close>

definition cache_target :: "backend \<Rightarrow> nat" where
  "cache_target b = Z80_FLASH_DISK_OFFSET + dc_drive (be_cache b) * Z80_FLASH_DISK_SLOT_BYTES +
     dc_block (be_cache b)"

definition cache_ok :: "backend \<Rightarrow> bool" where
  "cache_ok b \<longleftrightarrow> (let c = be_cache b in
     (dc_dirty c \<longrightarrow> dc_valid c) \<and>
     (dc_valid c \<longrightarrow> dc_drive c < Z80_FLASH_DISK_SLOT_COUNT \<and> dc_block c < Z80_FLASH_DISK_SLOT_BYTES \<and>
        dc_block c mod FLASH_SECTOR_SIZE = 0 \<and> length (dc_data c) = FLASH_SECTOR_SIZE \<and>
        (\<not> dc_dirty c \<longrightarrow> flash_read (be_flash b) (cache_target b) FLASH_SECTOR_SIZE = dc_data c)))"

definition disk_view :: "backend \<Rightarrow> flash" where
  "disk_view b = (if dc_valid (be_cache b) then flash_put (cache_target b) (dc_data (be_cache b)) (be_flash b)
     else be_flash b)"

definition record_at :: "nat \<Rightarrow> u16 \<Rightarrow> nat" where
  "record_at drive lba = Z80_FLASH_DISK_OFFSET + drive * Z80_FLASH_DISK_SLOT_BYTES + sector_offset lba"

definition same_disk :: "flash \<Rightarrow> flash \<Rightarrow> bool" where
  "same_disk f g \<longleftrightarrow> (\<forall>a \<ge> Z80_FLASH_BOOT_OFFSET. g a = f a)"

lemma cache_target_valid:
  assumes "cache_ok b" and "dc_valid (be_cache b)"
  shows "disk_block_offset_valid (cache_target b)"
proof -
  have "dc_drive (be_cache b) \<le> 3" "dc_block (be_cache b) + 0x1000 \<le> 0x80000" "cache_target b mod 2 ^ 12 = 0"
    using assms by (auto simp: cache_ok_def Let_def cache_target_def)
  then show ?thesis
    using and_pow2_minus_1 [of "cache_target b" 12]
    by (simp add: disk_block_offset_valid_def Let_def cache_target_def)
qed

lemma flush_params_ok:
  assumes "cache_ok b" and "dc_dirty (be_cache b)"
  shows "params_ok (unat (next_journal_pair b mod 8)) (flush_params b)"
    and "wp_target_offset (flush_params b) = cache_target b" and "wp_data (flush_params b) = dc_data (be_cache b)"
proof -
  have "next_journal_pair b mod 8 < 8"
    by (rule word_mod_less_divisor) simp
  then have "unat (next_journal_pair b mod 8) < 8"
    by (simp add: word_less_nat_alt)
  moreover have "dc_valid (be_cache b)"
    using assms by (simp add: cache_ok_def Let_def)
  ultimately show "params_ok (unat (next_journal_pair b mod 8)) (flush_params b)"
    using assms cache_target_valid [of b]
    by (auto simp: params_ok_def flush_params_def Let_def cache_ok_def cache_target_def)
qed (simp_all add: flush_params_def cache_target_def Let_def)

text \<open>A flush is refused, or cut before the writer, or is a run of the writer.\<close>

lemma flush_cases:
  assumes run: "flush_disk_cache d env b = (fate, b')" and dirty: "dc_dirty (be_cache b)"
  obtains (refused) "fate = Returned False" "b' = b"
  | (cut) "fate = Rebooted" "be_flash b' = be_flash b" "be_cache b' = be_cache b"
  | (reboot) wfate b1 b2 where "fate = Rebooted" "be_flash b1 = be_flash b"
      "write_callback d (flush_params b) b1 = (wfate, b2)" "be_flash b' = be_flash b2"
  | (ran) committed b1 b2 where "fate = Returned (bus_released env \<and> committed)" "be_flash b1 = be_flash b"
      "be_cache b1 = be_cache b" "write_callback d (flush_params b) b1 = (Returned committed, b2)"
      "b' = (if committed then b2\<lparr>be_cache := (be_cache b2)\<lparr>dc_dirty := False\<rparr>\<rparr> else b2)"
proof (cases "bus_acquired env")
  case False
  with run dirty refused show ?thesis by (simp add: flush_disk_cache_def)
next
  case bus: True
  define b1 where "b1 = b\<lparr>next_journal_pair := next_journal_pair b + 1, journal_sequence := journal_sequence b + 1\<rparr>"
  have b1: "be_flash b1 = be_flash b" "be_cache b1 = be_cache b" by (simp_all add: b1_def)
  note flush = run [unfolded flush_disk_cache_def Let_def, folded b1_def]
  show ?thesis
  proof (cases "armed_fault b = 7 \<or> \<not> lockout_ok env")
    case True
    with flush bus dirty b1 cut show ?thesis
      by (auto simp: fbind_def fret_def consume_fault_def reboot_after_flash_failure_def b1_def
          split: if_splits)
  next
    case False
    obtain wfate b2 where w: "write_callback d (flush_params b) b1 = (wfate, b2)"
      by (cases "write_callback d (flush_params b) b1")
    show ?thesis
    proof (cases wfate)
      case Rebooted
      with False flush bus dirty w have "fate = Rebooted" "b' = b2"
        by (auto simp: fbind_def fret_def consume_fault_def b1_def)
      with reboot b1 w show ?thesis by blast
    next
      case (Returned committed)
      show ?thesis
      proof (cases "armed_fault b2 = 8")
        case True
        with False flush bus dirty w Returned have "fate = Rebooted" "be_flash b' = be_flash b2"
          by (auto simp: fbind_def fret_def consume_fault_def b1_def reboot_after_flash_failure_def)
        with reboot b1 w show ?thesis by blast
      next
        case exit: False
        have "fate = Returned (bus_released env \<and> committed)"
          "b' = (if committed then b2\<lparr>be_cache := (be_cache b2)\<lparr>dc_dirty := False\<rparr>\<rparr> else b2)"
          using False flush bus dirty w Returned exit
          by (auto simp: fbind_def fret_def consume_fault_def b1_def with_cache_def)
        with ran b1 w Returned show ?thesis by blast
      qed
    qed
  qed
qed

lemma flush_clean: "\<not> dc_dirty (be_cache b) \<Longrightarrow> flush_disk_cache d env b = (Returned True, b)"
  by (simp add: flush_disk_cache_def)

lemma flush_then_recover:
  assumes w: "journal_flash dw" and r: "flash_device dr" and ok: "cache_ok b" and dirty: "dc_dirty (be_cache b)"
    and c: "journal_clean (be_flash b)" and run: "flush_disk_cache dw env b = (fate, b')"
  defines "p \<equiv> flush_params b" and "f \<equiv> be_flash b"
  shows "\<exists>f'. recover_journal dr (\<lambda>_. True) (be_flash b') = (True, f') \<and>
    (recovered p f (dc_data (be_cache b)) f' \<or>
     fate \<noteq> Returned True \<and> recovered p f (flash_read f (cache_target b) FLASH_SECTOR_SIZE) f')"
proof -
  note p = flush_params_ok [OF ok dirty]
  have unchanged: ?thesis if "be_flash b' = be_flash b" "fate \<noteq> Returned True"
  proof -
    have "recovered p f (flash_read f (cache_target b) FLASH_SECTOR_SIZE) f"
      using c by (auto simp: recovered_def p_def f_def p)
    with that flash_device.recover_journal_exact [OF r, of f] c show ?thesis
      by (auto simp: f_def)
  qed
  from run dirty show ?thesis
  proof (cases rule: flush_cases)
    case (reboot wfate b1 b2)
    with write_then_recover [OF w r p(1), of b1 wfate b2] c show ?thesis
      by (auto simp: p_def f_def p)
  next
    case (ran committed b1 b2)
    then have "be_flash b' = be_flash b2" by simp
    with ran write_then_recover [OF w r p(1), of b1 _ b2] c show ?thesis
      by (auto simp: p_def f_def p)
  qed (rule unchanged; simp)+
qed

lemma same_outside_disk:
  assumes "params_ok pair p" and "same_outside p f g"
    and "Z80_FLASH_BOOT_OFFSET \<le> a" and "a < wp_target_offset p \<or> wp_target_offset p + FLASH_SECTOR_SIZE \<le> a"
  shows "g a = f a"
  using assms journal_pair_bounds [of pair] by (auto simp: same_outside_def params_ok_def)

lemma same_disk_put:
  assumes "\<And>a. Z80_FLASH_BOOT_OFFSET \<le> a \<Longrightarrow> a < off \<or> off + length bs \<le> a \<Longrightarrow> g a = f a"
  shows "same_disk (flash_put off bs f) (flash_put off bs g)"
  using assms by (auto simp: same_disk_def flash_put_def)

lemma same_disk_held:
  assumes "flash_read g off (length bs) = bs"
    and "\<And>a. Z80_FLASH_BOOT_OFFSET \<le> a \<Longrightarrow> a < off \<or> off + length bs \<le> a \<Longrightarrow> g a = f a"
  shows "same_disk (flash_put off bs f) g"
  unfolding same_disk_def
proof (intro allI impI)
  fix a
  assume a: "Z80_FLASH_BOOT_OFFSET \<le> a"
  show "g a = flash_put off bs f a"
  proof (cases "off \<le> a \<and> a < off + length bs")
    case True
    then have "g (off + (a - off)) = bs ! (a - off)"
      using assms(1) unfolding flash_read_eq_iff by (metis add_less_imp_less_left le_add_diff_inverse)
    with True show ?thesis by (simp add: flash_put_def)
  next
    case False
    with assms(2) [OF a] show ?thesis by (auto simp: flash_put_def)
  qed
qed

lemma same_disk_trans: "same_disk f g \<Longrightarrow> same_disk g h \<Longrightarrow> same_disk f h"
  by (simp add: same_disk_def)

lemma clean_view:
  assumes "cache_ok b" and "\<not> dc_dirty (be_cache b)"
  shows "same_disk (disk_view b) (be_flash b)"
  using assms same_disk_held [of "be_flash b" "cache_target b" "dc_data (be_cache b)" "be_flash b"]
  by (auto simp: disk_view_def cache_ok_def Let_def same_disk_def)

lemma cache_ok_flushed:
  assumes "cache_ok b" and "be_cache b' = (be_cache b)\<lparr>dc_dirty := dirty\<rparr>" and "dc_dirty (be_cache b)"
    and "\<not> dirty \<Longrightarrow> flash_read (be_flash b') (cache_target b) FLASH_SECTOR_SIZE = dc_data (be_cache b)"
  shows "cache_ok b'"
  using assms by (auto simp: cache_ok_def Let_def cache_target_def)

lemma flush_view:
  assumes w: "journal_flash d" and ok: "cache_ok b" and run: "flush_disk_cache d env b = (Returned r, b')"
  shows "cache_ok b' \<and> same_disk (disk_view b) (disk_view b') \<and> (r \<longrightarrow> \<not> dc_dirty (be_cache b')) \<and>
    (r \<longrightarrow> journal_clean (be_flash b) \<longrightarrow> journal_clean (be_flash b'))"
proof (cases "dc_dirty (be_cache b)")
  case False
  with run ok show ?thesis by (simp add: flush_clean same_disk_def)
next
  case dirty: True
  note p = flush_params_ok [OF ok dirty]
  have valid: "dc_valid (be_cache b)" and len: "length (dc_data (be_cache b)) = FLASH_SECTOR_SIZE"
    using ok dirty by (auto simp: cache_ok_def Let_def)
  from run dirty show ?thesis
  proof (cases rule: flush_cases)
    case refused
    with ok show ?thesis by (simp add: same_disk_def)
  next
    case (ran committed b1 b2)
    let ?T = "cache_target b" and ?D = "dc_data (be_cache b)"
    note out = journal_flash.write_callback_outcome [OF w p(1) ran(4)]
    have flash: "be_flash b' = be_flash b2" and cache: "be_cache b' = (be_cache b)\<lparr>dc_dirty := \<not> committed\<rparr>"
      using ran write_callback_keep(1) [OF ran(4)] dirty by auto
    have held: "flash_read (be_flash b') ?T FLASH_SECTOR_SIZE = ?D" "header_blank (flush_params b) (be_flash b')"
      if committed
      using out that ran by (auto simp: flash target_holds_def p)
    have frame: "be_flash b' a = be_flash b a"
      if "Z80_FLASH_BOOT_OFFSET \<le> a" "a < ?T \<or> ?T + length ?D \<le> a" for a
      using same_outside_disk [OF p(1), of "be_flash b" "be_flash b'" a] out that ran
      by (auto simp: flash p len)
    have view: "disk_view b' = flash_put ?T ?D (be_flash b')"
      using valid by (simp add: disk_view_def cache cache_target_def)
    have "cache_ok b'"
      using cache_ok_flushed [OF ok cache dirty] held by auto
    moreover have "same_disk (disk_view b) (disk_view b')"
      unfolding view using valid same_disk_put [OF frame] by (simp add: disk_view_def)
    moreover have "journal_clean (be_flash b')" if "r" "journal_clean (be_flash b)"
      using blank_clean [OF p(1), of "be_flash b" "be_flash b'"] that held out ran flash by auto
    ultimately show ?thesis
      using ran cache by auto
  qed simp_all
qed

section \<open>Records\<close>

lemma and_not_mask: "(w :: 'a::len word) AND NOT (mask n) = w - take_bit n w"
proof -
  have "w AND NOT (mask n) = push_bit n (drop_bit n w)"
    by (rule bit_word_eqI) (auto simp: bit_simps)
  also have "\<dots> = w - take_bit n w"
    by (simp add: bits_ident eq_diff_eq)
  finally show ?thesis .
qed

lemma block_offset_eq:
  assumes "off < 2 ^ 32"
  shows "block_offset off = off - off mod FLASH_SECTOR_SIZE"
proof -
  let ?w = "of_nat off :: u32"
  have w: "unat ?w = off"
    using assms by (simp add: unat_of_nat)
  then have t: "unat (take_bit 12 ?w) = off mod FLASH_SECTOR_SIZE"
    by (simp only: unsigned_take_bit_eq) (simp add: take_bit_eq_mod)
  then have "take_bit 12 ?w \<le> ?w"
    using w by (simp add: word_le_nat_alt)
  then have "unat (?w - take_bit 12 ?w) = off - off mod FLASH_SECTOR_SIZE"
    using w t by (simp add: unat_sub)
  moreover have "(of_nat FLASH_SECTOR_SIZE - 1 :: u32) = mask 12"
    by (simp add: mask_eq_exp_minus_1)
  ultimately show ?thesis
    unfolding block_offset_def by (simp only: and_not_mask)
qed

definition record_ok :: "nat \<Rightarrow> u16 \<Rightarrow> bool" where
  "record_ok drive lba \<longleftrightarrow> drive < Z80_FLASH_DISK_SLOT_COUNT \<and> unat lba < Z80_FLASH_RECORD_COUNT"

lemma record_geometry:
  assumes "record_ok drive lba"
  defines "block \<equiv> block_offset (sector_offset lba)" and "within \<equiv> sector_offset lba AND (FLASH_SECTOR_SIZE - 1)"
  shows "sector_offset lba = block + within" "within + 128 \<le> 0x1000" "block mod 0x1000 = 0"
    "block < 0x80000"
proof -
  have l: "sector_offset lba < 0x80000"
    using assms(1) by (simp add: record_ok_def sector_offset_def)
  then have b: "block = sector_offset lba - sector_offset lba mod 0x1000"
    unfolding block_def by (subst block_offset_eq) simp_all
  have w: "within = sector_offset lba mod 0x1000"
    using and_pow2_minus_1 [of "sector_offset lba" 12] by (simp add: within_def)
  have m: "sector_offset lba mod 0x1000 = (unat lba mod 32) * 128"
    using mult_mod_right [of 128 "unat lba" 32] by (simp add: sector_offset_def ac_simps)
  have "unat lba mod 32 \<le> 31"
    by (simp add: less_Suc_eq_le [symmetric])
  with m show "within + 128 \<le> 0x1000"
    unfolding w by simp
  show "sector_offset lba = block + within"
    unfolding b w by simp
  show "block mod 0x1000 = 0" "block < 0x80000"
    using b l by (simp_all add: minus_mod_eq_mult_div)
qed

lemma record_within:
  "record_ok drive lba \<Longrightarrow>
     sector_offset lba - block_offset (sector_offset lba) = sector_offset lba AND (FLASH_SECTOR_SIZE - 1)"
  using record_geometry(1) [of drive lba] by (metis add_diff_cancel_left')

lemma cache_hit_target:
  assumes "cache_hit (be_cache b) drive (block_offset (sector_offset lba))" and "record_ok drive lba"
  shows "record_at drive lba = cache_target b + (sector_offset lba AND (FLASH_SECTOR_SIZE - 1))"
  using assms record_geometry(1) [OF assms(2)] by (simp add: cache_hit_def record_at_def cache_target_def)

lemma aligned_disjoint:
  assumes "(s::nat) mod 0x1000 = 0" and "t mod 0x1000 = 0" and "s \<noteq> t"
  shows "s + 0x1000 \<le> t \<or> t + 0x1000 \<le> s"
  using assms by (auto simp: mod_eq_0_iff_dvd elim!: dvdE)

lemma cache_miss_disjoint:
  assumes "\<not> cache_hit (be_cache b) drive (block_offset (sector_offset lba))" and "dc_valid (be_cache b)"
    and "cache_ok b" and ok: "record_ok drive lba"
  shows "record_at drive lba + 128 \<le> cache_target b \<or> cache_target b + 0x1000 \<le> record_at drive lba"
proof -
  note g = record_geometry [OF ok]
  let ?s = "Z80_FLASH_DISK_OFFSET + drive * Z80_FLASH_DISK_SLOT_BYTES + block_offset (sector_offset lba)"
  have c: "dc_block (be_cache b) < 0x80000" "dc_block (be_cache b) mod 0x1000 = 0"
    "cache_target b mod 0x1000 = 0"
    using assms(2,3) disk_block_bounds [OF cache_target_valid] by (auto simp: cache_ok_def Let_def)
  have "?s \<noteq> cache_target b"
  proof
    assume "?s = cache_target b"
    then have "drive * 0x80000 + block_offset (sector_offset lba) =
        dc_drive (be_cache b) * 0x80000 + dc_block (be_cache b)"
      by (simp add: cache_target_def)
    from arg_cong [where f = "\<lambda>x. x div 0x80000", OF this] arg_cong [where f = "\<lambda>x. x mod 0x80000", OF this]
    show False
      using assms(1,2) g c by (auto simp: cache_hit_def)
  qed
  moreover have "?s mod 0x1000 = 0"
    using g(3) by (simp add: mod_add_eq [symmetric] mod_mult_right_eq [symmetric])
  ultimately have "?s + 0x1000 \<le> cache_target b \<or> cache_target b + 0x1000 \<le> ?s"
    using c(3) by (intro aligned_disjoint)
  then show ?thesis
    using g by (auto simp: record_at_def)
qed

lemma read_record_view:
  assumes ok: "cache_ok b" and r: "record_ok drive lba"
  shows "z80_flash_backend_read_record b drive lba =
    flash_read (disk_view b) (record_at drive lba) Z80_FLASH_RECORD_BYTES"
proof (cases "cache_hit (be_cache b) drive (block_offset (sector_offset lba))")
  case True
  note g = record_geometry [OF r]
  have valid: "dc_valid (be_cache b)" and len: "length (dc_data (be_cache b)) = 0x1000"
    using True ok by (auto simp: cache_hit_def cache_ok_def Let_def)
  let ?w = "sector_offset lba AND (FLASH_SECTOR_SIZE - 1)"
  have "slice ?w 128 (dc_data (be_cache b)) = slice ?w 128 (flash_read (disk_view b) (cache_target b) 0x1000)"
    using valid len by (simp add: disk_view_def)
  also have "\<dots> = flash_read (disk_view b) (record_at drive lba) 128"
    using g cache_hit_target [OF True r] by (simp add: slice_flash_read)
  finally show ?thesis
    using True record_within [OF r] by (simp add: z80_flash_backend_read_record_def Let_def)
next
  case False
  with cache_miss_disjoint [OF False _ ok r] ok show ?thesis
    by (auto simp: z80_flash_backend_read_record_def Let_def disk_view_def record_at_def [symmetric]
        cache_ok_def)
qed

lemma record_at_disjoint:
  assumes "record_ok drive lba" and "record_ok drive' lba'" and "\<not> (drive' = drive \<and> lba' = lba)"
  shows "record_at drive' lba' + 128 \<le> record_at drive lba \<or> record_at drive lba + 128 \<le> record_at drive' lba'"
proof -
  have at: "record_at e l = Z80_FLASH_DISK_OFFSET + (e * 4096 + unat l) * 128" for e l
    by (simp add: record_at_def sector_offset_def)
  have "drive' * 4096 + unat lba' \<noteq> drive * 4096 + unat lba"
  proof
    assume eq: "drive' * 4096 + unat lba' = drive * 4096 + unat lba"
    from arg_cong [where f = "\<lambda>x. x div 4096", OF eq] arg_cong [where f = "\<lambda>x. x mod 4096", OF eq]
    show False
      using assms word_unat_eq_iff [of lba' lba] by (simp add: record_ok_def)
  qed
  moreover have "m \<noteq> n \<Longrightarrow> k + m * 128 + 128 \<le> k + n * 128 \<or> k + n * 128 + 128 \<le> k + m * 128" for m n k :: nat
    by (cases "m < n") auto
  ultimately show ?thesis
    unfolding at by blast
qed

lemma flash_put_splice:
  assumes "w + length bs \<le> length data"
  shows "flash_put off (splice w bs data) f = flash_put (off + w) bs (flash_put off data f)"
proof
  fix a
  show "flash_put off (splice w bs data) f a = flash_put (off + w) bs (flash_put off data f) a"
    using assms by (auto simp: flash_put_def nth_splice)
qed

lemma select_view:
  assumes w: "journal_flash d" and ok: "cache_ok b" and r: "record_ok drive lba"
    and run: "select_disk_cache d env drive lba b = (Returned done', b')"
  shows "cache_ok b' \<and> same_disk (disk_view b) (disk_view b') \<and>
    (done' \<longrightarrow> cache_hit (be_cache b') drive (block_offset (sector_offset lba)))"
proof (cases "cache_hit (be_cache b) drive (block_offset (sector_offset lba))")
  case True
  with run ok show ?thesis
    by (simp add: select_disk_cache_def Let_def same_disk_def)
next
  case False
  obtain fate b1 where flush: "flush_disk_cache d env b = (fate, b1)"
    by (cases "flush_disk_cache d env b")
  note g = record_geometry [OF r]
  show ?thesis
  proof (cases fate)
    case Rebooted
    with run False flush show ?thesis
      by (simp add: select_disk_cache_def Let_def fbind_def)
  next
    case (Returned k)
    note v = flush_view [OF w ok flush [unfolded Returned]]
    show ?thesis
    proof (cases k)
      case False
      with run \<open>\<not> cache_hit _ _ _\<close> flush Returned v show ?thesis
        by (simp add: select_disk_cache_def Let_def fbind_def fret_def)
    next
      case True
      define T where "T = Z80_FLASH_DISK_OFFSET + drive * Z80_FLASH_DISK_SLOT_BYTES + block_offset (sector_offset lba)"
      have b': "b' = b1\<lparr>be_cache := (be_cache b1)\<lparr>dc_data := flash_read (be_flash b1) T FLASH_SECTOR_SIZE,
           dc_drive := drive, dc_block := block_offset (sector_offset lba), dc_valid := True\<rparr>\<rparr>" and done'
        using run False flush Returned True
        by (auto simp: select_disk_cache_def Let_def fbind_def fret_def flash_get_def with_cache_def T_def)
      have c: "cache_ok b'" and clean: "\<not> dc_dirty (be_cache b')"
        using r g v True by (auto simp: b' cache_ok_def Let_def record_ok_def T_def cache_target_def)
      have "same_disk (disk_view b1) (be_flash b1)"
        using v True by (intro clean_view) auto
      with clean_view [OF c clean] v have "same_disk (disk_view b) (disk_view b')"
        by (simp add: same_disk_def b')
      with c show ?thesis
        by (simp add: b' cache_hit_def)
    qed
  qed
qed

lemma same_disk_put_mono: "same_disk f g \<Longrightarrow> same_disk (flash_put off bs f) (flash_put off bs g)"
  by (simp add: same_disk_def flash_put_def)

lemma flash_put_id: "flash_read f off (length bs) = bs \<Longrightarrow> flash_put off bs f = f"
proof
  fix a
  assume "flash_read f off (length bs) = bs"
  then show "flash_put off bs f a = f a"
    unfolding flash_put_def flash_read_eq_iff by (metis add_less_imp_less_left le_add_diff_inverse)
qed

lemma patch_view:
  fixes now
  assumes ok: "cache_ok b" and r: "record_ok drive lba" and len: "length bs = Z80_FLASH_RECORD_BYTES"
    and hit: "cache_hit (be_cache b) drive (block_offset (sector_offset lba))"
  defines "b' \<equiv> patch_cache now (sector_offset lba AND (FLASH_SECTOR_SIZE - 1)) bs b"
  shows "cache_ok b'" "disk_view b' = flash_put (record_at drive lba) bs (disk_view b)"
proof -
  let ?w = "sector_offset lba AND (FLASH_SECTOR_SIZE - 1)"
  note g = record_geometry [OF r]
  have d: "length (dc_data (be_cache b)) = 0x1000" "dc_valid (be_cache b)"
    using ok hit by (auto simp: cache_ok_def cache_hit_def Let_def)
  show "cache_ok b'"
    using ok d g len by (auto simp: b'_def patch_cache_def cache_ok_def Let_def cache_target_def)
  have at: "record_at drive lba = cache_target b + ?w"
    by (rule cache_hit_target [OF hit r])
  show "disk_view b' = flash_put (record_at drive lba) bs (disk_view b)"
  proof (cases "slice ?w (length bs) (dc_data (be_cache b)) = bs")
    case True
    then have "splice ?w bs (dc_data (be_cache b)) = dc_data (be_cache b)"
      using splice_slice_id [of ?w "length bs" "dc_data (be_cache b)"] d g len by simp
    then have "disk_view b = flash_put (record_at drive lba) bs (disk_view b)"
      using d g len at flash_put_splice [of ?w bs "dc_data (be_cache b)" "cache_target b"]
      by (simp add: disk_view_def)
    with True show ?thesis by (simp add: b'_def patch_cache_def)
  next
    case False
    then show ?thesis
      using d g len at flash_put_splice [of ?w bs "dc_data (be_cache b)" "cache_target b"]
      by (simp add: b'_def patch_cache_def disk_view_def cache_target_def)
  qed
qed

lemma write_record_view:
  assumes w: "journal_flash d" and ok: "cache_ok b" and r: "record_ok drive lba"
    and len: "length bs = Z80_FLASH_RECORD_BYTES" and type: "write_type \<le> 2"
    and run: "z80_flash_backend_write_record d env env' now drive lba (Some bs) write_type b = (Returned result, b')"
  shows "cache_ok b' \<and>
    (\<not> result \<and> same_disk (disk_view b) (disk_view b') \<or>
     same_disk (flash_put (record_at drive lba) bs (disk_view b)) (disk_view b')) \<and>
    (result \<and> write_type = 1 \<longrightarrow> \<not> dc_dirty (be_cache b'))"
proof -
  obtain fate b1 where sel: "select_disk_cache d env drive lba b = (fate, b1)"
    by (cases "select_disk_cache d env drive lba b")
  note run' = run [unfolded z80_flash_backend_write_record_def Let_def]
  have guard: "\<not> (drive \<ge> Z80_FLASH_DISK_SLOT_COUNT \<or> unat lba \<ge> Z80_FLASH_RECORD_COUNT \<or>
      length bs \<noteq> Z80_FLASH_RECORD_BYTES \<or> write_type > 2)"
    using r len type by (simp add: record_ok_def not_less)
  show ?thesis
  proof (cases fate)
    case Rebooted
    with run' guard sel show ?thesis by (simp add: fbind_def)
  next
    case (Returned k)
    note v = select_view [OF w ok r sel [unfolded Returned]]
    show ?thesis
    proof (cases k)
      case False
      with run' guard sel Returned v show ?thesis by (simp add: fbind_def fret_def)
    next
      case True
      define b2 where "b2 = patch_cache now (sector_offset lba AND (FLASH_SECTOR_SIZE - 1)) bs b1"
      have p: "cache_ok b2" "disk_view b2 = flash_put (record_at drive lba) bs (disk_view b1)"
        using patch_view [OF _ r len] v True by (auto simp: b2_def)
      have same: "same_disk (flash_put (record_at drive lba) bs (disk_view b)) (disk_view b2)"
        using v p by (simp add: same_disk_put_mono)
      have tail: "(if write_type = 1 then flush_disk_cache d env' else fret True) b2 = (Returned result, b')"
        using run' guard sel Returned True by (simp add: fbind_def b2_def)
      show ?thesis
      proof (cases "write_type = 1")
        case True
        with tail flush_view [OF w p(1), of env' result b'] same show ?thesis
          by (auto intro: same_disk_trans)
      next
        case False
        with tail p same show ?thesis by (auto simp: fret_def)
      qed
    qed
  qed
qed

lemma flash_device_journal: "flash_device d \<Longrightarrow> journal_flash d"
  by (simp add: flash_device_def flash_device_axioms_def journal_flash_def journal_flash_axioms_def)

section \<open>Writing always succeeds on a working device\<close>

context flash_device
begin

lemma target_full_exact:
  assumes "params_ok pair p"
  shows "target_holds p (wp_data p) (target_full d p f)"
proof -
  note ok = params_okD [OF assms]
  let ?T = "wp_target_offset p" and ?D = "wp_data p"
  have half: "target_half d p f = flash_put ?T (take 2048 ?D) (flash_fill ?T 0x1000 (journal_written d p f))"
    unfolding target_half_def target_erased_def erase_eq
    by (rule program_erased) (use ok in \<open>simp add: flash_fill_def\<close>)
  have "target_full d p f = flash_put (?T + 2048) (drop 2048 ?D) (target_half d p f)"
    unfolding target_full_def half
    by (rule program_erased) (use ok in \<open>simp add: flash_put_def flash_fill_def\<close>)
  then show ?thesis
    using ok by (auto simp: half target_holds_def flash_read_eq_iff flash_put_def not_less)
qed

lemma write_callback_commits:
  assumes p: "params_ok pair p" and "armed_fault b = 0"
  shows "\<exists>b'. write_callback d p b = (Returned True, b') \<and> armed_fault b' = 0"
proof -
  note full = target_full_exact [OF p, of "be_flash b"]
  have "journal_holds p (journal_written d p (be_flash b))"
    by (rule journal_holds_off_target [OF p refl])
  moreover have "rd32 (flash_read (header_cleared d p (be_flash b)) (wp_header_offset p) 4) = 0xFFFFFFFF"
    using p cleared_invalid(2) [of pair] by (simp add: params_ok_def header_cleared_def flash_fill_def)
  ultimately show ?thesis
    using full assms(2) by (simp add: write_callback_run)
qed

lemma flush_commits:
  assumes ok: "cache_ok b" and "armed_fault b = 0"
    and env: "bus_acquired env" "bus_released env" "lockout_ok env"
  shows "\<exists>b'. flush_disk_cache d env b = (Returned True, b') \<and> armed_fault b' = 0"
proof (cases "dc_dirty (be_cache b)")
  case False
  then show ?thesis using assms(2) by (simp add: flush_clean)
next
  case dirty: True
  let ?b = "b\<lparr>next_journal_pair := next_journal_pair b + 1, journal_sequence := journal_sequence b + 1\<rparr>"
  obtain b' where "write_callback d (flush_params b) ?b = (Returned True, b')" "armed_fault b' = 0"
    using write_callback_commits [OF flush_params_ok(1) [OF ok dirty], of ?b] assms(2) by auto
  with dirty env assms(2) show ?thesis
    by (simp add: flush_disk_cache_def Let_def fbind_def fret_def consume_fault_def with_cache_def)
qed

end

lemma write_record_commits:
  assumes d: "flash_device d" and ok: "cache_ok b" and r: "record_ok drive lba" and "armed_fault b = 0"
    and env: "bus_acquired env" "bus_released env" "lockout_ok env"
    and env': "bus_acquired env'" "bus_released env'" "lockout_ok env'"
    and len: "length bs = Z80_FLASH_RECORD_BYTES" and type: "write_type \<le> 2"
  shows "\<exists>b'. z80_flash_backend_write_record d env env' now drive lba (Some bs) write_type b = (Returned True, b') \<and>
    armed_fault b' = 0"
proof -
  obtain b0 where "flush_disk_cache d env b = (Returned True, b0)" "armed_fault b0 = 0"
    using flash_device.flush_commits [OF d ok assms(4) env] by blast
  then have "\<exists>b1. select_disk_cache d env drive lba b = (Returned True, b1) \<and> armed_fault b1 = 0"
    using assms(4) by (simp add: select_disk_cache_def Let_def fbind_def fret_def flash_get_def with_cache_def)
  then obtain b1 where sel: "select_disk_cache d env drive lba b = (Returned True, b1)" "armed_fault b1 = 0"
    by blast
  define b2 where "b2 = patch_cache now (sector_offset lba AND (FLASH_SECTOR_SIZE - 1)) bs b1"
  have "cache_hit (be_cache b1) drive (block_offset (sector_offset lba))" "cache_ok b1"
    using select_view [OF flash_device_journal [OF d] ok r sel(1)] by auto
  then have b2: "cache_ok b2" "armed_fault b2 = 0"
    using patch_view(1) [OF _ r len] sel(2) by (auto simp: b2_def patch_cache_def)
  have guard: "\<not> (drive \<ge> Z80_FLASH_DISK_SLOT_COUNT \<or> unat lba \<ge> Z80_FLASH_RECORD_COUNT \<or>
      length bs \<noteq> Z80_FLASH_RECORD_BYTES \<or> write_type > 2)"
    using r len type by (simp add: record_ok_def not_less)
  then have "z80_flash_backend_write_record d env env' now drive lba (Some bs) write_type b =
      (if write_type = 1 then flush_disk_cache d env' else fret True) b2"
    using sel by (simp add: z80_flash_backend_write_record_def fbind_def b2_def)
  with flash_device.flush_commits [OF d b2 env'] b2(2) show ?thesis
    by (auto simp: fret_def)
qed

section \<open>Properties\<close>


definition bus_granted :: flush_env where
  "bus_granted = \<lparr>bus_acquired = True, bus_released = True, lockout_ok = True\<rparr>"

text \<open>A board about to flush sector 0 of drive B with a power cut armed in the middle of the write.\<close>

definition sample_backend :: backend where
  "sample_backend =
     \<lparr>be_flash = (\<lambda>_. 0xFF),
      be_cache = \<lparr>dc_valid = True, dc_dirty = True, dc_drive = 1, dc_block = 0,
        dc_data = replicate FLASH_SECTOR_SIZE 0xE5\<rparr>,
      journal_sequence = 0, next_journal_pair = 0, flush_deadline = 0,
      armed_fault = Z80_FLASH_FAULT_AFTER_PARTIAL_TARGET\<rparr>"

lemma sample_backend_ok:
  "cache_ok sample_backend" "dc_dirty (be_cache sample_backend)" "journal_clean (be_flash sample_backend)"
  using cleared_invalid(1)
  by (simp_all add: cache_ok_def sample_backend_def Let_def journal_clean_def list_all_iff)


text \<open>
  The record store: after a write of 128 bytes to a record has reported success, on any drive and
  whatever sector was cached, reading that record returns those bytes, and every other
  record of every drive reads as before, although the write may have evicted and flushed
  another sector.
\<close>

theorem read_after_write_record:
  assumes "journal_flash d" and "cache_ok b" and w: "record_ok drive lba" and r: "record_ok drive' lba'"
    and len: "length bs = Z80_FLASH_RECORD_BYTES" and "write_type \<le> 2"
    and "z80_flash_backend_write_record d env env' now drive lba (Some bs) write_type b = (Returned True, b')"
  shows "z80_flash_backend_read_record b' drive' lba' =
    (if drive' = drive \<and> lba' = lba then bs else z80_flash_backend_read_record b drive' lba')"
proof -
  note v = write_record_view [OF assms(1,2,3,5,6,7)]
  then have "same_disk (flash_put (record_at drive lba) bs (disk_view b)) (disk_view b')" and ok: "cache_ok b'"
    by auto
  then have "flash_read (disk_view b') (record_at drive' lba') Z80_FLASH_RECORD_BYTES =
      flash_read (flash_put (record_at drive lba) bs (disk_view b)) (record_at drive' lba') Z80_FLASH_RECORD_BYTES"
    by (intro flash_read_cong) (auto simp: same_disk_def record_at_def)
  also have "\<dots> = (if drive' = drive \<and> lba' = lba then bs
      else flash_read (disk_view b) (record_at drive' lba') Z80_FLASH_RECORD_BYTES)"
    using record_at_disjoint [OF w r] len by auto
  finally show ?thesis
    by (simp add: read_record_view ok r assms(2))
qed

theorem read_after_write_record_witness:
  "\<exists>b'. z80_flash_backend_write_record host_flash bus_granted bus_granted 0 1 3 (Some (replicate 128 0x41)) 0 sample_backend = (Returned True, b') \<and>
     z80_flash_backend_read_record b' 1 3 = replicate 128 0x41 \<and>
     z80_flash_backend_read_record b' 2 3 = z80_flash_backend_read_record sample_backend 2 3"
proof -
  let ?run = "z80_flash_backend_write_record host_flash bus_granted bus_granted 0 1 3 (Some (replicate 128 0x41)) 0 sample_backend"
  have "block_offset (sector_offset 3) = 0"
    by (subst block_offset_eq) (simp_all add: sector_offset_def)
  then have run: "\<exists>b'. ?run = (Returned True, b')"
    by (simp add: z80_flash_backend_write_record_def select_disk_cache_def cache_hit_def sample_backend_def
        fbind_def fret_def)
  have ok: "record_ok 1 3" "record_ok 2 3" "length (replicate 128 (0x41::u8)) = Z80_FLASH_RECORD_BYTES" "(0::u8) \<le> 2"
    by (simp_all add: record_ok_def)
  from run obtain b' where b': "?run = (Returned True, b')" by blast
  from read_after_write_record [OF host.journal_flash_axioms sample_backend_ok(1) ok(1,1,3,4) b']
    read_after_write_record [OF host.journal_flash_axioms sample_backend_ok(1) ok(1,2,3,4) b'] b'
  show ?thesis by simp
qed

text \<open>
  A flush with the bus granted, no fault armed and a working flash succeeds, and then the flash
  itself holds every record exactly as it read before, and nothing is left to write.
\<close>

theorem flush_persists:
  assumes d: "flash_device d" and ok: "cache_ok b" and "armed_fault b = Z80_FLASH_FAULT_NONE"
    and "bus_acquired env" and "bus_released env" and "lockout_ok env" and r: "record_ok drive lba"
  shows "\<exists>b'. z80_flash_backend_flush d env b = (Returned True, b') \<and> z80_flash_backend_quiescent b' \<and>
    flash_read (be_flash b') (record_at drive lba) Z80_FLASH_RECORD_BYTES =
      z80_flash_backend_read_record b drive lba"
proof -
  obtain b' where run: "flush_disk_cache d env b = (Returned True, b')"
    using flash_device.flush_commits [OF d ok] assms(3-6) by auto
  note v = flush_view [OF flash_device_journal [OF d] ok run]
  then have "same_disk (disk_view b) (be_flash b')"
    using clean_view [of b'] by (auto intro: same_disk_trans)
  then have "flash_read (be_flash b') (record_at drive lba) Z80_FLASH_RECORD_BYTES =
      flash_read (disk_view b) (record_at drive lba) Z80_FLASH_RECORD_BYTES"
    by (intro flash_read_cong) (auto simp: same_disk_def record_at_def)
  with run v show ?thesis
    by (simp add: z80_flash_backend_flush_def z80_flash_backend_quiescent_def read_record_view [OF ok r])
qed

theorem flush_persists_witness:
  "\<exists>b'. z80_flash_backend_flush host_flash bus_granted
       (sample_backend\<lparr>armed_fault := 0\<rparr>) = (Returned True, b') \<and> z80_flash_backend_quiescent b'"
proof -
  have "cache_ok (sample_backend\<lparr>armed_fault := 0\<rparr>)" "record_ok 1 0"
    by (simp_all add: cache_ok_def sample_backend_def Let_def record_ok_def)
  from flush_persists [OF host.flash_device_axioms this(1) _ _ _ _ this(2),
      of bus_granted]
  show ?thesis
    by (auto simp: bus_granted_def)
qed

end
