(* ===== verification/Disk_Device.thy ===== *)
theory Disk_Device
  imports Flash_Records
begin

text \<open>
  The disk controller of \<open>src/src/common/disk_device.c\<close>: the five I/O ports the Z80 sees (core 0), the
  mailbox that hands a command and a record to the flash service (core 1), and the read-ahead
  slots.

  \<^item> \<open>disk\<close> is the file's static state with the backend it calls. An I/O access and a call of
    the core 1 service are one step each; the race between a reader and a writer of a read-ahead
    slot, which the code resolves with a sequence lock, is modelled load by load and store by
    store in the theory \<open>Prefetch_Lock\<close>.
  \<^item> the union \<open>disk_record\<close> is its bytes; \<open>words_of_bytes\<close> and \<open>bytes_of_words\<close> are its other view.
  \<^item> \<open>disk_inv\<close> is the invariant every step keeps; the properties are what a program on the Z80
    relies on.
\<close>

section \<open>State\<close>

abbreviation DISK_COMMAND_STATUS_PORT :: u8 where "DISK_COMMAND_STATUS_PORT \<equiv> 0x10"
abbreviation DISK_DRIVE_PORT :: u8 where "DISK_DRIVE_PORT \<equiv> 0x11"
abbreviation DISK_LBA_LOW_PORT :: u8 where "DISK_LBA_LOW_PORT \<equiv> 0x12"
abbreviation DISK_LBA_HIGH_PORT :: u8 where "DISK_LBA_HIGH_PORT \<equiv> 0x13"
abbreviation DISK_DATA_PORT :: u8 where "DISK_DATA_PORT \<equiv> 0x14"
abbreviation DISK_COMMAND_CLEAR :: u8 where "DISK_COMMAND_CLEAR \<equiv> 0"
abbreviation DISK_COMMAND_READ :: u8 where "DISK_COMMAND_READ \<equiv> 1"
abbreviation DISK_COMMAND_WRITE_NORMAL :: u8 where "DISK_COMMAND_WRITE_NORMAL \<equiv> 2"
abbreviation DISK_COMMAND_WRITE_DIRECTORY :: u8 where "DISK_COMMAND_WRITE_DIRECTORY \<equiv> 3"
abbreviation DISK_COMMAND_WRITE_UNALLOCATED :: u8 where "DISK_COMMAND_WRITE_UNALLOCATED \<equiv> 4"
abbreviation DISK_COMMAND_FLUSH :: u8 where "DISK_COMMAND_FLUSH \<equiv> 5"
abbreviation DISK_STATUS_READY :: u32 where "DISK_STATUS_READY \<equiv> 1"
abbreviation DISK_STATUS_DATA_READY :: u32 where "DISK_STATUS_DATA_READY \<equiv> 2"
abbreviation DISK_STATUS_DATA_ROOM :: u32 where "DISK_STATUS_DATA_ROOM \<equiv> 4"
abbreviation DISK_STATUS_BUSY :: u32 where "DISK_STATUS_BUSY \<equiv> 8"
abbreviation DISK_STATUS_ERROR :: u32 where "DISK_STATUS_ERROR \<equiv> 0x80"
abbreviation PREFETCH_SLOTS :: nat where "PREFETCH_SLOTS \<equiv> 8"
abbreviation PREFETCH_KEY_VALID :: u32 where "PREFETCH_KEY_VALID \<equiv> 0x80000000"
abbreviation RECORD_WORDS :: nat where "RECORD_WORDS \<equiv> 32"

record prefetch_slot =
  ps_sequence :: u32
  ps_key :: u32
  ps_words :: "u32 list"

record disk =
  disk_pending :: u32
  supervisor_flush :: u32
  disk_status :: u32
  disk_fatal_error :: u32
  disk_write_enabled :: u32
  disk_drive :: u8
  disk_lba :: u16
  disk_write_drive :: u8
  disk_write_lba :: u16
  disk_write_command :: u8
  disk_data_index :: nat
  disk_record :: bytes
  prefetch :: "prefetch_slot list"
  prefetch_hint :: u32
  prefetch_hits :: u32
  prefetch_misses :: u32
  dk_backend :: backend

definition words_of_bytes :: "bytes \<Rightarrow> u32 list" where
  "words_of_bytes bs = map (\<lambda>i. rd32 (drop (4 * i) bs)) [0..<RECORD_WORDS]"

definition bytes_of_words :: "u32 list \<Rightarrow> bytes" where
  "bytes_of_words ws = concat (map le32 ws)"

section \<open>Read-ahead slots\<close>

definition record_key :: "u8 \<Rightarrow> u16 \<Rightarrow> u32" where
  "record_key drive lba = PREFETCH_KEY_VALID OR push_bit 16 (ucast drive) OR ucast lba"

definition slot_index :: "u16 \<Rightarrow> nat" where
  "slot_index lba = unat lba AND (PREFETCH_SLOTS - 1)"

definition prefetch_take :: "u32 \<Rightarrow> u16 \<Rightarrow> disk \<Rightarrow> bool \<times> disk" where
  "prefetch_take key lba s =
     (let slot = prefetch s ! slot_index lba; sequence = ps_sequence slot
      in if sequence AND 1 \<noteq> 0 \<or> ps_key slot \<noteq> key then (False, s)
         else (ps_sequence slot = sequence, s\<lparr>disk_record := bytes_of_words (ps_words slot)\<rparr>))"

definition prefetch_publish :: "u32 \<Rightarrow> u32 list option \<Rightarrow> prefetch_slot \<Rightarrow> prefetch_slot" where
  "prefetch_publish key words slot =
     (let sequence = ps_sequence slot;
          slot = slot\<lparr>ps_sequence := sequence + 1\<rparr>;
          slot = slot\<lparr>ps_key := key\<rparr>;
          slot = (case words of None \<Rightarrow> slot | Some ws \<Rightarrow> slot\<lparr>ps_words := ws\<rparr>)
      in slot\<lparr>ps_sequence := sequence + 2\<rparr>)"

definition prefetch_invalidate :: "u8 \<Rightarrow> u16 \<Rightarrow> disk \<Rightarrow> disk" where
  "prefetch_invalidate drive lba s =
     (let i = slot_index lba; slot = prefetch s ! i
      in if ps_key slot = record_key drive lba
         then s\<lparr>prefetch := (prefetch s)[i := prefetch_publish 0 None slot]\<rparr> else s)"

text \<open>The loop of \<open>prefetch_service\<close>, over the distances it looks ahead.\<close>

fun prefetch_ahead :: "u8 \<Rightarrow> nat \<Rightarrow> nat list \<Rightarrow> disk \<Rightarrow> disk" where
  "prefetch_ahead drive lba [] s = s"
| "prefetch_ahead drive lba (ahead # rest) s =
     (let nxt = lba + ahead
      in if nxt \<ge> Z80_FLASH_RECORD_COUNT then s
         else
           let key = record_key drive (of_nat nxt);
               i = slot_index (of_nat nxt);
               slot = prefetch s ! i
           in if ps_key slot = key then prefetch_ahead drive lba rest s
              else
                let words = words_of_bytes
                      (z80_flash_backend_read_record (dk_backend s) (unat drive) (of_nat nxt))
                in prefetch_ahead drive lba rest
                     (s\<lparr>prefetch := (prefetch s)[i := prefetch_publish key (Some words) slot]\<rparr>))"

definition prefetch_service :: "disk \<Rightarrow> disk" where
  "prefetch_service s =
     (let hint = prefetch_hint s
      in if hint = 0 then s
         else prefetch_ahead (ucast (drop_bit 16 hint AND 0xFF)) (unat (hint AND 0xFFFF))
                [1..<PREFETCH_SLOTS + 1] s)"

section \<open>The Z80's ports\<close>

definition disk_submit :: "u8 \<Rightarrow> disk \<Rightarrow> disk" where
  "disk_submit command s = s\<lparr>disk_status := DISK_STATUS_BUSY, disk_pending := ucast command\<rparr>"

definition disk_start_read :: "disk \<Rightarrow> disk" where
  "disk_start_read s =
     (let key = record_key (disk_drive s) (disk_lba s);
          s2 = (case prefetch_take key (disk_lba s) s of
              (True, s1) \<Rightarrow> s1\<lparr>prefetch_hits := prefetch_hits s1 + 1\<rparr>
            | (False, s1) \<Rightarrow>
                s1\<lparr>disk_record := z80_flash_backend_read_record (dk_backend s1) (unat (disk_drive s1)) (disk_lba s1),
                   prefetch_misses := prefetch_misses s1 + 1\<rparr>)
      in s2\<lparr>prefetch_hint := key, disk_status := DISK_STATUS_READY OR DISK_STATUS_DATA_READY\<rparr>)"

definition disk_start_command :: "u8 \<Rightarrow> disk \<Rightarrow> disk" where
  "disk_start_command command s =
     (if disk_status s AND DISK_STATUS_BUSY \<noteq> 0 then s
      else
        let fatal = disk_fatal_error s \<noteq> 0 in
        if command = DISK_COMMAND_CLEAR then
          s\<lparr>disk_data_index := 0,
            disk_status := DISK_STATUS_READY OR (if fatal then DISK_STATUS_ERROR else 0)\<rparr>
        else if fatal then s\<lparr>disk_status := DISK_STATUS_READY OR DISK_STATUS_ERROR\<rparr>
        else if command = DISK_COMMAND_FLUSH then disk_submit command s
        else if unat (disk_drive s) \<ge> Z80_FLASH_DISK_SLOT_COUNT \<or>
                unat (disk_lba s) \<ge> Z80_FLASH_RECORD_COUNT then
          s\<lparr>disk_status := DISK_STATUS_READY OR DISK_STATUS_ERROR\<rparr>
        else
          let s = s\<lparr>disk_data_index := 0\<rparr> in
          if command = DISK_COMMAND_READ then disk_start_read s
          else if command \<ge> DISK_COMMAND_WRITE_NORMAL \<and> command \<le> DISK_COMMAND_WRITE_UNALLOCATED then
            s\<lparr>disk_write_drive := disk_drive s, disk_write_lba := disk_lba s,
              disk_write_command := command,
              disk_status := DISK_STATUS_READY OR DISK_STATUS_DATA_ROOM\<rparr>
          else s\<lparr>disk_status := DISK_STATUS_READY OR DISK_STATUS_ERROR\<rparr>)"

definition z80_flash_disk_io_read :: "u8 \<Rightarrow> disk \<Rightarrow> u8 \<times> disk" where
  "z80_flash_disk_io_read port s =
     (if port = DISK_COMMAND_STATUS_PORT then
        (if disk_write_enabled s \<noteq> 0 then ucast (disk_status s)
         else ucast (DISK_STATUS_BUSY OR DISK_STATUS_ERROR), s)
      else if port \<noteq> DISK_DATA_PORT \<or> disk_status s AND DISK_STATUS_DATA_READY = 0 then (0, s)
      else
        let value = disk_record s ! disk_data_index s;
            s = s\<lparr>disk_data_index := disk_data_index s + 1\<rparr>
        in (value, if disk_data_index s = Z80_FLASH_RECORD_BYTES
                   then s\<lparr>disk_status := DISK_STATUS_READY\<rparr> else s))"

definition z80_flash_disk_io_write :: "u8 \<Rightarrow> u8 \<Rightarrow> disk \<Rightarrow> disk" where
  "z80_flash_disk_io_write port value s =
     (if disk_write_enabled s = 0 then s
      else
        let status = disk_status s in
        if port = DISK_COMMAND_STATUS_PORT then disk_start_command value s
        else if status AND DISK_STATUS_BUSY \<noteq> 0 then s
        else if port = DISK_DRIVE_PORT then s\<lparr>disk_drive := value\<rparr>
        else if port = DISK_LBA_LOW_PORT then
          s\<lparr>disk_lba := (disk_lba s AND 0xFF00) OR ucast value\<rparr>
        else if port = DISK_LBA_HIGH_PORT then
          s\<lparr>disk_lba := (disk_lba s AND 0x00FF) OR push_bit 8 (ucast value)\<rparr>
        else if port = DISK_DATA_PORT \<and> status AND DISK_STATUS_DATA_ROOM \<noteq> 0 then
          let s = s\<lparr>disk_record := (disk_record s)[disk_data_index s := value],
                    disk_data_index := disk_data_index s + 1\<rparr>
          in if disk_data_index s = Z80_FLASH_RECORD_BYTES then disk_submit (disk_write_command s) s
             else s
        else s)"

section \<open>The flash service on core 1\<close>

definition run_command :: "flash_dev \<Rightarrow> flush_env \<Rightarrow> flush_env \<Rightarrow> u64 \<Rightarrow> disk \<Rightarrow> bool fate \<times> disk" where
  "run_command d env env' now s =
     (if disk_pending s = ucast DISK_COMMAND_FLUSH then
        case z80_flash_backend_flush d env (dk_backend s) of (r, b) \<Rightarrow> (r, s\<lparr>dk_backend := b\<rparr>)
      else
        let s = prefetch_invalidate (disk_write_drive s) (disk_write_lba s) s
        in case z80_flash_backend_write_record d env env' now (unat (disk_write_drive s)) (disk_write_lba s)
               (Some (disk_record s)) (ucast (disk_pending s - ucast DISK_COMMAND_WRITE_NORMAL)) (dk_backend s)
           of (r, b) \<Rightarrow> (r, s\<lparr>dk_backend := b\<rparr>))"

definition disk_failed :: "disk \<Rightarrow> disk" where
  "disk_failed s = s\<lparr>disk_fatal_error := 1, disk_status := DISK_STATUS_READY OR DISK_STATUS_ERROR\<rparr>"

definition z80_flash_core1_service ::
    "flash_dev \<Rightarrow> flush_env \<Rightarrow> flush_env \<Rightarrow> u64 \<Rightarrow> disk \<Rightarrow> unit fate \<times> disk" where
  "z80_flash_core1_service d env env' now s =
     (if disk_fatal_error s \<noteq> 0 then (Returned (), s)
      else if disk_pending s \<noteq> 0 then
        case run_command d env env' now s of
          (Rebooted, s) \<Rightarrow> (Rebooted, s)
        | (Returned success, s) \<Rightarrow>
            let s = (if success then s else s\<lparr>disk_fatal_error := 1\<rparr>);
                s = s\<lparr>disk_pending := 0,
                      disk_status := DISK_STATUS_READY OR (if success then 0 else DISK_STATUS_ERROR)\<rparr>
            in (Returned (), if success then prefetch_service s else s)
      else if supervisor_flush s \<noteq> 0 then
        case z80_flash_backend_flush d env (dk_backend s) of
          (Rebooted, b) \<Rightarrow> (Rebooted, s\<lparr>dk_backend := b\<rparr>)
        | (Returned success, b) \<Rightarrow>
            let s = s\<lparr>dk_backend := b, supervisor_flush := 0\<rparr>
            in (Returned (), if success then prefetch_service s else disk_failed s)
      else if z80_flash_backend_flush_due now (dk_backend s) then
        case z80_flash_backend_flush d env (dk_backend s) of
          (Rebooted, b) \<Rightarrow> (Rebooted, s\<lparr>dk_backend := b\<rparr>)
        | (Returned success, b) \<Rightarrow>
            let s = s\<lparr>dk_backend := b\<rparr>
            in (Returned (), if success then prefetch_service s else disk_failed s)
      else (Returned (), prefetch_service s))"

section \<open>Control\<close>

text \<open>The reset that \<open>z80_flash_storage_init_observed\<close> performs before it starts the backend.\<close>

definition disk_reset :: "disk \<Rightarrow> disk" where
  "disk_reset s =
     s\<lparr>disk_pending := 0, supervisor_flush := 0, prefetch_hint := 0,
       prefetch := map (prefetch_publish 0 None) (prefetch s),
       prefetch_hits := 0, prefetch_misses := 0, disk_fatal_error := 0, disk_write_enabled := 1,
       disk_status := DISK_STATUS_READY\<rparr>"

definition z80_flash_disk_status :: "disk \<Rightarrow> u32" where
  "z80_flash_disk_status s = disk_status s"

definition z80_flash_disk_prefetch_counts :: "disk \<Rightarrow> u32 \<times> u32" where
  "z80_flash_disk_prefetch_counts s = (prefetch_hits s, prefetch_misses s)"

definition z80_flash_disk_has_fatal_error :: "disk \<Rightarrow> bool" where
  "z80_flash_disk_has_fatal_error s \<longleftrightarrow> disk_fatal_error s \<noteq> 0"

definition z80_flash_disk_quiescent :: "disk \<Rightarrow> bool" where
  "z80_flash_disk_quiescent s \<longleftrightarrow>
     supervisor_flush s = 0 \<and> disk_status s = DISK_STATUS_READY \<and> z80_flash_backend_quiescent (dk_backend s)"

definition z80_flash_disk_request_flush :: "disk \<Rightarrow> disk" where
  "z80_flash_disk_request_flush s = s\<lparr>supervisor_flush := 1\<rparr>"

definition z80_flash_disk_set_write_enabled :: "bool \<Rightarrow> disk \<Rightarrow> disk" where
  "z80_flash_disk_set_write_enabled enabled s = s\<lparr>disk_write_enabled := of_bool enabled\<rparr>"

definition z80_flash_disk_arm_fault :: "u32 \<Rightarrow> disk \<Rightarrow> disk" where
  "z80_flash_disk_arm_fault point s = s\<lparr>dk_backend := z80_flash_backend_arm_fault point (dk_backend s)\<rparr>"

section \<open>Records as words, keys and slots\<close>

lemma le32_rd32_drop:
  assumes "k + 4 \<le> length bs"
  shows "le32 (rd32 (drop k bs)) = slice k 4 bs"
proof -
  obtain a b c d rest where "drop k bs = a # b # c # d # rest"
    using assms by (cases "drop k bs" rule: rd32.cases) (auto simp: drop_eq_Nil dest!: arg_cong [where f = length])
  then show ?thesis
    using le32_rd32 [of a b c d] by (simp add: slice_def)
qed

lemma words_bytes_roundtrip [simp]:
  assumes "length bs = Z80_FLASH_RECORD_BYTES"
  shows "bytes_of_words (words_of_bytes bs) = bs" "length (words_of_bytes bs) = RECORD_WORDS"
proof -
  have "concat (map (\<lambda>i. le32 (rd32 (drop (4 * i) bs))) [0..<n]) = take (4 * n) bs" if "4 * n \<le> length bs" for n
    using that
  proof (induction n)
    case (Suc n)
    then have "take (4 * Suc n) bs = take (4 * n) bs @ slice (4 * n) 4 bs"
      using take_add [of "4 * n" 4 bs] by (simp add: slice_def add.commute)
    with Suc show ?case
      by (simp add: le32_rd32_drop)
  qed simp
  from this [of 32] assms show "bytes_of_words (words_of_bytes bs) = bs"
    by (simp add: bytes_of_words_def words_of_bytes_def comp_def del: upt_rec_numeral)
qed (simp add: words_of_bytes_def)

lemma length_bytes_of_words [simp]: "length (bytes_of_words ws) = 4 * length ws"
  by (induction ws) (simp_all add: bytes_of_words_def)

lemma record_key_fields:
  "ucast (record_key drive lba) = lba" "ucast (drop_bit 16 (record_key drive lba)) = drive"
  "record_key drive lba \<noteq> 0"
proof -
  have "(0x80000000 :: u32) = push_bit 31 1"
    by simp
  then have v: "bit (0x80000000 :: u32) n \<longleftrightarrow> n = 31" for n
    by (simp only: bit_simps) auto
  have b: "bit (record_key drive lba) n \<longleftrightarrow> n = 31 \<or> 16 \<le> n \<and> n < 32 \<and> bit drive (n - 16) \<or> bit lba n" for n
    by (auto simp: record_key_def bit_or_iff bit_push_bit_iff bit_unsigned_iff v
        simp del: bit_numeral_word_iff dest: bit_imp_le_length)
  show "ucast (record_key drive lba) = lba"
    by (rule bit_word_eqI) (simp add: bit_unsigned_iff b)
  show "ucast (drop_bit 16 (record_key drive lba)) = drive"
    by (rule bit_word_eqI) (auto simp: bit_unsigned_iff bit_drop_bit_eq b dest: bit_imp_le_length)
  show "record_key drive lba \<noteq> 0"
    using b [of 31] by auto
qed

lemma ucast_low_byte: "(ucast ((w :: u32) AND 0xFF) :: u8) = ucast w"
proof -
  have "w AND 0xFF = take_bit 8 w"
    by (simp add: take_bit_eq_mask mask_eq_exp_minus_1)
  then show ?thesis
    by (simp only:) (rule bit_word_eqI, simp add: bit_simps)
qed

lemma record_key_eq_iff: "record_key d l = record_key d' l' \<longleftrightarrow> d = d' \<and> l = l'"
  by (metis record_key_fields(1,2))

lemma slot_index_less [simp]: "slot_index lba < PREFETCH_SLOTS"
  using and_pow2_minus_1 [of "unat lba" 3] by (simp add: slot_index_def)

lemma publish_simps [simp]:
  "ps_key (prefetch_publish key words slot) = key"
  "ps_words (prefetch_publish key words slot) = (case words of None \<Rightarrow> ps_words slot | Some ws \<Rightarrow> ws)"
  "ps_sequence (prefetch_publish key words slot) = ps_sequence slot + 2"
  by (simp_all add: prefetch_publish_def Let_def split: option.splits)

lemma even_plus_2: "((w :: u32) + 2) AND 1 = w AND 1"
  by (simp add: and_one_eq mod2_eq_if)

section \<open>The backend seen record by record\<close>

definition same_records :: "backend \<Rightarrow> backend \<Rightarrow> bool" where
  "same_records b b' \<longleftrightarrow> (\<forall>drive lba. record_ok drive lba \<longrightarrow>
     z80_flash_backend_read_record b' drive lba = z80_flash_backend_read_record b drive lba)"

lemma same_disk_records:
  assumes "cache_ok b" and "cache_ok b'" and "same_disk (disk_view b) (disk_view b')"
  shows "same_records b b'"
  unfolding same_records_def
proof (intro allI impI)
  fix drive lba
  assume r: "record_ok drive lba"
  have "flash_read (disk_view b') (record_at drive lba) n = flash_read (disk_view b) (record_at drive lba) n" for n
    using assms(3) by (intro flash_read_cong) (auto simp: same_disk_def record_at_def)
  then show "z80_flash_backend_read_record b' drive lba = z80_flash_backend_read_record b drive lba"
    by (simp add: read_record_view assms r)
qed

lemma flush_records:
  assumes "journal_flash d" and "cache_ok b" and "z80_flash_backend_flush d env b = (Returned r, b')"
  shows "cache_ok b' \<and> same_records b b' \<and> (r \<longrightarrow> z80_flash_backend_quiescent b')"
  using flush_view [OF assms(1,2), of env r b'] assms(2,3) same_disk_records [of b b']
  by (auto simp: z80_flash_backend_flush_def z80_flash_backend_quiescent_def)

lemma write_records:
  assumes "journal_flash d" and "cache_ok b" and r: "record_ok drive lba"
    and len: "length bs = Z80_FLASH_RECORD_BYTES" and "write_type \<le> 2"
    and run: "z80_flash_backend_write_record d env env' now drive lba (Some bs) write_type b = (Returned result, b')"
  shows "cache_ok b' \<and>
    (\<forall>drive' lba'. record_ok drive' lba' \<longrightarrow> \<not> (drive' = drive \<and> lba' = lba) \<longrightarrow>
       z80_flash_backend_read_record b' drive' lba' = z80_flash_backend_read_record b drive' lba') \<and>
    (result \<longrightarrow> z80_flash_backend_read_record b' drive lba = bs)"
proof -
  note v = write_record_view [OF assms(1-5) run]
  then have ok: "cache_ok b'" by simp
  let ?f = "flash_put (record_at drive lba) bs (disk_view b)"
  have put: "z80_flash_backend_read_record b' drive' lba' =
      (if drive' = drive \<and> lba' = lba then bs else z80_flash_backend_read_record b drive' lba')"
    if "same_disk ?f (disk_view b')" "record_ok drive' lba'" for drive' lba'
  proof -
    have "flash_read (disk_view b') (record_at drive' lba') 128 = flash_read ?f (record_at drive' lba') 128"
      using that by (intro flash_read_cong) (auto simp: same_disk_def record_at_def)
    then show ?thesis
      using record_at_disjoint [OF r that(2)] len by (auto simp: read_record_view ok assms(2) that(2) r)
  qed
  show ?thesis
  proof (cases "same_disk ?f (disk_view b')")
    case True
    then show ?thesis using put r ok by auto
  next
    case False
    with v have "\<not> result" "same_records b b'"
      using same_disk_records [OF assms(2) ok] by auto
    with ok show ?thesis by (auto simp: same_records_def)
  qed
qed

lemma length_read_record [simp]:
  assumes "cache_ok b" and "record_ok drive lba"
  shows "length (z80_flash_backend_read_record b drive lba) = Z80_FLASH_RECORD_BYTES"
  by (simp add: read_record_view [OF assms])

section \<open>The invariant\<close>

definition slot_ok :: "backend \<Rightarrow> nat \<Rightarrow> prefetch_slot \<Rightarrow> bool" where
  "slot_ok b i slot \<longleftrightarrow> ps_sequence slot AND 1 = 0 \<and> length (ps_words slot) = RECORD_WORDS \<and>
     (\<forall>drive lba. ps_key slot = record_key drive lba \<longrightarrow> slot_index lba = i \<and> record_ok (unat drive) lba \<and>
        bytes_of_words (ps_words slot) = z80_flash_backend_read_record b (unat drive) lba)"

definition prefetch_ok :: "backend \<Rightarrow> prefetch_slot list \<Rightarrow> bool" where
  "prefetch_ok b slots \<longleftrightarrow> length slots = PREFETCH_SLOTS \<and> (\<forall>i < PREFETCH_SLOTS. slot_ok b i (slots ! i))"

definition hint_ok :: "u32 \<Rightarrow> bool" where
  "hint_ok hint \<longleftrightarrow> hint = 0 \<or> (\<exists>drive lba. hint = record_key drive lba \<and> record_ok (unat drive) lba)"

definition write_pending_ok :: "disk \<Rightarrow> bool" where
  "write_pending_ok s \<longleftrightarrow> record_ok (unat (disk_write_drive s)) (disk_write_lba s) \<and>
     disk_write_command s \<in> {DISK_COMMAND_WRITE_NORMAL, DISK_COMMAND_WRITE_DIRECTORY, DISK_COMMAND_WRITE_UNALLOCATED}"

definition disk_inv :: "disk \<Rightarrow> bool" where
  "disk_inv s \<longleftrightarrow> cache_ok (dk_backend s) \<and> prefetch_ok (dk_backend s) (prefetch s) \<and> hint_ok (prefetch_hint s) \<and>
     length (disk_record s) = Z80_FLASH_RECORD_BYTES \<and>
     disk_status s \<in> {1, 3, 5, 8, 0x81} \<and>
     (disk_status s \<in> {3, 5} \<longrightarrow> disk_data_index s < Z80_FLASH_RECORD_BYTES) \<and>
     (disk_status s = 5 \<longrightarrow> write_pending_ok s) \<and>
     (disk_pending s \<noteq> 0 \<longleftrightarrow> disk_status s = DISK_STATUS_BUSY) \<and>
     (disk_pending s \<notin> {0, ucast DISK_COMMAND_FLUSH} \<longrightarrow>
        write_pending_ok s \<and> disk_pending s = ucast (disk_write_command s))"

lemma slot_ok_cong:
  assumes "slot_ok b i slot" and "same_records b b'"
  shows "slot_ok b' i slot"
  using assms by (auto simp: slot_ok_def same_records_def)

lemma slot_ok_invalid: "slot_ok b i slot \<Longrightarrow> slot_ok b' i (prefetch_publish 0 None slot)"
  using record_key_fields(3) by (auto simp: slot_ok_def even_plus_2)

lemma slot_ok_filled:
  assumes "slot_ok b i slot" and "cache_ok b" and "record_ok (unat drive) lba" and "i = slot_index lba"
  shows "slot_ok b i (prefetch_publish (record_key drive lba)
    (Some (words_of_bytes (z80_flash_backend_read_record b (unat drive) lba))) slot)"
  using assms by (auto simp: slot_ok_def even_plus_2 record_key_eq_iff)

lemma prefetch_ok_update:
  assumes "prefetch_ok b slots" and "slot_ok b i slot"
  shows "prefetch_ok b (slots[i := slot])"
  using assms by (cases "i < PREFETCH_SLOTS") (auto simp: prefetch_ok_def nth_list_update)

lemma prefetch_ok_cong: "prefetch_ok b slots \<Longrightarrow> same_records b b' \<Longrightarrow> prefetch_ok b' slots"
  using slot_ok_cong by (auto simp: prefetch_ok_def)

lemma prefetch_ahead_ok:
  assumes "prefetch_ok (dk_backend s) (prefetch s)" and "cache_ok (dk_backend s)" and "unat drive < Z80_FLASH_DISK_SLOT_COUNT"
  shows "\<exists>p. prefetch_ahead drive lba aheads s = s\<lparr>prefetch := p\<rparr> \<and> prefetch_ok (dk_backend s) p"
  using assms
proof (induction aheads arbitrary: s)
  case Nil
  then show ?case
    by (auto intro: exI [of _ "prefetch s"])
next
  case (Cons ahead aheads)
  let ?l = "of_nat (lba + ahead) :: u16"
  show ?case
  proof (cases "lba + ahead \<ge> Z80_FLASH_RECORD_COUNT \<or> ps_key (prefetch s ! slot_index ?l) = record_key drive ?l")
    case True
    with Cons show ?thesis
      by (cases "lba + ahead \<ge> Z80_FLASH_RECORD_COUNT") (auto simp: Let_def intro: exI [of _ "prefetch s"])
  next
    case False
    then have "record_ok (unat drive) ?l"
      using Cons.prems(3) by (simp add: record_ok_def unat_of_nat del: of_nat_add)
    define slot where "slot = prefetch_publish (record_key drive ?l)
      (Some (words_of_bytes (z80_flash_backend_read_record (dk_backend s) (unat drive) ?l))) (prefetch s ! slot_index ?l)"
    have ok: "slot_ok (dk_backend s) (slot_index ?l) slot"
      unfolding slot_def using Cons.prems \<open>record_ok _ _\<close>
      by (intro slot_ok_filled) (auto simp: prefetch_ok_def)
    let ?s = "s\<lparr>prefetch := (prefetch s)[slot_index ?l := slot]\<rparr>"
    have "prefetch_ahead drive lba (ahead # aheads) s = prefetch_ahead drive lba aheads ?s"
      using False by (simp add: Let_def slot_def)
    with Cons.IH [of ?s] prefetch_ok_update [OF Cons.prems(1) ok] Cons.prems(2,3) show ?thesis
      by auto
  qed
qed

lemma prefetch_service_ok:
  assumes "prefetch_ok (dk_backend s) (prefetch s)" and "cache_ok (dk_backend s)" and "hint_ok (prefetch_hint s)"
  shows "\<exists>p. prefetch_service s = s\<lparr>prefetch := p\<rparr> \<and> prefetch_ok (dk_backend s) p"
proof (cases "prefetch_hint s = 0")
  case True
  with assms show ?thesis
    by (auto simp: prefetch_service_def Let_def intro: exI [of _ "prefetch s"])
next
  case False
  with assms(3) obtain drive lba where h: "prefetch_hint s = record_key drive lba" "record_ok (unat drive) lba"
    by (auto simp: hint_ok_def)
  from h have "unat (ucast (drop_bit 16 (prefetch_hint s) AND 0xFF) :: u8) < Z80_FLASH_DISK_SLOT_COUNT"
    by (simp add: ucast_low_byte record_key_fields record_ok_def)
  from prefetch_ahead_ok [OF assms(1,2) this] False show ?thesis
    by (simp add: prefetch_service_def Let_def del: upt_rec_numeral)
qed

lemma take_reads_record:
  assumes "disk_inv s" and "prefetch_take (record_key drive lba) lba s = (True, s')"
  shows "s' = s\<lparr>disk_record := z80_flash_backend_read_record (dk_backend s) (unat drive) lba\<rparr>"
proof -
  have "slot_ok (dk_backend s) (slot_index lba) (prefetch s ! slot_index lba)"
    using assms(1) by (simp add: disk_inv_def prefetch_ok_def)
  then have "bytes_of_words (ps_words (prefetch s ! slot_index lba)) =
      z80_flash_backend_read_record (dk_backend s) (unat drive) lba"
    if "ps_key (prefetch s ! slot_index lba) = record_key drive lba"
    using that unfolding slot_ok_def by blast
  with assms(2) show ?thesis
    by (simp add: prefetch_take_def Let_def split: if_splits)
qed

text \<open>A \<open>READ\<close> fills the record buffer from the disk, whether or not it hits a slot.\<close>

lemma start_read_eq:
  assumes "disk_inv s"
  shows "\<exists>hits misses. disk_start_read s =
    s\<lparr>disk_record := z80_flash_backend_read_record (dk_backend s) (unat (disk_drive s)) (disk_lba s),
      prefetch_hits := hits, prefetch_misses := misses,
      prefetch_hint := record_key (disk_drive s) (disk_lba s), disk_status := 3\<rparr>"
proof -
  obtain hit s1 where t: "prefetch_take (record_key (disk_drive s) (disk_lba s)) (disk_lba s) s = (hit, s1)"
    by fastforce
  have "s1 = s \<or> (\<exists>r. s1 = s\<lparr>disk_record := r\<rparr>)"
    using t by (auto simp: prefetch_take_def Let_def split: if_splits)
  moreover have "hit \<Longrightarrow> s1 = s\<lparr>disk_record := z80_flash_backend_read_record (dk_backend s) (unat (disk_drive s)) (disk_lba s)\<rparr>"
    using take_reads_record [OF assms] t by simp
  ultimately show ?thesis
    using t by (intro exI [of _ "if hit then prefetch_hits s + 1 else prefetch_hits s"]
        exI [of _ "if hit then prefetch_misses s else prefetch_misses s + 1"], cases hit, cases s)
      (auto simp: disk_start_read_def Let_def)
qed

section \<open>Every step keeps the invariant\<close>

lemma disk_inv_cases:
  assumes "disk_inv s"
  obtains "disk_status s = 1" | "disk_status s = 3" | "disk_status s = 5" | "disk_status s = 8" | "disk_status s = 0x81"
  using assms by (auto simp: disk_inv_def)

lemma disk_inv_core:
  assumes "disk_inv s"
  shows "cache_ok (dk_backend s)" "prefetch_ok (dk_backend s) (prefetch s)" "hint_ok (prefetch_hint s)"
    "length (disk_record s) = Z80_FLASH_RECORD_BYTES"
  using assms by (auto simp: disk_inv_def)

lemma io_read_inv:
  assumes inv: "disk_inv s" and run: "z80_flash_disk_io_read port s = (value, s')"
  shows "disk_inv s'"
  using assms(1)
proof (cases rule: disk_inv_cases)
  case 2
  with assms show ?thesis
    by (auto simp: z80_flash_disk_io_read_def Let_def disk_inv_def write_pending_ok_def
        split: if_splits)
qed (use assms in \<open>auto simp: z80_flash_disk_io_read_def Let_def split: if_splits\<close>)

lemma disk_inv_ready:
  assumes "disk_inv s" and "disk_pending s = 0" and "status \<in> {1, 0x81}"
  shows "disk_inv (s\<lparr>disk_status := status\<rparr>)" "disk_inv (s\<lparr>disk_data_index := i, disk_status := status\<rparr>)"
  using assms
  by (auto simp: disk_inv_def write_pending_ok_def)

lemma disk_inv_submit:
  assumes "disk_inv s" and "command = DISK_COMMAND_FLUSH \<or> write_pending_ok s \<and> command = disk_write_command s"
  shows "disk_inv (disk_submit command s)"
proof -
  have "(ucast command :: u32) \<noteq> 0"
    using assms(2) by (auto simp: write_pending_ok_def)
  with disk_inv_core [OF assms(1)] assms(2) show ?thesis
    by (auto simp: disk_inv_def disk_submit_def write_pending_ok_def)
qed

lemma write_range_cases:
  "(command :: u8) \<ge> 2 \<Longrightarrow> command \<le> 4 \<Longrightarrow> command \<in> {2, 3, 4}"
proof -
  assume "command \<ge> 2" "command \<le> 4"
  then have "unat command \<in> {2, 3, 4}"
    by (auto simp: word_le_nat_alt)
  then show ?thesis
    by (auto simp: word_unat_eq_iff)
qed

lemma start_command_inv:
  assumes inv: "disk_inv s"
  shows "disk_inv (disk_start_command command s)"
proof (cases "disk_status s AND DISK_STATUS_BUSY = 0")
  case False
  with inv show ?thesis by (simp add: disk_start_command_def)
next
  case True
  then have p: "disk_pending s = 0"
    using inv by (auto simp: disk_inv_def)
  have z: "disk_inv (s\<lparr>disk_data_index := 0\<rparr>)"
    using inv by (auto simp: disk_inv_def write_pending_ok_def)
  have ok: "record_ok (unat (disk_drive s)) (disk_lba s)"
    if "\<not> (unat (disk_drive s) \<ge> 4 \<or> unat (disk_lba s) \<ge> 4096)"
    using that by (simp add: record_ok_def)
  have read: "disk_inv (disk_start_read (s\<lparr>disk_data_index := 0\<rparr>))"
    if "record_ok (unat (disk_drive s)) (disk_lba s)"
  proof -
    obtain hits misses where eq: "disk_start_read (s\<lparr>disk_data_index := 0\<rparr>) =
      s\<lparr>disk_data_index := 0, disk_record := z80_flash_backend_read_record (dk_backend s) (unat (disk_drive s)) (disk_lba s),
        prefetch_hits := hits, prefetch_misses := misses,
        prefetch_hint := record_key (disk_drive s) (disk_lba s), disk_status := 3\<rparr>"
      using start_read_eq [OF z] by auto
    show ?thesis
      using inv that p
      by (auto simp: eq disk_inv_def hint_ok_def)
  qed
  have room: "disk_inv (s\<lparr>disk_data_index := 0, disk_write_drive := disk_drive s, disk_write_lba := disk_lba s,
        disk_write_command := command, disk_status := 5\<rparr>)"
    if "record_ok (unat (disk_drive s)) (disk_lba s)" "command \<ge> 2" "command \<le> 4"
    using inv that p write_range_cases [of command]
    by (auto simp: disk_inv_def write_pending_ok_def)
  show ?thesis
    using True inv p z ok read room disk_inv_ready [OF inv p] disk_inv_ready [OF z]
      disk_inv_submit [OF inv, of command]
    by (auto simp: disk_start_command_def Let_def)
qed

lemma io_write_inv:
  assumes inv: "disk_inv s"
  shows "disk_inv (z80_flash_disk_io_write port value s)"
proof (cases "disk_status s = 8 \<or> disk_write_enabled s = 0 \<or> port = DISK_COMMAND_STATUS_PORT")
  case True
  with start_command_inv [OF inv] inv show ?thesis
    by (auto simp: z80_flash_disk_io_write_def Let_def)
next
  case False
  have reg: "disk_inv (s\<lparr>disk_drive := e\<rparr>)" "disk_inv (s\<lparr>disk_lba := l\<rparr>)" for e l
    using inv by (auto simp: disk_inv_def write_pending_ok_def)
  have data: "disk_inv (z80_flash_disk_io_write port value s)" if st: "disk_status s = 5" and port: "port = DISK_DATA_PORT"
  proof -
    let ?s = "s\<lparr>disk_record := (disk_record s)[disk_data_index s := value], disk_data_index := disk_data_index s + 1\<rparr>"
    have w: "write_pending_ok s" "disk_data_index s < 128"
      using inv st by (auto simp: disk_inv_def)
    have "disk_inv ?s" if "disk_data_index s + 1 \<noteq> 128"
      using inv that st by (auto simp: disk_inv_def write_pending_ok_def)
    moreover have "disk_inv (disk_submit (disk_write_command s) ?s)"
      using inv w
      by (auto simp: disk_inv_def write_pending_ok_def disk_submit_def)
    ultimately show ?thesis
      using False st port by (cases "disk_data_index s = 127") (simp_all add: z80_flash_disk_io_write_def Let_def)
  qed
  from inv show ?thesis
  proof (cases rule: disk_inv_cases)
    case 3
    with False reg data inv show ?thesis
      by (cases "port = DISK_DATA_PORT") (auto simp: z80_flash_disk_io_write_def Let_def)
  qed (use False reg inv in \<open>auto simp: z80_flash_disk_io_write_def Let_def\<close>)
qed

lemma idle_inv:
  assumes "cache_ok (dk_backend s)" and "prefetch_ok (dk_backend s) (prefetch s)" and "hint_ok (prefetch_hint s)"
    and "length (disk_record s) = Z80_FLASH_RECORD_BYTES" and "disk_pending s = 0" and "disk_status s \<in> {1, 0x81}"
  shows "disk_inv s"
  using assms by (auto simp: disk_inv_def)

lemma backend_inv:
  assumes "disk_inv s" and "cache_ok b" and "same_records (dk_backend s) b"
  shows "disk_inv (s\<lparr>dk_backend := b, supervisor_flush := x\<rparr>)" "disk_inv (s\<lparr>dk_backend := b\<rparr>)"
  using assms prefetch_ok_cong [OF disk_inv_core(2) [OF assms(1)] assms(3)]
  unfolding disk_inv_def write_pending_ok_def by simp_all

lemma prefetch_service_inv:
  assumes "disk_inv s"
  shows "disk_inv (prefetch_service s)"
proof -
  obtain p where "prefetch_service s = s\<lparr>prefetch := p\<rparr>" "prefetch_ok (dk_backend s) p"
    using prefetch_service_ok [of s] disk_inv_core [OF assms] by blast
  with assms show ?thesis
    by (simp add: disk_inv_def write_pending_ok_def)
qed

lemma failed_inv: "disk_inv s \<Longrightarrow> disk_pending s = 0 \<Longrightarrow> disk_inv (disk_failed s)"
  using disk_inv_core [of s] by (intro idle_inv) (simp_all add: disk_failed_def)

lemma invalidate_inv:
  fixes drive lba
  assumes "disk_inv s"
  defines "s' \<equiv> prefetch_invalidate drive lba s"
  shows "\<exists>p. s' = s\<lparr>prefetch := p\<rparr> \<and> prefetch_ok (dk_backend s) p \<and>
    (\<forall>i < PREFETCH_SLOTS. ps_key (p ! i) \<noteq> record_key drive lba)"
proof (cases "ps_key (prefetch s ! slot_index lba) = record_key drive lba")
  case True
  note ok = disk_inv_core(2) [OF assms(1)]
  let ?slot = "prefetch_publish 0 None (prefetch s ! slot_index lba)"
  have "slot_ok (dk_backend s) (slot_index lba) ?slot"
    using ok by (intro slot_ok_invalid [of "dk_backend s"]) (auto simp: prefetch_ok_def)
  then have "prefetch_ok (dk_backend s) ((prefetch s)[slot_index lba := ?slot])"
    by (rule prefetch_ok_update [OF ok])
  moreover have "ps_key ((prefetch s)[slot_index lba := ?slot] ! i) \<noteq> record_key drive lba" if "i < PREFETCH_SLOTS" for i
    using that ok record_key_fields(3) [of drive lba] by (auto simp: prefetch_ok_def slot_ok_def nth_list_update)
  ultimately show ?thesis
    using True by (auto simp: s'_def prefetch_invalidate_def Let_def)
next
  case False
  have "ps_key (prefetch s ! i) \<noteq> record_key drive lba" if "i < PREFETCH_SLOTS" for i
    using that False disk_inv_core(2) [OF assms(1)] by (auto simp: prefetch_ok_def slot_ok_def)
  with False disk_inv_core(2) [OF assms(1)] show ?thesis
    by (intro exI [of _ "prefetch s"]) (auto simp: s'_def prefetch_invalidate_def Let_def)
qed

text \<open>What running a command does to the disk's records, whether it reports success or not.\<close>

lemma pending_type:
  assumes "disk_inv s" and "disk_pending s \<noteq> 0" and "disk_pending s \<noteq> ucast DISK_COMMAND_FLUSH"
  shows "write_pending_ok s" "(ucast (disk_pending s - ucast DISK_COMMAND_WRITE_NORMAL) :: u8) \<le> 2"
    "disk_pending s = ucast (disk_write_command s)"
proof -
  have "write_pending_ok s" "disk_pending s = ucast (disk_write_command s)"
    using assms unfolding disk_inv_def by blast+
  then show "write_pending_ok s" "(ucast (disk_pending s - ucast DISK_COMMAND_WRITE_NORMAL) :: u8) \<le> 2"
    "disk_pending s = ucast (disk_write_command s)"
    by (auto simp: write_pending_ok_def)
qed

lemma run_command_ok:
  assumes d: "journal_flash d" and inv: "disk_inv s" and pend: "disk_pending s \<noteq> 0"
    and run: "run_command d env env' now s = (Returned success, s')"
  shows "\<exists>p b. s' = s\<lparr>prefetch := p, dk_backend := b\<rparr> \<and> cache_ok b \<and> prefetch_ok b p \<and>
    (if disk_pending s = ucast DISK_COMMAND_FLUSH then same_records (dk_backend s) b \<and> (success \<longrightarrow> z80_flash_backend_quiescent b)
     else (\<forall>drive lba. record_ok drive lba \<longrightarrow> \<not> (drive = unat (disk_write_drive s) \<and> lba = disk_write_lba s) \<longrightarrow>
         z80_flash_backend_read_record b drive lba = z80_flash_backend_read_record (dk_backend s) drive lba) \<and>
       (success \<longrightarrow> z80_flash_backend_read_record b (unat (disk_write_drive s)) (disk_write_lba s) = disk_record s))"
proof (cases "disk_pending s = ucast DISK_COMMAND_FLUSH")
  case True
  then obtain b where b: "z80_flash_backend_flush d env (dk_backend s) = (Returned success, b)" "s' = s\<lparr>dk_backend := b\<rparr>"
    using run by (auto simp: run_command_def split: prod.splits)
  with flush_records [OF d disk_inv_core(1) [OF inv] b(1)] True prefetch_ok_cong [OF disk_inv_core(2) [OF inv]]
  show ?thesis
    by (intro exI [of _ "prefetch s"] exI [of _ b]) auto
next
  case False
  note t = pending_type [OF inv pend False]
  obtain p where p: "prefetch_invalidate (disk_write_drive s) (disk_write_lba s) s = s\<lparr>prefetch := p\<rparr>"
    "prefetch_ok (dk_backend s) p" "\<forall>i < PREFETCH_SLOTS. ps_key (p ! i) \<noteq> record_key (disk_write_drive s) (disk_write_lba s)"
    using invalidate_inv [OF inv] by blast
  obtain b where b: "z80_flash_backend_write_record d env env' now (unat (disk_write_drive s)) (disk_write_lba s)
      (Some (disk_record s)) (ucast (disk_pending s - ucast DISK_COMMAND_WRITE_NORMAL)) (dk_backend s) = (Returned success, b)"
    and s': "s' = s\<lparr>prefetch := p, dk_backend := b\<rparr>"
    using run False by (auto simp: run_command_def Let_def p(1) split: prod.splits)
  have "record_ok (unat (disk_write_drive s)) (disk_write_lba s)"
    using t(1) by (simp add: write_pending_ok_def)
  note w = write_records [OF d disk_inv_core(1) [OF inv] this disk_inv_core(4) [OF inv] t(2) b]
  have "slot_ok b i (p ! i)" if i: "i < PREFETCH_SLOTS" for i
  proof -
    have "slot_ok (dk_backend s) i (p ! i)" "ps_key (p ! i) \<noteq> record_key (disk_write_drive s) (disk_write_lba s)"
      using p i by (auto simp: prefetch_ok_def)
    with w show ?thesis
      unfolding slot_ok_def by (metis unsigned_word_eqI)
  qed
  then have "prefetch_ok b p"
    using p(2) by (simp add: prefetch_ok_def)
  with w s' False show ?thesis
    by auto
qed

lemma service_inv:
  assumes d: "journal_flash d" and inv: "disk_inv s"
    and run: "z80_flash_core1_service d env env' now s = (Returned (), s')"
  shows "disk_inv s'"
proof (cases "disk_fatal_error s = 0")
  case False
  with run inv show ?thesis by (simp add: z80_flash_core1_service_def)
next
  case ok: True
  show ?thesis
  proof (cases "disk_pending s = 0")
    case False
    obtain fate s1 where c: "run_command d env env' now s = (fate, s1)"
      by fastforce
    show ?thesis
    proof (cases fate)
      case Rebooted
      with run ok False c show ?thesis by (simp add: z80_flash_core1_service_def)
    next
      case (Returned success)
      obtain p b where s1: "s1 = s\<lparr>prefetch := p, dk_backend := b\<rparr>" "cache_ok b" "prefetch_ok b p"
        using run_command_ok [OF d inv False c [unfolded Returned]] by blast
      let ?s = "s1\<lparr>disk_pending := 0, disk_status := 1\<rparr>"
      let ?f = "s1\<lparr>disk_fatal_error := 1, disk_pending := 0, disk_status := 0x81\<rparr>"
      have "disk_inv ?s" "disk_inv ?f"
        using disk_inv_core [OF inv] s1 by (simp_all add: idle_inv)
      with run ok False c Returned prefetch_service_inv [of ?s] show ?thesis
        by (cases success) (auto simp: z80_flash_core1_service_def Let_def)
    qed
  next
    case idle: True
    obtain fate b where f: "z80_flash_backend_flush d env (dk_backend s) = (fate, b)"
      by fastforce
    have keep: "disk_inv (s\<lparr>dk_backend := b, supervisor_flush := x\<rparr>)" "disk_inv (s\<lparr>dk_backend := b\<rparr>)"
      if "fate = Returned r" for r x
      using flush_records [OF d disk_inv_core(1) [OF inv], of env r b] f that backend_inv [OF inv] by auto
    show ?thesis
      using run ok idle f keep prefetch_service_inv [OF inv] failed_inv
        prefetch_service_inv [of "s\<lparr>dk_backend := b, supervisor_flush := 0\<rparr>"]
        prefetch_service_inv [of "s\<lparr>dk_backend := b\<rparr>"]
      by (auto simp: z80_flash_core1_service_def Let_def split: if_splits fate.splits prod.splits)
  qed
qed

section \<open>What a Z80 program does\<close>

text \<open>The port accesses of the BIOS: address a record, transfer its 128 bytes.\<close>

definition out_address :: "u8 \<Rightarrow> u16 \<Rightarrow> disk \<Rightarrow> disk" where
  "out_address drive lba s =
     z80_flash_disk_io_write DISK_LBA_HIGH_PORT (ucast (drop_bit 8 lba))
       (z80_flash_disk_io_write DISK_LBA_LOW_PORT (ucast lba)
         (z80_flash_disk_io_write DISK_DRIVE_PORT drive s))"

fun in_data :: "nat \<Rightarrow> disk \<Rightarrow> bytes \<times> disk" where
  "in_data 0 s = ([], s)"
| "in_data (Suc n) s =
     (let (v, s1) = z80_flash_disk_io_read DISK_DATA_PORT s; (vs, s2) = in_data n s1 in (v # vs, s2))"

definition out_data :: "bytes \<Rightarrow> disk \<Rightarrow> disk" where
  "out_data bs s = foldl (\<lambda>s v. z80_flash_disk_io_write DISK_DATA_PORT v s) s bs"

definition read_sector :: "u8 \<Rightarrow> u16 \<Rightarrow> disk \<Rightarrow> bytes \<times> disk" where
  "read_sector drive lba s =
     in_data Z80_FLASH_RECORD_BYTES
       (z80_flash_disk_io_write DISK_COMMAND_STATUS_PORT DISK_COMMAND_READ (out_address drive lba s))"

definition write_sector :: "u8 \<Rightarrow> u8 \<Rightarrow> u16 \<Rightarrow> bytes \<Rightarrow> disk \<Rightarrow> disk" where
  "write_sector command drive lba bs s =
     out_data bs (z80_flash_disk_io_write DISK_COMMAND_STATUS_PORT command (out_address drive lba s))"

definition idle :: "disk \<Rightarrow> bool" where
  "idle s \<longleftrightarrow> disk_write_enabled s \<noteq> 0 \<and> disk_fatal_error s = 0 \<and> disk_status s \<in> {1, 3, 5, 0x81}"

lemma lba_bytes:
  "(((l AND 0xFF00) OR ucast (ucast lba :: u8)) AND 0x00FF) OR push_bit 8 (ucast (ucast (drop_bit 8 lba) :: u8)) = (lba :: u16)"
proof -
  have "(0xFF00 :: u16) = push_bit 8 (mask 8)" "(0x00FF :: u16) = mask 8"
    by (simp_all add: mask_eq_exp_minus_1)
  then show ?thesis
    by (simp only:) (rule bit_word_eqI, simp only: bit_and_iff bit_or_iff bit_push_bit_iff bit_mask_iff
        bit_unsigned_iff bit_drop_bit_eq, auto simp: impossible_bit)
qed

lemma idle_not_busy: "idle s \<Longrightarrow> disk_status s AND DISK_STATUS_BUSY = 0"
  by (auto simp: idle_def)

lemma out_address_eq:
  assumes "idle s"
  shows "out_address drive lba s = s\<lparr>disk_drive := drive, disk_lba := lba\<rparr>"
proof -
  note st = idle_not_busy [OF assms] and en = assms [unfolded idle_def]
  let ?s = "s\<lparr>disk_drive := drive, disk_lba := (disk_lba s AND 0xFF00) OR ucast (ucast lba :: u8)\<rparr>"
  have "z80_flash_disk_io_write DISK_LBA_LOW_PORT (ucast lba) (z80_flash_disk_io_write DISK_DRIVE_PORT drive s) = ?s"
    using st en by (simp add: z80_flash_disk_io_write_def Let_def)
  moreover have "z80_flash_disk_io_write DISK_LBA_HIGH_PORT v ?s =
      ?s\<lparr>disk_lba := (disk_lba ?s AND 0x00FF) OR push_bit 8 (ucast v)\<rparr>" for v
    using st en by (simp add: z80_flash_disk_io_write_def Let_def)
  ultimately show ?thesis
    unfolding out_address_def using lba_bytes [of "disk_lba s" lba] by simp
qed

lemma in_data_eq:
  assumes "disk_status s = 3" and "disk_data_index s + n \<le> 128" and "length (disk_record s) = 128" and "0 < n"
  shows "in_data n s = (slice (disk_data_index s) n (disk_record s),
    s\<lparr>disk_data_index := disk_data_index s + n, disk_status := if disk_data_index s + n = 128 then 1 else 3\<rparr>)"
  using assms
proof (induction n arbitrary: s)
  case (Suc n)
  let ?i = "disk_data_index s"
  have sl: "slice ?i (Suc n) (disk_record s) = disk_record s ! ?i # slice (Suc ?i) n (disk_record s)"
    using Suc.prems by (simp add: slice_def Cons_nth_drop_Suc [symmetric])
  show ?case
  proof (cases "n = 0")
    case True
    with Suc.prems sl show ?thesis
      by (cases s) (auto simp: z80_flash_disk_io_read_def Let_def slice_def)
  next
    case False
    let ?s = "s\<lparr>disk_data_index := ?i + 1\<rparr>"
    have "z80_flash_disk_io_read DISK_DATA_PORT s = (disk_record s ! ?i, ?s)"
      using Suc.prems False by (simp add: z80_flash_disk_io_read_def Let_def)
    with Suc.IH [of ?s] Suc.prems False sl show ?thesis
      by simp
  qed
qed simp

lemma splice_nil: "splice i [] xs = xs"
  by (simp add: splice_def)

lemma splice_cons:
  assumes "i < length xs"
  shows "splice i (v # vs) xs = splice (Suc i) vs (xs[i := v])"
  using assms by (simp add: splice_def take_Suc_conv_app_nth upd_conv_take_nth_drop drop_Suc_Cons ac_simps)

lemma out_data_eq:
  assumes "disk_status s = 5" and "disk_data_index s + length bs = 128" and "length (disk_record s) = 128"
    and "bs \<noteq> []" and "disk_write_enabled s \<noteq> 0"
  shows "out_data bs s = disk_submit (disk_write_command s)
    (s\<lparr>disk_record := splice (disk_data_index s) bs (disk_record s), disk_data_index := 128\<rparr>)"
  using assms
proof (induction bs arbitrary: s)
  case (Cons v vs)
  let ?i = "disk_data_index s"
  let ?s = "s\<lparr>disk_record := (disk_record s)[?i := v], disk_data_index := ?i + 1\<rparr>"
  have w: "z80_flash_disk_io_write DISK_DATA_PORT v s =
      (if ?i = 127 then disk_submit (disk_write_command s) ?s else ?s)"
    using Cons.prems by (simp add: z80_flash_disk_io_write_def Let_def)
  show ?case
  proof (cases "vs = []")
    case True
    with Cons.prems w show ?thesis
      by (simp add: out_data_def splice_cons splice_nil)
  next
    case False
    with Cons.prems have i: "?i \<noteq> 127"
      by (cases vs) auto
    with Cons.IH [of ?s] Cons.prems False w show ?thesis
      by (simp add: out_data_def splice_cons)
  qed
qed simp

lemma idle_inv_address:
  assumes "disk_inv s"
  shows "disk_inv (s\<lparr>disk_drive := drive, disk_lba := lba, disk_data_index := 0\<rparr>)"
  using assms by (auto simp: disk_inv_def write_pending_ok_def)

lemma read_sector_eq:
  assumes inv: "disk_inv s" and idle: "idle s" and r: "record_ok (unat drive) lba"
  shows "fst (read_sector drive lba s) = z80_flash_backend_read_record (dk_backend s) (unat drive) lba"
    "disk_status (snd (read_sector drive lba s)) = DISK_STATUS_READY"
proof -
  let ?s = "s\<lparr>disk_drive := drive, disk_lba := lba, disk_data_index := 0\<rparr>"
  obtain hits misses where rd: "disk_start_read ?s =
      ?s\<lparr>disk_record := z80_flash_backend_read_record (dk_backend s) (unat drive) lba, prefetch_hits := hits,
        prefetch_misses := misses, prefetch_hint := record_key drive lba, disk_status := 3\<rparr>"
    using start_read_eq [OF idle_inv_address [OF inv, where drive = drive and lba = lba]] by auto
  have "z80_flash_disk_io_write DISK_COMMAND_STATUS_PORT DISK_COMMAND_READ (out_address drive lba s) = disk_start_read ?s"
    using idle_not_busy [OF idle] idle r unfolding out_address_eq [OF idle]
    by (simp add: z80_flash_disk_io_write_def disk_start_command_def Let_def idle_def record_ok_def)
  then have "read_sector drive lba s = in_data 128 (disk_start_read ?s)"
    by (simp add: read_sector_def)
  with in_data_eq [of "disk_start_read ?s" 128] r disk_inv_core(1) [OF inv] rd
  show "fst (read_sector drive lba s) = z80_flash_backend_read_record (dk_backend s) (unat drive) lba"
    "disk_status (snd (read_sector drive lba s)) = DISK_STATUS_READY"
    by (simp_all add: slice_def)
qed

lemma write_sector_eq:
  assumes inv: "disk_inv s" and idle: "idle s" and r: "record_ok (unat drive) lba"
    and len: "length bs = Z80_FLASH_RECORD_BYTES" and c: "command \<in> {2, 3, 4}"
  shows "write_sector command drive lba bs s =
    s\<lparr>disk_drive := drive, disk_lba := lba, disk_data_index := 128, disk_write_drive := drive, disk_write_lba := lba,
      disk_write_command := command, disk_record := bs, disk_status := 8, disk_pending := ucast command\<rparr>"
proof -
  let ?s = "s\<lparr>disk_drive := drive, disk_lba := lba, disk_data_index := 0, disk_write_drive := drive,
    disk_write_lba := lba, disk_write_command := command, disk_status := 5\<rparr>"
  have start: "z80_flash_disk_io_write DISK_COMMAND_STATUS_PORT command (out_address drive lba s) = ?s"
    using idle_not_busy [OF idle] idle r c unfolding out_address_eq [OF idle]
    by (elim insertE) (simp_all add: z80_flash_disk_io_write_def disk_start_command_def Let_def idle_def record_ok_def)
  have "splice 0 bs (disk_record s) = bs"
    using len disk_inv_core(4) [OF inv] by (simp add: splice_def)
  moreover have "bs \<noteq> []"
    using len by auto
  ultimately show ?thesis
    using out_data_eq [of ?s bs] disk_inv_core(4) [OF inv] len idle
    by (simp add: write_sector_def start disk_submit_def idle_def)
qed

section \<open>Steps of the two cores\<close>

inductive disk_step :: "flash_dev \<Rightarrow> disk \<Rightarrow> disk \<Rightarrow> bool" for d where
  io_read: "z80_flash_disk_io_read port s = (v, s') \<Longrightarrow> disk_step d s s'"
| io_write: "disk_step d s (z80_flash_disk_io_write port v s)"
| service: "z80_flash_core1_service d env env' now s = (Returned (), s') \<Longrightarrow> disk_step d s s'"
| request_flush: "disk_step d s (z80_flash_disk_request_flush s)"
| set_write_enabled: "disk_step d s (z80_flash_disk_set_write_enabled enabled s)"
| arm_fault: "disk_step d s (z80_flash_disk_arm_fault point s)"

inductive_cases disk_stepE: "disk_step d s s'"

lemma armed_records: "same_records b (z80_flash_backend_arm_fault point b)"
  "cache_ok b \<Longrightarrow> cache_ok (z80_flash_backend_arm_fault point b)"
  by (simp_all add: same_records_def z80_flash_backend_arm_fault_def z80_flash_backend_read_record_def
      cache_ok_def cache_target_def Let_def)

lemma disk_step_inv:
  assumes "journal_flash d" and "disk_step d s s'" and "disk_inv s"
  shows "disk_inv s'"
  using assms(2,3)
proof cases
  case (io_read port v)
  with assms(3) show ?thesis by (auto intro: io_read_inv)
next
  case io_write
  with assms(3) show ?thesis by (simp add: io_write_inv)
next
  case (service env env' now)
  with assms show ?thesis by (blast intro: service_inv)
next
  case (arm_fault point)
  with assms(3) armed_records [of "dk_backend s"] backend_inv [OF assms(3)] disk_inv_core [OF assms(3)] show ?thesis
    by (simp add: z80_flash_disk_arm_fault_def)
qed (use assms(3) in \<open>simp_all add: disk_inv_def write_pending_ok_def z80_flash_disk_request_flush_def
      z80_flash_disk_set_write_enabled_def\<close>)

lemma disk_steps_inv:
  assumes "journal_flash d" and "(disk_step d)\<^sup>*\<^sup>* s s'" and "disk_inv s"
  shows "disk_inv s'"
  using assms(2,3) by induction (auto intro: disk_step_inv [OF assms(1)])

text \<open>The state after \<open>z80_flash_storage_init\<close> has succeeded on zero-initialised statics.\<close>

definition disk_boot :: "backend \<Rightarrow> disk" where
  "disk_boot b = disk_reset
     \<lparr>disk_pending = 0, supervisor_flush = 0, disk_status = DISK_STATUS_READY, disk_fatal_error = 0,
      disk_write_enabled = 1, disk_drive = 0, disk_lba = 0, disk_write_drive = 0, disk_write_lba = 0,
      disk_write_command = 0, disk_data_index = 0, disk_record = replicate Z80_FLASH_RECORD_BYTES 0,
      prefetch = replicate PREFETCH_SLOTS \<lparr>ps_sequence = 0, ps_key = 0, ps_words = replicate RECORD_WORDS 0\<rparr>,
      prefetch_hint = 0, prefetch_hits = 0, prefetch_misses = 0, dk_backend = backend_reset b\<rparr>"

lemma disk_boot_inv: "disk_inv (disk_boot b)" "idle (disk_boot b)"
proof -
  have "slot_ok b' i (prefetch_publish 0 None \<lparr>ps_sequence = 0, ps_key = 0, ps_words = replicate RECORD_WORDS 0\<rparr>)"
    for b' :: backend and i
    using record_key_fields(3) by (auto simp: slot_ok_def)
  then have "prefetch_ok (dk_backend (disk_boot b)) (prefetch (disk_boot b))"
    by (auto simp: prefetch_ok_def disk_boot_def disk_reset_def)
  then show "disk_inv (disk_boot b)"
    by (intro idle_inv) (simp_all add: disk_boot_def disk_reset_def hint_ok_def cache_ok_def backend_reset_def)
  show "idle (disk_boot b)"
    by (simp add: disk_boot_def disk_reset_def idle_def)
qed

lemma fatal_step:
  assumes "disk_step d s s'" and "disk_fatal_error s \<noteq> 0"
  shows "disk_fatal_error s' = disk_fatal_error s \<and> be_flash (dk_backend s') = be_flash (dk_backend s) \<and>
    be_cache (dk_backend s') = be_cache (dk_backend s)"
  using assms
  by cases (auto simp: z80_flash_disk_io_read_def z80_flash_disk_io_write_def disk_start_command_def disk_submit_def
      z80_flash_core1_service_def z80_flash_disk_request_flush_def z80_flash_disk_set_write_enabled_def
      z80_flash_disk_arm_fault_def z80_flash_backend_arm_fault_def Let_def split: if_splits)

lemma service_write_commits:
  assumes d: "flash_device d" and inv: "disk_inv s" and "disk_fatal_error s = 0"
    and p: "disk_pending s \<notin> {0, ucast DISK_COMMAND_FLUSH}" and "armed_fault (dk_backend s) = 0"
    and env: "bus_acquired env" "bus_released env" "lockout_ok env"
    and env': "bus_acquired env'" "bus_released env'" "lockout_ok env'"
  shows "\<exists>s'. z80_flash_core1_service d env env' now s = (Returned (), s') \<and>
    disk_status s' = DISK_STATUS_READY \<and> disk_fatal_error s' = 0 \<and> disk_write_enabled s' = disk_write_enabled s \<and>
    (\<forall>drive lba. record_ok drive lba \<longrightarrow> z80_flash_backend_read_record (dk_backend s') drive lba =
      (if drive = unat (disk_write_drive s) \<and> lba = disk_write_lba s then disk_record s
       else z80_flash_backend_read_record (dk_backend s) drive lba))"
proof -
  have pend: "disk_pending s \<noteq> 0" "disk_pending s \<noteq> ucast DISK_COMMAND_FLUSH"
    using p by auto
  note t = pending_type [OF inv pend]
  have w: "record_ok (unat (disk_write_drive s)) (disk_write_lba s)"
    using t(1) by (simp add: write_pending_ok_def)
  obtain q where q: "prefetch_invalidate (disk_write_drive s) (disk_write_lba s) s = s\<lparr>prefetch := q\<rparr>"
    using invalidate_inv [OF inv] by blast
  obtain b1 where "z80_flash_backend_write_record d env env' now (unat (disk_write_drive s)) (disk_write_lba s)
      (Some (disk_record s)) (ucast (disk_pending s - ucast DISK_COMMAND_WRITE_NORMAL)) (dk_backend s) = (Returned True, b1)"
    using write_record_commits [OF d disk_inv_core(1) [OF inv] w assms(5) env env' disk_inv_core(4) [OF inv] t(2)]
    by blast
  then have run: "run_command d env env' now s = (Returned True, s\<lparr>prefetch := q, dk_backend := b1\<rparr>)"
    using pend by (simp add: run_command_def Let_def q)
  let ?s = "s\<lparr>prefetch := q, dk_backend := b1, disk_pending := 0, disk_status := 1\<rparr>"
  from run_command_ok [OF flash_device_journal [OF d] inv pend(1) run] pend
  obtain c: "cache_ok b1" "prefetch_ok b1 q" and others: "\<forall>drive lba. record_ok drive lba \<longrightarrow>
      \<not> (drive = unat (disk_write_drive s) \<and> lba = disk_write_lba s) \<longrightarrow>
      z80_flash_backend_read_record b1 drive lba = z80_flash_backend_read_record (dk_backend s) drive lba"
    and same: "z80_flash_backend_read_record b1 (unat (disk_write_drive s)) (disk_write_lba s) = disk_record s"
    by (cases s) auto
  obtain p' where p': "prefetch_service ?s = ?s\<lparr>prefetch := p'\<rparr>"
    using prefetch_service_ok [of ?s] c disk_inv_core(3) [OF inv] by auto
  show ?thesis
    using run assms(3) pend others same p' by (simp add: z80_flash_core1_service_def Let_def)
qed

lemma quiescent_records:
  assumes "disk_inv s" and "z80_flash_disk_quiescent s" and r: "record_ok drive lba"
  shows "flash_read (be_flash (dk_backend s)) (record_at drive lba) Z80_FLASH_RECORD_BYTES =
      z80_flash_backend_read_record (dk_backend s) drive lba \<and> disk_pending s = 0"
proof -
  have "\<not> dc_dirty (be_cache (dk_backend s))" and st: "disk_status s = 1"
    using assms(2) by (simp_all add: z80_flash_disk_quiescent_def z80_flash_backend_quiescent_def)
  then have "same_disk (disk_view (dk_backend s)) (be_flash (dk_backend s))"
    by (intro clean_view) (simp_all add: disk_inv_core(1) [OF assms(1)])
  then have "flash_read (be_flash (dk_backend s)) (record_at drive lba) Z80_FLASH_RECORD_BYTES =
      flash_read (disk_view (dk_backend s)) (record_at drive lba) Z80_FLASH_RECORD_BYTES"
    by (intro flash_read_cong) (auto simp: same_disk_def record_at_def)
  moreover have "disk_pending s = 0"
    using assms(1) st by (simp add: disk_inv_def)
  ultimately show ?thesis
    by (simp add: read_record_view [OF disk_inv_core(1) [OF assms(1)] r])
qed

section \<open>Properties\<close>

text \<open>
  C7. Whatever the Z80 writes to the ports and however the flash service is scheduled between the
  accesses, in every state reachable from boot the controller's buffers are in bounds, at most
  one command is pending and exactly while the status is \<open>BUSY\<close>, and every read-ahead slot that
  names a record holds that record's current contents, so a read that hits a slot returns
  what a read of the disk returns.
\<close>

theorem disk_reachable_inv:
  assumes "journal_flash d" and "(disk_step d)\<^sup>*\<^sup>* (disk_boot b) s"
  shows "disk_inv s"
  by (rule disk_steps_inv [OF assms disk_boot_inv(1)])

theorem disk_reachable_inv_witness:
  "disk_inv (z80_flash_disk_request_flush (disk_boot sample_backend))"
  by (rule disk_reachable_inv [OF host.journal_flash_axioms, of sample_backend])
    (rule r_into_rtranclp, rule disk_step.request_flush)

text \<open>
  A program that addresses a valid record and issues \<open>READ\<close> gets from 128 reads of the data port the
  bytes of that record, from the cached sector, the read-ahead slots or flash alike, and the
  controller is then ready again.
\<close>

theorem z80_reads_record:
  assumes "disk_inv s" and "idle s" and "record_ok (unat drive) lba"
  shows "fst (read_sector drive lba s) = flash_read (disk_view (dk_backend s)) (record_at (unat drive) lba) 128 \<and>
    disk_status (snd (read_sector drive lba s)) = DISK_STATUS_READY"
  using read_sector_eq [OF assms] read_record_view [OF disk_inv_core(1) [OF assms(1)] assms(3)] by simp

theorem z80_reads_record_witness:
  "disk_status (snd (read_sector 2 7 (disk_boot sample_backend))) = DISK_STATUS_READY"
  using z80_reads_record [OF disk_boot_inv, of 2 7] by (simp add: record_ok_def)



text \<open>
  While a command is pending the record buffer and the write address belong to core 1: no port
  access of the Z80 changes anything of the controller, and the data port reads as zero.
\<close>

theorem busy_excludes_core0:
  assumes "disk_inv s" and "disk_pending s \<noteq> 0"
  shows "z80_flash_disk_io_write port v s = s \<and> snd (z80_flash_disk_io_read port s) = s \<and>
    fst (z80_flash_disk_io_read DISK_DATA_PORT s) = 0"
proof -
  have "disk_status s = 8"
    using assms by (simp add: disk_inv_def)
  then show ?thesis
    by (simp add: z80_flash_disk_io_write_def z80_flash_disk_io_read_def disk_start_command_def Let_def)
qed

theorem busy_excludes_core0_witness:
  "let s = disk_submit DISK_COMMAND_FLUSH (disk_boot sample_backend)
   in z80_flash_disk_io_write DISK_DRIVE_PORT 3 s = s"
  using busy_excludes_core0 [OF disk_inv_submit [OF disk_boot_inv(1) disjI1 [OF refl]], of sample_backend
      DISK_DRIVE_PORT 3]
  by (simp add: disk_submit_def Let_def)



text \<open>
  When the controller reports that it is quiescent, every record the Z80 can read is in flash: power
  can be removed, or the flash remounted, without losing a write.
\<close>

theorem quiescent_is_durable:
  assumes "disk_inv s" and "z80_flash_disk_quiescent s" and r: "record_ok drive lba"
  shows "flash_read (be_flash (dk_backend s)) (record_at drive lba) Z80_FLASH_RECORD_BYTES =
      z80_flash_backend_read_record (dk_backend s) drive lba \<and> disk_pending s = 0"
  using assms by (rule quiescent_records)

theorem quiescent_is_durable_witness:
  "disk_pending (disk_boot sample_backend) = 0"
proof -
  have "z80_flash_disk_quiescent (disk_boot sample_backend)" "record_ok 0 0"
    by (simp_all add: z80_flash_disk_quiescent_def disk_boot_def disk_reset_def z80_flash_backend_quiescent_def
        backend_reset_def record_ok_def)
  from quiescent_is_durable [OF disk_boot_inv(1) this] show ?thesis by blast
qed

end
