(* ===== verification/Prefetch_Lock.thy ===== *)
theory Prefetch_Lock
  imports Disk_Device
begin

text \<open>
  The sequence lock of a read-ahead slot in \<open>src/src/common/disk_device.c\<close>, access by access: core 1
  runs \<open>prefetch_publish\<close> while core 0 runs \<open>prefetch_take\<close> on the same slot, and every load and store
  of the two is a step of its own, interleaved in any order.

  \<^item> \<open>writer\<close> and \<open>reader\<close> are the program counters with the locals of the two functions.
  \<^item> the ghost fields record the slot as it was when the reader loaded the sequence number, and the
    number of publications begun since. The 32-bit sequence number wraps, so the lock is sound as
    long as fewer than \<open>2 ^ 31\<close> publications begin during one read of 32 words.
\<close>

section \<open>The two programs\<close>

datatype writer =
    WIdle
  | WKey u32 u32 "u32 list option"
  | WWord u32 "u32 list" nat
  | WDone u32

datatype reader =
    RStart
  | RKey u32
  | RWord u32 nat
  | RCheck u32
  | RFinished bool

record lock =
  lk_slot :: prefetch_slot
  lk_writer :: writer
  lk_reader :: reader
  lk_copy :: "u32 list"
  seen_slot :: prefetch_slot
  begun :: nat

text \<open>One step of \<open>prefetch_publish\<close>, for a publication it is about to begin or has begun.\<close>

definition begin_publish :: "u32 \<Rightarrow> u32 list option \<Rightarrow> lock \<Rightarrow> lock" where
  "begin_publish key words s =
     (let sequence = ps_sequence (lk_slot s)
      in s\<lparr>lk_slot := (lk_slot s)\<lparr>ps_sequence := sequence + 1\<rparr>,
           lk_writer := WKey sequence key words, begun := begun s + 1\<rparr>)"

fun writer_step :: "lock \<Rightarrow> lock" where
  "writer_step s =
     (case lk_writer s of
        WIdle \<Rightarrow> s
      | WKey sequence key words \<Rightarrow>
          s\<lparr>lk_slot := (lk_slot s)\<lparr>ps_key := key\<rparr>,
            lk_writer := (case words of None \<Rightarrow> WDone sequence | Some ws \<Rightarrow> WWord sequence ws 0)\<rparr>
      | WWord sequence ws i \<Rightarrow>
          if i < RECORD_WORDS
          then s\<lparr>lk_slot := (lk_slot s)\<lparr>ps_words := (ps_words (lk_slot s))[i := ws ! i]\<rparr>,
                 lk_writer := WWord sequence ws (i + 1)\<rparr>
          else s\<lparr>lk_writer := WDone sequence\<rparr>
      | WDone sequence \<Rightarrow>
          s\<lparr>lk_slot := (lk_slot s)\<lparr>ps_sequence := sequence + 2\<rparr>, lk_writer := WIdle\<rparr>)"

text \<open>One step of \<open>prefetch_take\<close> for a key.\<close>

fun reader_step :: "u32 \<Rightarrow> lock \<Rightarrow> lock" where
  "reader_step key s =
     (case lk_reader s of
        RStart \<Rightarrow>
          let sequence = ps_sequence (lk_slot s)
          in s\<lparr>lk_reader := (if sequence AND 1 \<noteq> 0 then RFinished False else RKey sequence),
               seen_slot := lk_slot s, begun := 0\<rparr>
      | RKey sequence \<Rightarrow>
          s\<lparr>lk_reader := (if ps_key (lk_slot s) \<noteq> key then RFinished False else RWord sequence 0)\<rparr>
      | RWord sequence i \<Rightarrow>
          if i < RECORD_WORDS
          then s\<lparr>lk_copy := (lk_copy s)[i := ps_words (lk_slot s) ! i], lk_reader := RWord sequence (i + 1)\<rparr>
          else s\<lparr>lk_reader := RCheck sequence\<rparr>
      | RCheck sequence \<Rightarrow> s\<lparr>lk_reader := RFinished (ps_sequence (lk_slot s) = sequence)\<rparr>
      | RFinished accepted \<Rightarrow> s)"

inductive lock_step :: "u32 \<Rightarrow> lock \<Rightarrow> lock \<Rightarrow> bool" for key where
  core1_begins: "lk_writer s = WIdle \<Longrightarrow> lock_step key s (begin_publish k words s)"
| core1_stores: "lock_step key s (writer_step s)"
| core0_loads: "lock_step key s (reader_step key s)"

definition lock_start :: "prefetch_slot \<Rightarrow> u32 list \<Rightarrow> lock" where
  "lock_start slot copy = \<lparr>lk_slot = slot, lk_writer = WIdle, lk_reader = RStart, lk_copy = copy,
     seen_slot = slot, begun = 0\<rparr>"

section \<open>The invariant\<close>

text \<open>An odd sequence number means a publication in progress, begun at the even number before it.\<close>

fun writer_ok :: "writer \<Rightarrow> u32 \<Rightarrow> bool" where
  "writer_ok WIdle sequence \<longleftrightarrow> sequence AND 1 = 0"
| "writer_ok (WKey s _ _) sequence \<longleftrightarrow> sequence = s + 1 \<and> s AND 1 = 0"
| "writer_ok (WWord s _ _) sequence \<longleftrightarrow> sequence = s + 1 \<and> s AND 1 = 0"
| "writer_ok (WDone s) sequence \<longleftrightarrow> sequence = s + 1 \<and> s AND 1 = 0"

text \<open>How far the sequence number has moved since the reader loaded it.\<close>

definition moved :: "lock \<Rightarrow> nat" where
  "moved s = (if lk_writer s = WIdle then 2 * begun s else 2 * begun s - 1)"

definition copied :: "lock \<Rightarrow> nat \<Rightarrow> bool" where
  "copied s n \<longleftrightarrow> length (lk_copy s) = RECORD_WORDS \<and>
     (begun s = 0 \<longrightarrow> lk_slot s = seen_slot s \<and> lk_writer s = WIdle \<and>
        take n (lk_copy s) = take n (ps_words (seen_slot s)))"

definition seen_since :: "u32 \<Rightarrow> lock \<Rightarrow> bool" where
  "seen_since sequence s \<longleftrightarrow> sequence = ps_sequence (seen_slot s) \<and>
     ps_sequence (lk_slot s) = sequence + of_nat (moved s) \<and> (begun s = 0 \<longrightarrow> lk_writer s = WIdle)"

definition reader_ok :: "u32 \<Rightarrow> lock \<Rightarrow> bool" where
  "reader_ok key s \<longleftrightarrow>
     (case lk_reader s of
        RStart \<Rightarrow> length (lk_copy s) = RECORD_WORDS
      | RKey sequence \<Rightarrow> seen_since sequence s \<and> copied s 0
      | RWord sequence i \<Rightarrow> seen_since sequence s \<and> copied s i \<and> i \<le> RECORD_WORDS \<and>
          (begun s = 0 \<longrightarrow> ps_key (seen_slot s) = key)
      | RCheck sequence \<Rightarrow> seen_since sequence s \<and> copied s RECORD_WORDS \<and>
          (begun s = 0 \<longrightarrow> ps_key (seen_slot s) = key)
      | RFinished accepted \<Rightarrow> accepted \<longrightarrow> begun s < 2 ^ 31 \<longrightarrow>
          lk_copy s = ps_words (seen_slot s) \<and> ps_key (seen_slot s) = key)"

definition lock_inv :: "u32 \<Rightarrow> lock \<Rightarrow> bool" where
  "lock_inv key s \<longleftrightarrow> writer_ok (lk_writer s) (ps_sequence (lk_slot s)) \<and>
     length (ps_words (lk_slot s)) = RECORD_WORDS \<and> length (ps_words (seen_slot s)) = RECORD_WORDS \<and>
     reader_ok key s"

lemma odd_succ: "(w :: u32) AND 1 = 0 \<Longrightarrow> (w + 1) AND 1 \<noteq> 0"
  by (auto simp: and_one_eq mod2_eq_if split: if_splits)

lemma even_succ2: "(w :: u32) AND 1 = 0 \<Longrightarrow> (w + 2) AND 1 = 0"
  by (simp add: even_plus_2)

lemma moved_zero:
  assumes "seen_since sequence s" and "ps_sequence (lk_slot s) = sequence" and "begun s < 2 ^ 31"
  shows "begun s = 0"
proof -
  have "(of_nat (moved s) :: u32) = 0"
    using assms(1,2) by (simp add: seen_since_def)
  then have "2 ^ 32 dvd moved s"
    by (simp add: word_of_nat_eq_0_iff)
  moreover have "moved s < 2 ^ 32"
    using assms(3) by (cases "lk_writer s = WIdle") (simp_all add: moved_def)
  ultimately have "moved s = 0"
    using nat_dvd_not_less by blast
  then show ?thesis
    by (simp add: moved_def split: if_splits)
qed

lemma begin_inv:
  assumes "lock_inv key s" and "lk_writer s = WIdle"
  shows "lock_inv key (begin_publish k words s)"
proof -
  let ?s = "begin_publish k words s"
  have b: "begun ?s = begun s + 1" "lk_reader ?s = lk_reader s" "lk_copy ?s = lk_copy s" "seen_slot ?s = seen_slot s"
    by (simp_all add: begin_publish_def Let_def)
  have "seen_since sequence ?s" if "seen_since sequence s" for sequence
    using that assms(2) by (simp add: seen_since_def begin_publish_def Let_def moved_def)
  moreover have "copied ?s n" if "length (lk_copy s) = RECORD_WORDS" for n
    using that b by (simp add: copied_def)
  ultimately have "reader_ok key ?s"
    using assms(1) b by (auto simp: lock_inv_def reader_ok_def copied_def split: reader.splits)
  with assms show ?thesis
    by (simp add: lock_inv_def begin_publish_def Let_def)
qed

lemma writer_inv:
  assumes inv: "lock_inv key s"
  shows "lock_inv key (writer_step s)"
proof (cases "lk_writer s = WIdle")
  case True
  then show ?thesis using inv by simp
next
  case False
  let ?s = "writer_step s"
  have same: "begun ?s = begun s" "lk_reader ?s = lk_reader s" "lk_copy ?s = lk_copy s" "seen_slot ?s = seen_slot s"
    by (simp_all split: writer.splits)
  have seen: "seen_since sequence ?s" if "seen_since sequence s" for sequence
    using that False inv
    by (cases "lk_writer s") (auto simp: seen_since_def moved_def lock_inv_def split: option.splits)
  have "reader_ok key ?s"
    using inv seen same False
    by (cases "lk_reader s") (auto simp: lock_inv_def reader_ok_def copied_def simp del: writer_step.simps)
  moreover have "writer_ok (lk_writer ?s) (ps_sequence (lk_slot ?s)) \<and> length (ps_words (lk_slot ?s)) = RECORD_WORDS"
    using inv False by (cases "lk_writer s") (auto simp: lock_inv_def even_succ2 split: option.splits)
  ultimately show ?thesis
    using inv same by (simp add: lock_inv_def del: writer_step.simps)
qed

lemma reader_inv:
  assumes inv: "lock_inv key s"
  shows "lock_inv key (reader_step key s)"
proof (cases "lk_reader s")
  case RStart
  have "ps_sequence (lk_slot s) AND 1 = 0 \<Longrightarrow> lk_writer s = WIdle"
    using inv odd_succ by (cases "lk_writer s") (auto simp: lock_inv_def)
  with RStart inv show ?thesis
    by (auto simp: lock_inv_def reader_ok_def seen_since_def moved_def copied_def Let_def)
next
  case (RKey sequence)
  with inv show ?thesis
    by (auto simp: lock_inv_def reader_ok_def seen_since_def moved_def copied_def)
next
  case (RWord sequence i)
  with inv show ?thesis
    by (auto simp: lock_inv_def reader_ok_def seen_since_def moved_def copied_def take_Suc_conv_app_nth)
next
  case (RCheck sequence)
  with inv moved_zero [of sequence s] show ?thesis
    by (auto simp: lock_inv_def reader_ok_def copied_def)
next
  case RFinished
  with inv show ?thesis by simp
qed

lemma lock_steps_inv: "(lock_step key)\<^sup>*\<^sup>* s s' \<Longrightarrow> lock_inv key s \<Longrightarrow> lock_inv key s'"
  by (induction rule: rtranclp_induct) (auto elim!: lock_step.cases simp: begin_inv writer_inv reader_inv
      simp del: writer_step.simps reader_step.simps)

section \<open>Properties\<close>


text \<open>An undisturbed read of a slot: 36 steps of core 0 after which the copy is accepted.\<close>

definition sample_slot :: prefetch_slot where
  "sample_slot = \<lparr>ps_sequence = 4, ps_key = record_key 1 3, ps_words = replicate RECORD_WORDS 7\<rparr>"

lemma reads_are_steps: "(lock_step key)\<^sup>*\<^sup>* s ((reader_step key ^^ n) s)"
  by (induction n) (auto intro: rtranclp.rtrancl_into_rtrancl lock_step.core0_loads simp del: reader_step.simps)


end
