(* ===== verification/Environment_Store.thy ===== *)
theory Environment_Store
  imports Flash_Records
begin

text \<open>
  The two-slot snapshot store of \<open>src/src/common/environment_store.c\<close>, over the environment writer of the
  flash backend. A snapshot is written to the slot that is not current, payload first and the
  checksummed header page last, so an interrupted save leaves the current slot in force. Return
  codes are those of the code: \<open>-2\<close> corrupt, \<open>-3\<close> write failure, \<open>-4\<close> too long.
\<close>

section \<open>Slots\<close>

abbreviation ENV_MAGIC :: u32 where "ENV_MAGIC \<equiv> 0x31564e45"
abbreviation ENV_VERSION :: u32 where "ENV_VERSION \<equiv> 1"
abbreviation Z80_ENV_SNAPSHOT_BYTES :: nat where "Z80_ENV_SNAPSHOT_BYTES \<equiv> 3840"

record env_header =
  eh_magic :: u32
  eh_version :: u32
  eh_sequence :: u32
  eh_length :: u32
  eh_payload_crc :: u32
  eh_header_crc :: u32

definition env_header_of :: "bytes \<Rightarrow> env_header" where
  "env_header_of bs =
     \<lparr>eh_magic = rd32 bs, eh_version = rd32 (drop 4 bs), eh_sequence = rd32 (drop 8 bs),
      eh_length = rd32 (drop 12 bs), eh_payload_crc = rd32 (drop 16 bs), eh_header_crc = rd32 (drop 20 bs)\<rparr>"

definition slot_data :: "nat \<Rightarrow> nat" where
  "slot_data slot = Z80_FLASH_ENV_OFFSET + slot * FLASH_SECTOR_SIZE"

definition valid_slot :: "flash \<Rightarrow> nat \<Rightarrow> bool \<times> env_header" where
  "valid_slot f slot =
     (let header = env_header_of (flash_read f (slot_data slot) 24)
      in (eh_magic header = ENV_MAGIC \<and> eh_version header = ENV_VERSION \<and>
          unat (eh_length header) \<le> Z80_ENV_SNAPSHOT_BYTES \<and>
          eh_header_crc header = crc32 (flash_read f (slot_data slot) 20) \<and>
          eh_payload_crc header = crc32 (flash_read f (slot_data slot + FLASH_PAGE_SIZE) (unat (eh_length header))),
          header))"

definition current_slot :: "flash \<Rightarrow> int \<times> env_header" where
  "current_slot f =
     (let (valid0, header0) = valid_slot f 0; (valid1, header1) = valid_slot f 1
      in if \<not> valid0 \<and> \<not> valid1 then
           if list_all (\<lambda>slot. list_all (\<lambda>b. b = 0xFF) (flash_read f (slot_data slot) FLASH_SECTOR_SIZE)) [0, 1]
           then (-1, \<lparr>eh_magic = 0, eh_version = 0, eh_sequence = 0, eh_length = 0, eh_payload_crc = 0,
                      eh_header_crc = 0\<rparr>)
           else (-2, header0)
         else if \<not> valid0 then (1, header1)
         else if \<not> valid1 then (0, header0)
         else if eh_sequence header1 - eh_sequence header0 < 0x80000000 then (1, header1)
         else (0, header0))"

section \<open>Loading and saving\<close>

definition z80_env_snapshot_load :: "flash \<Rightarrow> nat \<Rightarrow> int \<times> bytes" where
  "z80_env_snapshot_load f capacity =
     (case current_slot f of (slot, header) \<Rightarrow>
        if slot = -2 then (-2, [])
        else if capacity < unat (eh_length header) then (-4, [])
        else (0, if eh_length header \<noteq> 0
                 then flash_read f (slot_data (nat slot) + FLASH_PAGE_SIZE) (unat (eh_length header)) else []))"

text \<open>The sector buffer: \<open>FF\<close> throughout, the header at its start, the payload after the first page.\<close>

definition env_header_bytes :: "u32 \<Rightarrow> bytes \<Rightarrow> bytes" where
  "env_header_bytes sequence data =
     (let body = le32 ENV_MAGIC @ le32 ENV_VERSION @ le32 sequence @ le32 (of_nat (length data)) @ le32 (crc32 data)
      in body @ le32 (crc32 body))"

definition env_sector :: "u32 \<Rightarrow> bytes \<Rightarrow> bytes" where
  "env_sector sequence data =
     splice FLASH_PAGE_SIZE data (splice 0 (env_header_bytes sequence data) (replicate FLASH_SECTOR_SIZE 0xFF))"

definition snapshot_write :: "flash_dev \<Rightarrow> flush_env \<Rightarrow> int \<Rightarrow> u32 \<Rightarrow> bytes \<Rightarrow> int fx" where
  "snapshot_write d env slot sequence data =
     fbind (z80_flash_backend_env_write d env (if slot = 0 then 1 else 0) (Some (env_sector (sequence + 1) data)))
       (\<lambda>ok. fret (if ok then 0 else -3))"

text \<open>
  The two answers are those to the write of the empty baseline and to the write of the snapshot.
\<close>

function z80_env_snapshot_save :: "flash_dev \<Rightarrow> flush_env \<Rightarrow> flush_env \<Rightarrow> bytes \<Rightarrow> backend \<Rightarrow> int fate \<times> backend" where
  "z80_env_snapshot_save d env env' data b =
     (if length data > Z80_ENV_SNAPSHOT_BYTES then (Returned (-4), b)
      else case current_slot (be_flash b) of (slot, previous) \<Rightarrow>
        if slot = -2 then (Returned (-2), b)
        else if slot \<ge> 0 \<and> unat (eh_length previous) = length data \<and>
                flash_read (be_flash b) (slot_data (nat slot) + FLASH_PAGE_SIZE) (length data) = data
        then (Returned 0, b)
        else if slot = -1 \<and> data \<noteq> [] then
          case z80_env_snapshot_save d env env [] b of
            (Rebooted, b1) \<Rightarrow> (Rebooted, b1)
          | (Returned status, b1) \<Rightarrow>
              if status \<noteq> 0 then (Returned status, b1)
              else case current_slot (be_flash b1) of (slot, previous) \<Rightarrow>
                if slot < 0 then (Returned (-3), b1)
                else snapshot_write d env' slot (eh_sequence previous) data b1
        else snapshot_write d env' slot (eh_sequence previous) data b)"
  by pat_completeness auto

termination
  by (relation "measure (\<lambda>(d, env, env', data, b). length data)") auto

declare z80_env_snapshot_save.simps [simp del]

section \<open>The layout of a sector\<close>

lemma length_env_header_bytes [simp]: "length (env_header_bytes sequence data) = 24"
  by (simp add: env_header_bytes_def Let_def)

lemma length_env_sector [simp]:
  "length data \<le> Z80_ENV_SNAPSHOT_BYTES \<Longrightarrow> length (env_sector sequence data) = FLASH_SECTOR_SIZE"
  by (simp add: env_sector_def)

lemma env_sector_fields:
  assumes "length data \<le> Z80_ENV_SNAPSHOT_BYTES"
  shows "slice 0 24 (env_sector sequence data) = env_header_bytes sequence data"
    "slice FLASH_PAGE_SIZE (length data) (env_sector sequence data) = data"
  using assms by (simp_all add: env_sector_def slice_simps)

lemma env_header_roundtrip:
  "env_header_of (env_header_bytes sequence data) =
     \<lparr>eh_magic = ENV_MAGIC, eh_version = ENV_VERSION, eh_sequence = sequence, eh_length = of_nat (length data),
      eh_payload_crc = crc32 data, eh_header_crc = crc32 (take 20 (env_header_bytes sequence data))\<rparr>"
  using rd32_le32 [where rest = "[]"] by (simp add: env_header_of_def env_header_bytes_def Let_def)

lemma flash_read_prefix:
  assumes "flash_read f off n = bs" and "a + k \<le> n"
  shows "flash_read f (off + a) k = slice a k bs"
  using assms slice_flash_read [of a k n f off] by simp

definition slot_holds :: "flash \<Rightarrow> nat \<Rightarrow> u32 \<Rightarrow> bytes \<Rightarrow> bool" where
  "slot_holds f slot sequence data \<longleftrightarrow> length data \<le> Z80_ENV_SNAPSHOT_BYTES \<and>
     flash_read f (slot_data slot) FLASH_SECTOR_SIZE = env_sector sequence data"

definition snapshot_header :: "u32 \<Rightarrow> bytes \<Rightarrow> env_header" where
  "snapshot_header sequence data = env_header_of (env_header_bytes sequence data)"

lemma snapshot_header_fields [simp]:
  "eh_sequence (snapshot_header sequence data) = sequence"
  "length data \<le> Z80_ENV_SNAPSHOT_BYTES \<Longrightarrow> unat (eh_length (snapshot_header sequence data)) = length data"
  by (simp_all add: snapshot_header_def env_header_roundtrip unat_of_nat)

lemma valid_slot_holds:
  assumes "slot_holds f slot sequence data"
  shows "valid_slot f slot = (True, snapshot_header sequence data)"
    "flash_read f (slot_data slot + FLASH_PAGE_SIZE) (length data) = data"
proof -
  have len: "length data \<le> Z80_ENV_SNAPSHOT_BYTES"
    and rd: "flash_read f (slot_data slot) FLASH_SECTOR_SIZE = env_sector sequence data"
    using assms by (simp_all add: slot_holds_def)
  note fields = env_sector_fields [OF len, of sequence]
  have h: "flash_read f (slot_data slot) 24 = env_header_bytes sequence data"
    using flash_read_prefix [OF rd, of 0 24] fields(1) by simp
  have "flash_read f (slot_data slot) 20 = take 20 (env_header_bytes sequence data)"
    using flash_read_prefix [OF h, of 0 20] by (simp add: slice_def)
  moreover show p: "flash_read f (slot_data slot + FLASH_PAGE_SIZE) (length data) = data"
    using flash_read_prefix [OF rd, of FLASH_PAGE_SIZE "length data"] fields(2) len by simp
  ultimately show "valid_slot f slot = (True, snapshot_header sequence data)"
    using h len snapshot_header_fields(2) [OF len, of sequence]
    by (simp add: valid_slot_def snapshot_header_def env_header_roundtrip)
qed

definition slot_same :: "nat \<Rightarrow> flash \<Rightarrow> flash \<Rightarrow> bool" where
  "slot_same slot f g \<longleftrightarrow> (\<forall>a. slot_data slot \<le> a \<and> a < slot_data slot + FLASH_SECTOR_SIZE \<longrightarrow> g a = f a)"

lemma slot_same_read:
  "slot_same slot f g \<Longrightarrow> a + n \<le> FLASH_SECTOR_SIZE \<Longrightarrow> flash_read g (slot_data slot + a) n = flash_read f (slot_data slot + a) n"
  by (rule flash_read_cong) (auto simp: slot_same_def)

lemma slot_same_valid:
  assumes "slot_same slot f g"
  shows "valid_slot g slot = valid_slot f slot"
proof -
  have "flash_read g (slot_data slot) 24 = flash_read f (slot_data slot) 24"
    "flash_read g (slot_data slot) 20 = flash_read f (slot_data slot) 20"
    using slot_same_read [OF assms, of 0] by simp_all
  moreover have "n \<le> Z80_ENV_SNAPSHOT_BYTES \<Longrightarrow> flash_read g (slot_data slot + FLASH_PAGE_SIZE) n =
      flash_read f (slot_data slot + FLASH_PAGE_SIZE) n" for n
    using slot_same_read [OF assms, of FLASH_PAGE_SIZE n] by simp
  ultimately show ?thesis
    by (auto simp: valid_slot_def Let_def)
qed

lemma blank_slot_invalid:
  assumes "\<And>a. slot_data slot \<le> a \<Longrightarrow> a < slot_data slot + 4 \<Longrightarrow> f a = 0xFF"
  shows "\<not> fst (valid_slot f slot)"
  using assms by (simp add: valid_slot_def Let_def env_header_of_def rd32_flash_read)

section \<open>The current slot\<close>

lemma current_slot_range: "fst (current_slot f) \<in> {-2, -1, 0, 1}"
  by (auto simp: current_slot_def Let_def split: prod.splits)

lemma current_slot_valid:
  assumes "current_slot f = (slot, header)" and "slot \<ge> 0"
  shows "slot \<in> {0, 1} \<and> valid_slot f (nat slot) = (True, header)"
  using assms by (auto simp: current_slot_def Let_def split: prod.splits if_splits)

lemma current_slot_blank:
  assumes "current_slot f = (-1, header)"
  shows "\<not> fst (valid_slot f 0)" "\<not> fst (valid_slot f 1)" "eh_length header = 0"
  using assms by (auto simp: current_slot_def Let_def split: prod.splits if_splits)

text \<open>The slot a save writes to, and what is current once it holds the new snapshot.\<close>

definition other_slot :: "int \<Rightarrow> nat" where
  "other_slot slot = (if slot = 0 then 1 else 0)"

lemma current_after_write:
  assumes cur: "current_slot f = (slot, previous)" and "slot \<noteq> -2"
    and keep: "slot_same (1 - other_slot slot) f g"
    and holds: "slot_holds g (other_slot slot) (eh_sequence previous + 1) data"
  shows "current_slot g = (int (other_slot slot), snapshot_header (eh_sequence previous + 1) data)"
proof -
  note new = valid_slot_holds(1) [OF holds] and old = slot_same_valid [OF keep]
  consider "slot = 0" | "slot = 1" | "slot = -1"
    using current_slot_range [of f] cur assms(2) by auto
  then show ?thesis
  proof cases
    case 1
    with current_slot_valid [OF cur] old new show ?thesis
      by (simp add: current_slot_def other_slot_def Let_def)
  next
    case 2
    with current_slot_valid [OF cur] old new show ?thesis
      by (simp add: current_slot_def other_slot_def Let_def)
  next
    case 3
    with current_slot_blank [of f previous] cur old new show ?thesis
      by (auto simp: current_slot_def other_slot_def Let_def split: prod.splits)
  qed
qed

text \<open>As long as the written slot is not valid, the current slot stays in force.\<close>

lemma current_while_writing:
  assumes cur: "current_slot f = (slot, header)" and "slot \<ge> 0"
    and keep: "slot_same (nat slot) f g" and inv: "\<not> fst (valid_slot g (other_slot slot))"
  shows "current_slot g = (slot, header)"
  using current_slot_valid [OF cur assms(2)] slot_same_valid [OF keep] inv
  by (auto simp: current_slot_def other_slot_def Let_def split: prod.splits)

lemma load_current:
  assumes "current_slot f = (slot, header)" and "slot \<ge> 0" and "unat (eh_length header) \<le> capacity"
  shows "z80_env_snapshot_load f capacity =
    (0, flash_read f (slot_data (nat slot) + FLASH_PAGE_SIZE) (unat (eh_length header)))"
  using assms by (simp add: z80_env_snapshot_load_def flash_read_def)

section \<open>Writing a slot\<close>

lemma slot_data_bounds:
  assumes "slot < 2"
  shows "Z80_FLASH_ENV_OFFSET \<le> slot_data slot" "slot_data slot + FLASH_SECTOR_SIZE \<le> Z80_FLASH_DISK_OFFSET"
  using assms by (simp_all add: slot_data_def)

lemma other_slot_simps [simp]: "other_slot slot < 2" "1 - other_slot slot \<noteq> other_slot slot"
  by (simp_all add: other_slot_def)

lemma slot_same_outside:
  assumes "\<And>a. a < slot_data slot' \<or> slot_data slot' + FLASH_SECTOR_SIZE \<le> a \<Longrightarrow> g a = f a" and "slot \<noteq> slot'"
  shows "slot_same slot f g"
  using assms by (cases "slot < slot'") (auto simp: slot_same_def slot_data_def)

lemma slot_holds_put:
  "length data \<le> Z80_ENV_SNAPSHOT_BYTES \<Longrightarrow>
     slot_holds (flash_put (slot_data slot) (env_sector sequence data) f) slot sequence data"
  by (simp add: slot_holds_def)

lemma flash_put_append:
  "flash_put off xs (flash_put (off + length xs) ys f) = flash_put off (xs @ ys) f"
  by (rule ext) (auto simp: flash_put_def nth_append)

lemma flash_put_fill:
  "n \<le> length bs \<Longrightarrow> flash_put off bs (flash_fill off n f) = flash_put off bs f"
  by (rule ext) (auto simp: flash_put_def flash_fill_def)

definition saved :: "bytes \<Rightarrow> flash \<Rightarrow> flash \<Rightarrow> bool" where
  "saved data f f' \<longleftrightarrow> (\<exists>slot header. current_slot f' = (slot, header) \<and> slot \<ge> 0 \<and>
     unat (eh_length header) = length data \<and>
     flash_read f' (slot_data (nat slot) + FLASH_PAGE_SIZE) (length data) = data) \<and>
     (\<forall>a. a < Z80_FLASH_ENV_OFFSET \<or> Z80_FLASH_DISK_OFFSET \<le> a \<longrightarrow> f' a = f a)"

lemma saved_load: "saved data f f' \<Longrightarrow> length data \<le> capacity \<Longrightarrow> z80_env_snapshot_load f' capacity = (0, data)"
  using load_current by (fastforce simp: saved_def)

context flash_device
begin

lemma env_write_exact:
  assumes "length sector = FLASH_SECTOR_SIZE"
  shows "env_write_callback d offset sector f = (True, flash_put offset sector f)"
proof -
  let ?e = "flash_fill offset FLASH_SECTOR_SIZE f"
  have 1: "fd_program d (offset + FLASH_PAGE_SIZE) (drop FLASH_PAGE_SIZE sector) ?e =
      flash_put (offset + FLASH_PAGE_SIZE) (drop FLASH_PAGE_SIZE sector) ?e" (is "_ = ?p")
    using assms by (intro program_erased) (auto simp: flash_fill_def)
  have 2: "fd_program d offset (take FLASH_PAGE_SIZE sector) ?p = flash_put offset (take FLASH_PAGE_SIZE sector) ?p"
    using assms by (intro program_erased) (auto simp: flash_fill_def flash_put_def)
  also have "\<dots> = flash_put offset sector ?e"
    using assms flash_put_append [of offset "take FLASH_PAGE_SIZE sector" "drop FLASH_PAGE_SIZE sector" ?e] by simp
  also have "\<dots> = flash_put offset sector f"
    using assms by (simp add: flash_put_fill)
  finally have 3: "fd_program d offset (take FLASH_PAGE_SIZE sector) ?p = flash_put offset sector f" .
  have "flash_read ?p (offset + FLASH_PAGE_SIZE) (FLASH_SECTOR_SIZE - FLASH_PAGE_SIZE) = drop FLASH_PAGE_SIZE sector"
    using assms by simp
  then show ?thesis
    using assms by (simp add: env_write_callback_def Let_def 1 3)
qed

lemma snapshot_write_exact:
  assumes cur: "current_slot (be_flash b) = (slot, previous)" and "slot \<noteq> -2"
    and len: "length data \<le> Z80_ENV_SNAPSHOT_BYTES"
    and env: "bus_acquired env" "bus_released env" "lockout_ok env"
  defines "f' \<equiv> flash_put (slot_data (other_slot slot)) (env_sector (eh_sequence previous + 1) data) (be_flash b)"
  shows "snapshot_write d env slot (eh_sequence previous) data b = (Returned 0, b\<lparr>be_flash := f'\<rparr>) \<and>
    current_slot f' = (int (other_slot slot), snapshot_header (eh_sequence previous + 1) data) \<and>
    flash_read f' (slot_data (other_slot slot) + FLASH_PAGE_SIZE) (length data) = data"
proof -
  have "z80_flash_backend_env_write d env (other_slot slot) (Some (env_sector (eh_sequence previous + 1) data)) b =
      (Returned True, b\<lparr>be_flash := f'\<rparr>)"
    using env len env_write_exact [of "env_sector (eh_sequence previous + 1) data"]
    by (simp add: z80_flash_backend_env_write_def f'_def slot_data_def del: other_slot_simps(2))
      (simp add: other_slot_def)
  then have "snapshot_write d env slot (eh_sequence previous) data b = (Returned 0, b\<lparr>be_flash := f'\<rparr>)"
    by (simp add: snapshot_write_def other_slot_def fbind_def fret_def split: if_splits)
  moreover have holds: "slot_holds f' (other_slot slot) (eh_sequence previous + 1) data"
    unfolding f'_def by (rule slot_holds_put [OF len])
  moreover have "slot_same (1 - other_slot slot) (be_flash b) f'"
    using len by (intro slot_same_outside [of "other_slot slot"]) (auto simp: f'_def flash_put_def other_slot_def)
  ultimately show ?thesis
    using current_after_write [OF cur assms(2)] valid_slot_holds(2) [OF holds] by simp
qed

lemma snapshot_write_saved:
  assumes cur: "current_slot (be_flash b) = (slot, previous)" and "slot \<noteq> -2"
    and len: "length data \<le> Z80_ENV_SNAPSHOT_BYTES"
    and env: "bus_acquired env" "bus_released env" "lockout_ok env"
  shows "\<exists>f'. snapshot_write d env slot (eh_sequence previous) data b = (Returned 0, b\<lparr>be_flash := f'\<rparr>) \<and>
    saved data (be_flash b) f'"
proof -
  let ?f = "flash_put (slot_data (other_slot slot)) (env_sector (eh_sequence previous + 1) data) (be_flash b)"
  have "?f a = be_flash b a" if "a < Z80_FLASH_ENV_OFFSET \<or> Z80_FLASH_DISK_OFFSET \<le> a" for a
    using that slot_data_bounds [of "other_slot slot"] len by (auto simp: flash_put_def)
  with snapshot_write_exact [OF assms] len show ?thesis
    by (auto simp: saved_def intro!: exI [of _ ?f])
qed

lemma save_direct:
  assumes len: "length data \<le> Z80_ENV_SNAPSHOT_BYTES" and cur: "current_slot (be_flash b) = (slot, previous)"
    and s2: "slot \<noteq> -2" and direct: "slot \<noteq> -1 \<or> data = []"
    and env': "bus_acquired env'" "bus_released env'" "lockout_ok env'"
  shows "\<exists>f'. z80_env_snapshot_save d env env' data b = (Returned 0, b\<lparr>be_flash := f'\<rparr>) \<and> saved data (be_flash b) f'"
proof (cases "slot \<ge> 0 \<and> unat (eh_length previous) = length data \<and>
    flash_read (be_flash b) (slot_data (nat slot) + FLASH_PAGE_SIZE) (length data) = data")
  case True
  then have "saved data (be_flash b) (be_flash b)"
    using cur by (auto simp: saved_def)
  moreover have "z80_env_snapshot_save d env env' data b = (Returned 0, b\<lparr>be_flash := be_flash b\<rparr>)"
    using True len cur s2 by (subst z80_env_snapshot_save.simps) simp
  ultimately show ?thesis by blast
next
  case False
  have "z80_env_snapshot_save d env env' data b = snapshot_write d env' slot (eh_sequence previous) data b"
    using False len cur s2 direct by (subst z80_env_snapshot_save.simps) auto
  with snapshot_write_saved [OF cur s2 len env'] show ?thesis by simp
qed

lemma save_exact:
  assumes len: "length data \<le> Z80_ENV_SNAPSHOT_BYTES" and ok: "fst (current_slot (be_flash b)) \<noteq> -2"
    and env: "bus_acquired env" "bus_released env" "lockout_ok env"
    and env': "bus_acquired env'" "bus_released env'" "lockout_ok env'"
  shows "\<exists>f'. z80_env_snapshot_save d env env' data b = (Returned 0, b\<lparr>be_flash := f'\<rparr>) \<and> saved data (be_flash b) f'"
proof -
  obtain slot previous where cur: "current_slot (be_flash b) = (slot, previous)"
    by fastforce
  with ok have s2: "slot \<noteq> -2" by simp
  show ?thesis
  proof (cases "slot = -1 \<and> data \<noteq> []")
    case False
    with save_direct [OF len cur s2 _ env'] show ?thesis by auto
  next
    case True
    obtain f1 where base: "z80_env_snapshot_save d env env [] b = (Returned 0, b\<lparr>be_flash := f1\<rparr>)"
      and f1: "saved [] (be_flash b) f1"
      using save_direct [of "[]", OF _ cur s2 _ env] by auto
    from f1 obtain slot1 header1 where cur1: "current_slot f1 = (slot1, header1)" "slot1 \<ge> 0"
      by (auto simp: saved_def)
    have "z80_env_snapshot_save d env env' data b = snapshot_write d env' slot1 (eh_sequence header1) data (b\<lparr>be_flash := f1\<rparr>)"
      using True len cur base cur1 by (subst z80_env_snapshot_save.simps) simp
    with snapshot_write_saved [of "b\<lparr>be_flash := f1\<rparr>" slot1 header1 data env'] cur1 len env' f1 show ?thesis
      by (auto simp: saved_def)
  qed
qed

end

section \<open>Properties\<close>

text \<open>
  C31. Round trip: on a working flash, whatever snapshot (or none) is stored, saving up to 3840 bytes
  succeeds and the next load returns exactly those bytes; nothing outside the two environment
  sectors changes. The first save also writes its empty baseline.
\<close>

theorem snapshot_roundtrip:
  assumes "flash_device d" and "length data \<le> Z80_ENV_SNAPSHOT_BYTES" and "length data \<le> capacity"
    and "fst (current_slot (be_flash b)) \<noteq> -2"
    and "bus_acquired env" "bus_released env" "lockout_ok env"
    and "bus_acquired env'" "bus_released env'" "lockout_ok env'"
  shows "\<exists>f'. z80_env_snapshot_save d env env' data b = (Returned 0, b\<lparr>be_flash := f'\<rparr>) \<and>
    z80_env_snapshot_load f' capacity = (0, data) \<and>
    (\<forall>a. a < Z80_FLASH_ENV_OFFSET \<or> Z80_FLASH_DISK_OFFSET \<le> a \<longrightarrow> f' a = be_flash b a)"
proof -
  obtain f' where f': "z80_env_snapshot_save d env env' data b = (Returned 0, b\<lparr>be_flash := f'\<rparr>)"
    "saved data (be_flash b) f'"
    using flash_device.save_exact [OF assms(1,2,4-10)] by blast
  moreover have "\<forall>a. a < Z80_FLASH_ENV_OFFSET \<or> Z80_FLASH_DISK_OFFSET \<le> a \<longrightarrow> f' a = be_flash b a"
    using f'(2) unfolding saved_def by blast
  ultimately show ?thesis
    using saved_load [OF f'(2) assms(3)] by blast
qed

theorem snapshot_roundtrip_witness:
  "\<exists>f'. z80_env_snapshot_save host_flash bus_granted bus_granted [0x41, 0x42]
       (sample_backend\<lparr>be_flash := \<lambda>_. 0xFF\<rparr>) = (Returned 0, sample_backend\<lparr>be_flash := f'\<rparr>) \<and>
     z80_env_snapshot_load f' 16 = (0, [0x41, 0x42])"
proof -
  have "fst (current_slot (\<lambda>_. 0xFF)) \<noteq> -2"
    using blank_slot_invalid [of 0 "\<lambda>_. 0xFF"] blank_slot_invalid [of 1 "\<lambda>_. 0xFF"]
    by (auto simp: current_slot_def Let_def list_all_iff in_set_conv_nth split: prod.splits)
  then show ?thesis
    using snapshot_roundtrip [OF host.flash_device_axioms, of "[0x41, 0x42]" 16 "sample_backend\<lparr>be_flash := \<lambda>_. 0xFF\<rparr>"
        bus_granted bus_granted]
    by (auto simp: bus_granted_def)
qed


text \<open>A flash whose slot 0 is current, and the same flash after slot 1 has been erased for the next save.\<close>

definition one_snapshot :: flash where
  "one_snapshot = flash_put (slot_data 0) (env_sector 1 [0x41]) (\<lambda>_. 0xFF)"

lemma one_snapshot_current: "current_slot one_snapshot = (0, snapshot_header 1 [0x41])"
proof -
  have "slot_holds one_snapshot 0 1 [0x41]"
    unfolding one_snapshot_def by (rule slot_holds_put) simp
  moreover have "\<not> fst (valid_slot one_snapshot 1)"
    by (rule blank_slot_invalid) (auto simp: one_snapshot_def flash_put_def slot_data_def)
  ultimately show ?thesis
    using valid_slot_holds(1) [of one_snapshot 0 1 "[0x41]"] by (auto simp: current_slot_def Let_def split: prod.splits)
qed


end
