(* ===== verification/Environment_IO.thy ===== *)
theory Environment_IO
  imports Environment_Store
begin

text \<open>
  The environment variables of \<open>src/src/cpm/dcc_io_adapter/host/PortDrivers/environment_io.c\<close>, in the
  build for the board (\<open>Z80_ENV_FLASH\<close>), where the variables are kept in the snapshot store.

  \<^item> \<open>environment\<close> holds the static variables: \<open>en_entries\<close> is \<open>s_entries[0 .. s_count]\<close>, \<open>en_request\<close> the
    request bytes with any embedded zeros. The scratch buffers (\<open>s_key\<close>, \<open>s_value\<close>, \<open>s_arg1\<close>, \<dots>)
    are written before they are read in every command and are local values here.
  \<^item> a response buffer is its capacity (0 for a null pointer) and a response is the text written to
    it; \<open>en_overflow\<close> is \<open>s_response_overflow\<close>.
  \<^item> a command that changes a variable commits once; the answers to the flash writes of that commit
    are arguments, and so is the board's millisecond clock.
\<close>

section \<open>State\<close>

abbreviation ENV_MAX_ENTRIES :: nat where "ENV_MAX_ENTRIES \<equiv> 128"
abbreviation ENV_KEY_SIZE :: nat where "ENV_KEY_SIZE \<equiv> 17"
abbreviation ENV_VALUE_SIZE :: nat where "ENV_VALUE_SIZE \<equiv> 256"
abbreviation ENV_REQUEST_SIZE :: nat where "ENV_REQUEST_SIZE \<equiv> 512"
abbreviation ENV_ERROR_SIZE :: nat where "ENV_ERROR_SIZE \<equiv> 128"
abbreviation ENV_STATUS_OK :: int where "ENV_STATUS_OK \<equiv> 0"
abbreviation ENV_STATUS_READ :: int where "ENV_STATUS_READ \<equiv> -2"
abbreviation ENV_STATUS_WRITE :: int where "ENV_STATUS_WRITE \<equiv> -3"
abbreviation ENV_STATUS_FULL :: int where "ENV_STATUS_FULL \<equiv> -4"
abbreviation ENV_STATUS_NOT_FOUND :: int where "ENV_STATUS_NOT_FOUND \<equiv> -5"
abbreviation ENVIRONMENT_PORT_COMMAND :: nat where "ENVIRONMENT_PORT_COMMAND \<equiv> 71"
abbreviation ENVIRONMENT_PORT_DATA :: nat where "ENVIRONMENT_PORT_DATA \<equiv> 72"

type_synonym entries = "(bytes \<times> bytes) list"

record environment =
  en_entries :: entries
  en_request :: bytes
  en_status :: int
  en_initialized :: bool
  en_overflow :: bool
  en_backend :: backend

text \<open>What the surroundings answer during one command: the flash writes of a commit, and the clock.\<close>

record env_world =
  ew_dev :: flash_dev
  ew_first :: flush_env
  ew_second :: flush_env
  ew_millis :: u64

type_synonym 'a ex = "environment \<Rightarrow> 'a fate \<times> environment"

section \<open>Text\<close>

definition env_append_text :: "nat \<Rightarrow> bytes \<Rightarrow> bytes \<Rightarrow> environment \<Rightarrow> bytes \<times> environment" where
  "env_append_text cap out text s =
     (if cap = 0 \<or> length out \<ge> cap - 1 then (out, if text \<noteq> [] then s\<lparr>en_overflow := True\<rparr> else s)
      else
        let room = cap - 1 - length out
        in (out @ take room text, if length text > room then s\<lparr>en_overflow := True\<rparr> else s))"

definition env_write_text :: "nat \<Rightarrow> bytes \<Rightarrow> environment \<Rightarrow> bytes \<times> environment" where
  "env_write_text cap text s = (if cap = 0 then ([], s) else env_append_text cap [] text s)"

definition env_format_response :: "nat \<Rightarrow> bytes \<Rightarrow> environment \<Rightarrow> bytes \<times> environment" where
  "env_format_response cap text s =
     (if cap = 0 then ([], s)
      else if length text \<ge> cap then (take (cap - 1) text, s\<lparr>en_overflow := True\<rparr>)
      else (text, s))"

definition env_skip_spaces :: "bytes \<Rightarrow> bytes" where
  "env_skip_spaces text = dropWhile (\<lambda>c. c = 32 \<or> c = 9) text"

definition env_trim_text :: "bytes \<Rightarrow> bytes" where
  "env_trim_text text = rev (env_skip_spaces (rev (env_skip_spaces text)))"

definition env_next_token :: "bytes \<Rightarrow> nat \<Rightarrow> bytes \<times> bytes" where
  "env_next_token text token_length =
     (let text = env_skip_spaces text
      in if text = [] then ([], [])
         else (take (token_length - 1) (takeWhile (\<lambda>c. c \<noteq> 32 \<and> c \<noteq> 9) text),
               env_skip_spaces (dropWhile (\<lambda>c. c \<noteq> 32 \<and> c \<noteq> 9) text)))"

definition env_normalize_key :: "bytes \<Rightarrow> bytes" where
  "env_normalize_key key = map to_upper (take (ENV_KEY_SIZE - 1) key)"

definition env_key_valid :: "bytes \<Rightarrow> bool" where
  "env_key_valid key \<longleftrightarrow> key \<noteq> [] \<and> length key < ENV_KEY_SIZE"

definition env_is_number :: "bytes \<Rightarrow> bool" where
  "env_is_number text \<longleftrightarrow>
     (let digits = (if text \<noteq> [] \<and> (hd text = 43 \<or> hd text = 45) then tl text else text)
      in digits \<noteq> [] \<and> list_all is_digit digits)"

definition env_is_now :: "bytes \<Rightarrow> bool" where
  "env_is_now text \<longleftrightarrow> map to_upper text = ascii ''NOW''"

definition env_is_help :: "bytes \<Rightarrow> bool" where
  "env_is_help text \<longleftrightarrow>
     (let text = (if length text > 1 \<and> (hd text = 45 \<or> hd text = 47) then tl text else text)
      in text = ascii ''?'' \<or> map to_upper text = ascii ''H'' \<or> map to_upper text = ascii ''HELP'')"

definition env_now :: "env_world \<Rightarrow> bytes" where
  "env_now w = decimal (unat (ew_millis w div 1000))"

text \<open>\<open>strncpy\<close> into a value buffer, and \<open>strncat\<close> to one.\<close>

definition env_copy_text :: "bytes \<Rightarrow> bytes" where
  "env_copy_text src = take (ENV_VALUE_SIZE - 1) src"

definition env_strncat :: "bytes \<Rightarrow> bytes \<Rightarrow> bytes" where
  "env_strncat v t = v @ take (ENV_VALUE_SIZE - length v - 1) t"

section \<open>Numbers\<close>

abbreviation INT64_MIN :: u64 where "INT64_MIN \<equiv> 0x8000000000000000"
abbreviation INT64_MAX :: u64 where "INT64_MAX \<equiv> 0x7FFFFFFFFFFFFFFF"

definition env_calculate :: "u64 \<Rightarrow> u64 \<Rightarrow> bool \<Rightarrow> u64 option" where
  "env_calculate left right subtract =
     (if (if subtract
          then (word_sless 0 right \<and> word_sless left (INT64_MIN + right)) \<or>
               (word_sless right 0 \<and> word_sless (INT64_MAX + right) left)
          else (word_sless 0 right \<and> word_sless (INT64_MAX - right) left) \<or>
               (word_sless right 0 \<and> word_sless left (INT64_MIN - right)))
      then None
      else Some (if subtract then left - right else left + right))"

text \<open>\<open>strtoll\<close> of a string that \<open>env_is_number\<close> accepts: \<open>None\<close> is \<open>ERANGE\<close>.\<close>

definition digits_int :: "bytes \<Rightarrow> int" where
  "digits_int ds = foldl (\<lambda>acc c. acc * 10 + uint (c - 48)) 0 ds"

definition text_value :: "bytes \<Rightarrow> int" where
  "text_value text =
     (if text \<noteq> [] \<and> hd text = 45 then - digits_int (tl text)
      else if text \<noteq> [] \<and> hd text = 43 then digits_int (tl text)
      else digits_int text)"

definition strtoll :: "bytes \<Rightarrow> u64 option" where
  "strtoll text =
     (let v = text_value text
      in if - (2 ^ 63) \<le> v \<and> v < 2 ^ 63 then Some (of_int v) else None)"

section \<open>The store\<close>

fun env_find_index :: "bytes \<Rightarrow> entries \<Rightarrow> nat option" where
  "env_find_index key [] = None"
| "env_find_index key (e # es) = (if fst e = key then Some 0 else map_option Suc (env_find_index key es))"

text \<open>The loop of \<open>env_load_file\<close> over a snapshot.\<close>

function parse_entries :: "bytes \<Rightarrow> entries \<Rightarrow> int \<times> entries" where
  "parse_entries data es =
     (if data = [] then (ENV_STATUS_OK, es)
      else if length es = ENV_MAX_ENTRIES then (ENV_STATUS_READ, es)
      else
        let key = cstr data
        in if 0 \<notin> set data \<or> key = [] \<or> length key \<ge> ENV_KEY_SIZE then (ENV_STATUS_READ, es)
           else
             let data = drop (length key + 1) data; val = cstr data
             in if 0 \<notin> set data \<or> length val \<ge> ENV_VALUE_SIZE then (ENV_STATUS_READ, es)
                else if env_find_index key es \<noteq> None then (ENV_STATUS_READ, es)
                else parse_entries (drop (length val + 1) data) (es @ [(key, val)]))"
  by pat_completeness auto

termination
  by (relation "measure (\<lambda>(data, es). length data)") auto

declare parse_entries.simps [simp del]

definition env_load_file :: "environment \<Rightarrow> int \<times> environment" where
  "env_load_file s =
     (case z80_env_snapshot_load (be_flash (en_backend s)) Z80_ENV_SNAPSHOT_BYTES of (status, data) \<Rightarrow>
        if status \<noteq> ENV_STATUS_OK then (status, s\<lparr>en_entries := []\<rparr>)
        else case parse_entries data [] of (rc, es) \<Rightarrow> (rc, s\<lparr>en_entries := es\<rparr>))"

text \<open>The loop of \<open>env_save_file\<close>: \<open>None\<close> when the entries exceed the snapshot.\<close>

fun snapshot_bytes :: "entries \<Rightarrow> bytes \<Rightarrow> bytes option" where
  "snapshot_bytes [] out = Some out"
| "snapshot_bytes ((key, val) # es) out =
     (if (length key + 1) + (length val + 1) > Z80_ENV_SNAPSHOT_BYTES - length out then None
      else snapshot_bytes es (out @ key @ [0] @ val @ [0]))"

definition env_save_file :: "env_world \<Rightarrow> int ex" where
  "env_save_file w s =
     (case snapshot_bytes (en_entries s) [] of
        None \<Rightarrow> (Returned ENV_STATUS_FULL, s)
      | Some data \<Rightarrow>
          case z80_env_snapshot_save (ew_dev w) (ew_first w) (ew_second w) data (en_backend s) of
            (r, b) \<Rightarrow> (r, s\<lparr>en_backend := b\<rparr>))"

definition env_commit :: "env_world \<Rightarrow> int ex" where
  "env_commit w =
     fbind (env_save_file w) (\<lambda>status s.
       if status \<noteq> ENV_STATUS_OK then
         case env_load_file s of (loaded, s) \<Rightarrow>
           (Returned (if loaded \<noteq> ENV_STATUS_OK then ENV_STATUS_READ else status), s)
       else (Returned status, s))"

text \<open>The value found, cut to the caller's buffer of \<open>value_length\<close> bytes.\<close>

definition env_get_value :: "bytes \<Rightarrow> nat \<Rightarrow> environment \<Rightarrow> bytes option" where
  "env_get_value key value_length s =
     (if \<not> env_key_valid key then None
      else map_option (\<lambda>i. take (value_length - 1) (snd (en_entries s ! i))) (env_find_index key (en_entries s)))"

definition env_set_value :: "env_world \<Rightarrow> bytes \<Rightarrow> bytes \<Rightarrow> int ex" where
  "env_set_value w key val s =
     (if \<not> env_key_valid key then (Returned ENV_STATUS_WRITE, s)
      else
        let v = take (ENV_VALUE_SIZE - 1) val
        in case env_find_index key (en_entries s) of
             None \<Rightarrow>
               if length (en_entries s) \<ge> ENV_MAX_ENTRIES then (Returned ENV_STATUS_FULL, s)
               else env_commit w (s\<lparr>en_entries := en_entries s @ [(key, v)]\<rparr>)
           | Some i \<Rightarrow> env_commit w (s\<lparr>en_entries := (en_entries s)[i := (fst (en_entries s ! i), v)]\<rparr>))"

definition env_delete_value :: "env_world \<Rightarrow> bytes \<Rightarrow> int ex" where
  "env_delete_value w key s =
     (if \<not> env_key_valid key then (Returned ENV_STATUS_NOT_FOUND, s)
      else case env_find_index key (en_entries s) of
        None \<Rightarrow> (Returned ENV_STATUS_NOT_FOUND, s)
      | Some i \<Rightarrow> env_commit w (s\<lparr>en_entries := take i (en_entries s) @ drop (i + 1) (en_entries s)\<rparr>))"

definition env_clear_values :: "env_world \<Rightarrow> int ex" where
  "env_clear_values w s = env_commit w (s\<lparr>en_entries := []\<rparr>)"

definition env_list_entry :: "nat \<Rightarrow> bytes \<times> environment \<Rightarrow> bytes \<times> bytes \<Rightarrow> bytes \<times> environment" where
  "env_list_entry cap r e =
     (case r of (out, s) \<Rightarrow>
        let (out, s) = env_append_text cap out (fst e) s;
            (out, s) = env_append_text cap out (ascii ''='') s;
            (out, s) = env_append_text cap out (snd e) s
        in env_append_text cap out [13, 10] s)"

definition env_list_values :: "nat \<Rightarrow> environment \<Rightarrow> bytes \<times> environment" where
  "env_list_values cap s = foldl (env_list_entry cap) ([], s) (en_entries s)"

definition env_reset_request :: "environment \<Rightarrow> environment" where
  "env_reset_request s = s\<lparr>en_request := []\<rparr>"

definition env_append_byte :: "u8 \<Rightarrow> environment \<Rightarrow> environment" where
  "env_append_byte data s =
     (if length (en_request s) < ENV_REQUEST_SIZE - 1 then s\<lparr>en_request := en_request s @ [data]\<rparr>
      else s\<lparr>en_status := ENV_STATUS_FULL\<rparr>)"

section \<open>Command-line forms\<close>

text \<open>
  \<open>NAME=VALUE\<close>, with optional spaces around the equals sign. The name buffer is edited in place: its
  equals sign becomes a zero, which the next parser then sees. The results are whether the form was
  recognised, the edited buffer, the key and the value.
\<close>

definition join_rest :: "bytes \<Rightarrow> bytes \<Rightarrow> bytes" where
  "join_rest val rest =
     (if rest = [] then val
      else env_strncat (if val \<noteq> [] then env_strncat val (ascii '' '') else val) rest)"

definition env_parse_assignment :: "bytes \<Rightarrow> bytes \<Rightarrow> bool \<times> bytes \<times> bytes \<times> bytes" where
  "env_parse_assignment name rest =
     (if 61 \<in> set name then
        let before = takeWhile (\<lambda>c. c \<noteq> 61) name; after = drop (length before + 1) name;
            key = env_normalize_key before; val = env_trim_text (join_rest (env_copy_text after) rest)
        in (key \<noteq> [], before @ [0] @ after, key, val)
      else
        let rest = env_skip_spaces rest
        in if rest = [] \<or> hd rest \<noteq> 61 then (False, name, [], [])
           else
             let key = env_normalize_key name;
                 val = env_trim_text (env_copy_text (env_skip_spaces (tl rest)))
             in (key \<noteq> [], name, key, val))"

text \<open>\<open>text\<close> is the name buffer up to the terminator of the token, a zero in it being one put there.\<close>

definition is_sign :: "u8 \<Rightarrow> bool" where
  "is_sign c \<longleftrightarrow> c = 43 \<or> c = 45"

definition env_split_delta :: "bytes \<Rightarrow> (bytes \<times> bytes) option" where
  "env_split_delta text =
     (let before = take 1 text @ takeWhile (\<lambda>c. c \<noteq> 0 \<and> \<not> is_sign c) (drop 1 text);
          op = drop (length before) text
      in if op = [] \<or> \<not> is_sign (hd op) then None
         else
           let key = env_trim_text (cstr (take (ENV_KEY_SIZE - 1) before));
               number = env_skip_spaces (cstr (tl op))
           in if number = [] then None
              else
                let delta = env_trim_text (hd op # take (ENV_VALUE_SIZE - 2) number)
                in if env_is_number delta then Some (key, delta) else None)"

definition env_parse_delta :: "bytes \<Rightarrow> bytes \<Rightarrow> (bytes \<times> bytes) option" where
  "env_parse_delta buffer rest =
     (case env_split_delta buffer of
        Some (key, delta) \<Rightarrow> Some (env_normalize_key key, delta)
      | None \<Rightarrow>
          let name = cstr buffer; text = env_skip_spaces rest
          in if length name > 1 \<and> is_sign (last name) \<and> text \<noteq> [] then
               let delta = last name # fst (env_next_token text (ENV_VALUE_SIZE - 1))
               in if env_is_number delta then Some (env_normalize_key (butlast name), delta) else None
             else if text \<noteq> [] \<and> is_sign (hd text) then
               let delta = hd text # fst (env_next_token (env_skip_spaces (tl text)) (ENV_VALUE_SIZE - 1))
               in if env_is_number delta then Some (env_normalize_key name, delta) else None
             else
               let delta = fst (env_next_token rest ENV_VALUE_SIZE)
               in if delta \<noteq> [] \<and> env_is_number delta then Some (env_normalize_key name, delta) else None)"

definition crlf :: bytes where
  "crlf = [13, 10]"

definition overflow_text :: bytes where
  "overflow_text = ascii ''Error: numeric overflow'' @ crlf"

text \<open>An error is the text left in \<open>s_error\<close>; writing it may set the overflow flag.\<close>

definition eval_number :: "bytes \<Rightarrow> environment \<Rightarrow> (bytes + u64) \<times> environment" where
  "eval_number text s =
     (case strtoll text of
        None \<Rightarrow> (case env_write_text ENV_ERROR_SIZE overflow_text s of (err, s) \<Rightarrow> (Inl err, s))
      | Some v \<Rightarrow> (Inr v, s))"

definition env_value_to_i64 :: "env_world \<Rightarrow> bytes \<Rightarrow> environment \<Rightarrow> (bytes + u64) \<times> environment" where
  "env_value_to_i64 w expr s =
     (if env_is_number expr then eval_number expr s
      else
        case (if env_is_now expr then Some (env_now w)
              else env_get_value (env_normalize_key expr) ENV_VALUE_SIZE s) of
          None \<Rightarrow>
            (case env_format_response ENV_ERROR_SIZE (ascii ''Error: '' @ expr @ ascii '' not found'' @ crlf) s of
               (err, s) \<Rightarrow> (Inl err, s))
        | Some text \<Rightarrow>
            if \<not> env_is_number text then
              (case env_format_response ENV_ERROR_SIZE (ascii ''Error: '' @ expr @ ascii '' not numeric'' @ crlf) s of
                 (err, s) \<Rightarrow> (Inl err, s))
            else eval_number text s)"

text \<open>\<open>Literal\<close>, \<open>Computed\<close> and \<open>Failed\<close> are the results 0, 1 and -1 of \<open>env_eval_value\<close>.\<close>

datatype eval = Literal | Computed bytes | Failed bytes

definition env_eval_value :: "env_world \<Rightarrow> bytes \<Rightarrow> environment \<Rightarrow> eval \<times> environment" where
  "env_eval_value w expr s =
     (let left = take 1 expr @ takeWhile (\<lambda>c. \<not> is_sign c) (drop 1 expr); op = drop (length left) expr
      in if op = [] then
           if env_is_number expr then (Literal, s)
           else if env_is_now expr then (Computed (env_now w), s)
           else case env_get_value (env_normalize_key expr) ENV_VALUE_SIZE s of
                  Some v \<Rightarrow> (Computed v, s)
                | None \<Rightarrow> (Literal, s)
         else
           case env_value_to_i64 w (env_trim_text (take (ENV_VALUE_SIZE - 1) left)) s of
             (Inl err, s) \<Rightarrow> (Failed err, s)
           | (Inr l, s) \<Rightarrow>
               case env_value_to_i64 w (env_trim_text (take (ENV_VALUE_SIZE - 1) (tl op))) s of
                 (Inl err, s) \<Rightarrow> (Failed err, s)
               | (Inr r, s) \<Rightarrow>
                   case env_calculate l r (hd op = 45) of
                     None \<Rightarrow> (case env_write_text ENV_ERROR_SIZE overflow_text s of (err, s) \<Rightarrow> (Failed err, s))
                   | Some v \<Rightarrow> (Computed (decimal_int (sint v)), s))"

section \<open>The ENV command\<close>

definition env_help_lines :: "string list" where
  "env_help_lines =
    [''ENV - Environment Variable Manager'',
     ''=================================='',
     ''Stored in Pico flash; available from CP/M through DXENV.'',
     '''',
     ''Commands:'',
     ''  ENV                 List all variables'',
     ''  ENV NAME            Show NAME'',
     ''  ENV NAME=VALUE      Set NAME to VALUE'',
     ''  ENV NAME=VALUE TWO  Set NAME to text with spaces'',
     ''  ENV NAME=OTHER      Copy value from OTHER if OTHER exists'',
     ''  ENV NAME=A+B        Store numeric A plus B'',
     ''  ENV NAME=A-B        Store numeric A minus B'',
     ''  ENV NAME+N          Add N to numeric NAME, default 0'',
     ''  ENV NAME-N          Subtract N from numeric NAME'',
     ''  ENV NOW             Show emulator uptime seconds'',
     ''  ENV -I NAME=VALUE   Set only if NAME is undefined'',
     ''  ENV -D NAME         Delete NAME'',
     ''  ENV -N              Show variable count'',
     ''  ENV -H | HELP | ?   Show this help'',
     '''',
     ''Spaces around =, +, and - are optional.'',
     ''Limits: names 16 chars, values 255 chars. Names stored uppercase.'',
     ''Service group 48; ports: command/status 2, request 3, response 4.'']"

definition env_help_text :: "nat \<Rightarrow> environment \<Rightarrow> bytes \<times> environment" where
  "env_help_text cap s = env_write_text cap (concat (map (\<lambda>l. ascii l @ crlf) env_help_lines)) s"

text \<open>Every branch of \<open>env_execute_cli\<close> ends by resetting the request and returning what it wrote.\<close>

definition cli_reply :: "bytes \<times> environment \<Rightarrow> bytes fate \<times> environment" where
  "cli_reply r = (case r of (out, s) \<Rightarrow> (Returned out, env_reset_request s))"

definition cli_list :: "nat \<Rightarrow> bytes ex" where
  "cli_list cap s =
     (case env_list_values cap s of (out, s) \<Rightarrow>
        cli_reply (if out = [] then env_write_text cap (ascii ''(no variables set)'' @ crlf) s else (out, s)))"

definition cli_count :: "nat \<Rightarrow> bytes ex" where
  "cli_count cap s =
     cli_reply (env_format_response cap (decimal (length (en_entries s)) @ ascii '' variable(s) set'' @ crlf) s)"

definition cli_delete :: "env_world \<Rightarrow> nat \<Rightarrow> bytes \<Rightarrow> bytes ex" where
  "cli_delete w cap rest s =
     (let name = fst (env_next_token rest ENV_VALUE_SIZE)
      in if name = [] then
           cli_reply (env_write_text cap (ascii ''Usage: ENV -D NAME'' @ crlf) (s\<lparr>en_status := ENV_STATUS_READ\<rparr>))
         else
           let key = env_normalize_key name
           in fbind (env_delete_value w key) (\<lambda>rc s.
                cli_reply (env_format_response cap
                  (if rc = ENV_STATUS_OK then key @ ascii '' deleted'' @ crlf
                   else if rc = ENV_STATUS_NOT_FOUND then key @ ascii '' not found'' @ crlf
                   else ascii ''Error deleting '' @ key @ crlf)
                  (s\<lparr>en_status := rc\<rparr>))) s)"

definition cli_set :: "env_world \<Rightarrow> nat \<Rightarrow> bytes \<Rightarrow> bytes \<Rightarrow> bytes ex" where
  "cli_set w cap key val =
     fbind (env_set_value w key val) (\<lambda>rc s.
       cli_reply (env_format_response cap
         (if rc = ENV_STATUS_OK then key @ ascii ''='' @ val @ crlf else ascii ''Error setting '' @ key @ crlf)
         (s\<lparr>en_status := rc\<rparr>)))"

definition cli_init_only :: "env_world \<Rightarrow> nat \<Rightarrow> bytes \<Rightarrow> bytes ex" where
  "cli_init_only w cap rest s =
     (case env_next_token rest ENV_VALUE_SIZE of (name, rest) \<Rightarrow>
        case env_parse_assignment name rest of (ok, _, key, val) \<Rightarrow>
          if \<not> ok then
            cli_reply (env_write_text cap (ascii ''Usage: ENV -I NAME=VAL'' @ crlf) (s\<lparr>en_status := ENV_STATUS_READ\<rparr>))
          else if env_get_value key ENV_VALUE_SIZE s \<noteq> None then
            cli_reply (env_format_response cap (key @ ascii '' already defined'' @ crlf) s)
          else cli_set w cap key val s)"

definition cli_error :: "nat \<Rightarrow> bytes \<Rightarrow> bytes ex" where
  "cli_error cap text s = cli_reply (env_write_text cap text (s\<lparr>en_status := ENV_STATUS_READ\<rparr>))"

definition cli_assign :: "env_world \<Rightarrow> nat \<Rightarrow> bytes \<Rightarrow> bytes \<Rightarrow> bytes ex" where
  "cli_assign w cap key val s =
     (case env_eval_value w val s of
        (Failed err, s) \<Rightarrow> cli_error cap err s
      | (Computed v, s) \<Rightarrow> cli_set w cap key v s
      | (Literal, s) \<Rightarrow> cli_set w cap key val s)"

text \<open>The current value of the variable, 0 when it is not defined; an error is the reply.\<close>

definition delta_base :: "nat \<Rightarrow> bytes \<Rightarrow> environment \<Rightarrow> (bytes fate \<times> environment) + u64" where
  "delta_base cap key s =
     (case env_get_value key ENV_VALUE_SIZE s of
        None \<Rightarrow> Inr 0
      | Some v \<Rightarrow>
          if \<not> env_is_number v then
            Inl (cli_reply (env_format_response cap (ascii ''Error: '' @ key @ ascii '' is not numeric'' @ crlf)
              (s\<lparr>en_status := ENV_STATUS_READ\<rparr>)))
          else case strtoll v of None \<Rightarrow> Inl (cli_error cap overflow_text s) | Some c \<Rightarrow> Inr c)"

definition cli_delta :: "env_world \<Rightarrow> nat \<Rightarrow> bytes \<Rightarrow> bytes \<Rightarrow> bytes ex" where
  "cli_delta w cap key delta s =
     (case strtoll delta of
        None \<Rightarrow> cli_error cap overflow_text s
      | Some d \<Rightarrow>
          case delta_base cap key s of
            Inl reply \<Rightarrow> reply
          | Inr current \<Rightarrow>
              case env_calculate current d False of
                None \<Rightarrow> cli_error cap overflow_text s
              | Some updated \<Rightarrow> cli_set w cap key (decimal_int (sint updated)) s)"

definition cli_show :: "env_world \<Rightarrow> nat \<Rightarrow> bytes \<Rightarrow> bytes ex" where
  "cli_show w cap name s =
     (if env_is_now name then
        cli_reply (env_format_response cap (ascii ''NOW='' @ env_now w @ crlf) s)
      else
        let key = env_normalize_key name
        in case env_get_value key ENV_VALUE_SIZE s of
             Some v \<Rightarrow> cli_reply (env_format_response cap (key @ ascii ''='' @ v @ crlf) (s\<lparr>en_status := ENV_STATUS_OK\<rparr>))
           | None \<Rightarrow> cli_reply (env_format_response cap (key @ ascii '' not found'' @ crlf)
               (s\<lparr>en_status := ENV_STATUS_NOT_FOUND\<rparr>)))"

definition is_option :: "bytes \<Rightarrow> u8 \<Rightarrow> bool" where
  "is_option arg letter \<longleftrightarrow> length arg > 1 \<and> hd arg = 45 \<and> to_upper (arg ! 1) = letter"

definition env_execute_cli :: "env_world \<Rightarrow> nat \<Rightarrow> bytes ex" where
  "env_execute_cli w cap s0 =
     (let s = s0\<lparr>en_status := ENV_STATUS_OK\<rparr>
      in case env_next_token (cstr (en_request s)) ENV_VALUE_SIZE of (arg, rest) \<Rightarrow>
           if arg = [] then cli_list cap s
           else if env_is_help arg then cli_reply (env_help_text cap s)
           else if is_option arg 78 then cli_count cap s
           else if is_option arg 68 then cli_delete w cap rest s
           else if is_option arg 73 then cli_init_only w cap rest s
           else
             case env_parse_assignment arg rest of (ok, buffer, key, val) \<Rightarrow>
               if ok then cli_assign w cap key val s
               else
                 case env_parse_delta buffer rest of
                   Some (key, delta) \<Rightarrow> cli_delta w cap key delta s
                 | None \<Rightarrow> cli_show w cap (cstr buffer) s)"

section \<open>Port operations\<close>

text \<open>
  \<open>ENV_COMMAND_SET\<close> takes the second string of the request, which is empty when the request ends
  with the first one.
\<close>

definition second_string :: "bytes \<Rightarrow> bytes" where
  "second_string req = cstr (drop (length (cstr req) + 1) req)"

definition env_command :: "env_world \<Rightarrow> u8 \<Rightarrow> nat \<Rightarrow> (int \<times> bytes) ex" where
  "env_command w command cap s =
     (let key = env_normalize_key (cstr (en_request s))
      in if command = 1 then (case env_load_file s of (rc, s) \<Rightarrow> (Returned (rc, []), s))
         else if command = 2 then
           (case env_get_value key ENV_VALUE_SIZE s of
              Some v \<Rightarrow> (case env_write_text cap v s of (out, s) \<Rightarrow> (Returned (ENV_STATUS_OK, out), s))
            | None \<Rightarrow> (Returned (ENV_STATUS_NOT_FOUND, []), s))
         else if command = 3 then
           fbind (env_set_value w key (second_string (en_request s))) (\<lambda>rc. fret (rc, [])) s
         else if command = 4 then fbind (env_delete_value w key) (\<lambda>rc. fret (rc, [])) s
         else if command = 5 then
           (case env_list_values cap s of (out, s) \<Rightarrow> (Returned (ENV_STATUS_OK, out), s))
         else if command = 6 then
           (case env_format_response cap (decimal (length (en_entries s))) s of
              (out, s) \<Rightarrow> (Returned (ENV_STATUS_OK, out), s))
         else if command = 7 then fbind (env_clear_values w) (\<lambda>rc. fret (rc, [])) s
         else if command = 8 then
           (Returned (if env_get_value key ENV_VALUE_SIZE s = None then ENV_STATUS_NOT_FOUND else ENV_STATUS_OK, []), s)
         else if command = 9 then
           fbind (env_execute_cli w cap) (\<lambda>out s. (Returned (en_status s, out), s)) s
         else (Returned (ENV_STATUS_READ, []), s))"

definition env_execute_command :: "env_world \<Rightarrow> u8 \<Rightarrow> nat \<Rightarrow> bytes ex" where
  "env_execute_command w command cap s =
     fbind (env_command w command cap) (\<lambda>(rc, out) s.
       let s = s\<lparr>en_status := if en_overflow s then ENV_STATUS_FULL else rc\<rparr>
       in (Returned out, if command \<noteq> 9 then env_reset_request s else s)) (s\<lparr>en_overflow := False\<rparr>)"

definition environment_io_init :: "environment \<Rightarrow> environment" where
  "environment_io_init s =
     (if en_initialized s then s
      else case env_load_file (env_reset_request s) of (rc, s) \<Rightarrow> s\<lparr>en_status := rc, en_initialized := True\<rparr>)"

definition environment_io_close :: "environment \<Rightarrow> environment" where
  "environment_io_close s =
     (env_reset_request (s\<lparr>en_entries := []\<rparr>))\<lparr>en_status := ENV_STATUS_OK, en_initialized := False\<rparr>"

definition environment_output :: "env_world \<Rightarrow> nat \<Rightarrow> u8 \<Rightarrow> nat \<Rightarrow> bytes ex" where
  "environment_output w port data cap s0 =
     (let s = environment_io_init s0
      in if port = ENVIRONMENT_PORT_DATA then (Returned [], env_append_byte data s)
         else if port = ENVIRONMENT_PORT_COMMAND then
           if data = 0 then (Returned [], (env_reset_request s)\<lparr>en_status := ENV_STATUS_OK\<rparr>)
           else env_execute_command w data cap s
         else (Returned [], s))"

definition environment_input :: "nat \<Rightarrow> environment \<Rightarrow> u8" where
  "environment_input port s = (if port = ENVIRONMENT_PORT_COMMAND then of_int (en_status s) else 0)"

definition environment_io_get :: "bytes \<Rightarrow> nat \<Rightarrow> environment \<Rightarrow> bytes option \<times> environment" where
  "environment_io_get key value_length s0 =
     (let s = environment_io_init s0
      in (env_get_value (env_normalize_key key) value_length s, s))"

end
