(* ===== verification/Environment_Values.thy ===== *)
theory Environment_Values
  imports Environment_IO
begin

text \<open>
  What the environment variables promise: the entries in memory are those of the snapshot in flash,
  a variable that was set is read back, also after a power cycle, and a commit that fails is rolled
  back. \<open>stored_entries\<close> is the table a flash holds, \<open>env_inv\<close> the invariant of the driver.
\<close>

section \<open>Text without zeros\<close>

definition clean :: "bytes \<Rightarrow> bool" where
  "clean bs \<longleftrightarrow> 0 \<notin> set bs"

lemma to_upper_zero [simp]: "to_upper c = 0 \<longleftrightarrow> c = 0"
proof -
  have "c - 32 \<noteq> 0" if "97 \<le> c"
    using that by auto
  then show ?thesis by (auto simp: to_upper_def)
qed

lemma clean_simps [simp]:
  "clean []" "clean (b # bs) \<longleftrightarrow> b \<noteq> 0 \<and> clean bs" "clean (xs @ ys) \<longleftrightarrow> clean xs \<and> clean ys"
  "clean (cstr bs)"
  by (auto simp: clean_def cstr_def dest: set_takeWhileD)

lemma clean_mono: "clean bs \<Longrightarrow> set bs' \<subseteq> set bs \<Longrightarrow> clean bs'"
  by (auto simp: clean_def)

lemma clean_take [simp]: "clean bs \<Longrightarrow> clean (take n bs)"
  by (rule clean_mono [OF _ set_take_subset])

lemma clean_drop [simp]: "clean bs \<Longrightarrow> clean (drop n bs)"
  by (rule clean_mono [OF _ set_drop_subset])

lemma clean_tl [simp]: "clean bs \<Longrightarrow> clean (tl bs)"
  by (cases bs) auto

lemma clean_butlast [simp]: "clean bs \<Longrightarrow> clean (butlast bs)"
  by (auto simp: clean_def dest: in_set_butlastD)

lemma clean_takeWhile [simp]: "clean bs \<Longrightarrow> clean (takeWhile P bs)"
  by (auto simp: clean_def dest: set_takeWhileD)

lemma clean_dropWhile [simp]: "clean bs \<Longrightarrow> clean (dropWhile P bs)"
  by (auto simp: clean_def dest: set_dropWhileD)

lemma clean_cstr [simp]: "clean bs \<Longrightarrow> cstr bs = bs"
  unfolding clean_def cstr_def by (subst takeWhile_eq_all_conv) auto

lemma clean_text [simp]:
  "clean key \<Longrightarrow> clean (env_normalize_key key)" "clean t \<Longrightarrow> clean (env_skip_spaces t)"
  "clean t \<Longrightarrow> clean (env_trim_text t)" "clean v \<Longrightarrow> clean (env_copy_text v)"
  by (auto simp: env_normalize_key_def env_trim_text_def env_skip_spaces_def env_copy_text_def clean_def
      dest!: in_set_takeD set_dropWhileD)

lemma clean_strncat [simp]: "clean v \<Longrightarrow> clean t \<Longrightarrow> clean (env_strncat v t)"
  by (simp add: env_strncat_def)

lemma clean_token:
  assumes "clean t" and "env_next_token t n = (tok, rest)"
  shows "clean tok" "clean rest"
  using assms by (auto simp: env_next_token_def Let_def split: if_splits)

lemma clean_assignment:
  assumes "clean name" and "clean rest" and "env_parse_assignment name rest = (ok, buffer, key, val)"
  shows "clean key" "clean val"
  using assms by (auto simp: env_parse_assignment_def join_rest_def Let_def ascii_def split: if_splits)

lemma clean_split_delta:
  assumes "env_split_delta buffer = Some (key, delta)"
  shows "clean key"
  using assms by (auto simp: env_split_delta_def Let_def split: if_splits)

lemma clean_delta:
  assumes "env_parse_delta buffer rest = Some (key, delta)"
  shows "clean key"
  using assms clean_split_delta by (auto simp: env_parse_delta_def Let_def split: option.splits if_splits)

lemma is_digit_decimal: "list_all is_digit (decimal n)"
proof (induction n rule: decimal.induct)
  case (1 n)
  have digit: "is_digit (of_nat m + 48)" if "m < 10" for m
  proof -
    from that have "m \<in> {0, 1, 2, 3, 4, 5, 6, 7, 8, 9}" by auto
    then show ?thesis by (elim insertE) (simp_all add: is_digit_def)
  qed
  show ?case
    using 1 digit [of n] digit [of "n mod 10"] by (subst decimal.simps) simp
qed

lemma clean_digits: "list_all is_digit ds \<Longrightarrow> clean ds"
  by (auto simp: clean_def list_all_iff is_digit_def)

lemma clean_decimal [simp]: "clean (decimal n)" "clean (decimal_int i)" "clean (env_now w)"
  using clean_digits [OF is_digit_decimal] by (simp_all add: decimal_int_def env_now_def)

section \<open>The table in flash\<close>

definition entry_ok :: "bytes \<times> bytes \<Rightarrow> bool" where
  "entry_ok e \<longleftrightarrow> env_key_valid (fst e) \<and> clean (fst e) \<and> length (snd e) < ENV_VALUE_SIZE \<and> clean (snd e)"

definition entries_ok :: "entries \<Rightarrow> bool" where
  "entries_ok es \<longleftrightarrow> list_all entry_ok es \<and> distinct (map fst es) \<and> length es \<le> ENV_MAX_ENTRIES"

definition stored_entries :: "flash \<Rightarrow> int \<times> entries" where
  "stored_entries f =
     (case z80_env_snapshot_load f Z80_ENV_SNAPSHOT_BYTES of (status, data) \<Rightarrow>
        if status \<noteq> ENV_STATUS_OK then (status, []) else parse_entries data [])"

lemma env_load_file_stored:
  "env_load_file s = (fst (stored_entries (be_flash (en_backend s))),
     s\<lparr>en_entries := snd (stored_entries (be_flash (en_backend s)))\<rparr>)"
  by (simp add: env_load_file_def stored_entries_def split: prod.splits)

lemma env_find_index_none: "env_find_index key es = None \<longleftrightarrow> key \<notin> fst ` set es"
  by (induction es) auto

lemma env_find_index_some:
  "env_find_index key es = Some i \<Longrightarrow> i < length es \<and> fst (es ! i) = key \<and> map_of es key = Some (snd (es ! i))"
  by (induction es arbitrary: i) (auto split: if_splits)

lemma parse_entries_ok:
  "entries_ok es \<Longrightarrow> parse_entries data es = (rc, es') \<Longrightarrow> entries_ok es'"
proof (induction data es rule: parse_entries.induct)
  case (1 data es)
  let ?key = "cstr data"
  let ?data = "drop (length ?key + 1) data"
  let ?val = "cstr ?data"
  show ?case
  proof (cases "data = [] \<or> length es = ENV_MAX_ENTRIES \<or> 0 \<notin> set data \<or> ?key = [] \<or> length ?key \<ge> ENV_KEY_SIZE \<or>
      0 \<notin> set ?data \<or> length ?val \<ge> ENV_VALUE_SIZE \<or> env_find_index ?key es \<noteq> None")
    case True
    with "1.prems" show ?thesis
      by (subst (asm) parse_entries.simps) (auto simp: Let_def split: if_splits)
  next
    case False
    have "entries_ok (es @ [(?key, ?val)])"
      using "1.prems"(1) False by (auto simp: entries_ok_def entry_ok_def env_key_valid_def env_find_index_none)
    moreover have "parse_entries (drop (length ?val + 1) ?data) (es @ [(?key, ?val)]) = (rc, es')"
      using "1.prems"(2) False by (subst (asm) parse_entries.simps) (auto simp: Let_def split: if_splits)
    ultimately show ?thesis
      using "1.IH" False by blast
  qed
qed

lemma stored_entries_ok: "entries_ok (snd (stored_entries f))"
  using parse_entries_ok [of "[]"]
  by (cases "z80_env_snapshot_load f Z80_ENV_SNAPSHOT_BYTES"; cases "parse_entries (snd (z80_env_snapshot_load f Z80_ENV_SNAPSHOT_BYTES)) []")
    (auto simp: stored_entries_def entries_ok_def)

text \<open>The text of a table, and that it is parsed back.\<close>

definition entry_bytes :: "bytes \<times> bytes \<Rightarrow> bytes" where
  "entry_bytes e = fst e @ [0] @ snd e @ [0]"

lemma snapshot_bytes_eq:
  "length out \<le> Z80_ENV_SNAPSHOT_BYTES \<Longrightarrow>
   snapshot_bytes es out =
     (if length out + length (concat (map entry_bytes es)) \<le> Z80_ENV_SNAPSHOT_BYTES
      then Some (out @ concat (map entry_bytes es)) else None)"
  by (induction es arbitrary: out) (auto simp: entry_bytes_def)

lemma cstr_append_zero [simp]: "clean k \<Longrightarrow> cstr (k @ 0 # rest) = k"
  by (induction k) (auto simp: cstr_def)

lemma parse_snapshot:
  "entries_ok (es @ es') \<Longrightarrow> parse_entries (concat (map entry_bytes es')) es = (ENV_STATUS_OK, es @ es')"
proof (induction es' arbitrary: es)
  case Nil
  then show ?case by (subst parse_entries.simps) simp
next
  case (Cons e es')
  obtain k v where e: "e = (k, v)" by (cases e)
  have ok: "k \<noteq> []" "length k < ENV_KEY_SIZE" "clean k" "clean v" "length v < ENV_VALUE_SIZE" "length es < ENV_MAX_ENTRIES"
    "k \<notin> fst ` set es"
    using Cons.prems by (auto simp: entries_ok_def entry_ok_def env_key_valid_def e)
  have "parse_entries (concat (map entry_bytes es')) (es @ [(k, v)]) = (ENV_STATUS_OK, (es @ [(k, v)]) @ es')"
    using Cons.prems by (intro Cons.IH) (simp add: e)
  then show ?case
    using ok by (subst parse_entries.simps) (simp add: e entry_bytes_def Let_def env_find_index_none)
qed

section \<open>A save that reports success\<close>

text \<open>
  The frame of the device is enough here, since the driver reads back what it wrote: flash that loses
  bits makes a save fail, not lie.
\<close>

lemma fbind_Returned:
  "fbind m k s = (Returned y, s2) \<longleftrightarrow> (\<exists>x s1. m s = (Returned x, s1) \<and> k x s1 = (Returned y, s2))"
  by (auto simp: fbind_def split: prod.splits fate.splits)

context flash_frame
begin

lemma env_write_frame:
  assumes "a < offset \<or> offset + FLASH_SECTOR_SIZE \<le> a" and "length sector = FLASH_SECTOR_SIZE"
  shows "snd (env_write_callback d offset sector f) a = f a"
  using assms by (auto simp: env_write_callback_def Let_def erase_frame program_frame)

lemma snapshot_write_verified:
  assumes cur: "current_slot (be_flash b) = (slot, previous)" and "slot \<noteq> -2"
    and len: "length data \<le> Z80_ENV_SNAPSHOT_BYTES"
    and run: "snapshot_write d env slot (eh_sequence previous) data b = (Returned 0, b')"
  shows "z80_env_snapshot_load (be_flash b') Z80_ENV_SNAPSHOT_BYTES = (0, data)"
proof -
  let ?o = "other_slot slot" and ?sector = "env_sector (eh_sequence previous + 1) data"
  obtain f' where w: "env_write_callback d (slot_data ?o) ?sector (be_flash b) = (True, f')" and b': "be_flash b' = f'"
    using run unfolding snapshot_write_def other_slot_def slot_data_def
    by (auto simp: fbind_def fret_def z80_flash_backend_env_write_def reboot_after_flash_failure_def
        split: if_splits prod.splits)
  have "slot_holds f' ?o (eh_sequence previous + 1) data"
    using w len by (auto simp: slot_holds_def env_write_callback_def Let_def split: if_splits)
  moreover have "f' a = be_flash b a" if "a < slot_data ?o \<or> slot_data ?o + FLASH_SECTOR_SIZE \<le> a" for a
    using env_write_frame [OF that, of ?sector "be_flash b"] w len by simp
  then have "slot_same (1 - ?o) (be_flash b) f'"
    by (rule slot_same_outside) (assumption, rule other_slot_simps(2))
  ultimately have "current_slot f' = (int ?o, snapshot_header (eh_sequence previous + 1) data)"
    "flash_read f' (slot_data ?o + FLASH_PAGE_SIZE) (length data) = data"
    using current_after_write [OF cur assms(2)] valid_slot_holds(2) by blast+
  then show ?thesis
    using load_current [of f' "int ?o"] len b' by simp
qed

lemma snapshot_write_status:
  "snapshot_write d env slot sequence data b = (Returned rc, b') \<Longrightarrow> rc \<in> {0, -3}"
  by (auto simp: snapshot_write_def fbind_Returned fret_def split: if_splits)

lemma unchanged_load:
  assumes "current_slot f = (slot, previous)" "slot \<ge> 0" "unat (eh_length previous) = length data"
    "flash_read f (slot_data (nat slot) + FLASH_PAGE_SIZE) (length data) = data" "length data \<le> Z80_ENV_SNAPSHOT_BYTES"
  shows "z80_env_snapshot_load f Z80_ENV_SNAPSHOT_BYTES = (0, data)"
  using load_current [OF assms(1,2), of Z80_ENV_SNAPSHOT_BYTES] assms by simp

lemma save_status:
  "z80_env_snapshot_save d env env' data b = (Returned rc, b') \<Longrightarrow> rc \<in> {0, -2, -3, -4}"
proof (induction d env env' data b arbitrary: rc b' rule: z80_env_snapshot_save.induct)
  case (1 d env env' data b)
  obtain slot previous where cur: "current_slot (be_flash b) = (slot, previous)" by fastforce
  have written: "snapshot_write d e sl sq data b1 = (Returned r, b2) \<Longrightarrow> r \<in> {0, -3}" for e sl sq b1 r b2
    by (auto simp: snapshot_write_def fbind_Returned fret_def split: if_splits)
  show ?case
    using "1.prems" "1.IH" [OF _ cur [symmetric]] written
    by (subst (asm) z80_env_snapshot_save.simps)
      (fastforce simp: cur split: if_splits prod.splits fate.splits)
qed

lemma save_verified:
  assumes "z80_env_snapshot_save d env env' data b = (Returned 0, b')"
  shows "z80_env_snapshot_load (be_flash b') Z80_ENV_SNAPSHOT_BYTES = (0, data)"
proof -
  obtain slot previous where cur: "current_slot (be_flash b) = (slot, previous)" by fastforce
  have len: "length data \<le> Z80_ENV_SNAPSHOT_BYTES" and s2: "slot \<noteq> -2"
    using assms cur by (subst (asm) z80_env_snapshot_save.simps; auto split: if_splits)+
  let ?same = "slot \<ge> 0 \<and> unat (eh_length previous) = length data \<and>
    flash_read (be_flash b) (slot_data (nat slot) + FLASH_PAGE_SIZE) (length data) = data"
  consider (same) ?same | (first) "\<not> ?same" "slot = -1 \<and> data \<noteq> []" | (direct) "\<not> ?same" "\<not> (slot = -1 \<and> data \<noteq> [])"
    by blast
  then show ?thesis
  proof cases
    case same
    then have "b' = b"
      using assms cur len s2 by (subst (asm) z80_env_snapshot_save.simps) simp
    with same cur len unchanged_load show ?thesis by blast
  next
    case first
    obtain b1 slot1 header1 where "current_slot (be_flash b1) = (slot1, header1)" "\<not> slot1 < 0"
      "snapshot_write d env' slot1 (eh_sequence header1) data b1 = (Returned 0, b')"
      using assms cur len s2 first
      by (subst (asm) z80_env_snapshot_save.simps) (fastforce split: prod.splits fate.splits if_splits)
    with len show ?thesis by (intro snapshot_write_verified) auto
  next
    case direct
    then have "snapshot_write d env' slot (eh_sequence previous) data b = (Returned 0, b')"
      using assms cur len s2 by (subst (asm) z80_env_snapshot_save.simps) (simp split: if_splits)
    with cur s2 len show ?thesis by (rule snapshot_write_verified)
  qed
qed

end

section \<open>Commits\<close>

abbreviation table :: "environment \<Rightarrow> int \<times> entries" where
  "table s \<equiv> stored_entries (be_flash (en_backend s))"

definition env_core :: "environment \<Rightarrow> bool" where
  "env_core s \<longleftrightarrow> en_entries s = snd (table s) \<and> en_initialized s \<and> length (en_request s) < ENV_REQUEST_SIZE \<and>
     en_status s \<in> {-5 .. 0}"

text \<open>What a commit that returns leaves behind; \<open>same_port\<close> are the fields it does not touch.\<close>

definition same_port :: "environment \<Rightarrow> environment \<Rightarrow> bool" where
  "same_port s s' \<longleftrightarrow> en_request s' = en_request s \<and> en_status s' = en_status s \<and>
     en_initialized s' = en_initialized s \<and> en_overflow s' = en_overflow s"

lemma load_status: "fst (stored_entries f) \<in> {0, -2, -4}"
proof -
  have "fst (parse_entries data es) \<in> {0, -2}" for data es
  proof (induction data es rule: parse_entries.induct)
    case (1 data es)
    then show ?case by (subst parse_entries.simps) (simp add: Let_def)
  qed
  then show ?thesis
    by (auto simp: stored_entries_def z80_env_snapshot_load_def split: prod.splits if_splits)
qed

lemma commit_result:
  assumes dev: "flash_frame (ew_dev w)" and ok: "entries_ok (en_entries s)" and run: "env_commit w s = (Returned rc, s')"
  shows "en_entries s' = snd (table s')" "same_port s s'" "rc \<in> {0, -2, -3, -4}"
    "rc = 0 \<Longrightarrow> en_entries s' = en_entries s \<and> fst (table s') = 0"
proof -
  obtain st s1 where save: "env_save_file w s = (Returned st, s1)"
    and rest: "(if st \<noteq> ENV_STATUS_OK then (Returned (if fst (table s1) \<noteq> 0 then ENV_STATUS_READ else st),
        s1\<lparr>en_entries := snd (table s1)\<rparr>) else (Returned st, s1)) = (Returned rc, s')"
    using run unfolding env_commit_def fbind_Returned env_load_file_stored prod.case by blast
  have s1: "s1 = s\<lparr>en_backend := en_backend s1\<rparr>" and st: "st \<in> {0, -2, -3, -4}"
    using save flash_frame.save_status [OF dev]
    by (auto simp: env_save_file_def split: option.splits prod.splits)
  have good: "table s1 = (0, en_entries s)" if "st = 0"
  proof -
    from save that obtain data b where data: "snapshot_bytes (en_entries s) [] = Some data"
      "z80_env_snapshot_save (ew_dev w) (ew_first w) (ew_second w) data (en_backend s) = (Returned 0, b)" "en_backend s1 = b"
      by (auto simp: env_save_file_def split: option.splits prod.splits)
    then have "data = concat (map entry_bytes (en_entries s))"
      by (simp add: snapshot_bytes_eq split: if_splits)
    then show ?thesis
      using flash_frame.save_verified [OF dev data(2)] data(3) parse_snapshot [of "[]" "en_entries s"] ok
      by (simp add: stored_entries_def)
  qed
  have "en_entries s' = snd (table s') \<and> same_port s s' \<and> rc \<in> {0, -2, -3, -4} \<and>
      (rc = 0 \<longrightarrow> en_entries s' = en_entries s \<and> fst (table s') = 0)"
  proof (cases "st = 0")
    case True
    with rest good s1 have "rc = 0" "s' = s1" "en_entries s1 = en_entries s" "table s1 = (0, en_entries s)" "same_port s s1"
      by (auto simp: same_port_def dest: arg_cong [of _ _ en_entries] arg_cong [of _ _ en_request]
          arg_cong [of _ _ en_status] arg_cong [of _ _ en_initialized] arg_cong [of _ _ en_overflow])
    then show ?thesis by simp
  next
    case False
    with rest have "s' = s1\<lparr>en_entries := snd (table s1)\<rparr>" "rc = (if fst (table s1) \<noteq> 0 then ENV_STATUS_READ else st)"
      by auto
    moreover have "same_port s s1"
      using s1 by (auto simp: same_port_def dest: arg_cong [of _ _ en_request]
          arg_cong [of _ _ en_status] arg_cong [of _ _ en_initialized] arg_cong [of _ _ en_overflow])
    ultimately show ?thesis
      using st False by (auto simp: same_port_def)
  qed
  then show "en_entries s' = snd (table s')" "same_port s s'" "rc \<in> {0, -2, -3, -4}"
    "rc = 0 \<Longrightarrow> en_entries s' = en_entries s \<and> fst (table s') = 0"
    by blast+
qed

text \<open>A change of the table that is committed, or rolled back to the table in flash.\<close>

definition committed :: "(entries \<Rightarrow> entries) \<Rightarrow> int \<Rightarrow> environment \<Rightarrow> environment \<Rightarrow> bool" where
  "committed g rc s s' \<longleftrightarrow> en_entries s' = snd (table s') \<and> same_port s s' \<and> rc \<in> {-5 .. 0} \<and>
     (rc = 0 \<longrightarrow> en_entries s' = g (en_entries s) \<and> fst (table s') = 0)"

lemma commit_committed:
  assumes "flash_frame (ew_dev w)" and "entries_ok (g (en_entries s))"
    and "env_commit w (s\<lparr>en_entries := g (en_entries s)\<rparr>) = (Returned rc, s')"
  shows "committed g rc s s'"
  using commit_result [OF assms(1) _ assms(3)] assms(2) unfolding committed_def same_port_def by auto

lemma committed_refuse: "en_entries s = snd (table s) \<Longrightarrow> rc \<in> {-5 .. -1} \<Longrightarrow> committed g rc s s"
  by (auto simp: committed_def same_port_def)

text \<open>The table changes that set and delete make.\<close>

definition put_entry :: "bytes \<Rightarrow> bytes \<Rightarrow> entries \<Rightarrow> entries" where
  "put_entry key v es =
     (case env_find_index key es of None \<Rightarrow> es @ [(key, v)] | Some i \<Rightarrow> es[i := (fst (es ! i), v)])"

definition drop_entry :: "bytes \<Rightarrow> entries \<Rightarrow> entries" where
  "drop_entry key es =
     (case env_find_index key es of None \<Rightarrow> es | Some i \<Rightarrow> take i es @ drop (i + 1) es)"

lemma map_of_put: "map_of (put_entry key v es) = (map_of es)(key \<mapsto> v)"
proof (induction es)
  case Nil
  then show ?case by (simp add: put_entry_def)
next
  case (Cons e es)
  then show ?case
    by (cases "fst e = key"; cases "env_find_index key es") (auto simp: put_entry_def fun_eq_iff)
qed

lemma map_of_drop: "distinct (map fst es) \<Longrightarrow> map_of (drop_entry key es) = (map_of es)(key := None)"
proof (induction es)
  case Nil
  then show ?case by (simp add: drop_entry_def)
next
  case (Cons e es)
  then show ?case
    by (cases "fst e = key"; cases "env_find_index key es") (force simp: drop_entry_def fun_eq_iff map_of_eq_None_iff dest: env_find_index_none [THEN iffD1])+
qed

lemma put_entry_ok:
  assumes "entries_ok es" and "entry_ok (key, v)" and "env_find_index key es = None \<Longrightarrow> length es < ENV_MAX_ENTRIES"
  shows "entries_ok (put_entry key v es)"
proof (cases "env_find_index key es")
  case None
  with assms env_find_index_none [of key es] show ?thesis
    by (auto simp: put_entry_def entries_ok_def)
next
  case (Some i)
  from env_find_index_some [OF Some] have "i < length es" "fst (es ! i) = key" by auto
  moreover have "map fst (es[i := (key, v)]) = map fst es"
    using calculation by (simp add: map_update list_update_same_conv)
  ultimately show ?thesis
    using assms Some by (auto simp: put_entry_def entries_ok_def list_all_iff dest!: set_update_subset_insert [THEN subsetD])
qed

lemma drop_entry_ok: "entries_ok es \<Longrightarrow> entries_ok (drop_entry key es)"
proof (cases "env_find_index key es")
  case (Some i)
  assume "entries_ok es"
  moreover from env_find_index_some [OF Some] have "i < length es" by auto
  moreover have "distinct (map fst (take i es @ drop (Suc i) es))" if "distinct (map fst es)"
    using that arg_cong [OF id_take_nth_drop [OF \<open>i < length es\<close>], of "map fst"] by (auto simp: distinct_append)
  ultimately show ?thesis
    using Some by (auto simp: drop_entry_def entries_ok_def list_all_iff dest: in_set_takeD in_set_dropD)
qed (simp add: drop_entry_def)

definition set_entry :: "bytes \<Rightarrow> bytes \<Rightarrow> entries \<Rightarrow> entries" where
  "set_entry key val es = put_entry key (take (ENV_VALUE_SIZE - 1) val) es"

lemma set_value_committed:
  assumes "flash_frame (ew_dev w)" and m: "en_entries s = snd (table s)" and "clean key" "clean val"
    and run: "env_set_value w key val s = (Returned rc, s')"
  shows "committed (set_entry key val) rc s s'"
proof (cases "env_key_valid key \<and> (env_find_index key (en_entries s) = None \<longrightarrow> length (en_entries s) < ENV_MAX_ENTRIES)")
  case False
  with run have "s' = s \<and> rc \<in> {-3, -4}"
    by (auto simp: env_set_value_def Let_def split: if_splits option.splits)
  with committed_refuse [OF m] show ?thesis by auto
next
  case True
  have "entry_ok (key, take (ENV_VALUE_SIZE - 1) val)"
    using True assms(3,4) by (simp add: entry_ok_def)
  moreover have "entries_ok (en_entries s)"
    using m stored_entries_ok by simp
  ultimately have ok: "entries_ok (set_entry key val (en_entries s))"
    unfolding set_entry_def using True by (intro put_entry_ok) auto
  have "env_commit w (s\<lparr>en_entries := set_entry key val (en_entries s)\<rparr>) = (Returned rc, s')"
    using run True by (auto simp: env_set_value_def set_entry_def put_entry_def Let_def split: if_splits option.splits)
  with commit_committed [where g = "set_entry key val", OF assms(1) ok] show ?thesis by blast
qed

lemma delete_value_committed:
  assumes "flash_frame (ew_dev w)" and m: "en_entries s = snd (table s)"
    and run: "env_delete_value w key s = (Returned rc, s')"
  shows "committed (drop_entry key) rc s s'"
proof (cases "env_key_valid key \<and> env_find_index key (en_entries s) \<noteq> None")
  case False
  with run have "s' = s \<and> rc = -5"
    by (auto simp: env_delete_value_def Let_def split: if_splits option.splits)
  with committed_refuse [OF m] show ?thesis by auto
next
  case True
  have ok: "entries_ok (drop_entry key (en_entries s))"
    using m stored_entries_ok by (intro drop_entry_ok) simp
  have "env_commit w (s\<lparr>en_entries := drop_entry key (en_entries s)\<rparr>) = (Returned rc, s')"
    using run True by (auto simp: env_delete_value_def drop_entry_def split: if_splits option.splits)
  with commit_committed [where g = "drop_entry key", OF assms(1) ok] show ?thesis by blast
qed

lemma clear_values_committed:
  assumes "flash_frame (ew_dev w)" and "env_clear_values w s = (Returned rc, s')"
  shows "committed (\<lambda>_. []) rc s s'"
  using assms commit_committed [of w "\<lambda>_. []" s rc s'] by (simp add: env_clear_values_def entries_ok_def)

section \<open>Commands keep the table and fit the response buffer\<close>

text \<open>\<open>returns P m Q\<close>: from a state with \<open>P\<close>, if \<open>m\<close> returns rather than restarts the board, then \<open>Q\<close>.\<close>

definition returns :: "('s \<Rightarrow> bool) \<Rightarrow> ('s \<Rightarrow> 'a fate \<times> 's) \<Rightarrow> ('a \<Rightarrow> 's \<Rightarrow> bool) \<Rightarrow> bool" where
  "returns P m Q \<longleftrightarrow> (\<forall>s r s'. P s \<longrightarrow> m s = (Returned r, s') \<longrightarrow> Q r s')"

lemma returnsD: "returns P m Q \<Longrightarrow> P s \<Longrightarrow> m s = (Returned r, s') \<Longrightarrow> Q r s'"
  by (simp add: returns_def)

lemma returns_bind:
  "returns P m R \<Longrightarrow> (\<And>x. returns (R x) (k x) Q) \<Longrightarrow> returns P (fbind m k) Q"
  unfolding returns_def fbind_Returned by blast

definition reply_ok :: "nat \<Rightarrow> bytes \<Rightarrow> environment \<Rightarrow> bool" where
  "reply_ok cap out s \<longleftrightarrow> env_core s \<and> length out \<le> cap - 1"

lemma env_core_fields [simp]:
  "env_core (s\<lparr>en_overflow := x\<rparr>) = env_core s"
  "env_core s \<Longrightarrow> env_core (env_reset_request s)"
  "env_core s \<Longrightarrow> rc \<in> {-5 .. 0} \<Longrightarrow> env_core (s\<lparr>en_status := rc\<rparr>)"
  by (auto simp: env_core_def env_reset_request_def)

lemma append_text_reply:
  "env_core s \<Longrightarrow> length out \<le> cap - 1 \<Longrightarrow> env_append_text cap out t s = (out', s') \<Longrightarrow> reply_ok cap out' s'"
  by (auto simp: reply_ok_def env_append_text_def Let_def split: if_splits)

lemma text_reply [simp]:
  "env_core s \<Longrightarrow> env_write_text cap t s = (out, s') \<Longrightarrow> reply_ok cap out s'"
  "env_core s \<Longrightarrow> env_format_response cap t s = (out, s') \<Longrightarrow> reply_ok cap out s'"
  by (auto simp: env_write_text_def env_format_response_def reply_ok_def split: if_splits
      dest: append_text_reply [of s "[]" cap, unfolded reply_ok_def, simplified])

lemma list_reply:
  assumes "env_core s" and "env_list_values cap s = (out, s')"
  shows "reply_ok cap out s'"
proof -
  have step: "case env_list_entry cap r e of (out, s) \<Rightarrow> reply_ok cap out s"
    if "case r of (out, s) \<Rightarrow> reply_ok cap out s" for r e
    using that
    by (auto simp: env_list_entry_def split: prod.splits)
      (metis append_text_reply reply_ok_def)
  have "case foldl (env_list_entry cap) r es of (out, s) \<Rightarrow> reply_ok cap out s"
    if "case r of (out, s) \<Rightarrow> reply_ok cap out s" for r es
    using that by (induction es arbitrary: r) (simp_all add: step)
  from this [of "([], s)" "en_entries s"] assms show ?thesis
    by (simp add: env_list_values_def reply_ok_def)
qed

lemma cli_reply_returns:
  "(\<And>s out s'. P s \<Longrightarrow> g s = (out, s') \<Longrightarrow> reply_ok cap out s') \<Longrightarrow> returns P (\<lambda>s. cli_reply (g s)) (reply_ok cap)"
  by (fastforce simp: returns_def cli_reply_def reply_ok_def split: prod.splits)

lemma committed_core: "committed g rc s s' \<Longrightarrow> env_core s \<Longrightarrow> env_core s' \<and> rc \<in> {-5 .. 0}"
  by (auto simp: committed_def env_core_def same_port_def)

lemma core_table: "env_core s \<Longrightarrow> en_entries s = snd (table s)"
  by (simp add: env_core_def)

lemma get_value_clean: "env_core s \<Longrightarrow> env_get_value key n s = Some v \<Longrightarrow> clean v"
proof -
  assume "env_core s" and v: "env_get_value key n s = Some v"
  then have "entries_ok (en_entries s)"
    using core_table stored_entries_ok by simp
  with v env_find_index_some show ?thesis
    by (fastforce simp: env_get_value_def entries_ok_def entry_ok_def list_all_length split: if_splits)
qed

context flash_frame
begin

lemma set_returns:
  "ew_dev w = d \<Longrightarrow> clean key \<Longrightarrow> clean val \<Longrightarrow>
    returns env_core (env_set_value w key val) (\<lambda>rc s. env_core s \<and> rc \<in> {-5 .. 0})"
  unfolding returns_def using set_value_committed committed_core core_table flash_frame_axioms by metis

lemma delete_returns:
  "ew_dev w = d \<Longrightarrow> returns env_core (env_delete_value w key) (\<lambda>rc s. env_core s \<and> rc \<in> {-5 .. 0})"
  unfolding returns_def using delete_value_committed committed_core core_table flash_frame_axioms by metis

lemma clear_returns:
  "ew_dev w = d \<Longrightarrow> returns env_core (env_clear_values w) (\<lambda>rc s. env_core s \<and> rc \<in> {-5 .. 0})"
  unfolding returns_def using clear_values_committed committed_core flash_frame_axioms by metis

lemma cli_set_returns:
  assumes "ew_dev w = d" "clean key" "clean val"
  shows "returns env_core (cli_set w cap key val) (reply_ok cap)"
  unfolding cli_set_def
  by (rule returns_bind [OF set_returns [OF assms]], rule cli_reply_returns, rule text_reply(2) [rotated], assumption) simp

lemma cli_delete_returns:
  assumes "ew_dev w = d"
  shows "returns env_core (cli_delete w cap rest) (reply_ok cap)"
proof -
  have usage: "returns env_core (\<lambda>s. cli_reply (env_write_text cap t (s\<lparr>en_status := ENV_STATUS_READ\<rparr>))) (reply_ok cap)" for t
    by (rule cli_reply_returns) (auto intro: text_reply(1) [rotated])
  have del: "returns env_core (fbind (env_delete_value w key) (\<lambda>rc s.
      cli_reply (env_format_response cap (t rc) (s\<lparr>en_status := rc\<rparr>)))) (reply_ok cap)" for t key
    by (rule returns_bind [OF delete_returns [OF assms]], rule cli_reply_returns, rule text_reply(2) [rotated], assumption) simp
  show ?thesis
    using usage del unfolding cli_delete_def Let_def returns_def by (auto split: if_splits)
qed

lemma cli_init_only_returns:
  assumes "ew_dev w = d" and "clean rest"
  shows "returns env_core (cli_init_only w cap rest) (reply_ok cap)"
proof -
  obtain name rest' where tok: "env_next_token rest ENV_VALUE_SIZE = (name, rest')" by fastforce
  obtain ok buffer key val where asg: "env_parse_assignment name rest' = (ok, buffer, key, val)"
    by (metis prod.exhaust)
  note cl = clean_assignment [OF clean_token [OF assms(2) tok] asg]
  have a: "returns env_core (\<lambda>s. cli_reply (env_write_text cap t (s\<lparr>en_status := ENV_STATUS_READ\<rparr>))) (reply_ok cap)" for t
    by (rule cli_reply_returns) (auto intro: text_reply(1) [rotated])
  have b: "returns env_core (\<lambda>s. cli_reply (env_format_response cap t s)) (reply_ok cap)" for t
    by (rule cli_reply_returns) auto
  show ?thesis
    using a b cli_set_returns [OF assms(1) cl]
    unfolding cli_init_only_def tok asg prod.case returns_def by (auto split: if_splits)
qed


lemma cli_error_returns: "returns env_core (cli_error cap t) (reply_ok cap)"
  unfolding cli_error_def by (rule cli_reply_returns) (auto intro: text_reply(1) [rotated])

lemma cli_format_returns: "rc \<in> {-5 .. 0} \<Longrightarrow>
    returns env_core (\<lambda>s. cli_reply (env_format_response cap t (s\<lparr>en_status := rc\<rparr>))) (reply_ok cap)"
  by (rule cli_reply_returns, rule text_reply(2) [rotated], assumption) simp

lemma cli_plain_returns: "returns env_core (\<lambda>s. cli_reply (env_format_response cap (t s) s)) (reply_ok cap)"
  by (rule cli_reply_returns) auto

lemma eval_core:
  assumes "env_core s"
  shows "env_value_to_i64 w e s = (r, s') \<Longrightarrow> env_core s'" "eval_number e s = (r, s') \<Longrightarrow> env_core s'"
proof -
  have num: "env_core s'" if "eval_number e s = (r, s')" for e r s'
    using that assms text_reply(1) [of s ENV_ERROR_SIZE overflow_text]
    by (auto simp: eval_number_def reply_ok_def split: option.splits prod.splits)
  then show "eval_number e s = (r, s') \<Longrightarrow> env_core s'" .
  show "env_core s'" if "env_value_to_i64 w e s = (r, s')"
  proof -
    have fmt: "env_core s1" if "env_format_response ENV_ERROR_SIZE t s = (out, s1)" for t out s1
      using text_reply(2) [OF assms that] by (simp add: reply_ok_def)
    show ?thesis
      using that num fmt unfolding env_value_to_i64_def
      by (auto split: if_splits option.splits prod.splits)
  qed
qed

lemma eval_value_core:
  assumes "env_core s" and "env_eval_value w e s = (r, s')"
  shows "env_core s'" "r = Computed v \<Longrightarrow> clean v"
proof -
  have wt: "env_core s2" if "env_core s1" "env_write_text ENV_ERROR_SIZE t s1 = (out, s2)" for t out s1 s2
    using text_reply(1) [OF that] by (simp add: reply_ok_def)
  define left where "left = take 1 e @ takeWhile (\<lambda>c. \<not> is_sign c) (drop 1 e)"
  define op where "op = drop (length left) e"
  note run = assms(2) [unfolded env_eval_value_def Let_def, folded left_def, folded op_def]
  obtain l s1 where l: "env_value_to_i64 w (env_trim_text (take (ENV_VALUE_SIZE - 1) left)) s = (l, s1)" by fastforce
  obtain m s2 where m: "env_value_to_i64 w (env_trim_text (take (ENV_VALUE_SIZE - 1) (tl op))) s1 = (m, s2)" by fastforce
  obtain err s3 where err: "env_write_text ENV_ERROR_SIZE overflow_text s2 = (err, s3)" by fastforce
  note s1 = eval_core(1) [OF assms(1) l]
  note s2 = eval_core(1) [OF s1 m]
  note s3 = wt [OF s2 err]
  have "env_core s' \<and> (r = Computed v \<longrightarrow> clean v)"
    using run assms(1) get_value_clean [OF assms(1)] s1 s2 s3
    by (cases l; cases m) (auto simp: l [simplified] m [simplified] err split: if_splits option.splits)
  then show "env_core s'" "r = Computed v \<Longrightarrow> clean v" by blast+
qed

lemma cli_assign_returns:
  assumes "ew_dev w = d" "clean key" "clean val"
  shows "returns env_core (cli_assign w cap key val) (reply_ok cap)"
  unfolding returns_def
proof (intro allI impI)
  fix s out s'
  assume s: "env_core s" and run: "cli_assign w cap key val s = (Returned out, s')"
  obtain r s1 where r: "env_eval_value w val s = (r, s1)" by fastforce
  note core = eval_value_core [OF s r]
  show "reply_ok cap out s'"
    using run core cli_error_returns cli_set_returns [OF assms] cli_set_returns [OF assms(1,2)]
    unfolding cli_assign_def r prod.case returns_def by (cases r) fastforce+
qed

lemma delta_base_reply:
  "env_core s \<Longrightarrow> delta_base cap key s = Inl (Returned out, s') \<Longrightarrow> reply_ok cap out s'"
  using cli_error_returns cli_format_returns [of ENV_STATUS_READ]
  unfolding delta_base_def returns_def by (auto split: option.splits if_splits)

lemma cli_delta_returns:
  assumes "ew_dev w = d" "clean key"
  shows "returns env_core (cli_delta w cap key delta) (reply_ok cap)"
  unfolding returns_def
proof (intro allI impI)
  fix s out s'
  assume s: "env_core s" and run: "cli_delta w cap key delta s = (Returned out, s')"
  show "reply_ok cap out s'"
    using run s cli_error_returns delta_base_reply [OF s] cli_set_returns [OF assms clean_decimal(2)]
    unfolding cli_delta_def returns_def by (auto split: option.splits sum.splits)
qed

lemma cli_show_returns: "returns env_core (cli_show w cap name) (reply_ok cap)"
  using cli_plain_returns [of cap "\<lambda>_. ascii ''NOW='' @ env_now w @ crlf"]
    cli_format_returns [of ENV_STATUS_OK] cli_format_returns [of ENV_STATUS_NOT_FOUND]
  unfolding cli_show_def Let_def returns_def by (auto split: option.splits if_splits)

lemma cli_list_returns: "returns env_core (cli_list cap) (reply_ok cap)"
  unfolding returns_def
proof (intro allI impI)
  fix s out s'
  assume "env_core s" and run: "cli_list cap s = (Returned out, s')"
  obtain out1 s1 where l: "env_list_values cap s = (out1, s1)" by fastforce
  with \<open>env_core s\<close> list_reply have "reply_ok cap out1 s1" by blast
  with run l show "reply_ok cap out s'"
    by (auto simp: cli_list_def cli_reply_def reply_ok_def split: prod.splits if_splits
        dest!: text_reply(1) [unfolded reply_ok_def, rotated])
qed

lemma cli_returns:
  assumes "ew_dev w = d"
  shows "returns env_core (env_execute_cli w cap) (reply_ok cap)"
  unfolding returns_def
proof (intro allI impI)
  fix s out s'
  assume s: "env_core s" and run: "env_execute_cli w cap s = (Returned out, s')"
  define s0 where "s0 = s\<lparr>en_status := ENV_STATUS_OK\<rparr>"
  have s0: "env_core s0" using s by (simp add: s0_def)
  obtain arg rest where tok: "env_next_token (cstr (en_request s)) ENV_VALUE_SIZE = (arg, rest)" by fastforce
  obtain ok buffer key val where asg: "env_parse_assignment arg rest = (ok, buffer, key, val)"
    by (metis prod.exhaust)
  note cl = clean_token [OF clean_simps(4) tok]
  note cla = clean_assignment [OF cl asg]
  have hlp: "returns env_core (\<lambda>s. cli_reply (env_help_text cap s)) (reply_ok cap)"
    unfolding env_help_text_def by (rule cli_reply_returns) auto
  have count: "returns env_core (cli_count cap) (reply_ok cap)"
    unfolding cli_count_def by (rule cli_plain_returns)
  have req: "en_request s0 = en_request s" by (simp add: s0_def)
  show "reply_ok cap out s'"
    using run tok asg
      cli_list_returns [THEN returnsD, OF s0] hlp [THEN returnsD, OF s0] count [THEN returnsD, OF s0]
      cli_delete_returns [OF assms, THEN returnsD, OF s0] cli_init_only_returns [OF assms cl(2), THEN returnsD, OF s0]
      cli_assign_returns [OF assms cla, THEN returnsD, OF s0] cli_show_returns [THEN returnsD, OF s0]
      cli_delta_returns [OF assms clean_delta, THEN returnsD, OF _ s0]
    unfolding env_execute_cli_def Let_def s0_def [symmetric] req
    by (auto split: if_splits option.splits)
qed

lemma command_returns:
  assumes "ew_dev w = d"
  shows "returns env_core (env_command w command cap) (\<lambda>(rc, out) s. reply_ok cap out s \<and> rc \<in> {-5 .. 0})"
  unfolding returns_def
proof (intro allI impI)
  fix s r s'
  assume s: "env_core s" and run: "env_command w command cap s = (Returned r, s')"
  let ?key = "env_normalize_key (cstr (en_request s))"
  have load: "env_core (s\<lparr>en_entries := snd (table s)\<rparr>)" "fst (table s) \<in> {-5 .. 0}"
    using s load_status [of "be_flash (en_backend s)"] by (auto simp: env_core_def)
  have set: "env_core s1 \<and> rc \<in> {-5 .. 0}" if "env_set_value w ?key (second_string (en_request s)) s = (Returned rc, s1)" for rc s1
    using set_returns [OF assms _ _, THEN returnsD, OF _ _ s that] by (simp add: second_string_def)
  have cli: "reply_ok cap out s1 \<and> en_status s1 \<in> {-5 .. 0}" if "env_execute_cli w cap s = (Returned out, s1)" for out s1
    using cli_returns [OF assms, THEN returnsD, OF s that] by (simp add: reply_ok_def env_core_def)
  have empty: "reply_ok cap [] s1 = env_core s1" for s1
    by (simp add: reply_ok_def)
  have "case r of (rc, out) \<Rightarrow> reply_ok cap out s' \<and> rc \<in> {-5 .. 0}"
    using run s load set cli delete_returns [OF assms, THEN returnsD, OF s] clear_returns [OF assms, THEN returnsD, OF s]
      list_reply [OF s] text_reply [OF s] empty
    unfolding env_command_def Let_def env_load_file_stored
    by (auto simp: fbind_Returned fret_def split: if_splits option.splits prod.splits)
  then show "(case r of (rc, out) \<Rightarrow> \<lambda>s. reply_ok cap out s \<and> rc \<in> {-5 .. 0}) s'"
    by (cases r) simp
qed

lemma execute_command_returns:
  assumes "ew_dev w = d"
  shows "returns env_core (env_execute_command w command cap) (reply_ok cap)"
proof -
  have "returns env_core (fbind (env_command w command cap) (\<lambda>(rc, out) s.
       let s = s\<lparr>en_status := if en_overflow s then ENV_STATUS_FULL else rc\<rparr>
       in (Returned out, if command \<noteq> 9 then env_reset_request s else s))) (reply_ok cap)"
    by (rule returns_bind [OF command_returns [OF assms]])
      (auto simp: returns_def reply_ok_def Let_def split: prod.splits)
  then show ?thesis
    unfolding returns_def env_execute_command_def using env_core_fields(1) by blast
qed

end

section \<open>Every reachable state\<close>

text \<open>
  The RAM state at power up, the port operations, and flash writes elsewhere: the disk shares the flash
  but not the two sectors of the environment.
\<close>

definition power_cycle :: "environment \<Rightarrow> environment" where
  "power_cycle s =
     s\<lparr>en_entries := [], en_request := [], en_status := ENV_STATUS_OK, en_initialized := False, en_overflow := False\<rparr>"

definition env_sectors_same :: "flash \<Rightarrow> flash \<Rightarrow> bool" where
  "env_sectors_same f g \<longleftrightarrow> slot_same 0 f g \<and> slot_same 1 f g"

inductive env_reachable :: "environment \<Rightarrow> bool" where
  power_up: "env_reachable (power_cycle s)"
| port_out: "env_reachable s \<Longrightarrow> flash_frame (ew_dev w) \<Longrightarrow> environment_output w port data cap s = (Returned out, s') \<Longrightarrow>
    env_reachable s'"
| get: "env_reachable s \<Longrightarrow> environment_io_get key n s = (r, s') \<Longrightarrow> env_reachable s'"
| close: "env_reachable s \<Longrightarrow> env_reachable (environment_io_close s)"
| elsewhere: "env_reachable s \<Longrightarrow> env_sectors_same (be_flash (en_backend s)) (be_flash b) \<Longrightarrow>
    env_reachable (s\<lparr>en_backend := b\<rparr>)"

definition env_inv :: "environment \<Rightarrow> bool" where
  "env_inv s \<longleftrightarrow> (en_initialized s \<longrightarrow> en_entries s = snd (table s)) \<and> length (en_request s) < ENV_REQUEST_SIZE \<and>
     en_status s \<in> {-5 .. 0}"

lemma env_inv_core: "env_inv s \<and> en_initialized s \<longleftrightarrow> env_core s"
  by (auto simp: env_inv_def env_core_def)

lemma init_core: "env_inv s \<Longrightarrow> env_core (environment_io_init s)"
  using load_status [of "be_flash (en_backend s)"]
  by (auto simp: environment_io_init_def env_inv_def env_core_def env_load_file_stored env_reset_request_def)

lemma output_reply:
  assumes "flash_frame (ew_dev w)" and "env_inv s" and run: "environment_output w port data cap s = (Returned out, s')"
  shows "reply_ok cap out s'"
proof -
  note core = init_core [OF assms(2)]
  have app: "env_core (env_append_byte data (environment_io_init s))"
    using core by (auto simp: env_append_byte_def env_core_def)
  have rst: "env_core ((env_reset_request (environment_io_init s))\<lparr>en_status := ENV_STATUS_OK\<rparr>)"
    using core by simp
  show ?thesis
    using run core app rst flash_frame.execute_command_returns [OF assms(1) refl, THEN returnsD, OF core]
    unfolding environment_output_def Let_def by (auto simp: reply_ok_def split: if_splits)
qed

lemma stored_entries_cong:
  assumes "env_sectors_same f g"
  shows "stored_entries g = stored_entries f"
proof -
  have v: "valid_slot g 0 = valid_slot f 0" "valid_slot g 1 = valid_slot f 1"
    using assms slot_same_valid by (auto simp: env_sectors_same_def)
  moreover have "flash_read g (slot_data 0) FLASH_SECTOR_SIZE = flash_read f (slot_data 0) FLASH_SECTOR_SIZE"
    "flash_read g (slot_data 1) FLASH_SECTOR_SIZE = flash_read f (slot_data 1) FLASH_SECTOR_SIZE"
    using assms slot_same_read [of _ f g 0 FLASH_SECTOR_SIZE] by (auto simp: env_sectors_same_def)
  ultimately have c: "current_slot g = current_slot f"
    by (simp only: current_slot_def list.pred_inject)
  have "z80_env_snapshot_load g Z80_ENV_SNAPSHOT_BYTES = z80_env_snapshot_load f Z80_ENV_SNAPSHOT_BYTES"
  proof (cases "fst (current_slot f) \<ge> 0")
    case True
    obtain slot header where cur: "current_slot f = (slot, header)" "slot \<ge> 0" using True by (cases "current_slot f") auto
    have "slot_same (nat slot) f g"
      using current_slot_valid [OF cur] assms by (auto simp: env_sectors_same_def)
    moreover have "unat (eh_length header) \<le> Z80_ENV_SNAPSHOT_BYTES"
      using current_slot_valid [OF cur] by (auto simp: valid_slot_def Let_def)
    ultimately show ?thesis
      using c cur slot_same_read [of "nat slot" f g FLASH_PAGE_SIZE] by (simp add: z80_env_snapshot_load_def)
  next
    case False
    obtain slot header where cur: "current_slot f = (slot, header)" by fastforce
    then have "slot = -2 \<or> slot = -1 \<and> eh_length header = 0"
      using False current_slot_range [of f] current_slot_blank [of f header] by auto
    then show ?thesis using c cur by (auto simp: z80_env_snapshot_load_def)
  qed
  then show ?thesis by (simp add: stored_entries_def)
qed

lemma env_reachable_inv: "env_reachable s \<Longrightarrow> env_inv s"
proof (induction rule: env_reachable.induct)
  case (power_up s)
  show ?case by (simp add: power_cycle_def env_inv_def)
next
  case (port_out s w port data cap out s')
  then show ?case using output_reply [of w s port data cap out s'] env_inv_core [of s'] by (simp add: reply_ok_def)
next
  case (get s key n r s')
  then show ?case using init_core [of s] env_inv_core [of s'] by (auto simp: environment_io_get_def Let_def)
next
  case (close s)
  then show ?case by (simp add: environment_io_close_def env_inv_def env_reset_request_def)
next
  case (elsewhere s b)
  then show ?case using stored_entries_cong by (simp add: env_inv_def)
qed

section \<open>Lookups\<close>

lemma get_value_map:
  "env_get_value key n s =
     (if env_key_valid key then map_option (take (n - 1)) (map_of (en_entries s) key) else None)"
proof (cases "env_find_index key (en_entries s)")
  case None
  then have "map_of (en_entries s) key = None"
    by (simp add: env_find_index_none map_of_eq_None_iff)
  with None show ?thesis by (simp add: env_get_value_def)
next
  case (Some i)
  with env_find_index_some [OF Some] show ?thesis by (simp add: env_get_value_def)
qed

text \<open>The bytes of a request, sent to the data port.\<close>

definition send_request :: "env_world \<Rightarrow> bytes \<Rightarrow> environment \<Rightarrow> environment" where
  "send_request w bs s = fold (\<lambda>b s. snd (environment_output w ENVIRONMENT_PORT_DATA b 0 s)) bs s"

lemma send_request_core:
  "env_core s \<Longrightarrow> length (en_request s) + length bs < ENV_REQUEST_SIZE \<Longrightarrow>
     send_request w bs s = s\<lparr>en_request := en_request s @ bs\<rparr>"
proof (induction bs arbitrary: s)
  case Nil
  then show ?case by (simp add: send_request_def)
next
  case (Cons b bs)
  let ?s = "s\<lparr>en_request := en_request s @ [b]\<rparr>"
  have "snd (environment_output w ENVIRONMENT_PORT_DATA b 0 s) = ?s"
    using Cons.prems by (simp add: environment_output_def environment_io_init_def env_core_def env_append_byte_def)
  moreover have "env_core ?s"
    using Cons.prems by (simp add: env_core_def)
  ultimately show ?case
    using Cons.IH [of ?s] Cons.prems by (simp add: send_request_def)
qed

lemma init_id [simp]: "env_core s \<Longrightarrow> environment_io_init s = s"
  by (simp add: env_core_def environment_io_init_def)

lemma power_cycle_init:
  assumes "fst (table s) = 0" and "en_entries s = snd (table s)"
  shows "environment_io_init (power_cycle s) = s\<lparr>en_request := [], en_status := 0, en_initialized := True, en_overflow := False\<rparr>"
  using assms by (simp add: environment_io_init_def power_cycle_def env_load_file_stored env_reset_request_def)

text \<open>A GET command answers with the value the table holds.\<close>

lemma get_command:
  assumes "env_core s" and "en_request s = []" and "clean key" and "length key < ENV_REQUEST_SIZE"
    and "map_of (en_entries s) (env_normalize_key key) = Some val" and "env_key_valid (env_normalize_key key)"
    and "length val < ENV_VALUE_SIZE" and "length val < cap"
  shows "fst (environment_output w ENVIRONMENT_PORT_COMMAND 2 cap (send_request w key s)) = Returned val"
  using assms send_request_core [OF assms(1), of key w]
  by (simp add: environment_output_def environment_io_init_def env_core_def env_execute_command_def env_command_def
      fbind_def get_value_map env_write_text_def env_append_text_def Let_def) (cases val; simp)

lemma normalize_valid: "key \<noteq> [] \<Longrightarrow> env_key_valid (env_normalize_key key)"
  by (cases key) (auto simp: env_key_valid_def env_normalize_key_def)

section \<open>Numbers as text\<close>

lemma sint64: "- (2 ^ 63) \<le> i \<Longrightarrow> i < 2 ^ 63 \<Longrightarrow> sint (of_int i :: u64) = i"
  using signed_take_bit_int_eq_self [of 63 i] by (simp add: signed_of_int)

lemma calculate_exact:
  "env_calculate left right subtract =
    (let exact = (if subtract then sint left - sint right else sint left + sint right)
     in if - (2 ^ 63) \<le> exact \<and> exact < 2 ^ 63 then Some (of_int exact) else None)"
proof -
  have range: "- (2 ^ 63) \<le> sint x" "sint x < 2 ^ 63" for x :: u64
    using sint_greater_eq [of x] sint_less [of x] by simp_all
  define l r where "l = sint left" and "r = sint right"
  have left: "left = of_int l" and right: "right = of_int r"
    by (simp_all add: l_def r_def)
  have bounds: "- (2 ^ 63) \<le> l" "l < 2 ^ 63" "- (2 ^ 63) \<le> r" "r < 2 ^ 63"
    using range by (simp_all add: l_def r_def)
  have lim: "INT64_MIN = of_int (- (2 ^ 63))" "INT64_MAX = of_int (2 ^ 63 - 1)"
    by simp_all
  have lims: "0 < r \<Longrightarrow> sint (INT64_MIN + right) = - (2 ^ 63) + r" "r < 0 \<Longrightarrow> sint (INT64_MAX + right) = 2 ^ 63 - 1 + r"
    "0 < r \<Longrightarrow> sint (INT64_MAX - right) = 2 ^ 63 - 1 - r" "r < 0 \<Longrightarrow> sint (INT64_MIN - right) = - (2 ^ 63) - r"
    unfolding lim right of_int_add [symmetric] of_int_diff [symmetric] using bounds by (intro sint64; linarith)+
  have guards: "(word_sless 0 right \<and> word_sless left (INT64_MIN + right)) = (0 < r \<and> l < - (2 ^ 63) + r)"
    "(word_sless right 0 \<and> word_sless (INT64_MAX + right) left) = (r < 0 \<and> 2 ^ 63 - 1 + r < l)"
    "(word_sless 0 right \<and> word_sless (INT64_MAX - right) left) = (0 < r \<and> 2 ^ 63 - 1 - r < l)"
    "(word_sless right 0 \<and> word_sless left (INT64_MIN - right)) = (r < 0 \<and> l < - (2 ^ 63) - r)"
    unfolding word_sless_alt l_def [symmetric] r_def [symmetric] using lims by auto
  have result: "(if subtract then left - right else left + right) = of_int (if subtract then l - r else l + r)"
    by (simp add: left right)
  show ?thesis
    unfolding env_calculate_def guards result Let_def l_def [symmetric] r_def [symmetric]
    using bounds by (cases subtract) auto
qed

lemma digits_int_snoc: "digits_int (ds @ [c]) = digits_int ds * 10 + uint (c - 48)"
  by (simp add: digits_int_def)

lemma digits_int_decimal: "digits_int (decimal n) = int n"
proof (induction n rule: decimal.induct)
  case (1 n)
  have digit: "uint ((of_nat m + 48 :: u8) - 48) = int m" if "m < 10" for m
    using that by (simp add: uint_nat unat_of_nat)
  show ?case
  proof (cases "n < 10")
    case True
    then show ?thesis
      using digit [of n] by (subst decimal.simps) (simp add: digits_int_def)
  next
    case False
    then show ?thesis
      using 1 digit [of "n mod 10"] by (subst decimal.simps) (simp add: digits_int_snoc zdiv_int zmod_int)
  qed
qed

lemma decimal_nonempty [simp]: "decimal n \<noteq> []"
  by (subst decimal.simps) simp

lemma digit_hd: "list_all is_digit ds \<Longrightarrow> ds \<noteq> [] \<Longrightarrow> hd ds \<noteq> 43 \<and> hd ds \<noteq> 45"
  by (cases ds) (auto simp: is_digit_def)

lemma text_value_decimal: "text_value (decimal_int i) = i"
  using digit_hd [OF is_digit_decimal [of "nat i"]] by (simp add: text_value_def decimal_int_def digits_int_decimal)

lemma number_decimal: "env_is_number (decimal_int i)"
  using digit_hd [OF is_digit_decimal [of "nat i"]] is_digit_decimal
  by (simp add: env_is_number_def decimal_int_def Let_def)

lemma strtoll_value:
  "strtoll t = (if - (2 ^ 63) \<le> text_value t \<and> text_value t < 2 ^ 63 then Some (of_int (text_value t)) else None)"
  by (simp add: strtoll_def Let_def)

text \<open>The form \<open>NAME+N\<close> or \<open>NAME-N\<close> is recognised as such.\<close>

definition plain :: "u8 \<Rightarrow> bool" where
  "plain c \<longleftrightarrow> c \<noteq> 0 \<and> c \<noteq> 32 \<and> c \<noteq> 9 \<and> c \<noteq> 61"

lemma plain_token:
  assumes "list_all plain t" and "t \<noteq> []" and "length t < n"
  shows "env_next_token t n = (t, [])"
proof -
  have skip: "env_skip_spaces t = t"
    using assms by (cases t) (auto simp: env_skip_spaces_def plain_def)
  have tk: "takeWhile (\<lambda>c. c \<noteq> 32 \<and> c \<noteq> 9) t = t" "dropWhile (\<lambda>c. c \<noteq> 32 \<and> c \<noteq> 9) t = []"
    using assms(1) by (auto simp: list_all_iff plain_def takeWhile_eq_all_conv dropWhile_eq_Nil_conv)
  show ?thesis
    unfolding env_next_token_def Let_def skip tk using assms by (simp add: env_skip_spaces_def)
qed

lemma plain_trim: "list_all plain t \<Longrightarrow> env_trim_text t = t"
proof -
  have "env_skip_spaces t = t" if "list_all plain t" for t
    using that by (cases t) (auto simp: env_skip_spaces_def plain_def)
  then show "list_all plain t \<Longrightarrow> env_trim_text t = t"
    by (simp add: env_trim_text_def)
qed

lemma clean_plain: "list_all plain t \<Longrightarrow> clean t"
  by (auto simp: clean_def list_all_iff plain_def)

lemma name_plain:
  assumes "list_all is_alpha key"
  shows "list_all plain key" "list_all (\<lambda>c. c \<noteq> 0 \<and> \<not> is_sign c) key"
  using assms by (auto simp: list_all_iff is_alpha_def plain_def is_sign_def)

lemma digits_plain: "list_all is_digit ds \<Longrightarrow> list_all plain ds"
  by (auto simp: list_all_iff is_digit_def plain_def)

lemma sign_plain: "is_sign c \<Longrightarrow> plain c"
  by (auto simp: is_sign_def plain_def)

lemma delta_form:
  assumes key: "list_all is_alpha key" "key \<noteq> []" "length key < ENV_KEY_SIZE" and op: "is_sign op"
    and ds: "list_all is_digit ds" "ds \<noteq> []" "length key + length ds < ENV_VALUE_SIZE - 1"
  defines "arg \<equiv> key @ op # ds"
  shows "env_next_token arg ENV_VALUE_SIZE = (arg, [])" "\<not> env_is_help arg" "\<not> is_option arg letter"
    "env_parse_assignment arg [] = (False, arg, [], [])" "env_parse_delta arg [] = Some (env_normalize_key key, op # ds)"
proof -
  have pl: "list_all plain arg"
    using name_plain(1) [OF key(1)] digits_plain [OF ds(1)] sign_plain [OF op] by (simp add: arg_def)
  show "env_next_token arg ENV_VALUE_SIZE = (arg, [])"
    using plain_token [OF pl, of ENV_VALUE_SIZE] ds by (simp add: arg_def)
  have hd: "hd arg \<noteq> 45" "hd arg \<noteq> 47"
    using key(1,2) by (cases key; auto simp: arg_def is_alpha_def)+
  then show "\<not> is_option arg letter"
    by (simp add: is_option_def)
  have "op \<in> set (map to_upper arg)"
    using op by (auto simp: arg_def is_sign_def to_upper_def)
  then have "map to_upper arg \<noteq> ascii ''H''" "map to_upper arg \<noteq> ascii ''HELP''"
    using op by (auto simp: ascii_def is_sign_def)
  moreover have "arg \<noteq> ascii ''?''"
    using key(2) by (cases key) (auto simp: arg_def ascii_def)
  ultimately show "\<not> env_is_help arg"
    using hd by (simp add: env_is_help_def Let_def)
  have "61 \<notin> set arg"
    using pl by (auto simp: list_all_iff plain_def)
  then show "env_parse_assignment arg [] = (False, arg, [], [])"
    by (simp add: env_parse_assignment_def env_skip_spaces_def)
  obtain k ks where k: "key = k # ks" using key(2) by (cases key) auto
  have before: "take 1 arg @ takeWhile (\<lambda>c. c \<noteq> 0 \<and> \<not> is_sign c) (drop 1 arg) = key"
    using name_plain(2) [OF key(1)] op by (auto simp: arg_def k list_all_iff takeWhile_append2)
  have drop: "drop (length key) arg = op # ds"
    by (simp add: arg_def)
  have keep: "env_trim_text (cstr (take (ENV_KEY_SIZE - 1) key)) = key"
    using key(3) plain_trim [OF name_plain(1) [OF key(1)]] clean_cstr [OF clean_plain [OF name_plain(1) [OF key(1)]]]
    by simp
  have num: "env_skip_spaces (cstr ds) = ds"
    using clean_cstr [OF clean_digits [OF ds(1)]] ds(1,2)
    by (cases ds) (auto simp: env_skip_spaces_def is_digit_def)
  have delta: "env_trim_text (op # take (ENV_VALUE_SIZE - 2) ds) = op # ds"
    using ds(3) plain_trim [of "op # ds"] sign_plain [OF op] digits_plain [OF ds(1)] by simp
  have "env_is_number (op # ds)"
    using op ds(1,2) by (auto simp: env_is_number_def is_sign_def)
  then have "env_split_delta arg = Some (key, op # ds)"
    unfolding env_split_delta_def Let_def before drop list.sel keep num delta using op ds(2) by simp
  then show "env_parse_delta arg [] = Some (env_normalize_key key, op # ds)"
    by (simp add: env_parse_delta_def)
qed

lemma set_value_succeeds:
  assumes dev: "flash_device (ew_dev w)" and core: "env_core s" and slot: "fst (current_slot (be_flash (en_backend s))) \<noteq> -2"
    and bus: "bus_acquired (ew_first w)" "bus_released (ew_first w)" "lockout_ok (ew_first w)"
      "bus_acquired (ew_second w)" "bus_released (ew_second w)" "lockout_ok (ew_second w)"
    and key: "env_key_valid key" "clean key" "clean val"
    and room: "map_of (en_entries s) key \<noteq> None \<or> length (en_entries s) < ENV_MAX_ENTRIES"
      "length (concat (map entry_bytes (set_entry key val (en_entries s)))) \<le> Z80_ENV_SNAPSHOT_BYTES"
  shows "\<exists>s'. env_set_value w key val s = (Returned 0, s') \<and>
    stored_entries (be_flash (en_backend s')) = (0, set_entry key val (en_entries s))"
proof -
  let ?es = "set_entry key val (en_entries s)" and ?data = "concat (map entry_bytes (set_entry key val (en_entries s)))"
  obtain f' where f': "z80_env_snapshot_save (ew_dev w) (ew_first w) (ew_second w) ?data (en_backend s) =
      (Returned 0, (en_backend s)\<lparr>be_flash := f'\<rparr>)"
    using flash_device.save_exact [OF dev room(2) slot bus] by blast
  then have com: "env_commit w (s\<lparr>en_entries := ?es\<rparr>) =
      (Returned 0, s\<lparr>en_entries := ?es, en_backend := (en_backend s)\<lparr>be_flash := f'\<rparr>\<rparr>)"
    using room(2) by (simp add: env_commit_def env_save_file_def fbind_def snapshot_bytes_eq)
  moreover have run: "env_set_value w key val s = env_commit w (s\<lparr>en_entries := ?es\<rparr>)"
    using key room(1) env_find_index_none [of key "en_entries s"]
    by (auto simp: env_set_value_def Let_def set_entry_def put_entry_def map_of_eq_None_iff split: option.splits)
  moreover have "committed (set_entry key val) 0 s
      (s\<lparr>en_entries := ?es, en_backend := (en_backend s)\<lparr>be_flash := f'\<rparr>\<rparr>)"
    using set_value_committed [OF _ core_table [OF core] key(2,3)] run com dev flash_device.axioms(1) by fastforce
  ultimately show ?thesis
    by (auto simp: committed_def prod_eq_iff)
qed

section \<open>A sample board\<close>

definition sample_env :: environment where
  "sample_env = \<lparr>en_entries = [], en_request = [], en_status = 0, en_initialized = True, en_overflow = False,
     en_backend = sample_backend\<lparr>be_flash := \<lambda>_. 0xFF\<rparr>\<rparr>"

definition sample_world :: env_world where
  "sample_world = \<lparr>ew_dev = host_flash, ew_first = bus_granted, ew_second = bus_granted, ew_millis = 0\<rparr>"

lemma blank_current: "current_slot (\<lambda>_. 0xFF) = (-1, \<lparr>eh_magic = 0, eh_version = 0, eh_sequence = 0, eh_length = 0,
    eh_payload_crc = 0, eh_header_crc = 0\<rparr>)"
  using blank_slot_invalid [of 0 "\<lambda>_. 0xFF"] blank_slot_invalid [of 1 "\<lambda>_. 0xFF"]
  by (auto simp: current_slot_def Let_def list_all_iff in_set_conv_nth split: prod.splits)

lemma blank_table: "stored_entries (\<lambda>_. 0xFF) = (0, [])"
  by (simp add: stored_entries_def z80_env_snapshot_load_def blank_current parse_entries.simps)

lemma sample_facts:
  "en_entries sample_env = []" "en_request sample_env = []" "en_initialized sample_env" "\<not> en_overflow sample_env"
  "be_flash (en_backend sample_env) = (\<lambda>_. 0xFF)" "ew_dev sample_world = host_flash"
  "env_core sample_env" "flash_frame host_flash"
  using host.flash_frame_axioms by (simp_all add: sample_env_def sample_world_def env_core_def blank_table)

lemma sample_set:
  assumes "length req < 100"
  shows "\<exists>s'. env_set_value sample_world [65] [53] (sample_env\<lparr>en_request := req\<rparr>) = (Returned 0, s') \<and>
    stored_entries (be_flash (en_backend s')) = (0, [([65], [53])])"
proof -
  have core: "env_core (sample_env\<lparr>en_request := req\<rparr>)"
    using sample_facts(7) assms by (simp add: env_core_def)
  have "set_entry [65] [53] [] = [([65], [53])]"
    by (simp add: set_entry_def put_entry_def)
  then show ?thesis
    using set_value_succeeds [OF _ core, of sample_world "[65]" "[53]"] host.flash_device_axioms
    by (simp add: sample_facts sample_world_def blank_current bus_granted_def env_key_valid_def entry_bytes_def)
qed

section \<open>Properties\<close>

text \<open>
  C3. In every state reachable by port operations, lookups, closing, power cycles and disk writes to the
  rest of the flash, on flash that may fail but changes nothing outside the range it is asked to
  change, the initialised driver's table is exactly the table stored in flash; its keys are distinct
  and within 16 characters, its values within 255, the request buffer is within its 511 bytes and the
  status is one of the defined codes.
\<close>

theorem environment_mirrors_flash:
  assumes "env_reachable s" and "en_initialized s"
  shows "en_entries s = snd (stored_entries (be_flash (en_backend s))) \<and> entries_ok (en_entries s) \<and>
    length (en_request s) < ENV_REQUEST_SIZE \<and> en_status s \<in> {-5 .. 0}"
  using env_reachable_inv [OF assms(1)] assms(2) stored_entries_ok by (auto simp: env_inv_def)

theorem environment_mirrors_flash_witness:
  "en_entries (environment_io_init (power_cycle sample_env)) = [] \<and>
   en_status (environment_io_init (power_cycle sample_env)) \<in> {-5 .. 0}"
proof -
  let ?s = "environment_io_init (power_cycle sample_env)"
  have reach: "env_reachable ?s"
    using env_reachable.get [OF env_reachable.power_up [of sample_env], of "[]" 1] by (simp add: environment_io_get_def Let_def)
  have "en_initialized ?s" "be_flash (en_backend ?s) = (\<lambda>_. 0xFF)"
    by (simp_all add: environment_io_init_def power_cycle_def env_load_file_stored env_reset_request_def sample_env_def)
  with environment_mirrors_flash [OF reach] show ?thesis
    by (simp add: blank_table)
qed

text \<open>
  C33. A port command never writes past the caller's buffer: with room for \<open>cap\<close> bytes the response and
  its terminator fit, whatever the command, the request and the table.
\<close>

theorem response_fits_buffer:
  assumes "env_reachable s" and "flash_frame (ew_dev w)"
    and "environment_output w port data cap s = (Returned out, s')"
  shows "length out \<le> cap - 1"
  using output_reply [OF assms(2) env_reachable_inv [OF assms(1)] assms(3)] by (simp add: reply_ok_def)

theorem response_fits_buffer_witness:
  "\<exists>out s'. environment_output sample_world ENVIRONMENT_PORT_COMMAND 6 2 (power_cycle sample_env) = (Returned out, s') \<and>
     length out \<le> 1"
proof -
  obtain s' where "environment_output sample_world ENVIRONMENT_PORT_COMMAND 6 2 (power_cycle sample_env) = (Returned [48], s')"
    by (simp add: environment_output_def environment_io_init_def power_cycle_def env_load_file_stored env_reset_request_def
        sample_env_def blank_table env_execute_command_def env_command_def fbind_def env_format_response_def decimal.simps)
  then show ?thesis
    using response_fits_buffer [OF env_reachable.power_up, of sample_world] sample_facts(6,8) by fastforce
qed

text \<open>
  C9. Setting a variable through the ports: when SET reports success, GET answers with exactly that
  value, and so it does after a power cycle; every other variable keeps its value.
\<close>

theorem set_then_get:
  assumes "flash_frame (ew_dev w)" and core: "env_core s" "en_request s = []"
    and key: "clean key" "key \<noteq> []" "length key < ENV_KEY_SIZE" and val: "clean val" "length val < ENV_VALUE_SIZE"
    and set: "environment_output w ENVIRONMENT_PORT_COMMAND 3 cap (send_request w (key @ [0] @ val) s) = (Returned out, s')"
    and ok: "en_status s' = 0" and cap: "length val < cap'"
  shows "fst (environment_output w' ENVIRONMENT_PORT_COMMAND 2 cap' (send_request w' key s')) = Returned val \<and>
    fst (environment_output w' ENVIRONMENT_PORT_COMMAND 2 cap'
      (send_request w' key (environment_io_init (power_cycle s')))) = Returned val \<and>
    (\<forall>k. k \<noteq> env_normalize_key key \<longrightarrow> map_of (en_entries s') k = map_of (en_entries s) k)"
proof -
  let ?key = "env_normalize_key key" and ?req = "s\<lparr>en_request := key @ [0] @ val\<rparr>"
  have req: "env_core ?req"
    using core key val by (auto simp: env_core_def)
  have sent: "send_request w (key @ [0] @ val) s = ?req"
    using send_request_core [OF core(1), of "key @ [0] @ val" w] core(2) key(3) val(2) by simp
  obtain rc s1 where run: "env_set_value w ?key val (?req\<lparr>en_overflow := False\<rparr>) = (Returned rc, s1)"
    and s': "s' = env_reset_request (s1\<lparr>en_status := if en_overflow s1 then ENV_STATUS_FULL else rc\<rparr>)"
    using set key val req unfolding sent
    by (auto simp: environment_output_def env_execute_command_def env_command_def second_string_def fbind_Returned fret_def Let_def)
  have com: "committed (set_entry ?key val) rc (?req\<lparr>en_overflow := False\<rparr>) s1"
    using set_value_committed [OF assms(1) _ _ val(1) run] core_table [OF core(1)] key(1) by simp
  have rc: "rc = 0" and ov: "\<not> en_overflow s1"
    using ok s' by (auto simp: env_reset_request_def split: if_splits)
  then have tab: "en_entries s' = set_entry ?key val (en_entries s)" "fst (table s') = 0" "en_entries s' = snd (table s')"
    and core1: "env_core s1"
    using com s' committed_core [OF com] req by (auto simp: committed_def env_reset_request_def)
  then have map: "map_of (en_entries s') = (map_of (en_entries s))(?key \<mapsto> val)"
    using val(2) by (simp add: set_entry_def map_of_put)
  have core': "env_core s'" "en_request s' = []"
    using core1 s' rc ov by (simp_all add: env_reset_request_def) (simp add: env_core_def)
  have boot: "env_core (environment_io_init (power_cycle s'))" "en_request (environment_io_init (power_cycle s')) = []"
    "en_entries (environment_io_init (power_cycle s')) = en_entries s'"
    unfolding power_cycle_init [OF tab(2,3)] using tab(3) by (simp_all add: env_core_def)
  show ?thesis
    using get_command [OF core' key(1) _ _ normalize_valid [OF key(2)] val(2) cap]
      get_command [OF boot(1,2) key(1) _ _ normalize_valid [OF key(2)] val(2) cap] map key(3) boot(3)
    by simp
qed

theorem set_then_get_witness:
  "\<exists>s'. environment_output sample_world ENVIRONMENT_PORT_COMMAND 3 1 (send_request sample_world [65, 0, 53] sample_env) =
       (Returned [], s') \<and>
     fst (environment_output sample_world ENVIRONMENT_PORT_COMMAND 2 8
       (send_request sample_world [65] (environment_io_init (power_cycle s')))) = Returned [53]"
proof -
  let ?req = "sample_env\<lparr>en_request := [65, 0, 53]\<rparr>"
  obtain s1 where s1: "env_set_value sample_world [65] [53] ?req = (Returned 0, s1)"
    using sample_set [of "[65, 0, 53]"] by auto
  have core: "env_core ?req"
    using sample_facts(7) by (simp add: env_core_def)
  have "committed (set_entry [65] [53]) 0 ?req s1"
    using set_value_committed [OF _ core_table [OF core] _ _ s1] sample_facts(6,8) by simp
  then have ov: "\<not> en_overflow s1"
    using sample_facts(4) by (simp add: committed_def same_port_def)
  have sent: "send_request sample_world [65, 0, 53] sample_env = ?req"
    using send_request_core [OF sample_facts(7), of "[65, 0, 53]"] sample_facts(2) by simp
  have same: "?req\<lparr>en_overflow := False\<rparr> = ?req"
    by (simp add: sample_env_def)
  have "env_normalize_key (cstr [65, 0, 53]) = [65]" "second_string [65, 0, 53] = [53]"
    by (simp_all add: env_normalize_key_def cstr_def to_upper_def second_string_def)
  then have run: "environment_output sample_world ENVIRONMENT_PORT_COMMAND 3 1 (send_request sample_world ([65] @ [0] @ [53]) sample_env) =
      (Returned [], env_reset_request (s1\<lparr>en_status := 0\<rparr>))"
    using s1 ov core by (simp add: sent environment_output_def env_execute_command_def same env_command_def fbind_def fret_def)
  show ?thesis
    using set_then_get [OF _ sample_facts(7,2) _ _ _ _ _ run, of 8 sample_world] sample_facts(6,8) run
    by (simp add: env_reset_request_def)
qed

text \<open>
  C34. Errors leave everything as it was: an invalid name, a 129th variable, or a table that no longer
  fits the 3840-byte snapshot is refused with its code, and neither the variables nor the flash change.
\<close>

theorem set_refused_unchanged:
  assumes core: "env_core s" "fst (stored_entries (be_flash (en_backend s))) = 0"
    and bad: "\<not> env_key_valid key \<or>
      map_of (en_entries s) key = None \<and> length (en_entries s) = ENV_MAX_ENTRIES \<or>
      length (concat (map entry_bytes (set_entry key val (en_entries s)))) > Z80_ENV_SNAPSHOT_BYTES"
  shows "env_set_value w key val s =
    (Returned (if env_key_valid key then ENV_STATUS_FULL else ENV_STATUS_WRITE), s)"
proof (cases "\<not> env_key_valid key \<or> (map_of (en_entries s) key = None \<and> length (en_entries s) = ENV_MAX_ENTRIES)")
  case True
  then show ?thesis
    using env_find_index_none [of key "en_entries s"]
    by (auto simp: env_set_value_def Let_def map_of_eq_None_iff split: option.splits)
next
  case False
  let ?s = "s\<lparr>en_entries := set_entry key val (en_entries s)\<rparr>"
  have "snapshot_bytes (en_entries ?s) [] = None"
    using bad False by (auto simp: snapshot_bytes_eq)
  then have "env_commit w ?s = (Returned ENV_STATUS_FULL, s)"
    using core(2) core_table [OF core(1)]
    by (simp add: env_commit_def env_save_file_def fbind_def env_load_file_stored)
  moreover have "length (en_entries s) \<le> ENV_MAX_ENTRIES"
    using stored_entries_ok [of "be_flash (en_backend s)"] core_table [OF core(1)] by (simp add: entries_ok_def)
  ultimately show ?thesis
    using False env_find_index_none [of key "en_entries s"]
    by (auto simp: env_set_value_def Let_def set_entry_def put_entry_def map_of_eq_None_iff split: option.splits)
qed

theorem set_refused_unchanged_witness:
  "env_set_value sample_world [] [53] sample_env = (Returned ENV_STATUS_WRITE, sample_env)"
  using set_refused_unchanged [OF sample_facts(7), of "[]" "[53]" sample_world] sample_facts(5)
  by (simp add: blank_table env_key_valid_def)

text \<open>
  On working flash with the bus granted, setting a variable succeeds whenever the name is valid, there
  is a free entry and the table still fits the snapshot; what is then stored in flash is the new table.
\<close>

theorem set_succeeds:
  assumes dev: "flash_device (ew_dev w)" and core: "env_core s" and slot: "fst (current_slot (be_flash (en_backend s))) \<noteq> -2"
    and bus: "bus_acquired (ew_first w)" "bus_released (ew_first w)" "lockout_ok (ew_first w)"
      "bus_acquired (ew_second w)" "bus_released (ew_second w)" "lockout_ok (ew_second w)"
    and key: "env_key_valid key" "clean key" "clean val"
    and room: "map_of (en_entries s) key \<noteq> None \<or> length (en_entries s) < ENV_MAX_ENTRIES"
      "length (concat (map entry_bytes (set_entry key val (en_entries s)))) \<le> Z80_ENV_SNAPSHOT_BYTES"
  shows "\<exists>s'. env_set_value w key val s = (Returned 0, s') \<and>
    stored_entries (be_flash (en_backend s')) = (0, set_entry key val (en_entries s))"
  using assms by (rule set_value_succeeds)

theorem set_succeeds_witness:
  "\<exists>s'. env_set_value sample_world [65] [53] sample_env = (Returned 0, s')"
  using set_succeeds [OF _ sample_facts(7), of sample_world "[65]" "[53]"] host.flash_device_axioms
  by (auto simp: sample_facts sample_world_def blank_current bus_granted_def env_key_valid_def entry_bytes_def
      set_entry_def put_entry_def)

text \<open>
  Arithmetic on variables is exact: the sum or difference of two 64-bit numbers is computed without
  wrapping, and the overflow error is given exactly when the result is not a 64-bit number.
\<close>

theorem env_calculate_exact:
  "env_calculate left right subtract =
    (let exact = (if subtract then sint left - sint right else sint left + sint right)
     in if - (2 ^ 63) \<le> exact \<and> exact < 2 ^ 63 then Some (of_int exact) else None)"
  by (rule calculate_exact)

text \<open>
  A number printed into a variable is read back as the same 64-bit number.
\<close>

theorem number_roundtrip:
  "env_is_number (decimal_int (sint v)) \<and> strtoll (decimal_int (sint v)) = Some v"
  using sint_greater_eq [of v] sint_less [of v]
  by (simp add: number_decimal strtoll_value text_value_decimal)

text \<open>
  The command \<open>ENV NAME+N\<close> (or \<open>NAME-N\<close>): with \<open>n\<close> the current number (0 when the variable is not set),
  the variable is set to the exact sum and the new value is shown; when the sum, or \<open>N\<close>, is not a 64-bit
  number, the overflow error is shown and the variable is left alone.
\<close>

theorem cli_delta_exact:
  assumes core: "env_core s" "en_request s = key @ op # ds"
    and key: "list_all is_alpha key" "key \<noteq> []" "length key < ENV_KEY_SIZE" and op: "is_sign op"
    and ds: "list_all is_digit ds" "ds \<noteq> []" "length key + length ds < ENV_VALUE_SIZE - 1"
    and old: "case map_of (en_entries s) (env_normalize_key key) of None \<Rightarrow> n = 0
      | Some v \<Rightarrow> env_is_number v \<and> text_value v = n" "- (2 ^ 63) \<le> n" "n < 2 ^ 63"
  shows "env_execute_cli w cap s =
    (let delta = text_value (op # ds); s0 = s\<lparr>en_status := 0\<rparr>
     in if - (2 ^ 63) \<le> delta \<and> delta < 2 ^ 63 \<and> - (2 ^ 63) \<le> n + delta \<and> n + delta < 2 ^ 63
        then cli_set w cap (env_normalize_key key) (decimal_int (n + delta)) s0
        else cli_error cap overflow_text s0)"
proof -
  let ?key = "env_normalize_key key" and ?delta = "text_value (op # ds)" and ?s = "s\<lparr>en_status := 0\<rparr>"
  note form = delta_form [OF key op ds]
  have "list_all plain (key @ op # ds)"
    using name_plain(1) [OF key(1)] digits_plain [OF ds(1)] sign_plain [OF op] by simp
  then have str: "cstr (key @ op # ds) = key @ op # ds"
    by (intro clean_cstr clean_plain)
  have run: "env_execute_cli w cap s = cli_delta w cap ?key (op # ds) ?s"
    using form key(2) core(2) by (simp add: env_execute_cli_def Let_def str)
  have "entries_ok (en_entries s)"
    using core_table [OF core(1)] stored_entries_ok by simp
  then have short: "length v < ENV_VALUE_SIZE" if "map_of (en_entries s) ?key = Some v" for v
    using that by (auto simp: entries_ok_def list_all_iff entry_ok_def dest!: map_of_SomeD)
  have "delta_base cap ?key ?s = Inr (of_int n)"
    using old short normalize_valid [OF key(2)]
    by (auto simp: delta_base_def get_value_map strtoll_value split: option.splits)
  moreover
  from sint64 [of "n + ?delta"] have "sint (of_int n + of_int ?delta :: u64) = n + ?delta"
    if "- (2 ^ 63) \<le> n + ?delta" "n + ?delta < 2 ^ 63"
    using that by simp
  moreover have "sint (of_int ?delta :: u64) = ?delta" if "- (2 ^ 63) \<le> ?delta" "?delta < 2 ^ 63"
    using that sint64 by blast
  moreover have "sint (of_int n :: u64) = n"
    using sint64 old(2,3) by blast
  ultimately show ?thesis
    unfolding run cli_delta_def strtoll_value Let_def
    using old(2,3) by (simp add: calculate_exact Let_def)
qed

theorem cli_delta_exact_witness:
  "env_execute_cli sample_world 32 (sample_env\<lparr>en_request := [78, 43, 53]\<rparr>) =
     cli_set sample_world 32 [78] [53] (sample_env\<lparr>en_request := [78, 43, 53], en_status := 0\<rparr>)"
proof -
  let ?s = "sample_env\<lparr>en_request := [78, 43, 53]\<rparr>"
  have "env_core ?s" "en_request ?s = [78] @ 43 # [53]"
    using sample_facts(7) by (simp_all add: env_core_def)
  from cli_delta_exact [OF this, of 0] show ?thesis
    by (simp add: is_alpha_def is_sign_def is_digit_def sample_facts(1) text_value_def digits_int_def env_normalize_key_def
        to_upper_def decimal_int_def decimal.simps)
qed

end
