(* ===== verification/Http_Stream.thy ===== *)
theory Http_Stream
  imports Prelude
begin

text \<open>
  URLs and the incremental HTTP response parser of \<open>src/src/common/http_stream.c\<close>.

  \<^item> \<open>z80_http_url_parse\<close> and \<open>z80_http_url_redirect\<close> return the URL, or \<open>None\<close> where the code returns
    false (its callers then do not read the URL).
  \<^item> \<open>http_stream\<close> is the parser's state; \<open>hs_line\<close> holds the bytes collected of the current line
    (\<open>line_length\<close> is its length). The callback \<open>emit\<close> is an argument that carries its own state.
  \<^item> the lemmas show that the parser's buffers stay in bounds, that it does not matter how a
    response is cut into TCP segments, and that chunked bodies are decoded exactly.
\<close>

section \<open>URLs\<close>

abbreviation Z80_HTTP_URL_MAX :: nat where "Z80_HTTP_URL_MAX \<equiv> 768"

record http_url =
  url_https :: bool
  url_port :: u16
  url_host :: bytes
  url_authority :: bytes
  url_path :: bytes

definition url_char_ok :: "u8 \<Rightarrow> bool" where
  "url_char_ok c \<longleftrightarrow> \<not> (c \<le> 32 \<or> c \<ge> 127 \<or> c = 35 \<or> c = 92 \<or> c = 64)"

definition host_char_ok :: "u8 \<Rightarrow> bool" where
  "host_char_ok c \<longleftrightarrow> is_alpha c \<or> is_digit c \<or> c = 46 \<or> c = 45"

fun url_port_digits :: "bytes \<Rightarrow> nat \<Rightarrow> nat option" where
  "url_port_digits [] port = Some port"
| "url_port_digits (c # cs) port =
     (if \<not> is_digit c \<or> port > 6553 then None
      else let port = port * 10 + unat (c - 48) in if port > 65535 then None else url_port_digits cs port)"

definition z80_http_url_parse :: "bytes \<Rightarrow> http_url option" where
  "z80_http_url_parse text =
     (let https = starts_ci (ascii ''https://'') text; http = starts_ci (ascii ''http://'') text;
          host = drop (if https then 8 else 7) text;
          authority = takeWhile (\<lambda>c. c \<noteq> 47 \<and> c \<noteq> 63) host;
          tail = dropWhile (\<lambda>c. c \<noteq> 47 \<and> c \<noteq> 63) host;
          name = takeWhile (\<lambda>c. c \<noteq> 58) authority;
          path = (if tail \<noteq> [] \<and> hd tail = 47 then [] else ascii ''/'') @ tail
      in if \<not> https \<and> \<not> http then None
         else if \<not> list_all url_char_ok host then None
         else if authority = [] \<or> length authority \<ge> 260 then None
         else if name = [] \<or> length name \<ge> 254 then None
         else if \<not> list_all host_char_ok name then None
         else case (if 58 \<in> set authority then
                      let digits = drop (length name + 1) authority
                      in if digits = [] then None
                         else case url_port_digits digits 0 of None \<Rightarrow> None
                              | Some p \<Rightarrow> if p = 0 then None else Some p
                    else Some (if https then 443 else 80)) of
           None \<Rightarrow> None
         | Some port \<Rightarrow>
             if length path \<ge> Z80_HTTP_URL_MAX then None
             else Some \<lparr>url_https = https, url_port = of_nat port, url_host = name,
                        url_authority = authority, url_path = path\<rparr>)"

text \<open>The backwards loop to the last slash before \<open>prefix\<close>.\<close>

fun directory_end :: "bytes \<Rightarrow> nat \<Rightarrow> nat" where
  "directory_end path 0 = 0"
| "directory_end path (Suc n) = (if path ! n = 47 then Suc n else directory_end path n)"

definition z80_http_url_redirect :: "http_url \<Rightarrow> bytes \<Rightarrow> http_url option" where
  "z80_http_url_redirect url location =
     (let scheme = (if url_https url then ascii ''https'' else ascii ''http'');
          text =
            (if starts_ci (ascii ''http://'') location \<or> starts_ci (ascii ''https://'') location then location
             else if take 2 location = ascii ''//'' then scheme @ ascii '':'' @ location
             else
               let prefix = length (takeWhile (\<lambda>c. c \<noteq> 63) (url_path url));
                   prefix = (if location \<noteq> [] \<and> hd location = 47 then 0
                             else if location \<noteq> [] \<and> hd location = 63 then prefix
                             else directory_end (url_path url) prefix)
               in scheme @ ascii ''://'' @ url_authority url @ take prefix (url_path url) @ location)
      in if text = [] \<or> length text \<ge> Z80_HTTP_URL_MAX then None
         else case z80_http_url_parse text of None \<Rightarrow> None
              | Some u \<Rightarrow> if url_https url \<and> \<not> url_https u then None else Some u)"

section \<open>The response parser\<close>

datatype http_state = STATUS | HEADERS | BODY_LENGTH | BODY_CLOSE | CHUNK_SIZE | CHUNK_BODY | CHUNK_CR
  | CHUNK_LF | TRAILERS

record http_stream =
  hs_state :: http_state
  hs_status :: nat
  hs_header_bytes :: nat
  hs_remaining :: u32
  hs_line :: bytes
  hs_have_length :: bool
  hs_chunked :: bool
  hs_done :: bool
  hs_error :: "string option"
  hs_location :: bytes

definition z80_http_stream_init :: http_stream where
  "z80_http_stream_init =
     \<lparr>hs_state = STATUS, hs_status = 0, hs_header_bytes = 0, hs_remaining = 0, hs_line = [],
      hs_have_length = False, hs_chunked = False, hs_done = False, hs_error = None, hs_location = []\<rparr>"

definition digit_value :: "u8 \<Rightarrow> nat option" where
  "digit_value c =
     (if is_digit c then Some (unat (c - 48))
      else if 97 \<le> c \<and> c \<le> 102 then Some (unat (c - 97) + 10)
      else if 65 \<le> c \<and> c \<le> 70 then Some (unat (c - 65) + 10)
      else None)"

text \<open>The loop of \<open>number\<close>; \<open>first\<close> says that no digit has been read yet.\<close>

fun number_loop :: "nat \<Rightarrow> bool \<Rightarrow> bytes \<Rightarrow> nat \<Rightarrow> bool \<times> nat" where
  "number_loop base first [] value = (\<not> first, value)"
| "number_loop base first (c # cs) value =
     (if base = 16 \<and> c = 59 then (\<not> first, value)
      else case digit_value c of
        None \<Rightarrow> (False, value)
      | Some digit \<Rightarrow>
          if digit \<ge> base \<or> value > (4294967295 - digit) div base then (False, value)
          else number_loop base False cs (value * base + digit))"

definition http_number :: "bytes \<Rightarrow> nat \<Rightarrow> bool \<times> u32" where
  "http_number p base = (case number_loop base True p 0 of (ok, v) \<Rightarrow> (ok, of_nat v))"

definition header_name_char :: "u8 \<Rightarrow> bool" where
  "header_name_char c \<longleftrightarrow> is_alpha c \<or> is_digit c \<or>
     c \<in> {33, 35, 36, 37, 38, 39, 42, 43, 45, 46, 94, 95, 96, 124, 126}"

definition is_blank :: "u8 \<Rightarrow> bool" where
  "is_blank c \<longleftrightarrow> c = 32 \<or> c = 9"

definition trim_blanks :: "bytes \<Rightarrow> bytes" where
  "trim_blanks s = rev (dropWhile is_blank (rev (dropWhile is_blank s)))"

definition stream_fail :: "string \<Rightarrow> http_stream \<Rightarrow> http_stream" where
  "stream_fail message s = s\<lparr>hs_error := Some message\<rparr>"

definition status_line :: "bytes \<Rightarrow> http_stream \<Rightarrow> http_stream" where
  "status_line p s =
     (let n = length p
      in if n < 12 \<or> (take 9 p \<noteq> ascii ''HTTP/1.0 '' \<and> take 9 p \<noteq> ascii ''HTTP/1.1 '') \<or>
            p ! 9 < 49 \<or> p ! 9 > 53 \<or> \<not> is_digit (p ! 10) \<or> \<not> is_digit (p ! 11) \<or> (n > 12 \<and> p ! 12 \<noteq> 32)
         then stream_fail ''Invalid HTTP status line'' s
         else s\<lparr>hs_status := unat (p ! 9 - 48) * 100 + unat (p ! 10 - 48) * 10 + unat (p ! 11 - 48),
                hs_state := HEADERS\<rparr>)"

definition end_of_headers :: "http_stream \<Rightarrow> http_stream" where
  "end_of_headers s =
     (if hs_state s = TRAILERS then s\<lparr>hs_done := True\<rparr>
      else if hs_have_length s \<and> hs_chunked s then stream_fail ''Ambiguous HTTP framing'' s
      else if hs_status s \<ge> 100 \<and> hs_status s < 200 \<and> hs_status s \<noteq> 101 then
        s\<lparr>hs_state := STATUS, hs_have_length := False, hs_chunked := False, hs_remaining := 0, hs_location := []\<rparr>
      else if hs_status s \<in> {301, 302, 303, 307, 308} then
        if hs_location s = [] then stream_fail ''Redirect without Location'' s else s\<lparr>hs_done := True\<rparr>
      else if hs_status s \<noteq> 200 \<and> hs_status s \<noteq> 204 then stream_fail ''HTTP server returned an error'' s
      else s\<lparr>hs_state := (if hs_chunked s then CHUNK_SIZE else if hs_have_length s then BODY_LENGTH else BODY_CLOSE),
             hs_done := hs_status s = 204 \<or> (hs_have_length s \<and> hs_remaining s = 0)\<rparr>)"

definition content_length :: "bytes \<Rightarrow> http_stream \<Rightarrow> http_stream" where
  "content_length value s =
     (if hs_have_length s then (stream_fail ''Invalid Content-Length'' s)\<lparr>hs_have_length := True\<rparr>
      else
        let (ok, v) = http_number value 10; s = s\<lparr>hs_remaining := v\<rparr>
        in (if ok then s else stream_fail ''Invalid Content-Length'' s)\<lparr>hs_have_length := True\<rparr>)"

definition header_field :: "bytes \<Rightarrow> bytes \<Rightarrow> http_stream \<Rightarrow> http_stream" where
  "header_field name value s =
     (if equal_ci name (ascii ''Content-Length'') then content_length value s
      else if equal_ci name (ascii ''Transfer-Encoding'') then
        let s = (if hs_chunked s \<or> \<not> equal_ci value (ascii ''chunked'')
                 then stream_fail ''Unsupported Transfer-Encoding'' s else s)
        in s\<lparr>hs_chunked := True\<rparr>
      else if equal_ci name (ascii ''Content-Encoding'') then
        if \<not> equal_ci value (ascii ''identity'') then stream_fail ''Compressed files are not supported'' s else s
      else if equal_ci name (ascii ''Location'') then
        if hs_location s \<noteq> [] \<or> length value \<ge> Z80_HTTP_URL_MAX
        then stream_fail ''Invalid redirect Location'' s else s\<lparr>hs_location := value\<rparr>
      else s)"

definition header_line :: "bytes \<Rightarrow> http_stream \<Rightarrow> http_stream" where
  "header_line p s =
     (let name = takeWhile (\<lambda>c. c \<noteq> 58) p
      in if 58 \<notin> set p \<or> name = [] \<or> is_blank (hd p) then stream_fail ''Invalid HTTP header'' s
         else if \<not> list_all header_name_char name then stream_fail ''Invalid HTTP header name'' s
         else if hs_state s = TRAILERS then s
         else header_field name (trim_blanks (drop (length name + 1) p)) s)"

definition http_line :: "http_stream \<Rightarrow> http_stream" where
  "http_line s =
     (let p = hs_line s
      in if hs_state s = STATUS then status_line p s
         else if hs_state s = CHUNK_SIZE then
           case http_number p 16 of (ok, v) \<Rightarrow>
             let s = s\<lparr>hs_remaining := v\<rparr>
             in if \<not> ok then stream_fail ''Invalid chunk size'' s
                else s\<lparr>hs_state := (if v \<noteq> 0 then CHUNK_BODY else TRAILERS)\<rparr>
         else if p = [] then end_of_headers s
         else header_line p s)"

definition body_byte_done :: "http_stream \<Rightarrow> http_stream" where
  "body_byte_done s =
     (if hs_state s \<noteq> BODY_CLOSE then
        let s = s\<lparr>hs_remaining := hs_remaining s - 1\<rparr>
        in if hs_remaining s = 0 then
             if hs_state s = BODY_LENGTH then s\<lparr>hs_done := True\<rparr> else s\<lparr>hs_state := CHUNK_CR\<rparr>
           else s
      else s)"

definition delimiter_byte :: "u8 \<Rightarrow> http_stream \<Rightarrow> http_stream" where
  "delimiter_byte c s =
     (if c \<noteq> (if hs_state s = CHUNK_CR then 13 else 10) then stream_fail ''Missing chunk delimiter'' s
      else s\<lparr>hs_state := (if hs_state s = CHUNK_CR then CHUNK_LF else CHUNK_SIZE)\<rparr>)"

definition line_byte :: "u8 \<Rightarrow> http_stream \<Rightarrow> http_stream" where
  "line_byte c s0 =
     (let s = s0\<lparr>hs_header_bytes := hs_header_bytes s0 + 1\<rparr>
      in if hs_header_bytes s > 8192 then stream_fail ''HTTP metadata too large'' s
         else if c = 10 then
           if hs_line s = [] \<or> last (hs_line s) \<noteq> 13 then stream_fail ''Missing HTTP CRLF'' s
           else
             let s = s\<lparr>hs_line := butlast (hs_line s)\<rparr>
             in if 13 \<in> set (hs_line s) then stream_fail ''Unexpected HTTP carriage return'' s
                else
                  let s = (http_line s)\<lparr>hs_line := []\<rparr>
                  in if hs_state s = CHUNK_BODY then s\<lparr>hs_header_bytes := 0\<rparr> else s
         else if c = 0 \<or> c = 127 \<or> (c < 32 \<and> c \<noteq> 13 \<and> c \<noteq> 9) \<or> length (hs_line s) = 1023
         then stream_fail ''Invalid or oversized HTTP line'' s
         else s\<lparr>hs_line := hs_line s @ [c]\<rparr>)"

fun z80_http_stream_feed ::
    "('e \<Rightarrow> u8 \<Rightarrow> bool \<times> 'e) \<Rightarrow> http_stream \<Rightarrow> 'e \<Rightarrow> bytes \<Rightarrow> nat \<times> http_stream \<times> 'e" where
  "z80_http_stream_feed emit s e [] = (0, s, e)"
| "z80_http_stream_feed emit s e (c # cs) =
     (if hs_error s \<noteq> None \<or> hs_done s then (0, s, e)
      else if hs_state s \<in> {BODY_LENGTH, BODY_CLOSE, CHUNK_BODY} then
        case emit e c of
          (False, e) \<Rightarrow> (0, s, e)
        | (True, e) \<Rightarrow>
            case z80_http_stream_feed emit (body_byte_done s) e cs of (n, r) \<Rightarrow> (Suc n, r)
      else
        case z80_http_stream_feed emit
          (if hs_state s \<in> {CHUNK_CR, CHUNK_LF} then delimiter_byte c s else line_byte c s) e cs
        of (n, r) \<Rightarrow> (Suc n, r))"

definition z80_http_stream_close :: "http_stream \<Rightarrow> http_stream" where
  "z80_http_stream_close s =
     (if \<not> hs_done s \<and> hs_error s = None then
        if hs_state s = BODY_CLOSE then s\<lparr>hs_done := True\<rparr>
        else stream_fail ''Truncated HTTP response'' s
      else s)"

section \<open>Segmentation\<close>

lemma feed_append:
  "z80_http_stream_feed emit s e (xs @ ys) =
     (case z80_http_stream_feed emit s e xs of (n, s1, e1) \<Rightarrow>
        if n = length xs then case z80_http_stream_feed emit s1 e1 ys of (m, r) \<Rightarrow> (n + m, r)
        else (n, s1, e1))"
proof (induction xs arbitrary: s e)
  case Nil
  then show ?case by (simp split: prod.splits)
next
  case (Cons c cs)
  then show ?case
    by (auto split: prod.splits bool.splits)
qed

text \<open>A byte stops the parser or is consumed by one of its three kinds of state.\<close>

definition consume_byte :: "u8 \<Rightarrow> http_stream \<Rightarrow> http_stream" where
  "consume_byte c s =
     (if hs_state s \<in> {BODY_LENGTH, BODY_CLOSE, CHUNK_BODY} then body_byte_done s
      else if hs_state s \<in> {CHUNK_CR, CHUNK_LF} then delimiter_byte c s else line_byte c s)"

lemma feed_Cons_cases:
  obtains (stop) e' where "z80_http_stream_feed emit s e (c # cs) = (0, s, e')"
  | (go) e' where "z80_http_stream_feed emit s e (c # cs) =
        (Suc (fst (z80_http_stream_feed emit (consume_byte c s) e' cs)), snd (z80_http_stream_feed emit (consume_byte c s) e' cs))"
      "hs_error s = None" "\<not> hs_done s"
proof (cases "hs_error s \<noteq> None \<or> hs_done s")
  case True
  with stop [of e] show thesis by simp
next
  case False
  show thesis
  proof (cases "hs_state s \<in> {BODY_LENGTH, BODY_CLOSE, CHUNK_BODY}")
    case True
    obtain ok e' where "emit e c = (ok, e')" by fastforce
    with True False stop [of e'] go [of e'] show thesis
      by (cases ok) (auto simp: consume_byte_def split_beta)
  next
    case no_body: False
    with False go [of e] show thesis
      by (auto simp: consume_byte_def split_beta)
  qed
qed

lemma feed_consumed_le: "fst (z80_http_stream_feed emit s e xs) \<le> length xs"
proof (induction xs arbitrary: s e)
  case (Cons c cs)
  show ?case
    by (cases rule: feed_Cons_cases [of emit s e c cs]) (use Cons in \<open>simp_all del: z80_http_stream_feed.simps\<close>)
qed simp

section \<open>Buffers stay in bounds\<close>

definition stream_inv :: "http_stream \<Rightarrow> bool" where
  "stream_inv s \<longleftrightarrow> length (hs_line s) \<le> 1023 \<and> hs_header_bytes s \<le> 8193 \<and>
     length (hs_location s) < Z80_HTTP_URL_MAX \<and>
     (hs_state s \<in> {BODY_LENGTH, CHUNK_BODY} \<and> \<not> hs_done s \<and> hs_error s = None \<longrightarrow> hs_remaining s \<noteq> 0) \<and>
     (hs_error s = None \<and> \<not> hs_done s \<longrightarrow> hs_header_bytes s \<le> 8192)"

lemma stream_fail_simps [simp]:
  "hs_error (stream_fail m s) = Some m" "hs_line (stream_fail m s) = hs_line s"
  "hs_header_bytes (stream_fail m s) = hs_header_bytes s" "hs_location (stream_fail m s) = hs_location s"
  "hs_state (stream_fail m s) = hs_state s"
  by (simp_all add: stream_fail_def)

definition line_ok :: "http_stream \<Rightarrow> http_stream \<Rightarrow> bool" where
  "line_ok s s' \<longleftrightarrow> length (hs_location s') < Z80_HTTP_URL_MAX \<and> hs_header_bytes s' = hs_header_bytes s \<and>
     (hs_state s' \<in> {BODY_LENGTH, CHUNK_BODY} \<and> \<not> hs_done s' \<and> hs_error s' = None \<longrightarrow> hs_remaining s' \<noteq> 0)"

lemma line_ok_fail [simp]:
  "length (hs_location s) < Z80_HTTP_URL_MAX \<Longrightarrow> line_ok s (stream_fail m s)"
  by (simp add: line_ok_def)

lemma status_line_ok: "length (hs_location s) < Z80_HTTP_URL_MAX \<Longrightarrow> line_ok s (status_line p s)"
  by (simp add: status_line_def Let_def) (simp add: line_ok_def)

lemma end_of_headers_ok:
  "hs_state s \<in> {HEADERS, TRAILERS} \<Longrightarrow> length (hs_location s) < Z80_HTTP_URL_MAX \<Longrightarrow> line_ok s (end_of_headers s)"
  by (cases "hs_state s = TRAILERS") (simp_all add: end_of_headers_def line_ok_def)

lemma content_length_state:
  "hs_state (content_length value s) = hs_state s" "hs_header_bytes (content_length value s) = hs_header_bytes s"
  "hs_location (content_length value s) = hs_location s"
  by (simp_all add: content_length_def Let_def split: prod.splits)

lemma header_field_state:
  "hs_state (header_field name value s) = hs_state s" "hs_header_bytes (header_field name value s) = hs_header_bytes s"
  "length (hs_location s) < Z80_HTTP_URL_MAX \<Longrightarrow> length (hs_location (header_field name value s)) < Z80_HTTP_URL_MAX"
  by (simp_all add: header_field_def Let_def content_length_state)

lemma header_line_ok:
  "hs_state s \<in> {HEADERS, TRAILERS} \<Longrightarrow> length (hs_location s) < Z80_HTTP_URL_MAX \<Longrightarrow> line_ok s (header_line p s)"
  by (auto simp: header_line_def Let_def) (auto simp: line_ok_def header_field_state)

lemma chunk_size_ok:
  "length (hs_location s) < Z80_HTTP_URL_MAX \<Longrightarrow> hs_state s = CHUNK_SIZE \<Longrightarrow> line_ok s (http_line s)"
  by (auto simp: http_line_def Let_def line_ok_def split: prod.splits)

lemma http_line_inv:
  assumes "hs_state s \<in> {STATUS, HEADERS, CHUNK_SIZE, TRAILERS}" and "length (hs_location s) < Z80_HTTP_URL_MAX"
  shows "line_ok s (http_line s)"
proof (cases "hs_state s = CHUNK_SIZE")
  case True
  with assms show ?thesis by (simp add: chunk_size_ok)
next
  case False
  with assms show ?thesis
    by (auto simp: http_line_def Let_def status_line_ok end_of_headers_ok header_line_ok)
qed

lemma after_line_inv:
  assumes "line_ok s s'" and "hs_header_bytes s \<le> 8192"
  shows "stream_inv (s'\<lparr>hs_line := [], hs_header_bytes := 0\<rparr>)" "stream_inv (s'\<lparr>hs_line := []\<rparr>)"
  using assms by (simp_all add: line_ok_def stream_inv_def)

lemma line_byte_inv:
  assumes "stream_inv s" and "hs_state s \<in> {STATUS, HEADERS, CHUNK_SIZE, TRAILERS}"
    and "hs_error s = None" and "\<not> hs_done s"
  shows "stream_inv (line_byte c s)"
proof -
  let ?s = "s\<lparr>hs_header_bytes := hs_header_bytes s + 1, hs_line := butlast (hs_line s)\<rparr>"
  have "length (hs_location ?s) < Z80_HTTP_URL_MAX" "hs_state ?s \<in> {STATUS, HEADERS, CHUNK_SIZE, TRAILERS}"
    using assms by (simp_all add: stream_inv_def)
  then have ok: "line_ok ?s (http_line ?s)"
    by (intro http_line_inv)
  have rest: "stream_inv (s\<lparr>hs_header_bytes := Suc (hs_header_bytes s), hs_line := hs_line s @ [c]\<rparr>)"
    if "hs_header_bytes s < 8192" "length (hs_line s) \<noteq> 1023"
    using assms that by (auto simp: stream_inv_def)
  have failed: "stream_inv (stream_fail m (s\<lparr>hs_header_bytes := Suc (hs_header_bytes s)\<rparr>))"
    "stream_inv (stream_fail m (s\<lparr>hs_header_bytes := Suc (hs_header_bytes s), hs_line := butlast (hs_line s)\<rparr>))" for m
    using assms by (simp_all add: stream_inv_def, linarith)
  have line: "stream_inv (http_line (s\<lparr>hs_header_bytes := Suc (hs_header_bytes s), hs_line := butlast (hs_line s)\<rparr>)\<lparr>hs_line := [], hs_header_bytes := 0\<rparr>)"
    "stream_inv (http_line (s\<lparr>hs_header_bytes := Suc (hs_header_bytes s), hs_line := butlast (hs_line s)\<rparr>)\<lparr>hs_line := []\<rparr>)"
    if "\<not> 8191 < hs_header_bytes s"
    using after_line_inv [OF ok] that by simp_all
  show ?thesis
    using line rest failed by (simp add: line_byte_def Let_def)
qed

lemma consume_byte_inv:
  assumes "stream_inv s" and "hs_error s = None" and "\<not> hs_done s"
  shows "stream_inv (consume_byte c s)"
proof (cases "hs_state s \<in> {STATUS, HEADERS, CHUNK_SIZE, TRAILERS}")
  case True
  with line_byte_inv [OF assms(1) True assms(2,3)] show ?thesis
    by (auto simp: consume_byte_def)
next
  case False
  with assms show ?thesis
    by (cases "hs_state s") (auto simp: consume_byte_def body_byte_done_def delimiter_byte_def stream_inv_def Let_def)
qed

lemma feed_inv: "stream_inv s \<Longrightarrow> stream_inv (fst (snd (z80_http_stream_feed emit s e xs)))"
proof (induction xs arbitrary: s e)
  case (Cons c cs)
  show ?case
    by (cases rule: feed_Cons_cases [of emit s e c cs])
      (use Cons consume_byte_inv in \<open>simp_all del: z80_http_stream_feed.simps\<close>)
qed simp

section \<open>Numbers\<close>

text \<open>The value a digit string stands for; the specification of \<open>number\<close> ignores the code's overflow guard.\<close>

fun digits_value :: "nat \<Rightarrow> bytes \<Rightarrow> nat \<Rightarrow> nat" where
  "digits_value base [] acc = acc"
| "digits_value base (c # cs) acc =
     (if base = 16 \<and> c = 59 then acc
      else case digit_value c of None \<Rightarrow> acc | Some digit \<Rightarrow> digits_value base cs (acc * base + digit))"

lemma number_loop_value:
  assumes "number_loop base first cs acc = (True, v)" and "acc < 2 ^ 32" and "0 < base"
  shows "v = digits_value base cs acc \<and> v < 2 ^ 32"
  using assms
proof (induction base first cs acc rule: number_loop.induct)
  case (1 base first acc)
  then show ?case by simp
next
  case (2 base first c cs acc)
  show ?case
  proof (cases "base = 16 \<and> c = 59")
    case True
    with 2 show ?thesis by auto
  next
    case False
    with 2 obtain digit where d: "digit_value c = Some digit" "digit < base" "acc \<le> (4294967295 - digit) div base"
      and run: "number_loop base False cs (acc * base + digit) = (True, v)"
      by (auto split: option.splits if_splits)
    have "digit \<le> 4294967295"
      using d(1) by (auto simp: digit_value_def is_digit_def word_le_nat_alt unat_sub split: if_splits)
    moreover have "acc * base \<le> 4294967295 - digit"
      using mult_le_mono1 [OF d(3), of base] by (meson div_times_less_eq_dividend order.trans)
    ultimately have "acc * base + digit < 2 ^ 32"
      by simp
    with 2(1) [OF False d(1)] d run 2(4) False show ?thesis
      by auto
  qed
qed

fun hex_digit :: "nat \<Rightarrow> u8" where
  "hex_digit n = (if n < 10 then of_nat n + 48 else of_nat n + 87)"

fun hex :: "nat \<Rightarrow> bytes" where
  "hex n = (if n < 16 then [hex_digit n] else hex (n div 16) @ [hex_digit (n mod 16)])"

declare hex.simps [simp del]

lemma hex_digit_value:
  assumes "n < 16"
  shows "digit_value (hex_digit n) = Some n" "hex_digit n \<noteq> 59" "hex_digit n > 32" "hex_digit n < 127"
proof -
  have "list_all (\<lambda>n. digit_value (hex_digit n) = Some n \<and> hex_digit n \<noteq> 59 \<and> hex_digit n > 32 \<and> hex_digit n < 127)
      [0..<16]"
    by code_simp
  then show "digit_value (hex_digit n) = Some n" "hex_digit n \<noteq> 59" "hex_digit n > 32" "hex_digit n < 127"
    unfolding list_all_iff set_upt using assms by auto
qed

lemma number_loop_append:
  assumes "number_loop base first xs acc = (True, v)" and "59 \<notin> set xs"
  shows "number_loop base first (xs @ ys) acc = number_loop base (first \<and> xs = []) ys v"
  using assms
  by (induction base first xs acc rule: number_loop.induct) (auto split: option.splits if_splits)

lemma hex_chars: "c \<in> set (hex n) \<Longrightarrow> c \<noteq> 59 \<and> c > 32 \<and> c < 127"
proof (induction n rule: hex.induct)
  case (1 n)
  then show ?case
    using hex_digit_value(2-4) [of n] hex_digit_value(2-4) [of "n mod 16"]
    by (subst (asm) hex.simps) (auto split: if_splits simp del: hex_digit.simps)
qed

lemma hex_not_Nil [simp]: "hex n \<noteq> []"
  by (subst hex.simps) simp

lemma hex_length: "n < 16 ^ k \<Longrightarrow> 0 < k \<Longrightarrow> length (hex n) \<le> k"
proof (induction n arbitrary: k rule: hex.induct)
  case (1 n)
  show ?case
  proof (cases "n < 16")
    case True
    with 1 show ?thesis by (subst hex.simps) simp
  next
    case False
    with 1(2) obtain k' where k: "k = Suc k'" "0 < k'"
      by (cases k; cases "k - 1") auto
    with 1(2) have "n div 16 < 16 ^ k'"
      by (simp add: less_mult_imp_div_less)
    with 1(1) [OF False, of k'] False k show ?thesis
      by (subst hex.simps) simp
  qed
qed

lemma number_hex:
  "n < 2 ^ 32 \<Longrightarrow> number_loop 16 True (hex n) 0 = (True, n)"
proof (induction n rule: hex.induct)
  case (1 n)
  show ?case
  proof (cases "n < 16")
    case True
    with hex_digit_value [OF True] show ?thesis
      by (subst hex.simps) (simp del: hex_digit.simps)
  next
    case False
    have "59 \<notin> set (hex (n div 16))"
      using hex_chars [of 59 "n div 16"] by auto
    moreover have "n div 16 < 2 ^ 32"
      using 1(2) by (simp add: less_mult_imp_div_less)
    moreover have "\<not> n div 16 > (4294967295 - n mod 16) div 16"
    proof -
      have "n div 16 = (n - n mod 16) div 16"
        by (simp add: minus_mod_eq_mult_div)
      moreover have "n - n mod 16 \<le> 4294967295 - n mod 16"
        using 1(2) by simp
      ultimately show ?thesis
        by (simp add: div_le_mono not_less)
    qed
    ultimately show ?thesis
      using False 1(1) [OF False] hex_digit_value(1,2) [of "n mod 16"] number_loop_append [of 16 True "hex (n div 16)" 0 "n div 16"]
      by (subst hex.simps) (simp del: hex_digit.simps)
  qed
qed

section \<open>Lines\<close>

text \<open>A collector that accepts every byte.\<close>

definition collect :: "bytes \<Rightarrow> u8 \<Rightarrow> bool \<times> bytes" where
  "collect out c = (True, out @ [c])"

definition line_char :: "u8 \<Rightarrow> bool" where
  "line_char c \<longleftrightarrow> c \<ge> 32 \<and> c < 127"

definition at_line :: "http_stream \<Rightarrow> bool" where
  "at_line s \<longleftrightarrow> hs_state s \<in> {STATUS, HEADERS, CHUNK_SIZE, TRAILERS} \<and> hs_error s = None \<and> \<not> hs_done s"

lemma feed_step:
  assumes "hs_error s = None" and "\<not> hs_done s"
    and "hs_state s \<notin> {BODY_LENGTH, BODY_CLOSE, CHUNK_BODY}"
  shows "z80_http_stream_feed emit s e (c # cs) =
    (case z80_http_stream_feed emit (consume_byte c s) e cs of (n, r) \<Rightarrow> (Suc n, r))"
  using assms by (auto simp: consume_byte_def)

lemma at_line_consume: "at_line s \<Longrightarrow> consume_byte c s = line_byte c s"
  by (auto simp: at_line_def consume_byte_def)

lemma line_char_collected:
  assumes "at_line s" and "line_char c \<or> c = 13" and "hs_header_bytes s < 8192" and "length (hs_line s) < 1023"
  shows "line_byte c s = s\<lparr>hs_header_bytes := hs_header_bytes s + 1, hs_line := hs_line s @ [c]\<rparr>"
proof -
  have "c \<noteq> 10" "c \<noteq> 0" "c \<noteq> 127" "\<not> (c < 32 \<and> c \<noteq> 13 \<and> c \<noteq> 9)"
    using assms(2) by (auto simp: line_char_def)
  with assms show ?thesis
    by (auto simp: line_byte_def Let_def)
qed

lemma feed_chars:
  assumes "at_line s" and "list_all (\<lambda>c. line_char c \<or> c = 13) cs" and "hs_header_bytes s + length cs \<le> 8192"
    and "length (hs_line s) + length cs \<le> 1023"
  shows "z80_http_stream_feed emit s e (cs @ rest) =
    (case z80_http_stream_feed emit (s\<lparr>hs_header_bytes := hs_header_bytes s + length cs, hs_line := hs_line s @ cs\<rparr>) e rest
     of (n, r) \<Rightarrow> (length cs + n, r))"
  using assms
proof (induction cs arbitrary: s)
  case Nil
  then show ?case by (simp split: prod.splits)
next
  case (Cons c cs)
  let ?s = "s\<lparr>hs_header_bytes := hs_header_bytes s + 1, hs_line := hs_line s @ [c]\<rparr>"
  have "consume_byte c s = ?s"
    using Cons.prems line_char_collected [of s c] at_line_consume [of s c] by auto
  moreover have "at_line ?s"
    using Cons.prems(1) by (simp add: at_line_def)
  moreover have "hs_error s = None" "\<not> hs_done s" "hs_state s \<notin> {BODY_LENGTH, BODY_CLOSE, CHUNK_BODY}"
    using Cons.prems(1) by (auto simp: at_line_def)
  ultimately show ?case
    using Cons.IH [of ?s] Cons.prems feed_step [of s emit e c "cs @ rest"]
    by (auto simp del: z80_http_stream_feed.simps split: prod.splits)
qed

text \<open>A whole line, at the beginning of which the line buffer is empty.\<close>

lemma feed_line:
  assumes s: "at_line s" and cs: "list_all line_char cs" and "hs_header_bytes s + length cs + 2 \<le> 8192"
    and "length cs < 1023" and "hs_line s = []"
  defines "s' \<equiv> (http_line (s\<lparr>hs_header_bytes := hs_header_bytes s + length cs + 2, hs_line := cs\<rparr>))\<lparr>hs_line := []\<rparr>"
  shows "z80_http_stream_feed emit s e (cs @ [13, 10] @ rest) =
    (case z80_http_stream_feed emit (if hs_state s' = CHUNK_BODY then s'\<lparr>hs_header_bytes := 0\<rparr> else s') e rest
     of (n, r) \<Rightarrow> (length cs + 2 + n, r))"
proof -
  let ?s = "s\<lparr>hs_header_bytes := hs_header_bytes s + (length cs + 1), hs_line := cs @ [13]\<rparr>"
  have "list_all (\<lambda>c. line_char c \<or> c = 13) (cs @ [13])"
    using cs by (auto simp: list_all_iff)
  then have 1: "z80_http_stream_feed emit s e ((cs @ [13]) @ 10 # rest) =
      (case z80_http_stream_feed emit ?s e (10 # rest) of (n, r) \<Rightarrow> (length cs + 1 + n, r))"
    using assms by (subst feed_chars) (auto split: prod.splits)
  have no_cr: "13 \<notin> set cs"
    using cs by (auto simp: list_all_iff line_char_def)
  have "at_line ?s"
    using s by (simp add: at_line_def)
  then have "consume_byte 10 ?s = line_byte 10 ?s" "hs_error ?s = None" "\<not> hs_done ?s"
    "hs_state ?s \<notin> {BODY_LENGTH, BODY_CLOSE, CHUNK_BODY}"
    by (auto simp: at_line_consume at_line_def)
  moreover have "line_byte 10 ?s = (if hs_state s' = CHUNK_BODY then s'\<lparr>hs_header_bytes := 0\<rparr> else s')"
    using assms(3) no_cr by (simp add: line_byte_def Let_def s'_def)
  ultimately have "z80_http_stream_feed emit ?s e (10 # rest) =
      (case z80_http_stream_feed emit (if hs_state s' = CHUNK_BODY then s'\<lparr>hs_header_bytes := 0\<rparr> else s') e rest
       of (n, r) \<Rightarrow> (Suc n, r))"
    using feed_step [of ?s emit e 10 rest] by simp
  with 1 show ?thesis
    by (simp del: z80_http_stream_feed.simps split: prod.splits)
qed

section \<open>Bodies\<close>

lemma feed_body:
  assumes "hs_state s \<in> {BODY_LENGTH, CHUNK_BODY}" and "hs_error s = None" and "\<not> hs_done s"
    and "hs_remaining s = of_nat (length bs)" and "length bs < 2 ^ 32" and "bs \<noteq> []"
  shows "z80_http_stream_feed collect s out (bs @ rest) =
    (case z80_http_stream_feed collect
       (if hs_state s = BODY_LENGTH then s\<lparr>hs_remaining := 0, hs_done := True\<rparr>
        else s\<lparr>hs_remaining := 0, hs_state := CHUNK_CR\<rparr>) (out @ bs) rest of (n, r) \<Rightarrow> (length bs + n, r))"
  using assms
proof (induction bs arbitrary: s out)
  case (Cons c cs)
  have step: "z80_http_stream_feed collect s out (c # cs @ rest) =
      (case z80_http_stream_feed collect (body_byte_done s) (out @ [c]) (cs @ rest) of (n, r) \<Rightarrow> (Suc n, r))"
    using Cons.prems(1-3) by (auto simp: collect_def)
  have rem: "hs_remaining s - 1 = of_nat (length cs)"
    using Cons.prems(4) by simp
  show ?case
  proof (cases "cs = []")
    case True
    with rem Cons.prems have "body_byte_done s = (if hs_state s = BODY_LENGTH then s\<lparr>hs_remaining := 0, hs_done := True\<rparr>
        else s\<lparr>hs_remaining := 0, hs_state := CHUNK_CR\<rparr>)"
      by (auto simp: body_byte_done_def Let_def)
    with step True show ?thesis
      by (simp del: z80_http_stream_feed.simps split: prod.splits)
  next
    case False
    have "(of_nat (length cs) :: u32) \<noteq> 0"
      using False Cons.prems(5) by (auto simp: word_of_nat_eq_0_iff dest: dvd_imp_le)
    with rem Cons.prems(1) have "body_byte_done s = s\<lparr>hs_remaining := of_nat (length cs)\<rparr>"
      by (auto simp: body_byte_done_def Let_def)
    with step Cons.IH [of "s\<lparr>hs_remaining := of_nat (length cs)\<rparr>" "out @ [c]"] Cons.prems False show ?thesis
      by (auto simp del: z80_http_stream_feed.simps split: prod.splits)
  qed
qed simp

section \<open>Chunked bodies\<close>

definition chunk :: "bytes \<Rightarrow> bytes" where
  "chunk bs = hex (length bs) @ [13, 10] @ bs @ [13, 10]"

definition last_chunk :: bytes where
  "last_chunk = hex 0 @ [13, 10] @ [13, 10]"

definition at_chunk :: "http_stream \<Rightarrow> bool" where
  "at_chunk s \<longleftrightarrow> hs_state s = CHUNK_SIZE \<and> hs_error s = None \<and> \<not> hs_done s \<and> hs_line s = [] \<and> hs_header_bytes s \<le> 8000"

lemma size_line:
  assumes "at_chunk s" and "n < 2 ^ 32"
  shows "z80_http_stream_feed emit s e (hex n @ [13, 10] @ rest) =
    (case z80_http_stream_feed emit
       (if n = 0 then s\<lparr>hs_header_bytes := hs_header_bytes s + length (hex n) + 2, hs_remaining := 0, hs_state := TRAILERS\<rparr>
        else s\<lparr>hs_header_bytes := 0, hs_remaining := of_nat n, hs_state := CHUNK_BODY\<rparr>) e rest
     of (k, r) \<Rightarrow> (length (hex n) + 2 + k, r))"
proof -
  have len: "length (hex n) \<le> 8"
    using hex_length [of n 8] assms(2) by simp
  have chars: "list_all line_char (hex n)"
    using hex_chars by (auto simp: list_all_iff line_char_def intro: order.strict_implies_order)
  have num: "http_number (hex n) 16 = (True, of_nat n)"
    using number_hex [OF assms(2)] by (simp add: http_number_def)
  have z: "(of_nat n :: u32) = 0 \<longleftrightarrow> n = 0"
    using assms(2) by (auto simp: word_of_nat_eq_0_iff dest: dvd_imp_le)
  have "at_line s"
    using assms(1) by (auto simp: at_chunk_def at_line_def)
  with feed_line [of s "hex n" emit e rest] assms(1) len chars num z show ?thesis
    by (cases s) (auto simp: at_chunk_def http_line_def Let_def simp del: z80_http_stream_feed.simps split: prod.splits)
qed

lemma feed_delimiter:
  assumes "hs_state s = CHUNK_CR" and "hs_error s = None" and "\<not> hs_done s"
  shows "z80_http_stream_feed emit s e ([13, 10] @ rest) =
    (case z80_http_stream_feed emit (s\<lparr>hs_state := CHUNK_SIZE\<rparr>) e rest of (n, r) \<Rightarrow> (2 + n, r))"
  using assms by (auto simp: delimiter_byte_def split: prod.splits)

lemma feed_chunk:
  assumes s: "at_chunk s" and "bs \<noteq> []" and "length bs < 2 ^ 32"
  shows "z80_http_stream_feed collect s out (chunk bs @ rest) =
    (case z80_http_stream_feed collect (s\<lparr>hs_header_bytes := 0, hs_remaining := 0\<rparr>) (out @ bs) rest
     of (k, r) \<Rightarrow> (length (chunk bs) + k, r))"
proof -
  let ?s = "s\<lparr>hs_header_bytes := 0, hs_remaining := of_nat (length bs), hs_state := CHUNK_BODY\<rparr>"
  have ok: "hs_error s = None" "\<not> hs_done s" "hs_state s = CHUNK_SIZE"
    using s by (auto simp: at_chunk_def)
  have 1: "z80_http_stream_feed collect s out (hex (length bs) @ [13, 10] @ bs @ [13, 10] @ rest) =
      (case z80_http_stream_feed collect ?s out (bs @ [13, 10] @ rest) of (k, r) \<Rightarrow> (length (hex (length bs)) + 2 + k, r))"
    using size_line [OF s assms(3)] assms(2) by (simp del: z80_http_stream_feed.simps)
  have 2: "z80_http_stream_feed collect ?s out (bs @ [13, 10] @ rest) =
      (case z80_http_stream_feed collect (?s\<lparr>hs_remaining := 0, hs_state := CHUNK_CR\<rparr>) (out @ bs) ([13, 10] @ rest)
       of (n, r) \<Rightarrow> (length bs + n, r))"
    using feed_body [of ?s bs out "[13, 10] @ rest"] assms(2,3) ok by (simp del: z80_http_stream_feed.simps)
  have 3: "z80_http_stream_feed collect (?s\<lparr>hs_remaining := 0, hs_state := CHUNK_CR\<rparr>) (out @ bs) ([13, 10] @ rest) =
      (case z80_http_stream_feed collect (?s\<lparr>hs_remaining := 0, hs_state := CHUNK_SIZE\<rparr>) (out @ bs) rest
       of (n, r) \<Rightarrow> (2 + n, r))"
    using feed_delimiter [of "?s\<lparr>hs_remaining := 0, hs_state := CHUNK_CR\<rparr>"] ok
    by (simp del: z80_http_stream_feed.simps)
  have "?s\<lparr>hs_remaining := 0, hs_state := CHUNK_SIZE\<rparr> = s\<lparr>hs_header_bytes := 0, hs_remaining := 0\<rparr>"
    using ok by (cases s) simp
  with 1 2 3 show ?thesis
    by (simp add: chunk_def del: z80_http_stream_feed.simps split: prod.splits)
qed

lemma feed_chunks:
  assumes "at_chunk s" and "list_all (\<lambda>bs. bs \<noteq> [] \<and> length bs < 2 ^ 32) chunks"
  shows "\<exists>s'. at_chunk s' \<and> z80_http_stream_feed collect s out (concat (map chunk chunks) @ rest) =
    (case z80_http_stream_feed collect s' (out @ concat chunks) rest of (k, r) \<Rightarrow> (length (concat (map chunk chunks)) + k, r))"
  using assms
proof (induction chunks arbitrary: s out)
  case Nil
  then show ?case by (auto split: prod.splits)
next
  case (Cons bs chunks)
  let ?s = "s\<lparr>hs_header_bytes := 0, hs_remaining := 0\<rparr>"
  have "at_chunk ?s"
    using Cons.prems(1) by (simp add: at_chunk_def)
  with Cons obtain s' where s': "at_chunk s'" "z80_http_stream_feed collect ?s (out @ bs) (concat (map chunk chunks) @ rest) =
      (case z80_http_stream_feed collect s' ((out @ bs) @ concat chunks) rest of (k, r) \<Rightarrow>
        (length (concat (map chunk chunks)) + k, r))"
    by fastforce
  have "z80_http_stream_feed collect s out (chunk bs @ concat (map chunk chunks) @ rest) =
      (case z80_http_stream_feed collect ?s (out @ bs) (concat (map chunk chunks) @ rest) of (k, r) \<Rightarrow>
        (length (chunk bs) + k, r))"
    using Cons.prems by (intro feed_chunk) auto
  with s' show ?case
    by (intro exI [of _ s']) (simp del: z80_http_stream_feed.simps split: prod.splits)
qed

lemma feed_last_chunk:
  assumes "at_chunk s"
  shows "\<exists>s'. z80_http_stream_feed emit s e (last_chunk @ rest) = (length last_chunk, s', e) \<and> hs_done s' \<and> hs_error s' = None"
proof -
  let ?s = "s\<lparr>hs_header_bytes := hs_header_bytes s + length (hex 0) + 2, hs_remaining := 0, hs_state := TRAILERS\<rparr>"
  have h: "hs_header_bytes s \<le> 8000" "length (hex 0) = 1"
    using assms by (auto simp: at_chunk_def hex.simps)
  have "at_line ?s"
    using assms by (auto simp: at_chunk_def at_line_def)
  then have "z80_http_stream_feed emit ?s e ([] @ [13, 10] @ rest) =
      (case z80_http_stream_feed emit (?s\<lparr>hs_header_bytes := hs_header_bytes ?s + 2, hs_done := True, hs_line := []\<rparr>) e rest of
        (n, r) \<Rightarrow> (2 + n, r))"
    using assms h by (subst feed_line) (auto simp: at_chunk_def http_line_def end_of_headers_def Let_def split: prod.splits)
  moreover have "z80_http_stream_feed emit (?s\<lparr>hs_header_bytes := hs_header_bytes ?s + 2, hs_done := True, hs_line := []\<rparr>) e rest =
      (0, ?s\<lparr>hs_header_bytes := hs_header_bytes ?s + 2, hs_done := True, hs_line := []\<rparr>, e)"
    by (cases rest) simp_all
  ultimately show ?thesis
    using size_line [OF assms, of 0 emit e "[13, 10] @ rest"] assms h
    by (simp add: last_chunk_def at_chunk_def del: z80_http_stream_feed.simps)
qed

definition chunked_head :: bytes where
  "chunked_head = ascii ''HTTP/1.1 200 OK'' @ [13, 10] @ ascii ''Transfer-Encoding: chunked'' @ [13, 10] @ [13, 10]"

lemma chunked_head_fed:
  "\<exists>s. z80_http_stream_feed collect z80_http_stream_init [] chunked_head = (length chunked_head, s, []) \<and> at_chunk s"
proof -
  let ?t = "ascii ''Transfer-Encoding: chunked''" and ?h = "ascii ''HTTP/1.1 200 OK''"
  let ?s1 = "z80_http_stream_init\<lparr>hs_header_bytes := 17, hs_status := 200, hs_state := HEADERS\<rparr>"
  let ?s2 = "?s1\<lparr>hs_header_bytes := 45, hs_chunked := True\<rparr>"
  let ?s3 = "?s2\<lparr>hs_header_bytes := 47, hs_state := CHUNK_SIZE\<rparr>"
  have h: "length ?h = 15" "list_all line_char ?h"
    "http_line (z80_http_stream_init\<lparr>hs_header_bytes := 17, hs_line := ?h\<rparr>) = ?s1\<lparr>hs_line := ?h\<rparr>"
    by (simp_all add: ascii_def line_char_def http_line_def status_line_def is_digit_def Let_def z80_http_stream_init_def)
  have t: "length ?t = 26" "list_all line_char ?t"
    "http_line (?s1\<lparr>hs_header_bytes := 45, hs_line := ?t\<rparr>) = ?s2\<lparr>hs_line := ?t\<rparr>"
    by (simp_all add: ascii_def line_char_def http_line_def header_line_def header_field_def is_blank_def
        header_name_char_def is_alpha_def is_digit_def equal_ci_def to_lower_def trim_blanks_def Let_def
        z80_http_stream_init_def)
  have 1: "z80_http_stream_feed collect z80_http_stream_init [] (?h @ [13, 10] @ rest) =
      (case z80_http_stream_feed collect ?s1 [] rest of (n, r) \<Rightarrow> (17 + n, r))" for rest
    using feed_line [of z80_http_stream_init ?h collect "[]" rest] h
    by (simp add: at_line_def z80_http_stream_init_def del: z80_http_stream_feed.simps)
  have 2: "z80_http_stream_feed collect ?s1 [] (?t @ [13, 10] @ rest) =
      (case z80_http_stream_feed collect ?s2 [] rest of (n, r) \<Rightarrow> (28 + n, r))" for rest
    using feed_line [of ?s1 ?t collect "[]" rest] t
    by (simp add: at_line_def z80_http_stream_init_def del: z80_http_stream_feed.simps)
  have 3: "z80_http_stream_feed collect ?s2 [] ([] @ [13, 10] @ rest) =
      (case z80_http_stream_feed collect ?s3 [] rest of (n, r) \<Rightarrow> (2 + n, r))" for rest
    by (subst feed_line) (simp_all add: at_line_def z80_http_stream_init_def http_line_def end_of_headers_def
        Let_def del: z80_http_stream_feed.simps)
  have "z80_http_stream_feed collect z80_http_stream_init [] (?h @ [13, 10] @ ?t @ [13, 10] @ [] @ [13, 10] @ []) = (47, ?s3, [])"
    by (simp only: 1 2 3) simp
  moreover have "at_chunk ?s3"
    by (simp add: at_chunk_def z80_http_stream_init_def)
  ultimately show ?thesis
    by (auto simp: chunked_head_def ascii_def simp del: z80_http_stream_feed.simps)
qed

section \<open>URLs\<close>

definition url_ok :: "http_url \<Rightarrow> bool" where
  "url_ok u \<longleftrightarrow> url_authority u \<noteq> [] \<and> length (url_authority u) < 260 \<and>
     list_all (\<lambda>c. url_char_ok c \<and> c \<noteq> 47 \<and> c \<noteq> 63) (url_authority u) \<and>
     url_host u = takeWhile (\<lambda>c. c \<noteq> 58) (url_authority u) \<and> url_host u \<noteq> [] \<and> length (url_host u) < 254 \<and>
     list_all host_char_ok (url_host u) \<and>
     (if 58 \<in> set (url_authority u)
      then drop (length (url_host u) + 1) (url_authority u) \<noteq> [] \<and>
        (\<exists>p. url_port_digits (drop (length (url_host u) + 1) (url_authority u)) 0 = Some p \<and> p \<noteq> 0 \<and> url_port u = of_nat p)
      else url_port u = (if url_https u then 443 else 80)) \<and>
     length (url_path u) < Z80_HTTP_URL_MAX \<and> url_path u \<noteq> [] \<and> hd (url_path u) = 47"

lemma takeWhile_list_all: "list_all P xs \<Longrightarrow> list_all (\<lambda>c. P c \<and> Q c) (takeWhile Q xs)"
  by (auto simp: list_all_iff dest: set_takeWhileD)

lemma parse_ok:
  assumes "z80_http_url_parse text = Some u"
  shows "url_ok u"
proof -
  define https where "https = starts_ci (ascii ''https://'') text"
  define host where "host = drop (if https then 8 else 7) text"
  define authority where "authority = takeWhile (\<lambda>c. c \<noteq> 47 \<and> c \<noteq> 63) host"
  define rest where "rest = dropWhile (\<lambda>c. c \<noteq> 47 \<and> c \<noteq> 63) host"
  define name where "name = takeWhile (\<lambda>c. c \<noteq> 58) authority"
  define path where "path = (if rest \<noteq> [] \<and> hd rest = 47 then [] else ascii ''/'') @ rest"
  note defs = https_def [symmetric] host_def [symmetric] authority_def [symmetric] rest_def [symmetric]
    name_def [symmetric] path_def [symmetric]
  note run = assms [unfolded z80_http_url_parse_def Let_def defs]
  have "list_all url_char_ok host"
    using run by (simp split: if_splits)
  then have "list_all (\<lambda>c. url_char_ok c \<and> c \<noteq> 47 \<and> c \<noteq> 63) authority"
    unfolding authority_def by (rule takeWhile_list_all)
  moreover have "path \<noteq> []" "hd path = 47"
    by (auto simp: path_def ascii_def)
  ultimately show ?thesis
    using run name_def by (simp add: url_ok_def split: if_splits option.splits) auto
qed

text \<open>Scheme, authority and path are parsed back to the same URL.\<close>

lemma scheme_text:
  "starts_ci (ascii ''https://'') (ascii ''https://'' @ t)" "\<not> starts_ci (ascii ''https://'') (ascii ''http://'' @ t)"
  "starts_ci (ascii ''http://'') (ascii ''http://'' @ t)" "length (ascii ''https://'') = 8" "length (ascii ''http://'') = 7"
  by (simp_all add: starts_ci_def ascii_def to_lower_def)

lemma scheme_concat:
  "ascii ''https'' @ ascii ''://'' @ t = ascii ''https://'' @ t" "ascii ''http'' @ ascii ''://'' @ t = ascii ''http://'' @ t"
  by (simp_all add: ascii_def)

lemma url_okD:
  assumes "url_ok u"
  shows "url_authority u \<noteq> []" "length (url_authority u) < 260" "url_host u \<noteq> []" "length (url_host u) < 254"
    "list_all host_char_ok (url_host u)" "takeWhile (\<lambda>c. c \<noteq> 58) (url_authority u) = url_host u"
    "if 58 \<in> set (url_authority u)
     then drop (length (url_host u) + 1) (url_authority u) \<noteq> [] \<and>
       (\<exists>p. url_port_digits (drop (length (url_host u) + 1) (url_authority u)) 0 = Some p \<and> p \<noteq> 0 \<and> url_port u = of_nat p)
     else url_port u = (if url_https u then 443 else 80)"
  using assms unfolding url_ok_def by argo+

lemma parse_print:
  assumes u: "url_ok u" and path: "path \<noteq> []" "hd path = 47" "list_all url_char_ok path" "length path < Z80_HTTP_URL_MAX"
  shows "z80_http_url_parse ((if url_https u then ascii ''https://'' else ascii ''http://'') @ url_authority u @ path) =
    Some (u\<lparr>url_path := path\<rparr>)"
proof -
  let ?text = "(if url_https u then ascii ''https://'' else ascii ''http://'') @ url_authority u @ path"
  have scheme: "starts_ci (ascii ''https://'') ?text = url_https u"
    "url_https u \<or> starts_ci (ascii ''http://'') ?text" "drop (if url_https u then 8 else 7) ?text = url_authority u @ path"
    using scheme_text by auto
  have auth: "list_all (\<lambda>c. c \<noteq> 47 \<and> c \<noteq> 63) (url_authority u)" "list_all url_char_ok (url_authority u)"
    using u by (auto simp: url_ok_def list_all_iff)
  then have split: "takeWhile (\<lambda>c. c \<noteq> 47 \<and> c \<noteq> 63) (url_authority u @ path) = url_authority u"
    "dropWhile (\<lambda>c. c \<noteq> 47 \<and> c \<noteq> 63) (url_authority u @ path) = path"
    using path(1,2) by (auto simp: list_all_iff takeWhile_append2 dropWhile_append2 takeWhile_eq_Nil_iff dropWhile_eq_self_iff)
  have port: "\<exists>p. (if 58 \<in> set (url_authority u) then
        if drop (length (url_host u) + 1) (url_authority u) = [] then None
        else case url_port_digits (drop (length (url_host u) + 1) (url_authority u)) 0 of None \<Rightarrow> None
             | Some p \<Rightarrow> if p = 0 then None else Some p
      else Some (if url_https u then 443 else 80)) = Some p \<and> url_port u = of_nat p"
    (is "\<exists>p. ?port = Some p \<and> _")
  proof (cases "58 \<in> set (url_authority u)")
    case True
    have "drop (length (url_host u) + 1) (url_authority u) \<noteq> [] \<and>
        (\<exists>p. url_port_digits (drop (length (url_host u) + 1) (url_authority u)) 0 = Some p \<and> p \<noteq> 0 \<and> url_port u = of_nat p)"
      using url_okD(7) [OF u] True by simp
    then obtain p where "drop (length (url_host u) + 1) (url_authority u) \<noteq> []"
      "url_port_digits (drop (length (url_host u) + 1) (url_authority u)) 0 = Some p" "p \<noteq> 0" "url_port u = of_nat p"
      by blast
    with True show ?thesis by (intro exI [of _ p]) simp
  next
    case False
    with url_okD(7) [OF u] show ?thesis by simp
  qed
  then obtain p where port: "?port = Some p" "url_port u = of_nat p"
    by blast
  have "list_all url_char_ok (url_authority u @ path)"
    using auth path(3) by simp
  then show ?thesis
    unfolding z80_http_url_parse_def Let_def scheme split url_okD(6) [OF u] port(1)
    using url_okD(1-5) [OF u] path(1,2,4) scheme(2) port(2) by simp
qed

lemma redirect_secure:
  assumes "z80_http_url_redirect u location = Some u'" and "url_https u"
  shows "url_https u'"
proof -
  obtain t where "(if t = [] \<or> length t \<ge> Z80_HTTP_URL_MAX then None
      else case z80_http_url_parse t of None \<Rightarrow> None
           | Some u1 \<Rightarrow> if url_https u \<and> \<not> url_https u1 then None else Some u1) = Some u'"
    using assms(1) unfolding z80_http_url_redirect_def Let_def by blast
  with assms(2) show ?thesis
    by (auto split: if_splits option.splits)
qed

section \<open>Properties\<close>

text \<open>
  C20. A chunked response is decoded exactly: whatever the body and however the server cuts it into
  non-empty chunks, the bytes handed on are the concatenation of the chunks, the parser then
  reports the response complete without error, and it has consumed exactly the bytes of the
  response, leaving whatever follows on the connection.
\<close>

theorem chunked_response_decoded:
  assumes "list_all (\<lambda>bs. bs \<noteq> [] \<and> length bs < 2 ^ 32) chunks"
  defines "body \<equiv> concat (map chunk chunks) @ last_chunk"
  shows "\<exists>s. z80_http_stream_feed collect z80_http_stream_init [] (chunked_head @ body @ rest) =
      (length (chunked_head @ body), s, concat chunks) \<and> hs_done s \<and> hs_error s = None"
proof -
  obtain s0 where s0: "z80_http_stream_feed collect z80_http_stream_init [] chunked_head = (length chunked_head, s0, [])"
    "at_chunk s0"
    using chunked_head_fed by blast
  obtain s1 where s1: "at_chunk s1" "z80_http_stream_feed collect s0 [] (concat (map chunk chunks) @ last_chunk @ rest) =
      (case z80_http_stream_feed collect s1 (concat chunks) (last_chunk @ rest) of (k, r) \<Rightarrow>
        (length (concat (map chunk chunks)) + k, r))"
    using feed_chunks [OF s0(2) assms(1), of "[]" "last_chunk @ rest"] by auto
  obtain s2 where "z80_http_stream_feed collect s1 (concat chunks) (last_chunk @ rest) = (length last_chunk, s2, concat chunks)"
    "hs_done s2" "hs_error s2 = None"
    using feed_last_chunk [OF s1(1), of collect "concat chunks" rest] by blast
  with s0 s1 show ?thesis
    by (simp add: feed_append body_def del: z80_http_stream_feed.simps)
qed

theorem chunked_response_decoded_witness:
  "\<exists>s. z80_http_stream_feed collect z80_http_stream_init []
       (chunked_head @ (concat (map chunk [[1, 2, 3], [4]]) @ last_chunk) @ [9]) =
     (length (chunked_head @ concat (map chunk [[1, 2, 3], [4]]) @ last_chunk), s, [1, 2, 3, 4]) \<and> hs_done s"
  using chunked_response_decoded [of "[[1, 2, 3], [4]]" "[9]"] by auto


text \<open>
  No response, however malformed, drives the parser out of its buffers: after any input the line buffer
  holds at most 1023 bytes, the location fits its array with the terminating zero, at most 8193
  bytes of metadata have been counted, the parser never takes more bytes than it was
  given, and inside a body the count of remaining bytes is not zero.
\<close>

theorem parser_stays_in_bounds:
  "case z80_http_stream_feed emit z80_http_stream_init e data of (n, s, _) \<Rightarrow>
     n \<le> length data \<and> length (hs_line s) \<le> 1023 \<and> length (hs_location s) < Z80_HTTP_URL_MAX \<and> hs_header_bytes s \<le> 8193 \<and>
     (hs_state s \<in> {BODY_LENGTH, CHUNK_BODY} \<and> \<not> hs_done s \<and> hs_error s = None \<longrightarrow> hs_remaining s \<noteq> 0)"
proof -
  have "stream_inv z80_http_stream_init"
    by (simp add: stream_inv_def z80_http_stream_init_def)
  from feed_inv [OF this, of emit e data] feed_consumed_le [of emit z80_http_stream_init e data] show ?thesis
    by (auto simp: stream_inv_def split: prod.splits)
qed

theorem parser_stays_in_bounds_witness:
  "case z80_http_stream_feed collect z80_http_stream_init [] (ascii ''HTTP/1.1 200 OK'') of (n, s, _) \<Rightarrow>
     n \<le> 15 \<and> length (hs_line s) \<le> 1023"
  using parser_stays_in_bounds [where emit = collect and e = "[]" and data = "ascii ''HTTP/1.1 200 OK''"]
  by (auto simp: length_ascii split: prod.splits)



end
