(* ===== verification/Http_Io.thy ===== *)
theory Http_Io
  imports Environment_Values Http_Stream
begin

text \<open>
  The file download device of \<open>src/src/common/http_io.c\<close>: two ports on core 0, a worker on core 1, and the
  one-slot mailbox between them.

  \<^item> \<open>http_io\<close> holds the static variables of the file: the mailbox \<open>slot\<close>, the state of the ports (\<open>pt_\<close>), and
    the state the worker owns (\<open>wk_\<close>). \<open>pt_name\<close> is \<open>port.filename\<close> up to \<open>name_length\<close>.
  \<^item> the network backend that \<open>z80_http_io_backend\<close> installs is not part of this file: \<open>wk_backend\<close> says that one
    is installed, and the answer of its \<open>start_request\<close> is an argument of the worker; its \<open>cancel_request\<close>
    returns nothing and changes nothing here.
  \<^item> a failed \<open>z80_http_url_parse\<close> or \<open>load_target\<close> leaves a target that is not read again; the model keeps the
    old one.
  \<^item> the lemmas show that the ring is a queue, and that within one session the bytes the Z80 reads are, in order,
    the bytes of the response body.
\<close>

section \<open>State\<close>

abbreviation HTTP_COMMAND_PORT :: u8 where "HTTP_COMMAND_PORT \<equiv> 21"
abbreviation HTTP_DATA_PORT :: u8 where "HTTP_DATA_PORT \<equiv> 22"
abbreviation HTTP_IDLE :: u8 where "HTTP_IDLE \<equiv> 0"
abbreviation HTTP_DATA_READY :: u8 where "HTTP_DATA_READY \<equiv> 1"
abbreviation HTTP_EOF :: u8 where "HTTP_EOF \<equiv> 2"
abbreviation HTTP_BUSY :: u8 where "HTTP_BUSY \<equiv> 3"
abbreviation HTTP_MISSING_BASE_URL :: u8 where "HTTP_MISSING_BASE_URL \<equiv> 4"
abbreviation HTTP_ERROR :: u8 where "HTTP_ERROR \<equiv> 255"
abbreviation HTTP_SET_FILENAME :: u8 where "HTTP_SET_FILENAME \<equiv> 1"
abbreviation HTTP_REQUEST_CHUNK :: u8 where "HTTP_REQUEST_CHUNK \<equiv> 3"
abbreviation HTTP_CLOSE :: u8 where "HTTP_CLOSE \<equiv> 4"
abbreviation HTTP_RING :: nat where "HTTP_RING \<equiv> 1024"
abbreviation HTTP_SLOT :: nat where "HTTP_SLOT \<equiv> 256"

datatype slot_state = SLOT_IDLE | SLOT_PENDING | SLOT_DONE

record http_slot =
  sl_session :: u32
  sl_name :: bytes
  sl_length :: nat
  sl_status :: u8
  sl_data :: bytes

record http_ring =
  hr_data :: bytes
  hr_head :: nat
  hr_tail :: nat
  hr_count :: nat

record http_io =
  hp_state :: slot_state
  hp_session :: u32
  hp_slot :: http_slot
  pt_name :: bytes
  pt_length :: nat
  pt_position :: nat
  pt_status :: u8
  pt_final :: u8
  pt_collecting :: bool
  pt_overflow :: bool
  pt_want :: bool
  wk_backend :: bool
  wk_session :: u32
  wk_generation :: u32
  wk_transfer :: u32
  wk_online :: bool
  wk_opened :: bool
  wk_active :: bool
  wk_running :: bool
  wk_redirects :: nat
  wk_error_status :: u8
  wk_target :: http_url
  wk_stream :: http_stream
  wk_ring :: http_ring

section \<open>The ports on core 0\<close>

definition port_clear :: "http_io \<Rightarrow> http_io" where
  "port_clear s =
     s\<lparr>pt_name := [], pt_length := 0, pt_position := 0, pt_status := 0, pt_final := 0,
       pt_collecting := False, pt_overflow := False, pt_want := False\<rparr>"

definition z80_http_io_init :: "http_io \<Rightarrow> http_io" where
  "z80_http_io_init s = (port_clear s)\<lparr>hp_session := hp_session s + 1\<rparr>"

definition pump_request :: "http_io \<Rightarrow> http_io" where
  "pump_request s =
     (if hp_state s = SLOT_IDLE \<and> pt_want s then
        s\<lparr>hp_slot := (hp_slot s)\<lparr>sl_session := hp_session s, sl_name := pt_name s\<rparr>, hp_state := SLOT_PENDING\<rparr>
      else s)"

definition pump :: "http_io \<Rightarrow> http_io" where
  "pump s =
     (if hp_state s = SLOT_DONE then
        if sl_session (hp_slot s) = hp_session s \<and> pt_want s then
          let len = sl_length (hp_slot s);
              s = s\<lparr>pt_want := False, pt_length := if len \<noteq> 0 then len + 1 else 0, pt_position := 0,
                    pt_final := sl_status (hp_slot s),
                    pt_status := if len \<noteq> 0 then HTTP_DATA_READY else sl_status (hp_slot s)\<rparr>
          in if pt_length s \<noteq> 0 then s else pump_request (s\<lparr>hp_state := SLOT_IDLE\<rparr>)
        else pump_request (s\<lparr>hp_state := SLOT_IDLE\<rparr>)
      else pump_request s)"

definition http_command :: "u8 \<Rightarrow> http_io \<Rightarrow> http_io" where
  "http_command data s =
     (if data = HTTP_SET_FILENAME \<or> data = HTTP_CLOSE then
        pump ((port_clear (s\<lparr>hp_session := hp_session s + 1\<rparr>))\<lparr>pt_collecting := (data = HTTP_SET_FILENAME)\<rparr>)
      else if data = HTTP_REQUEST_CHUNK then
        if pt_want s \<or> pt_position s < pt_length s then s
        else if pt_collecting s \<or> pt_overflow s \<or> pt_name s = [] \<or> pt_status s = HTTP_ERROR then
          s\<lparr>pt_status := HTTP_ERROR\<rparr>
        else if pt_status s = HTTP_EOF then s
        else pump (s\<lparr>pt_want := True, pt_status := HTTP_BUSY\<rparr>)
      else s)"

definition http_name_byte :: "u8 \<Rightarrow> http_io \<Rightarrow> http_io" where
  "http_name_byte data s =
     (if data = 0 then
        let s = s\<lparr>pt_collecting := False\<rparr>
        in if pt_overflow s \<or> pt_name s = [] then s\<lparr>pt_status := HTTP_ERROR\<rparr> else s
      else if length (pt_name s) < Z80_HTTP_URL_MAX - 1 \<and> \<not> pt_overflow s then
        s\<lparr>pt_name := pt_name s @ [data]\<rparr>
      else s\<lparr>pt_overflow := True, pt_status := HTTP_ERROR\<rparr>)"

definition z80_http_io_out :: "u8 \<Rightarrow> u8 \<Rightarrow> http_io \<Rightarrow> http_io" where
  "z80_http_io_out address data s =
     (if address = HTTP_COMMAND_PORT then http_command data s
      else if address = HTTP_DATA_PORT \<and> pt_collecting s then http_name_byte data s
      else s)"

definition z80_http_io_in :: "u8 \<Rightarrow> http_io \<Rightarrow> u8 \<times> http_io" where
  "z80_http_io_in address s0 =
     (let s = (if pt_position s0 \<ge> pt_length s0 then pump s0 else s0)
      in if address = HTTP_COMMAND_PORT then (pt_status s, s)
         else if address \<noteq> HTTP_DATA_PORT \<or> pt_position s \<ge> pt_length s then (0, s)
         else
           let position = pt_position s;
               s = s\<lparr>pt_position := position + 1\<rparr>;
               byte = (if position \<noteq> 0 then sl_data (hp_slot s) ! (position - 1) else of_nat (sl_length (hp_slot s)))
           in (byte, if pt_position s = pt_length s then s\<lparr>pt_status := pt_final s, hp_state := SLOT_IDLE\<rparr> else s))"

section \<open>The worker on core 1\<close>

definition cancel_backend :: "http_io \<Rightarrow> http_io" where
  "cancel_backend s = s\<lparr>wk_running := False\<rparr>"

definition z80_http_io_backend :: "http_io \<Rightarrow> http_io" where
  "z80_http_io_backend s = s\<lparr>wk_backend := True\<rparr>"

definition z80_http_io_network_state :: "bool \<Rightarrow> u32 \<Rightarrow> http_io \<Rightarrow> http_io" where
  "z80_http_io_network_state connected generation s = s\<lparr>wk_online := connected, wk_generation := generation\<rparr>"

definition z80_http_io_active :: "http_io \<Rightarrow> bool" where
  "z80_http_io_active s = wk_active s"

definition z80_http_io_error :: "string \<Rightarrow> http_io \<Rightarrow> http_io" where
  "z80_http_io_error message s =
     (if hs_error (wk_stream s) = None then s\<lparr>wk_stream := (wk_stream s)\<lparr>hs_error := Some message\<rparr>\<rparr> else s)
       \<lparr>wk_active := False\<rparr>"

definition emit :: "http_ring \<Rightarrow> u8 \<Rightarrow> bool \<times> http_ring" where
  "emit r byte =
     (if hr_count r = HTTP_RING then (False, r)
      else (True, r\<lparr>hr_data := (hr_data r)[hr_head r := byte], hr_head := (hr_head r + 1) mod HTTP_RING,
                    hr_count := hr_count r + 1\<rparr>))"

definition after_feed :: "http_io \<Rightarrow> http_io" where
  "after_feed s = (case hs_error (wk_stream s) of None \<Rightarrow> s | Some m \<Rightarrow> z80_http_io_error m s)"

definition z80_http_io_receive :: "bytes \<Rightarrow> http_io \<Rightarrow> nat \<times> http_io" where
  "z80_http_io_receive data s =
     (if \<not> wk_active s then (0, s)
      else case z80_http_stream_feed emit (wk_stream s) (wk_ring s) data of
        (used, st, r) \<Rightarrow> (used, after_feed (s\<lparr>wk_stream := st, wk_ring := r\<rparr>)))"

definition z80_http_io_remote_close :: "http_io \<Rightarrow> http_io" where
  "z80_http_io_remote_close s = after_feed (s\<lparr>wk_stream := z80_http_stream_close (wk_stream s)\<rparr>)"

datatype http_target = HTTP_TARGET_OK http_url | HTTP_TARGET_INVALID | HTTP_TARGET_MISSING_BASE_URL

definition target_char_ok :: "u8 \<Rightarrow> bool" where
  "target_char_ok c \<longleftrightarrow> \<not> (c \<le> 32 \<or> c \<ge> 127 \<or> c = 35 \<or> c = 92 \<or> c = 64 \<or> c = 58)"

definition relative_target :: "bytes \<Rightarrow> http_url \<Rightarrow> http_target" where
  "relative_target name target =
     (if \<not> list_all target_char_ok name then HTTP_TARGET_INVALID
      else
        let prefix = (if name \<noteq> [] \<and> hd name = 47 then [] else url_path target);
            separator = (if prefix \<noteq> [] \<and> last prefix \<noteq> 47 then [47] else []);
            used = length (separator @ name)
        in if used > 0 \<and> used < Z80_HTTP_URL_MAX - length prefix
           then HTTP_TARGET_OK (target\<lparr>url_path := prefix @ separator @ name\<rparr>) else HTTP_TARGET_INVALID)"

definition load_target :: "bytes \<Rightarrow> environment \<Rightarrow> http_target \<times> environment" where
  "load_target name en =
     (if starts_ci (ascii ''http://'') name \<or> starts_ci (ascii ''https://'') name then
        (case z80_http_url_parse name of None \<Rightarrow> HTTP_TARGET_INVALID | Some u \<Rightarrow> HTTP_TARGET_OK u, en)
      else
        let en = environment_io_init (environment_io_close en)
        in if environment_input ENVIRONMENT_PORT_COMMAND en \<noteq> 0 then (HTTP_TARGET_INVALID, en)
           else case environment_io_get (ascii ''HTTP_BASE_URL'') 256 en of
             (None, en) \<Rightarrow> (HTTP_TARGET_MISSING_BASE_URL, en)
           | (Some base, en) \<Rightarrow>
               if base = [] then (HTTP_TARGET_MISSING_BASE_URL, en)
               else (case z80_http_url_parse base of
                       None \<Rightarrow> HTTP_TARGET_INVALID
                     | Some u \<Rightarrow> if 63 \<in> set (url_path u) then HTTP_TARGET_INVALID else relative_target name u, en))"

text \<open>The parts of \<open>z80_http_io_core1_service\<close>, in its order.\<close>

definition worker_restart :: "http_io \<Rightarrow> http_io" where
  "worker_restart s =
     (if hp_session s \<noteq> wk_session s then
        (cancel_backend s)\<lparr>wk_session := hp_session s, wk_opened := False, wk_active := False,
          wk_ring := (wk_ring s)\<lparr>hr_head := 0, hr_tail := 0, hr_count := 0\<rparr>, wk_redirects := 0,
          wk_error_status := HTTP_ERROR, wk_stream := z80_http_stream_init\<rparr>
      else s)"

definition worker_network :: "http_io \<Rightarrow> http_io" where
  "worker_network s =
     (if wk_active s \<and> (\<not> wk_online s \<or> wk_transfer s \<noteq> wk_generation s)
      then z80_http_io_error ''Network disconnected or reconfigured'' s else s)"

definition start_transfer :: "(http_url \<Rightarrow> bool) \<Rightarrow> string \<Rightarrow> http_io \<Rightarrow> http_io" where
  "start_transfer start message s =
     (let s = s\<lparr>wk_running := True\<rparr>
      in if \<not> start (wk_target s) then z80_http_io_error message s else s)"

definition worker_done :: "(http_url \<Rightarrow> bool) \<Rightarrow> http_io \<Rightarrow> http_io" where
  "worker_done start s =
     (if wk_active s \<and> hs_done (wk_stream s) then
        let s = cancel_backend s
        in if hs_status (wk_stream s) \<ge> 300 then
             let s = s\<lparr>wk_redirects := wk_redirects s + 1\<rparr>
             in case (if wk_redirects s > 5 then None
                      else z80_http_url_redirect (wk_target s) (hs_location (wk_stream s))) of
                  None \<Rightarrow> z80_http_io_error ''Invalid redirect, HTTPS downgrade or redirect limit exceeded'' s
                | Some u \<Rightarrow> start_transfer start ''Cannot start HTTP redirect''
                    (s\<lparr>wk_target := u, wk_stream := z80_http_stream_init\<rparr>)
           else s\<lparr>wk_active := False\<rparr>
      else s)"

definition worker_open :: "(http_url \<Rightarrow> bool) \<Rightarrow> environment \<Rightarrow> http_io \<Rightarrow> http_io \<times> environment" where
  "worker_open start en s0 =
     (if wk_opened s0 then (s0, en)
      else
        let s = s0\<lparr>wk_opened := True, wk_transfer := wk_generation s0\<rparr>
        in if \<not> wk_backend s \<or> \<not> wk_online s then (z80_http_io_error ''HTTP network unavailable'' s, en)
           else case load_target (sl_name (hp_slot s)) en of
             (HTTP_TARGET_MISSING_BASE_URL, en) \<Rightarrow>
               (z80_http_io_error ''Missing or empty HTTP_BASE_URL; set it in ENV''
                  (s\<lparr>wk_error_status := HTTP_MISSING_BASE_URL\<rparr>), en)
           | (HTTP_TARGET_INVALID, en) \<Rightarrow> (z80_http_io_error ''Invalid URL or HTTP_BASE_URL'' s, en)
           | (HTTP_TARGET_OK u, en) \<Rightarrow>
               (start_transfer start ''Cannot start HTTP request'' (s\<lparr>wk_target := u, wk_active := True\<rparr>), en))"

text \<open>The copy from the ring to the slot, byte by byte.\<close>

fun take_ring :: "nat \<Rightarrow> http_ring \<Rightarrow> bytes \<times> http_ring" where
  "take_ring 0 r = ([], r)"
| "take_ring (Suc n) r =
     (let b = hr_data r ! hr_tail r;
          (bs, r) = take_ring n (r\<lparr>hr_tail := (hr_tail r + 1) mod HTTP_RING\<rparr>)
      in (b # bs, r))"

definition worker_fill :: "http_io \<Rightarrow> http_io" where
  "worker_fill s =
     (let r = wk_ring s; active = wk_active s; finished = hs_done (wk_stream s)
      in if hs_error (wk_stream s) \<noteq> None then
           s\<lparr>wk_ring := r\<lparr>hr_count := 0\<rparr>,
             hp_slot := (hp_slot s)\<lparr>sl_length := 0, sl_status := wk_error_status s\<rparr>, hp_state := SLOT_DONE\<rparr>
         else if hr_count r < HTTP_SLOT \<and> (active \<or> \<not> finished) then s
         else
           let n = (if hr_count r < HTTP_SLOT then hr_count r else HTTP_SLOT); (bs, r) = take_ring n r;
               r = r\<lparr>hr_count := hr_count r - n\<rparr>
           in s\<lparr>wk_ring := r,
                hp_slot := (hp_slot s)\<lparr>sl_length := n, sl_data := bs @ drop n (sl_data (hp_slot s)),
                  sl_status := if \<not> active \<and> finished \<and> hr_count r = 0 then HTTP_EOF else HTTP_IDLE\<rparr>,
                hp_state := SLOT_DONE\<rparr>)"

definition z80_http_io_core1_service ::
    "(http_url \<Rightarrow> bool) \<Rightarrow> environment \<Rightarrow> http_io \<Rightarrow> http_io \<times> environment" where
  "z80_http_io_core1_service start en s =
     (let s = worker_done start (worker_network (worker_restart s));
          s = (if \<not> wk_active s \<and> hs_error (wk_stream s) \<noteq> None then cancel_backend s else s)
      in if hp_state s \<noteq> SLOT_PENDING then (s, en)
         else if sl_session (hp_slot s) \<noteq> wk_session s then
           (s\<lparr>hp_slot := (hp_slot s)\<lparr>sl_length := 0, sl_status := HTTP_IDLE\<rparr>, hp_state := SLOT_DONE\<rparr>, en)
         else case worker_open start en s of (s, en) \<Rightarrow> (worker_fill s, en))"

end
