(* ===== verification/Http_Session.thy ===== *)
theory Http_Session
  imports Http_Io "HOL-Library.Sublist"
begin

text \<open>
  What a download promises: however the port accesses of the Z80, the worker and the network interleave, the
  bytes the Z80 reads in a session are, in order, the bytes of the response body, and the end of file is
  reported only after the last of them.

  \<^item> \<open>ring_contents\<close> is the queue the ring holds; \<open>emit\<close> and \<open>take_ring\<close> are its two ends.
  \<^item> \<open>http_step\<close> is a step of one session, paired with what the Z80 has read and what the parser has handed on.
\<close>

section \<open>The ring is a queue\<close>

definition ring_ok :: "http_ring \<Rightarrow> bool" where
  "ring_ok r \<longleftrightarrow> length (hr_data r) = HTTP_RING \<and> hr_tail r < HTTP_RING \<and> hr_count r \<le> HTTP_RING \<and>
     hr_head r = (hr_tail r + hr_count r) mod HTTP_RING"

definition ring_contents :: "http_ring \<Rightarrow> bytes" where
  "ring_contents r = map (\<lambda>i. hr_data r ! ((hr_tail r + i) mod HTTP_RING)) [0..<hr_count r]"

lemma length_ring_contents [simp]: "length (ring_contents r) = hr_count r"
  by (simp add: ring_contents_def)

lemma ring_slot_distinct:
  fixes t c i :: nat
  assumes "c < HTTP_RING" and "i < c"
  shows "(t + i) mod HTTP_RING \<noteq> (t + c) mod HTTP_RING"
proof
  assume "(t + i) mod HTTP_RING = (t + c) mod HTTP_RING"
  then have "HTTP_RING dvd (t + c) - (t + i)"
    using assms by (intro mod_eq_dvd_iff_nat [THEN iffD1]) auto
  then show False
    using assms by (auto dest: dvd_imp_le)
qed

lemma emit_queue:
  assumes "ring_ok r" and "emit r b = (ok, r')"
  shows "ring_ok r'" "ring_contents r' = (if ok then ring_contents r @ [b] else ring_contents r)"
proof -
  have "ring_ok r' \<and> ring_contents r' = (if ok then ring_contents r @ [b] else ring_contents r)"
  proof (cases "hr_count r = HTTP_RING")
    case True
    with assms show ?thesis by (simp add: emit_def)
  next
    case False
    then have c: "hr_count r < HTTP_RING" and ok: ok
      and r': "r' = r\<lparr>hr_data := (hr_data r)[hr_head r := b], hr_head := (hr_head r + 1) mod HTTP_RING, hr_count := hr_count r + 1\<rparr>"
      using assms by (auto simp: emit_def ring_ok_def)
    have "hr_head r \<noteq> (hr_tail r + i) mod HTTP_RING" if "i < hr_count r" for i
      using ring_slot_distinct [OF c that, of "hr_tail r"] assms(1) by (auto simp: ring_ok_def)
    then have "map (\<lambda>i. hr_data r' ! ((hr_tail r + i) mod HTTP_RING)) [0..<hr_count r] = ring_contents r"
      unfolding ring_contents_def by (intro map_cong) (auto simp: r')
    moreover have "hr_data r' ! ((hr_tail r + hr_count r) mod HTTP_RING) = b"
      using assms(1) by (simp add: r' ring_ok_def)
    ultimately have "ring_contents r' = ring_contents r @ [b]"
      by (simp add: ring_contents_def r')
    moreover have "ring_ok r'"
      using assms(1) c by (simp add: r' ring_ok_def mod_simps)
    ultimately show ?thesis
      using ok by simp
  qed
  then show "ring_ok r'" "ring_contents r' = (if ok then ring_contents r @ [b] else ring_contents r)"
    by blast+
qed

lemma take_ring_eq:
  "take_ring n r = (map (\<lambda>i. hr_data r ! ((hr_tail r + i) mod HTTP_RING)) [0..<n],
     if n = 0 then r else r\<lparr>hr_tail := (hr_tail r + n) mod HTTP_RING\<rparr>)" if "hr_tail r < HTTP_RING"
  using that
proof (induction n arbitrary: r)
  case 0
  then show ?case by simp
next
  case (Suc n)
  let ?r = "r\<lparr>hr_tail := (hr_tail r + 1) mod HTTP_RING\<rparr>"
  have "map (\<lambda>i. hr_data r ! ((hr_tail r + i) mod HTTP_RING)) [0..<Suc n] =
      hr_data r ! hr_tail r # map (\<lambda>i. hr_data r ! ((hr_tail r + Suc i) mod HTTP_RING)) [0..<n]"
    using Suc.prems by (simp add: upt_conv_Cons map_Suc_upt [symmetric] comp_def del: upt_Suc)
  with Suc.IH [of ?r] show ?case
    by (simp add: mod_simps)
qed

lemma take_ring_queue:
  assumes "ring_ok r" and "n \<le> hr_count r" and "take_ring n r = (bs, r')"
  shows "bs = take n (ring_contents r)" "ring_ok (r'\<lparr>hr_count := hr_count r' - n\<rparr>)"
    "ring_contents (r'\<lparr>hr_count := hr_count r' - n\<rparr>) = drop n (ring_contents r)" "hr_count r' = hr_count r"
proof -
  have t: "hr_tail r < HTTP_RING"
    using assms(1) by (simp add: ring_ok_def)
  then have bs: "bs = map (\<lambda>i. hr_data r ! ((hr_tail r + i) mod HTTP_RING)) [0..<n]"
    and r': "r' = (if n = 0 then r else r\<lparr>hr_tail := (hr_tail r + n) mod HTTP_RING\<rparr>)"
    using assms(3) take_ring_eq [OF t, of n] by auto
  show "bs = take n (ring_contents r)"
    using assms(2) by (simp add: bs ring_contents_def take_map)
  show "hr_count r' = hr_count r"
    by (simp add: r')
  show "ring_ok (r'\<lparr>hr_count := hr_count r' - n\<rparr>)"
    using assms(1,2) mod_add_left_eq [of "hr_tail r + n" HTTP_RING "hr_count r - n"] by (auto simp: r' ring_ok_def)
  show "ring_contents (r'\<lparr>hr_count := hr_count r' - n\<rparr>) = drop n (ring_contents r)"
    using assms(2) t by (intro nth_equalityI) (auto simp: r' ring_contents_def mod_simps add.assoc)
qed

section \<open>What the parser hands on\<close>

definition logged :: "http_ring \<times> bytes \<Rightarrow> u8 \<Rightarrow> bool \<times> http_ring \<times> bytes" where
  "logged e b = (case emit (fst e) b of (ok, r) \<Rightarrow> (ok, r, if ok then snd e @ [b] else snd e))"

lemma feed_logged:
  "ring_ok r \<Longrightarrow> z80_http_stream_feed logged s (r, log) xs = (n, s', r', log') \<Longrightarrow>
   z80_http_stream_feed emit s r xs = (n, s', r') \<and> ring_ok r' \<and>
   (\<exists>bs. log' = log @ bs \<and> ring_contents r' = ring_contents r @ bs \<and> (hs_error s \<noteq> None \<longrightarrow> bs = [] \<and> s' = s))"
proof (induction xs arbitrary: s r log n)
  case Nil
  then show ?case by simp
next
  case (Cons c cs)
  note r = Cons.prems(1) and run = Cons.prems(2)
  show ?case
  proof (cases "hs_error s \<noteq> None \<or> hs_done s")
    case True
    with r run show ?thesis by simp
  next
    case go: False
    show ?thesis
    proof (cases "hs_state s \<in> {BODY_LENGTH, BODY_CLOSE, CHUNK_BODY}")
      case True
      obtain ok r1 where e: "emit r c = (ok, r1)" by fastforce
      note q = emit_queue [OF r e]
      have lg: "logged (r, log) c = (ok, r1, if ok then log @ [c] else log)"
        by (simp add: logged_def e)
      show ?thesis
      proof (cases ok)
        case True
        obtain m where m: "z80_http_stream_feed logged (body_byte_done s) (r1, log @ [c]) cs = (m, s', r', log')" "n = Suc m"
          using run go \<open>hs_state s \<in> _\<close> True by (auto simp: lg split: prod.splits)
        from Cons.IH [OF q(1) m(1)] go \<open>hs_state s \<in> _\<close> e True q(2) m(2) show ?thesis
          by auto
      next
        case False
        with run go \<open>hs_state s \<in> _\<close> e q r show ?thesis
          by (auto simp: lg)
      qed
    next
      case False
      let ?s = "if hs_state s \<in> {CHUNK_CR, CHUNK_LF} then delimiter_byte c s else line_byte c s"
      obtain m where m: "z80_http_stream_feed logged ?s (r, log) cs = (m, s', r', log')" "n = Suc m"
        using run go False by (auto split: prod.splits)
      from Cons.IH [OF r m(1)] go False m(2) show ?thesis
        by auto
    qed
  qed
qed

section \<open>One session\<close>

text \<open>The byte of the body that reading a port gives, and the bytes a received segment adds.\<close>

definition read_byte :: "u8 \<Rightarrow> http_io \<Rightarrow> bytes" where
  "read_byte address s =
     (let s' = (if pt_position s \<ge> pt_length s then pump s else s)
      in if address = HTTP_DATA_PORT \<and> 0 < pt_position s' \<and> pt_position s' < pt_length s'
         then [fst (z80_http_io_in address s)] else [])"

definition handed_on :: "bytes \<Rightarrow> http_io \<Rightarrow> bytes" where
  "handed_on data s =
     (if wk_active s then snd (snd (snd (z80_http_stream_feed logged (wk_stream s) (wk_ring s, []) data))) else [])"

inductive http_step :: "http_io \<times> bytes \<times> bytes \<Rightarrow> http_io \<times> bytes \<times> bytes \<Rightarrow> bool" where
  port_in: "http_step (s, rd, body) (snd (z80_http_io_in address s), rd @ read_byte address s, body)"
| port_out: "address \<noteq> HTTP_COMMAND_PORT \<or> data \<noteq> HTTP_SET_FILENAME \<and> data \<noteq> HTTP_CLOSE \<Longrightarrow>
    http_step (s, rd, body) (z80_http_io_out address data s, rd, body)"
| worker: "http_step (s, rd, body) (fst (z80_http_io_core1_service start en s), rd, body)"
| received: "http_step (s, rd, body) (snd (z80_http_io_receive data s), rd, body @ handed_on data s)"
| closed: "http_step (s, rd, body) (z80_http_io_remote_close s, rd, body)"
| failed: "http_step (s, rd, body) (z80_http_io_error message s, rd, body)"
| network: "http_step (s, rd, body) (z80_http_io_network_state online generation s, rd, body)"

definition answered :: "http_io \<Rightarrow> bool" where
  "answered s \<longleftrightarrow> hp_state s = SLOT_DONE \<and> sl_session (hp_slot s) = hp_session s"

definition reading :: "http_io \<Rightarrow> bool" where
  "reading s \<longleftrightarrow> pt_position s < pt_length s"

definition unread :: "http_io \<Rightarrow> bytes" where
  "unread s = (if answered s then drop (if reading s then pt_position s - 1 else 0)
     (take (sl_length (hp_slot s)) (sl_data (hp_slot s))) else [])"

definition worker_inv :: "http_io \<Rightarrow> bool" where
  "worker_inv s \<longleftrightarrow> wk_session s = hp_session s \<and> (hs_error (wk_stream s) = None \<longrightarrow> ring_ok (wk_ring s)) \<and>
     wk_error_status s \<noteq> HTTP_EOF \<and>
     length (sl_data (hp_slot s)) = HTTP_SLOT \<and> sl_length (hp_slot s) \<le> HTTP_SLOT \<and>
     (wk_active s \<and> hs_error (wk_stream s) \<noteq> None \<longrightarrow> \<not> hs_done (wk_stream s)) \<and>
     (\<not> wk_opened s \<longrightarrow> \<not> wk_active s \<and> \<not> hs_done (wk_stream s) \<and> hs_state (wk_stream s) = STATUS)"

definition port_inv :: "http_io \<Rightarrow> bool" where
  "port_inv s \<longleftrightarrow>
     (hp_state s = SLOT_PENDING \<and> sl_session (hp_slot s) = hp_session s \<longrightarrow> pt_want s) \<and>
     (reading s \<longrightarrow> answered s \<and> pt_length s = sl_length (hp_slot s) + 1 \<and> 0 < sl_length (hp_slot s) \<and>
        pt_final s = sl_status (hp_slot s)) \<and>
     (answered s \<and> \<not> reading s \<longrightarrow> pt_want s) \<and>
     (pt_want s \<or> reading s \<longrightarrow> pt_status s \<noteq> HTTP_EOF) \<and> (pt_want s \<longrightarrow> \<not> reading s)"

definition finished :: "http_io \<Rightarrow> bool" where
  "finished s \<longleftrightarrow> ring_contents (wk_ring s) = [] \<and> \<not> wk_active s \<and> wk_opened s \<and> hs_done (wk_stream s)"

definition stream_inv2 :: "http_io \<Rightarrow> bytes \<Rightarrow> bytes \<Rightarrow> bool" where
  "stream_inv2 s rd body \<longleftrightarrow>
     prefix (rd @ unread s @ ring_contents (wk_ring s)) body \<and>
     (hs_error (wk_stream s) = None \<longrightarrow> rd @ unread s @ ring_contents (wk_ring s) = body) \<and>
     (answered s \<and> sl_status (hp_slot s) = HTTP_EOF \<or> pt_status s = HTTP_EOF \<longrightarrow>
        finished s \<and> rd @ unread s = body)"

definition session_inv :: "http_io \<times> bytes \<times> bytes \<Rightarrow> bool" where
  "session_inv x \<longleftrightarrow> (case x of (s, rd, body) \<Rightarrow> worker_inv s \<and> port_inv s \<and> stream_inv2 s rd body)"

text \<open>Steps that leave the mailbox and the ports alone.\<close>

definition same_ports :: "http_io \<Rightarrow> http_io \<Rightarrow> bool" where
  "same_ports s s' \<longleftrightarrow> hp_state s' = hp_state s \<and> hp_session s' = hp_session s \<and> hp_slot s' = hp_slot s \<and>
     pt_name s' = pt_name s \<and> pt_length s' = pt_length s \<and> pt_position s' = pt_position s \<and> pt_status s' = pt_status s \<and>
     pt_final s' = pt_final s \<and> pt_collecting s' = pt_collecting s \<and> pt_overflow s' = pt_overflow s \<and> pt_want s' = pt_want s"

lemma same_ports_facts:
  "same_ports s s' \<Longrightarrow> answered s' = answered s" "same_ports s s' \<Longrightarrow> reading s' = reading s"
  "same_ports s s' \<Longrightarrow> unread s' = unread s" "same_ports s s' \<Longrightarrow> port_inv s' = port_inv s"
  by (auto simp: same_ports_def answered_def reading_def unread_def port_inv_def)

lemma same_ports_trans: "same_ports s s1 \<Longrightarrow> same_ports s1 s2 \<Longrightarrow> same_ports s s2"
  by (simp add: same_ports_def)

text \<open>A change of the worker that keeps the ring and does not restart a finished transfer.\<close>

lemma worker_change:
  assumes "session_inv (s, rd, body)" and "same_ports s s'" and "worker_inv s'"
    and "wk_ring s' = wk_ring s" and "finished s \<Longrightarrow> finished s'"
    and "hs_error (wk_stream s') = None \<Longrightarrow> hs_error (wk_stream s) = None"
  shows "session_inv (s', rd, body)"
proof -
  have st: "hp_slot s' = hp_slot s" "pt_status s' = pt_status s"
    using assms(2) by (simp_all add: same_ports_def)
  have "stream_inv2 s' rd body"
    using assms(1,4-6) unfolding session_inv_def prod.case stream_inv2_def same_ports_facts [OF assms(2)] st by auto
  with assms show ?thesis
    by (simp add: session_inv_def same_ports_facts)
qed

section \<open>The ports keep the session\<close>

definition same_worker :: "http_io \<Rightarrow> http_io \<Rightarrow> bool" where
  "same_worker s s' \<longleftrightarrow> hp_session s' = hp_session s \<and> wk_session s' = wk_session s \<and> wk_ring s' = wk_ring s \<and>
     wk_error_status s' = wk_error_status s \<and> wk_stream s' = wk_stream s \<and> wk_active s' = wk_active s \<and>
     wk_opened s' = wk_opened s \<and> sl_data (hp_slot s') = sl_data (hp_slot s) \<and> sl_length (hp_slot s') = sl_length (hp_slot s)"

definition ended :: "http_io \<Rightarrow> bool" where
  "ended s \<longleftrightarrow> answered s \<and> sl_status (hp_slot s) = HTTP_EOF \<or> pt_status s = HTTP_EOF"

lemma port_change:
  assumes inv: "session_inv (s, rd, body)" and w: "same_worker s s'" and p: "port_inv s'"
    and u: "rd' @ unread s' = rd @ unread s" and e: "ended s' \<Longrightarrow> ended s"
  shows "session_inv (s', rd', body)"
proof -
  have "worker_inv s'" "finished s' = finished s" "wk_ring s' = wk_ring s" "wk_stream s' = wk_stream s"
    using inv w by (simp_all add: session_inv_def worker_inv_def finished_def same_worker_def)
  moreover have "rd' @ unread s' @ x = rd @ unread s @ x" for x
    using u by (metis append.assoc)
  ultimately show ?thesis
    using inv p u e unfolding session_inv_def stream_inv2_def ended_def [symmetric] prod.case
    by (metis (no_types, opaque_lifting))
qed

lemma session_port: "session_inv (s, rd, body) \<Longrightarrow> port_inv s"
  by (simp add: session_inv_def)

lemmas port_defs = port_inv_def answered_def reading_def

lemma pump_facts:
  assumes "port_inv s" and "\<not> reading s"
  shows "same_worker s (pump s)" "port_inv (pump s)" "unread (pump s) = unread s" "ended (pump s) \<Longrightarrow> ended s"
proof -
  consider (idle) "hp_state s = SLOT_IDLE" | (pending) "hp_state s = SLOT_PENDING"
    | (answer) "hp_state s = SLOT_DONE" "sl_session (hp_slot s) = hp_session s" "pt_want s"
    | (stale) "hp_state s = SLOT_DONE" "sl_session (hp_slot s) \<noteq> hp_session s"
    using assms unfolding port_defs by (cases "hp_state s") blast+
  then have "same_worker s (pump s) \<and> port_inv (pump s) \<and> unread (pump s) = unread s \<and> (ended (pump s) \<longrightarrow> ended s)"
  proof cases
    case idle
    with assms show ?thesis
      by (cases "pt_want s") (simp_all add: pump_def pump_request_def same_worker_def port_defs unread_def ended_def)
  next
    case pending
    with assms show ?thesis
      by (simp add: pump_def pump_request_def same_worker_def)
  next
    case answer
    with assms show ?thesis
      by (cases "sl_length (hp_slot s) = 0")
        (simp_all add: pump_def pump_request_def same_worker_def port_defs unread_def ended_def)
  next
    case stale
    with assms show ?thesis
      by (cases "pt_want s") (simp_all add: pump_def pump_request_def same_worker_def port_defs unread_def ended_def)
  qed
  then show "same_worker s (pump s)" "port_inv (pump s)" "unread (pump s) = unread s" "ended (pump s) \<Longrightarrow> ended s"
    by blast+
qed

lemma pump_session:
  assumes "session_inv (s, rd, body)" and "\<not> reading s"
  shows "session_inv (pump s, rd, body)"
  using pump_facts [OF session_port [OF assms(1)] assms(2)] by (intro port_change [OF assms(1)]) simp_all

text \<open>Reading a byte moves it from the unread bytes to the bytes read.\<close>

lemma read_facts:
  assumes p: "port_inv s" and r: "reading s" and d: "length (sl_data (hp_slot s)) = HTTP_SLOT" "sl_length (hp_slot s) \<le> HTTP_SLOT"
  defines "s' \<equiv> s\<lparr>pt_position := pt_position s + 1\<rparr>"
  defines "s'' \<equiv> (if pt_position s' = pt_length s' then s'\<lparr>pt_status := pt_final s', hp_state := SLOT_IDLE\<rparr> else s')"
  shows "same_worker s s''" "port_inv s''" "ended s'' \<Longrightarrow> ended s"
    "unread s = (if pt_position s = 0 then [] else [sl_data (hp_slot s) ! (pt_position s - 1)]) @ unread s''"
proof -
  have len: "pt_length s = sl_length (hp_slot s) + 1" "answered s" "pt_final s = sl_status (hp_slot s)" "\<not> pt_want s"
    "0 < sl_length (hp_slot s)" "pt_status s \<noteq> HTTP_EOF"
    using p r unfolding port_inv_def by blast+
  show "same_worker s s''"
    by (simp add: s''_def s'_def same_worker_def)
  show "port_inv s''"
    using len r by (cases "pt_position s + 1 = pt_length s") (simp_all add: s''_def s'_def port_inv_def answered_def reading_def)
  show "ended s'' \<Longrightarrow> ended s"
    using len by (cases "pt_position s + 1 = pt_length s") (simp_all add: s''_def s'_def ended_def answered_def)
  let ?d = "take (sl_length (hp_slot s)) (sl_data (hp_slot s))"
  have "unread s = drop (pt_position s - 1) ?d"
    using len r by (simp add: unread_def)
  moreover have "unread s'' = drop (pt_position s) ?d"
    using len r by (cases "pt_position s + 1 = pt_length s") (simp_all add: s''_def s'_def unread_def answered_def reading_def)
  moreover have "drop (pt_position s - 1) ?d = ?d ! (pt_position s - 1) # drop (pt_position s) ?d" if "pt_position s \<noteq> 0"
    using that r len d Cons_nth_drop_Suc [of "pt_position s - 1" ?d] by (simp add: reading_def)
  ultimately show "unread s = (if pt_position s = 0 then [] else [sl_data (hp_slot s) ! (pt_position s - 1)]) @ unread s''"
    using r len by (auto simp: reading_def)
qed

lemma in_session:
  assumes inv: "session_inv (s, rd, body)"
  shows "session_inv (snd (z80_http_io_in address s), rd @ read_byte address s, body)"
proof -
  define s1 where "s1 = (if pt_position s \<ge> pt_length s then pump s else s)"
  have inv1: "session_inv (s1, rd, body)"
    using inv pump_session by (simp add: s1_def reading_def)
  note defs = z80_http_io_in_def read_byte_def Let_def s1_def [symmetric]
  show ?thesis
  proof (cases "address = HTTP_DATA_PORT \<and> reading s1")
    case False
    then have "snd (z80_http_io_in address s) = s1" "read_byte address s = []"
      by (auto simp: defs reading_def)
    with inv1 show ?thesis by simp
  next
    case True
    have d: "length (sl_data (hp_slot s1)) = HTTP_SLOT" "sl_length (hp_slot s1) \<le> HTTP_SLOT"
      using inv1 by (simp_all add: session_inv_def worker_inv_def)
    let ?s = "s1\<lparr>pt_position := pt_position s1 + 1\<rparr>"
    let ?s' = "if pt_position ?s = pt_length ?s then ?s\<lparr>pt_status := pt_final ?s, hp_state := SLOT_IDLE\<rparr> else ?s"
    note f = read_facts [OF session_port [OF inv1] conjunct2 [OF True] d]
    have "snd (z80_http_io_in address s) = ?s'"
      using True by (simp add: z80_http_io_in_def Let_def s1_def [symmetric] reading_def)
    moreover have "read_byte address s = (if pt_position s1 = 0 then [] else [sl_data (hp_slot s1) ! (pt_position s1 - 1)])"
      using True by (simp add: defs reading_def)
    moreover have "session_inv (?s', rd @ (if pt_position s1 = 0 then [] else [sl_data (hp_slot s1) ! (pt_position s1 - 1)]), body)"
      using f(4) by (intro port_change [OF inv1 f(1,2)] f(3)) simp_all
    ultimately show ?thesis by simp
  qed
qed

definition quiet :: "http_io \<Rightarrow> http_io \<Rightarrow> bool" where
  "quiet s s' \<longleftrightarrow> same_worker s s' \<and> hp_state s' = hp_state s \<and> hp_slot s' = hp_slot s \<and> pt_length s' = pt_length s \<and>
     pt_position s' = pt_position s \<and> pt_final s' = pt_final s \<and> pt_want s' = pt_want s \<and>
     (pt_status s' = pt_status s \<or> pt_status s' = HTTP_ERROR)"

lemma quiet_session:
  assumes inv: "session_inv (s, rd, body)" and q: "quiet s s'"
  shows "session_inv (s', rd, body)"
proof -
  have same: "answered s' = answered s" "reading s' = reading s" "unread s' = unread s" "hp_session s' = hp_session s"
    using q by (simp_all add: quiet_def same_worker_def answered_def reading_def unread_def)
  have st: "pt_status s' = HTTP_EOF \<Longrightarrow> pt_status s = HTTP_EOF"
    using q by (auto simp: quiet_def)
  have "port_inv s'"
    using session_port [OF inv] st q unfolding port_inv_def same quiet_def by metis
  moreover have "ended s' \<Longrightarrow> ended s"
    using st q same(1) by (auto simp: ended_def quiet_def)
  ultimately show ?thesis
    using q same(3) by (intro port_change [OF inv]) (simp_all add: quiet_def)
qed

lemma request_session:
  assumes inv: "session_inv (s, rd, body)" and "\<not> pt_want s" "\<not> reading s"
  shows "session_inv (pump (s\<lparr>pt_want := True, pt_status := HTTP_BUSY\<rparr>), rd, body)"
proof -
  let ?s = "s\<lparr>pt_want := True, pt_status := HTTP_BUSY\<rparr>"
  have "\<not> answered s"
    using session_port [OF inv] assms(2,3) unfolding port_inv_def by blast
  then have "port_inv ?s" "unread ?s = unread s" "ended ?s \<Longrightarrow> ended s" "\<not> reading ?s"
    using assms(3) by (auto simp: port_inv_def answered_def reading_def unread_def ended_def)
  then have "session_inv (?s, rd, body)"
    by (intro port_change [OF inv]) (simp_all add: same_worker_def)
  then show ?thesis
    using \<open>\<not> reading ?s\<close> by (rule pump_session)
qed

lemma out_session:
  assumes inv: "session_inv (s, rd, body)"
    and "address \<noteq> HTTP_COMMAND_PORT \<or> data \<noteq> HTTP_SET_FILENAME \<and> data \<noteq> HTTP_CLOSE"
  shows "session_inv (z80_http_io_out address data s, rd, body)"
proof (cases "address = HTTP_COMMAND_PORT \<and> data = HTTP_REQUEST_CHUNK \<and> \<not> pt_want s \<and> \<not> reading s \<and>
      \<not> (pt_collecting s \<or> pt_overflow s \<or> pt_name s = [] \<or> pt_status s = HTTP_ERROR) \<and> pt_status s \<noteq> HTTP_EOF")
  case True
  then have "z80_http_io_out address data s = pump (s\<lparr>pt_want := True, pt_status := HTTP_BUSY\<rparr>)"
    by (simp add: z80_http_io_out_def http_command_def reading_def)
  with request_session [OF inv] True show ?thesis by simp
next
  case False
  have q: "quiet s s" "quiet s (s\<lparr>pt_status := HTTP_ERROR\<rparr>)" "quiet s (s\<lparr>pt_collecting := False\<rparr>)"
    "quiet s (s\<lparr>pt_collecting := False, pt_status := HTTP_ERROR\<rparr>)" "quiet s (s\<lparr>pt_name := pt_name s @ [data]\<rparr>)"
    "quiet s (s\<lparr>pt_overflow := True, pt_status := HTTP_ERROR\<rparr>)"
    by (simp_all add: quiet_def same_worker_def)
  have "quiet s (http_command data s)" if "address = HTTP_COMMAND_PORT"
    using that False assms(2) q(1,2) by (auto simp: http_command_def reading_def)
  moreover have "quiet s (http_name_byte data s)"
    using q by (simp add: http_name_byte_def Let_def)
  ultimately have "quiet s (z80_http_io_out address data s)"
    using q(1) by (simp add: z80_http_io_out_def)
  with inv show ?thesis by (rule quiet_session)
qed

section \<open>The worker keeps the session\<close>

lemma session_worker: "session_inv (s, rd, body) \<Longrightarrow> worker_inv s"
  by (simp add: session_inv_def)

lemma error_session:
  assumes inv: "session_inv (s, rd, body)"
  shows "session_inv (z80_http_io_error m s, rd, body)"
proof (rule worker_change [OF inv])
  show "worker_inv (z80_http_io_error m s)"
    using inv by (simp add: session_inv_def worker_inv_def z80_http_io_error_def)
qed (simp_all add: same_ports_def z80_http_io_error_def finished_def split: if_splits)

lemma feed_stopped: "hs_error s \<noteq> None \<Longrightarrow> z80_http_stream_feed e s x data = (0, s, x)"
  by (cases data) simp_all

lemma receive_session:
  assumes inv: "session_inv (s, rd, body)"
  shows "session_inv (snd (z80_http_io_receive data s), rd, body @ handed_on data s)"
proof (cases "wk_active s")
  case False
  with inv show ?thesis by (simp add: z80_http_io_receive_def handed_on_def)
next
  case True
  note w = session_worker [OF inv]
  show ?thesis
  proof (cases "hs_error (wk_stream s)")
    case (Some m)
    then have "snd (z80_http_io_receive data s) = z80_http_io_error m s" "handed_on data s = []"
      using True by (simp_all add: z80_http_io_receive_def handed_on_def after_feed_def feed_stopped)
    with error_session [OF inv, of m] show ?thesis by simp
  next
    case None
    obtain n st r log where f: "z80_http_stream_feed logged (wk_stream s) (wk_ring s, []) data = (n, st, r, log)"
      by (metis prod.exhaust)
    have ring: "ring_ok (wk_ring s)"
      using w None by (simp add: worker_inv_def)
    note g = feed_logged [OF ring f]
    let ?s = "s\<lparr>wk_stream := st, wk_ring := r\<rparr>"
    have run: "snd (z80_http_io_receive data s) = after_feed ?s" and h: "handed_on data s = log"
      using True f g by (simp_all add: z80_http_io_receive_def handed_on_def)
    have ports: "same_ports s (after_feed ?s)"
      by (simp add: same_ports_def after_feed_def z80_http_io_error_def split: option.splits)
    have fin: "wk_ring (after_feed ?s) = r" "hs_error (wk_stream (after_feed ?s)) = hs_error st"
      by (simp_all add: after_feed_def z80_http_io_error_def split: option.splits)
    have "wk_opened s"
      using w True by (auto simp: worker_inv_def)
    then have "worker_inv (after_feed ?s)"
      using w g by (simp add: worker_inv_def after_feed_def z80_http_io_error_def split: option.splits)
    moreover have "stream_inv2 (after_feed ?s) rd (body @ log)"
    proof -
      have inv2: "stream_inv2 s rd body" and not_ended: "\<not> ended s"
        using inv True by (auto simp: session_inv_def stream_inv2_def ended_def finished_def)
      have "\<not> ended (after_feed ?s)"
        using not_ended ports by (simp add: ended_def same_ports_facts(1) [OF ports] same_ports_def)
      then show ?thesis
        using inv2 g None by (auto simp: stream_inv2_def ended_def same_ports_facts(3) [OF ports] fin)
    qed
    ultimately show ?thesis
      using inv ports unfolding run h by (simp add: session_inv_def same_ports_facts)
  qed
qed

lemma close_session:
  assumes inv: "session_inv (s, rd, body)"
  shows "session_inv (z80_http_io_remote_close s, rd, body)"
proof (rule worker_change [OF inv])
  show "worker_inv (z80_http_io_remote_close s)"
    using inv by (auto simp: session_inv_def worker_inv_def z80_http_io_remote_close_def after_feed_def
        z80_http_io_error_def z80_http_stream_close_def stream_fail_def split: option.splits)
qed (auto simp: same_ports_def z80_http_io_remote_close_def after_feed_def z80_http_io_error_def
    z80_http_stream_close_def stream_fail_def finished_def split: option.splits if_splits)

lemma running_session:
  assumes inv: "session_inv (s, rd, body)"
  shows "session_inv (s\<lparr>wk_running := x\<rparr>, rd, body)"
  by (rule worker_change [OF inv]) (use session_worker [OF inv] in \<open>simp_all add: same_ports_def worker_inv_def finished_def\<close>)

lemma start_session:
  assumes inv: "session_inv (s, rd, body)"
  shows "session_inv (start_transfer start m s, rd, body)"
  using running_session [OF inv, of True] error_session [OF running_session [OF inv, of True]]
  by (simp add: start_transfer_def Let_def)

lemma done_session:
  assumes inv: "session_inv (s, rd, body)"
  shows "session_inv (worker_done start s, rd, body)"
proof (cases "wk_active s \<and> hs_done (wk_stream s)")
  case False
  with inv show ?thesis by (auto simp: worker_done_def)
next
  case True
  let ?s = "s\<lparr>wk_running := False\<rparr>"
  note w = session_worker [OF inv]
  have none: "hs_error (wk_stream s) = None" and op: "wk_opened s"
    using w True by (auto simp: worker_inv_def)
  have active: "session_inv (?s\<lparr>wk_active := False\<rparr>, rd, body)"
    by (rule worker_change [OF inv]) (use w in \<open>simp_all add: same_ports_def worker_inv_def finished_def\<close>)
  have red: "session_inv (?s\<lparr>wk_redirects := n\<rparr>, rd, body)" for n
    by (rule worker_change [OF inv]) (use w in \<open>simp_all add: same_ports_def worker_inv_def finished_def\<close>)
  have new: "session_inv (?s\<lparr>wk_redirects := n, wk_target := u, wk_stream := z80_http_stream_init\<rparr>, rd, body)" for n u
    by (rule worker_change [OF inv])
      (use w True none op in \<open>simp_all add: same_ports_def worker_inv_def finished_def z80_http_stream_init_def\<close>)
  show ?thesis
    using True active error_session [OF red] start_session [OF new]
    by (simp add: worker_done_def cancel_backend_def Let_def split: option.splits)
qed

lemma open_session:
  assumes inv: "session_inv (s, rd, body)" and run: "worker_open start en s = (s', en')"
  shows "session_inv (s', rd, body) \<and> wk_opened s' \<and> hp_state s' = hp_state s \<and> hp_slot s' = hp_slot s \<and> hp_session s' = hp_session s"
proof (cases "wk_opened s")
  case True
  with inv run show ?thesis by (simp add: worker_open_def)
next
  case False
  let ?s = "s\<lparr>wk_opened := True, wk_transfer := wk_generation s\<rparr>"
  note w = session_worker [OF inv]
  have base: "session_inv (?s, rd, body)" "session_inv (?s\<lparr>wk_error_status := HTTP_MISSING_BASE_URL\<rparr>, rd, body)"
    "session_inv (?s\<lparr>wk_target := u, wk_active := True\<rparr>, rd, body)" for u
    by (rule worker_change [OF inv]; use w False in \<open>simp add: same_ports_def worker_inv_def finished_def\<close>)+
  note keep = start_transfer_def z80_http_io_error_def Let_def
  show ?thesis
    using run False error_session [OF base(1)] error_session [OF base(2)] start_session [OF base(3)]
    by (auto simp: worker_open_def Let_def split: if_splits prod.splits http_target.splits) (auto simp: keep)
qed

lemma fill_session:
  assumes inv: "session_inv (s, rd, body)" and st: "hp_state s = SLOT_PENDING" "sl_session (hp_slot s) = hp_session s"
    and op: "wk_opened s"
  shows "session_inv (worker_fill s, rd, body)"
proof -
  note w = session_worker [OF inv] and p = session_port [OF inv]
  have want: "pt_want s" "\<not> reading s" "pt_status s \<noteq> HTTP_EOF" "\<not> answered s"
    using p st unfolding port_inv_def answered_def by auto
  have c: "prefix (rd @ ring_contents (wk_ring s)) body"
    "hs_error (wk_stream s) = None \<Longrightarrow> rd @ ring_contents (wk_ring s) = body"
    using inv want(4) by (simp_all add: session_inv_def stream_inv2_def unread_def)
  have port: "port_inv s'" if "hp_state s' = SLOT_DONE" "pt_want s'" "\<not> reading s'" "pt_status s' \<noteq> HTTP_EOF" for s'
    using that by (simp add: port_inv_def)
  consider (err) m where "hs_error (wk_stream s) = Some m"
    | (wait) "hs_error (wk_stream s) = None" "hr_count (wk_ring s) < HTTP_SLOT \<and> (wk_active s \<or> \<not> hs_done (wk_stream s))"
    | (fill) "hs_error (wk_stream s) = None" "\<not> (hr_count (wk_ring s) < HTTP_SLOT \<and> (wk_active s \<or> \<not> hs_done (wk_stream s)))"
    by blast
  then show ?thesis
  proof cases
    case err
    let ?s = "s\<lparr>wk_ring := (wk_ring s)\<lparr>hr_count := 0\<rparr>,
        hp_slot := (hp_slot s)\<lparr>sl_length := 0, sl_status := wk_error_status s\<rparr>, hp_state := SLOT_DONE\<rparr>"
    have "worker_inv ?s"
      using w err by (simp add: worker_inv_def)
    moreover have "port_inv ?s"
      using want by (intro port) (simp_all add: reading_def)
    moreover have "stream_inv2 ?s rd body"
      using c(1) want(3) w err
      by (simp add: stream_inv2_def unread_def ring_contents_def worker_inv_def append_prefixD)
    ultimately show ?thesis
      using err by (simp add: worker_fill_def session_inv_def)
  next
    case wait
    with inv show ?thesis by (simp add: worker_fill_def)
  next
    case fill
    define n where "n = (if hr_count (wk_ring s) < HTTP_SLOT then hr_count (wk_ring s) else HTTP_SLOT)"
    obtain bs r where t: "take_ring n (wk_ring s) = (bs, r)" by fastforce
    have n: "n \<le> hr_count (wk_ring s)" "n \<le> HTTP_SLOT"
      by (simp_all add: n_def)
    have ring: "ring_ok (wk_ring s)"
      using w fill by (simp add: worker_inv_def)
    note q = take_ring_queue [OF ring n(1) t]
    let ?r = "r\<lparr>hr_count := hr_count r - n\<rparr>"
    let ?status = "if \<not> wk_active s \<and> hs_done (wk_stream s) \<and> hr_count ?r = 0 then HTTP_EOF else HTTP_IDLE"
    let ?s = "s\<lparr>wk_ring := ?r, hp_slot := (hp_slot s)\<lparr>sl_length := n, sl_data := bs @ drop n (sl_data (hp_slot s)),
        sl_status := ?status\<rparr>, hp_state := SLOT_DONE\<rparr>"
    have eq: "worker_fill s = ?s"
      using fill(1) by (simp add: worker_fill_def Let_def n_def [symmetric] t fill(2))
    have len: "length bs = n"
      using q(1) n(1) by simp
    have "worker_inv ?s"
      using w q(2) len n(2) by (simp add: worker_inv_def)
    moreover have "port_inv ?s"
      using want by (intro port) (simp_all add: reading_def)
    moreover have "stream_inv2 ?s rd body"
    proof -
      have u: "unread ?s = take n (ring_contents (wk_ring s))"
        using want(2) st(2) q(1) len by (simp add: unread_def answered_def reading_def)
      have all: "rd @ unread ?s @ ring_contents (wk_ring ?s) = body"
        using c(2) fill(1) u q(3) by simp
      have "rd @ unread ?s = body \<and> finished ?s" if "sl_status (hp_slot ?s) = HTTP_EOF"
      proof -
        from that have f: "\<not> wk_active s" "hs_done (wk_stream s)" "hr_count ?r = 0"
          by (simp_all split: if_splits)
        then have "ring_contents ?r = []"
          by (simp add: ring_contents_def)
        with f op all show ?thesis
          by (simp add: finished_def)
      qed
      with all want(3) show ?thesis
        by (simp add: stream_inv2_def)
    qed
    ultimately show ?thesis
      by (simp add: eq session_inv_def)
  qed
qed

lemma stale_session:
  assumes inv: "session_inv (s, rd, body)" and st: "sl_session (hp_slot s) \<noteq> hp_session s"
  shows "session_inv (s\<lparr>hp_slot := (hp_slot s)\<lparr>sl_length := 0, sl_status := HTTP_IDLE\<rparr>, hp_state := SLOT_DONE\<rparr>, rd, body)"
    (is "session_inv (?s, _)")
proof -
  have out: "\<not> answered s" "\<not> answered ?s" "reading ?s = reading s"
    using st by (simp_all add: answered_def reading_def)
  have r: "\<not> reading s" "pt_want s \<longrightarrow> pt_status s \<noteq> HTTP_EOF"
    using session_port [OF inv] out(1) unfolding port_inv_def by blast+
  have "worker_inv ?s"
    using session_worker [OF inv] by (simp add: worker_inv_def)
  moreover have "port_inv ?s"
    using st r out by (simp add: port_inv_def)
  moreover have "stream_inv2 ?s rd body"
    using inv out by (simp add: session_inv_def stream_inv2_def unread_def finished_def)
  ultimately show ?thesis
    by (simp add: session_inv_def)
qed

lemma worker_session:
  assumes inv: "session_inv (s, rd, body)"
  shows "session_inv (fst (z80_http_io_core1_service start en s), rd, body)"
proof -
  have "worker_restart s = s"
    using session_worker [OF inv] by (simp add: worker_restart_def worker_inv_def)
  moreover have "session_inv (worker_network s, rd, body)"
    using inv error_session [OF inv] by (simp add: worker_network_def)
  ultimately have a: "session_inv (worker_done start (worker_network (worker_restart s)), rd, body)"
    using done_session by simp
  define s1 where "s1 = worker_done start (worker_network (worker_restart s))"
  define s2 where "s2 = (if \<not> wk_active s1 \<and> hs_error (wk_stream s1) \<noteq> None then cancel_backend s1 else s1)"
  have inv2: "session_inv (s2, rd, body)"
    using a running_session [of s1] by (simp add: s1_def s2_def cancel_backend_def)
  have ses: "wk_session s2 = hp_session s2"
    using session_worker [OF inv2] by (simp add: worker_inv_def)
  obtain s3 en3 where o: "worker_open start en s2 = (s3, en3)" by fastforce
  note f = open_session [OF inv2 o]
  have "session_inv (worker_fill s3, rd, body)" if "hp_state s2 = SLOT_PENDING" "sl_session (hp_slot s2) = wk_session s2"
    using f that ses by (intro fill_session) auto
  then show ?thesis
    using inv2 stale_session [OF inv2] ses
    unfolding z80_http_io_core1_service_def Let_def s1_def [symmetric] s2_def [symmetric] o by simp
qed

lemma step_session: "http_step x y \<Longrightarrow> session_inv x \<Longrightarrow> session_inv y"
proof (induction rule: http_step.induct)
  case (network s rd body online generation)
  then show ?case
    by (intro worker_change [OF network])
      (use session_worker [OF network] in \<open>simp_all add: z80_http_io_network_state_def same_ports_def worker_inv_def finished_def\<close>)
qed (use in_session out_session worker_session receive_session close_session error_session in auto)

lemma steps_session: "http_step\<^sup>*\<^sup>* x y \<Longrightarrow> session_inv x \<Longrightarrow> session_inv y"
  by (induction rule: rtranclp_induct) (auto intro: step_session)

section \<open>A session begins\<close>

text \<open>The Z80 names a file, and the worker notices.\<close>

definition new_session :: "(http_url \<Rightarrow> bool) \<Rightarrow> environment \<Rightarrow> http_io \<Rightarrow> http_io" where
  "new_session start en s = fst (z80_http_io_core1_service start en (z80_http_io_out HTTP_COMMAND_PORT HTTP_SET_FILENAME s))"

lemma new_session_inv:
  assumes "length (hr_data (wk_ring s)) = HTTP_RING" and "length (sl_data (hp_slot s)) = HTTP_SLOT"
    and "sl_length (hp_slot s) \<le> HTTP_SLOT" and "wk_session s \<noteq> hp_session s + 1"
    and "hp_state s \<noteq> SLOT_IDLE \<Longrightarrow> sl_session (hp_slot s) \<noteq> hp_session s + 1"
  shows "session_inv (new_session start en s, [], [])"
proof -
  define s1 where "s1 = z80_http_io_out HTTP_COMMAND_PORT HTTP_SET_FILENAME s"
  have s1: "s1 = (port_clear (s\<lparr>hp_session := hp_session s + 1\<rparr>))
      \<lparr>pt_collecting := True, hp_state := if hp_state s = SLOT_DONE then SLOT_IDLE else hp_state s\<rparr>"
    using assms(5) by (cases "hp_state s")
      (simp_all add: s1_def z80_http_io_out_def http_command_def pump_def pump_request_def port_clear_def)
  define s2 where "s2 = worker_restart s1"
  have s2: "session_inv (s2, [], [])"
    using assms
    by (cases "hp_state s")
      (simp_all add: s2_def s1 worker_restart_def port_clear_def cancel_backend_def session_inv_def worker_inv_def port_inv_def
        stream_inv2_def answered_def reading_def unread_def finished_def ring_ok_def ring_contents_def z80_http_stream_init_def)
  have "worker_restart s2 = s2"
    using session_worker [OF s2] by (simp add: worker_restart_def worker_inv_def)
  then have "new_session start en s = fst (z80_http_io_core1_service start en s2)"
    by (simp add: new_session_def s1_def [symmetric] s2_def [symmetric] z80_http_io_core1_service_def)
  with worker_session [OF s2] show ?thesis by simp
qed

section \<open>Properties\<close>

text \<open>
  C17. Downloads are faithful: from the moment the worker has taken notice of a new file name, whatever the Z80 does
  with the ports (other than naming another file or closing), however the worker is scheduled, and
  whatever the network delivers, closes or fails with, the bytes of the body that the Z80 has read
  are a prefix of the bytes the parser took from the response; and when the status port says
  end of file, the response is complete and every byte of it has been read. Nothing of an earlier
  session is ever read.
\<close>

theorem download_in_order:
  assumes "length (hr_data (wk_ring s)) = HTTP_RING" and "length (sl_data (hp_slot s)) = HTTP_SLOT"
    and "sl_length (hp_slot s) \<le> HTTP_SLOT" and "wk_session s \<noteq> hp_session s + 1"
    and "hp_state s \<noteq> SLOT_IDLE \<Longrightarrow> sl_session (hp_slot s) \<noteq> hp_session s + 1"
    and "http_step\<^sup>*\<^sup>* (new_session start en s, [], []) (s', rd, body)"
  shows "prefix rd body \<and> (pt_status s' = HTTP_EOF \<longrightarrow> rd = body \<and> hs_done (wk_stream s') \<and> \<not> wk_active s')"
proof -
  have inv: "session_inv (s', rd, body)"
    using steps_session [OF assms(6) new_session_inv] assms(1-5) by blast
  then have "prefix rd body"
    by (auto simp: session_inv_def stream_inv2_def dest: append_prefixD)
  moreover have "rd = body \<and> hs_done (wk_stream s') \<and> \<not> wk_active s'" if "pt_status s' = HTTP_EOF"
  proof -
    have "\<not> answered s'"
      using session_port [OF inv] that unfolding port_inv_def by blast
    with inv that show ?thesis
      by (simp add: session_inv_def stream_inv2_def finished_def unread_def)
  qed
  ultimately show ?thesis by blast
qed

text \<open>The device at power up.\<close>

definition http_boot :: http_io where
  "http_boot =
     \<lparr>hp_state = SLOT_IDLE, hp_session = 0,
      hp_slot = \<lparr>sl_session = 0, sl_name = [], sl_length = 0, sl_status = 0, sl_data = replicate HTTP_SLOT 0\<rparr>,
      pt_name = [], pt_length = 0, pt_position = 0, pt_status = 0, pt_final = 0, pt_collecting = False,
      pt_overflow = False, pt_want = False, wk_backend = False, wk_session = 0, wk_generation = 0, wk_transfer = 0,
      wk_online = False, wk_opened = False, wk_active = False, wk_running = False, wk_redirects = 0,
      wk_error_status = 0,
      wk_target = \<lparr>url_https = False, url_port = 0, url_host = [], url_authority = [], url_path = []\<rparr>,
      wk_stream = z80_http_stream_init,
      wk_ring = \<lparr>hr_data = replicate HTTP_RING 0, hr_head = 0, hr_tail = 0, hr_count = 0\<rparr>\<rparr>"

theorem download_in_order_witness:
  "\<exists>s rd body. http_step\<^sup>*\<^sup>* (new_session (\<lambda>_. True) sample_env http_boot, [], []) (s, rd, body) \<and>
     prefix rd body \<and> pt_name s = [65]"
proof -
  let ?s = "z80_http_io_out HTTP_DATA_PORT 65 (new_session (\<lambda>_. True) sample_env http_boot)"
  have run: "http_step\<^sup>*\<^sup>* (new_session (\<lambda>_. True) sample_env http_boot, [], []) (?s, [], [])"
    by (intro r_into_rtranclp http_step.port_out) simp
  from download_in_order [OF _ _ _ _ _ run] have "prefix ([] :: bytes) []"
    by (simp add: http_boot_def)
  moreover have "pt_name ?s = [65]"
    by (simp add: new_session_def http_boot_def z80_http_io_out_def http_command_def port_clear_def pump_def pump_request_def
        z80_http_io_core1_service_def worker_restart_def cancel_backend_def worker_network_def worker_done_def
        http_name_byte_def z80_http_stream_init_def Let_def)
  ultimately show ?thesis using run by blast
qed

end
