(* ===== verification/Chat_Json.thy ===== *)
theory Chat_Json
  imports Prelude
begin

text \<open>
  The JSON reader of \<open>src/src/common/chat_stream.c\<close>: it validates one event of a chat stream and picks out the string at
  \<open>choices[0].delta.content\<close>.

  \<^item> \<open>json\<close> is the code's \<open>json_t\<close>: the bytes from \<open>p\<close> to \<open>end\<close>, the two flags, and the text captured so far (\<open>stream->text\<close> up to
    \<open>text_length\<close>). A function that returns false is \<open>None\<close> or \<open>Malformed\<close>:
    its caller then gives up the whole event.
  \<^item> the recursion of \<open>value\<close> is on the number of nesting levels that are left, \<open>17 - depth\<close>. The two \<open>for (;;)\<close> loops, over
    the members of an object and the elements of an array, take a number of rounds as their first argument and are
    \<open>Unfinished\<close> when it is used up; the calls pass the number of bytes left, and \<open>json_reader_returns\<close> shows that this is
    always enough.
  \<^item> the bytes of a line are not zero (\<open>line\<close> refuses them), so the terminator that \<open>strchr\<close> would also find is never met.
\<close>

section \<open>Characters\<close>

record json =
  js_rest :: bytes
  js_content_seen :: bool
  js_provider_error :: bool
  js_text :: bytes

definition json_hex :: "u8 \<Rightarrow> u32 option" where
  "json_hex c =
     (if 48 \<le> c \<and> c \<le> 57 then Some (ucast (c - 48))
      else if 97 \<le> c \<and> c \<le> 102 then Some (ucast (c - 97) + 10)
      else if 65 \<le> c \<and> c \<le> 70 then Some (ucast (c - 65) + 10)
      else None)"

definition chat_ascii :: "u32 \<Rightarrow> u8" where
  "chat_ascii cp =
     (if cp = 10 \<or> cp = 13 \<or> cp = 9 \<or> 32 \<le> cp \<and> cp < 127 then ucast cp
      else if cp = 0xa0 then 32
      else if cp = 0x2018 \<or> cp = 0x2019 then 39
      else if cp = 0x201c \<or> cp = 0x201d then 34
      else if cp = 0x2013 \<or> cp = 0x2014 then 45
      else 63)"

definition json_space :: "u8 \<Rightarrow> bool" where
  "json_space c \<longleftrightarrow> c \<in> {32, 9, 13, 10}"

definition json_whitespace :: "json \<Rightarrow> json" where
  "json_whitespace j = j\<lparr>js_rest := dropWhile json_space (js_rest j)\<rparr>"

fun hex_digits :: "nat \<Rightarrow> u32 \<Rightarrow> bytes \<Rightarrow> (u32 \<times> bytes) option" where
  "hex_digits 0 cp bs = Some (cp, bs)"
| "hex_digits (Suc n) cp [] = None"
| "hex_digits (Suc n) cp (c # bs) =
     (case json_hex c of None \<Rightarrow> None | Some d \<Rightarrow> hex_digits n (push_bit 4 cp OR d) bs)"

definition unicode_escape :: "bytes \<Rightarrow> (u32 \<times> bytes) option" where
  "unicode_escape = hex_digits 4 0"

definition low_surrogate :: "u32 \<Rightarrow> bytes \<Rightarrow> (u32 \<times> bytes) option" where
  "low_surrogate cp bs =
     (case bs of
        b # u # bs \<Rightarrow>
          if length bs < 4 \<or> b \<noteq> 92 \<or> u \<noteq> 0x75 then None
          else (case unicode_escape bs of
            None \<Rightarrow> None
          | Some (low, bs) \<Rightarrow>
              if low < 0xdc00 \<or> low > 0xdfff then None
              else Some (0x10000 + push_bit 10 (cp - 0xd800) + low - 0xdc00, bs))
      | _ \<Rightarrow> None)"

definition simple_escape :: "u8 \<Rightarrow> u32 option" where
  "simple_escape c =
     (if c = 34 then Some 34 else if c = 92 then Some 92 else if c = 47 then Some 47 else if c = 0x62 then Some 8
      else if c = 0x66 then Some 12 else if c = 0x6e then Some 10 else if c = 0x72 then Some 13 else if c = 0x74 then Some 9
      else None)"

definition string_escape :: "bytes \<Rightarrow> (u32 \<times> bytes) option" where
  "string_escape bs =
     (case bs of
        [] \<Rightarrow> None
      | e # bs \<Rightarrow>
          if e = 0x75 then
            case unicode_escape bs of
              None \<Rightarrow> None
            | Some (cp, bs) \<Rightarrow>
                if 0xd800 \<le> cp \<and> cp \<le> 0xdbff then low_surrogate cp bs
                else if 0xdc00 \<le> cp \<and> cp \<le> 0xdfff then None
                else Some (cp, bs)
          else case simple_escape e of None \<Rightarrow> None | Some cp \<Rightarrow> Some (cp, bs))"

fun utf8_extra :: "nat \<Rightarrow> u32 \<Rightarrow> bytes \<Rightarrow> (u32 \<times> bytes) option" where
  "utf8_extra 0 cp bs = Some (cp, bs)"
| "utf8_extra (Suc n) cp [] = None"
| "utf8_extra (Suc n) cp (c # bs) =
     (if c AND 0xc0 \<noteq> 0x80 then None else utf8_extra n (push_bit 6 cp OR ucast (c AND 0x3f)) bs)"

definition utf8_rest :: "u8 \<Rightarrow> bytes \<Rightarrow> (u32 \<times> bytes) option" where
  "utf8_rest c bs =
     (case (if 0xc2 \<le> c \<and> c \<le> 0xdf then Some (1, 0x80, c AND 0x1f)
            else if 0xe0 \<le> c \<and> c \<le> 0xef then Some (2, 0x800, c AND 0x0f)
            else if 0xf0 \<le> c \<and> c \<le> 0xf4 then Some (3, 0x10000, c AND 7)
            else None) of
        None \<Rightarrow> None
      | Some (extra, minimum, first) \<Rightarrow>
          (case utf8_extra extra (ucast first) bs of
             None \<Rightarrow> None
           | Some (cp, bs) \<Rightarrow>
               if cp < minimum \<or> cp > 0x10ffff \<or> 0xd800 \<le> cp \<and> cp \<le> 0xdfff then None else Some (cp, bs)))"

section \<open>Strings\<close>

text \<open>One character of a string: \<open>None\<close> inside says that the closing quote was read.\<close>

definition string_char :: "bytes \<Rightarrow> (u32 option \<times> bytes) option" where
  "string_char bs =
     (case bs of
        [] \<Rightarrow> None
      | c # bs \<Rightarrow>
          if c = 34 then Some (None, bs)
          else if c < 32 then None
          else if c = 92 then map_option (map_prod Some id) (string_escape bs)
          else if c \<ge> 128 then map_option (map_prod Some id) (utf8_rest c bs)
          else Some (Some (ucast c), bs))"

lemma hex_digits_shorter: "hex_digits n cp bs = Some (cp', bs') \<Longrightarrow> length bs' \<le> length bs"
  by (induction n cp bs rule: hex_digits.induct) (auto split: option.splits)

lemma utf8_extra_shorter: "utf8_extra n cp bs = Some (cp', bs') \<Longrightarrow> length bs' \<le> length bs"
  by (induction n cp bs rule: utf8_extra.induct) (auto split: if_splits)

lemma unicode_escape_shorter: "unicode_escape bs = Some (cp, bs') \<Longrightarrow> length bs' \<le> length bs"
  by (auto simp: unicode_escape_def dest: hex_digits_shorter)

lemma low_surrogate_shorter: "low_surrogate cp bs = Some (cp', bs') \<Longrightarrow> length bs' \<le> length bs"
  by (fastforce simp: low_surrogate_def dest: unicode_escape_shorter split: list.splits option.splits if_splits)

lemma string_escape_shorter: "string_escape bs = Some (cp, bs') \<Longrightarrow> length bs' \<le> length bs"
  by (fastforce simp: string_escape_def dest: unicode_escape_shorter low_surrogate_shorter
      split: list.splits option.splits if_splits)

lemma utf8_rest_shorter: "utf8_rest c bs = Some (cp, bs') \<Longrightarrow> length bs' \<le> length bs"
  by (auto simp: utf8_rest_def dest: utf8_extra_shorter split: option.splits if_splits prod.splits)

lemma string_char_shorter: "string_char bs = Some (x, bs') \<Longrightarrow> length bs' < length bs"
  by (fastforce simp: string_char_def dest: string_escape_shorter utf8_rest_shorter split: list.splits if_splits)

function string_chars :: "bytes \<Rightarrow> (bytes \<times> bytes) option" where
  "string_chars bs =
     (case string_char bs of
        None \<Rightarrow> None
      | Some (None, bs) \<Rightarrow> Some ([], bs)
      | Some (Some cp, bs) \<Rightarrow> map_option (map_prod ((#) (chat_ascii cp)) id) (string_chars bs))"
  by pat_completeness auto
termination
  by (relation "measure length") (auto dest: string_char_shorter)

declare string_chars.simps [simp del]

text \<open>The characters of a string and the rest of the input. The caller's buffer holds the characters when they fit its capacity.\<close>

definition json_string :: "bytes \<Rightarrow> (bytes \<times> bytes) option" where
  "json_string bs = (case bs of [] \<Rightarrow> None | c # bs \<Rightarrow> if c \<noteq> 34 then None else string_chars bs)"

section \<open>Numbers and literals\<close>

definition json_literal :: "bytes \<Rightarrow> bytes option" where
  "json_literal bs =
     (if bs = [] then None
      else if hd bs = 0x74 then Some (ascii ''true'')
      else if hd bs = 0x66 then Some (ascii ''false'')
      else if hd bs = 0x6e then Some (ascii ''null'')
      else None)"

definition digits_required :: "bytes \<Rightarrow> bytes option" where
  "digits_required bs = (let rest = dropWhile is_digit bs in if rest = bs then None else Some rest)"

definition number_integer :: "bytes \<Rightarrow> bytes option" where
  "number_integer bs0 =
     (let bs = (if bs0 \<noteq> [] \<and> hd bs0 = 45 then tl bs0 else bs0)
      in if bs = [] then None
         else if hd bs = 48 then Some (tl bs)
         else if hd bs < 49 \<or> hd bs > 57 then None
         else Some (dropWhile is_digit bs))"

definition number_fraction :: "bytes \<Rightarrow> bytes option" where
  "number_fraction bs = (if bs \<noteq> [] \<and> hd bs = 46 then digits_required (tl bs) else Some bs)"

definition number_exponent :: "bytes \<Rightarrow> bytes option" where
  "number_exponent bs =
     (if bs \<noteq> [] \<and> (hd bs = 0x65 \<or> hd bs = 0x45) then
        digits_required (if tl bs \<noteq> [] \<and> (hd (tl bs) = 43 \<or> hd (tl bs) = 45) then tl (tl bs) else tl bs)
      else Some bs)"

definition json_number :: "bytes \<Rightarrow> bytes option" where
  "json_number bs =
     (case number_integer bs of
        None \<Rightarrow> None
      | Some bs \<Rightarrow> case number_fraction bs of None \<Rightarrow> None | Some bs \<Rightarrow> number_exponent bs)"

section \<open>Values\<close>

text \<open>The path numbers of the code: 1 the event, 2 its choices, 3 the first choice, 4 its delta, 5 the content.\<close>

definition member_path :: "nat \<Rightarrow> bytes \<Rightarrow> nat" where
  "member_path path key =
     (if length key < 32 then
        if path = 1 \<and> key = ascii ''choices'' then 2
        else if path = 3 \<and> key = ascii ''delta'' then 4
        else if path = 4 \<and> key = ascii ''content'' then 5
        else 0
      else 0)"

definition error_member :: "nat \<Rightarrow> bytes \<Rightarrow> bool" where
  "error_member path key \<longleftrightarrow> length key < 32 \<and> path = 1 \<and> key = ascii ''error''"

datatype json_result = Parsed json | Malformed | Unfinished

definition json_bind :: "json_result \<Rightarrow> (json \<Rightarrow> json_result) \<Rightarrow> json_result" where
  "json_bind r k = (case r of Parsed j \<Rightarrow> k j | Malformed \<Rightarrow> Malformed | Unfinished \<Rightarrow> Unfinished)"

definition parsed :: "json option \<Rightarrow> json_result" where
  "parsed r = (case r of None \<Rightarrow> Malformed | Some j \<Rightarrow> Parsed j)"

definition json_member :: "(nat \<Rightarrow> json \<Rightarrow> json_result) \<Rightarrow> nat \<Rightarrow> json \<Rightarrow> json_result" where
  "json_member val path j =
     (case json_string (js_rest j) of
        None \<Rightarrow> Malformed
      | Some (key, bs) \<Rightarrow>
          let j = json_whitespace (j\<lparr>js_rest := bs\<rparr>)
          in if js_rest j = [] \<or> hd (js_rest j) \<noteq> 58 then Malformed
             else val (member_path path key)
               (j\<lparr>js_rest := tl (js_rest j), js_provider_error := js_provider_error j \<or> error_member path key\<rparr>))"

fun json_members :: "nat \<Rightarrow> (nat \<Rightarrow> json \<Rightarrow> json_result) \<Rightarrow> nat \<Rightarrow> json \<Rightarrow> json_result" where
  "json_members 0 val path j = Unfinished"
| "json_members (Suc n) val path j =
     json_bind (json_member val path j) (\<lambda>j.
       case js_rest (json_whitespace j) of
         [] \<Rightarrow> Malformed
       | c # bs \<Rightarrow>
           let j = j\<lparr>js_rest := bs\<rparr>
           in if c = 0x7d then Parsed j
              else if c \<noteq> 44 then Malformed
              else json_members n val path (json_whitespace j))"

fun json_elements :: "nat \<Rightarrow> (nat \<Rightarrow> json \<Rightarrow> json_result) \<Rightarrow> nat \<Rightarrow> nat \<Rightarrow> json \<Rightarrow> json_result" where
  "json_elements 0 val path i j = Unfinished"
| "json_elements (Suc n) val path i j =
     json_bind (val (if path = 2 \<and> i = 0 then 3 else 0) j) (\<lambda>j.
       case js_rest (json_whitespace j) of
         [] \<Rightarrow> Malformed
       | c # bs \<Rightarrow>
           let j = j\<lparr>js_rest := bs\<rparr>
           in if c = 0x5d then Parsed j
              else if c \<noteq> 44 then Malformed
              else json_elements n val path (i + 1) j)"

definition json_text :: "nat \<Rightarrow> json \<Rightarrow> json option" where
  "json_text path j =
     (let capture = (path = 5)
      in if capture \<and> js_content_seen j then None
         else case json_string (js_rest j) of
           None \<Rightarrow> None
         | Some (text, bs) \<Rightarrow>
             let j = j\<lparr>js_rest := bs\<rparr>
             in if capture then
                  if length text \<ge> 4096 then None else Some (j\<lparr>js_text := text, js_content_seen := True\<rparr>)
                else Some j)"

definition json_scalar :: "json \<Rightarrow> json option" where
  "json_scalar j =
     (case json_literal (js_rest j) of
        Some literal \<Rightarrow>
          if take (length literal) (js_rest j) \<noteq> literal then None
          else Some (j\<lparr>js_rest := drop (length literal) (js_rest j)\<rparr>)
      | None \<Rightarrow> map_option (\<lambda>bs. j\<lparr>js_rest := bs\<rparr>) (json_number (js_rest j)))"

fun json_value :: "nat \<Rightarrow> nat \<Rightarrow> json \<Rightarrow> json_result" where
  "json_value 0 path j = Malformed"
| "json_value (Suc d) path j0 =
     (let j = json_whitespace j0
      in case js_rest j of
           [] \<Rightarrow> Malformed
         | c # bs \<Rightarrow>
             if c = 0x7b then
               let j = json_whitespace (j\<lparr>js_rest := bs\<rparr>)
               in if js_rest j \<noteq> [] \<and> hd (js_rest j) = 0x7d then Parsed (j\<lparr>js_rest := tl (js_rest j)\<rparr>)
                  else json_members (Suc (length (js_rest j))) (json_value d) path j
             else if c = 0x5b then
               let j = json_whitespace (j\<lparr>js_rest := bs\<rparr>)
               in if js_rest j \<noteq> [] \<and> hd (js_rest j) = 0x5d then Parsed (j\<lparr>js_rest := tl (js_rest j)\<rparr>)
                  else json_elements (Suc (length (js_rest j))) (json_value d) path 0 j
             else if c = 34 then parsed (json_text path j)
             else parsed (json_scalar j))"

section \<open>The reader consumes its input and returns\<close>

lemma whitespace_shorter [simp]: "length (js_rest (json_whitespace j)) \<le> length (js_rest j)"
  by (simp add: json_whitespace_def length_dropWhile_le)

lemma string_chars_shorter: "string_chars bs = Some (cs, bs') \<Longrightarrow> length bs' < length bs"
proof (induction bs arbitrary: cs rule: string_chars.induct)
  case (1 bs)
  from 1(2) obtain x bs1 where c: "string_char bs = Some (x, bs1)"
    by (subst (asm) string_chars.simps) (auto split: option.splits)
  note short = string_char_shorter [OF c]
  show ?case
  proof (cases x)
    case None
    with 1(2) c short show ?thesis
      by (subst (asm) string_chars.simps) simp
  next
    case (Some cp)
    then obtain cs1 where "string_chars bs1 = Some (cs1, bs')"
      using 1(2) c by (subst (asm) string_chars.simps) auto
    from 1(1) [OF c _ Some this] short show ?thesis by simp
  qed
qed

lemma json_string_shorter: "json_string bs = Some (cs, bs') \<Longrightarrow> length bs' < length bs"
  by (auto simp: json_string_def dest: string_chars_shorter split: list.splits if_splits)

text \<open>What a level of the reader promises to the level above it: it returns, and it consumes.\<close>

locale json_reader =
  fixes val :: "nat \<Rightarrow> json \<Rightarrow> json_result"
  assumes shrinks: "val path j = Parsed j' \<Longrightarrow> length (js_rest j') < length (js_rest j)"
    and returns: "val path j \<noteq> Unfinished"
begin

lemma member_shrinks: "json_member val path j = Parsed j' \<Longrightarrow> length (js_rest j') < length (js_rest j)"
proof -
  assume "json_member val path j = Parsed j'"
  then obtain key bs where k: "json_string (js_rest j) = Some (key, bs)"
    and v: "val (member_path path key) ((json_whitespace (j\<lparr>js_rest := bs\<rparr>))
      \<lparr>js_rest := tl (js_rest (json_whitespace (j\<lparr>js_rest := bs\<rparr>))),
       js_provider_error := js_provider_error (json_whitespace (j\<lparr>js_rest := bs\<rparr>)) \<or> error_member path key\<rparr>) = Parsed j'"
    by (auto simp: json_member_def Let_def split: option.splits if_splits)
  have "length (js_rest j') \<le> length (js_rest (json_whitespace (j\<lparr>js_rest := bs\<rparr>)))"
    using shrinks [OF v] by simp
  also have "\<dots> \<le> length bs"
    using whitespace_shorter [of "j\<lparr>js_rest := bs\<rparr>"] by simp
  finally show ?thesis
    using json_string_shorter [OF k] by simp
qed

lemma member_returns: "json_member val path j \<noteq> Unfinished"
  using returns by (auto simp: json_member_def Let_def split: option.splits)

lemma members_shrink: "json_members n val path j = Parsed j' \<Longrightarrow> length (js_rest j') < length (js_rest j)"
proof (induction n arbitrary: j)
  case (Suc n)
  from Suc.prems obtain j1 c bs where m: "json_member val path j = Parsed j1"
    and r: "js_rest (json_whitespace j1) = c # bs"
    and k: "j' = j1\<lparr>js_rest := bs\<rparr> \<or> json_members n val path (json_whitespace (j1\<lparr>js_rest := bs\<rparr>)) = Parsed j'"
    by (auto simp: json_bind_def Let_def split: json_result.splits list.splits if_splits)
  have "length bs < length (js_rest j)"
    using member_shrinks [OF m] r whitespace_shorter [of j1] by simp
  with k show ?case
    using Suc.IH [of "json_whitespace (j1\<lparr>js_rest := bs\<rparr>)"] whitespace_shorter [of "j1\<lparr>js_rest := bs\<rparr>"] by auto
qed simp

lemma members_return: "length (js_rest j) < n \<Longrightarrow> json_members n val path j \<noteq> Unfinished"
proof (induction n arbitrary: j)
  case (Suc n)
  have "json_members n val path (json_whitespace (j1\<lparr>js_rest := bs\<rparr>)) \<noteq> Unfinished"
    if m: "json_member val path j = Parsed j1" and r: "js_rest (json_whitespace j1) = c # bs" for j1 c bs
    using member_shrinks [OF m] r whitespace_shorter [of j1] whitespace_shorter [of "j1\<lparr>js_rest := bs\<rparr>"] Suc.prems
    by (intro Suc.IH) simp
  with member_returns [of path j] show ?case
    by (auto simp: json_bind_def Let_def split: json_result.splits list.splits)
qed simp

lemma elements_shrink: "json_elements n val path i j = Parsed j' \<Longrightarrow> length (js_rest j') < length (js_rest j)"
proof (induction n arbitrary: i j)
  case (Suc n)
  from Suc.prems obtain j1 c bs where m: "val (if path = 2 \<and> i = 0 then 3 else 0) j = Parsed j1"
    and r: "js_rest (json_whitespace j1) = c # bs"
    and k: "j' = j1\<lparr>js_rest := bs\<rparr> \<or> json_elements n val path (i + 1) (j1\<lparr>js_rest := bs\<rparr>) = Parsed j'"
    by (auto simp: json_bind_def Let_def split: json_result.splits list.splits if_splits)
  have "length bs < length (js_rest j)"
    using shrinks [OF m] r whitespace_shorter [of j1] by simp
  with k show ?case
    using Suc.IH [of "i + 1" "j1\<lparr>js_rest := bs\<rparr>"] by auto
qed simp

lemma elements_return: "length (js_rest j) < n \<Longrightarrow> json_elements n val path i j \<noteq> Unfinished"
proof (induction n arbitrary: i j)
  case (Suc n)
  have "json_elements n val path (i + 1) (j1\<lparr>js_rest := bs\<rparr>) \<noteq> Unfinished"
    if m: "val (if path = 2 \<and> i = 0 then 3 else 0) j = Parsed j1" and r: "js_rest (json_whitespace j1) = c # bs" for j1 c bs
    using shrinks [OF m] r whitespace_shorter [of j1] Suc.prems by (intro Suc.IH) simp
  with returns show ?case
    by (auto simp: json_bind_def Let_def split: json_result.splits list.splits)
qed simp

end

lemma digits_required_shorter: "digits_required bs = Some bs' \<Longrightarrow> length bs' \<le> length bs"
  by (auto simp: digits_required_def Let_def length_dropWhile_le split: if_splits)

lemma integer_shorter: "number_integer bs = Some bs' \<Longrightarrow> length bs' < length bs"
proof -
  assume n: "number_integer bs = Some bs'"
  define cs where "cs = (if bs \<noteq> [] \<and> hd bs = 45 then tl bs else bs)"
  have le: "length cs \<le> length bs"
    by (simp add: cs_def)
  from n obtain c ds where cs: "cs = c # ds" and r: "c = 48 \<and> bs' = ds \<or> is_digit c \<and> bs' = dropWhile is_digit ds"
    by (cases cs) (auto simp: number_integer_def cs_def [symmetric] is_digit_def not_less Let_def
        intro: order_trans [of 48 49] split: if_splits)
  have "length bs' \<le> length ds"
    using r by (auto simp: length_dropWhile_le)
  with le cs show ?thesis by simp
qed

lemma number_shorter: "json_number bs = Some bs' \<Longrightarrow> length bs' < length bs"
proof -
  assume "json_number bs = Some bs'"
  then obtain b1 b2 where b: "number_integer bs = Some b1" "number_fraction b1 = Some b2" "number_exponent b2 = Some bs'"
    by (auto simp: json_number_def split: option.splits)
  have "length b1 < length bs"
    using b(1) integer_shorter by blast
  moreover have "length b2 \<le> length b1"
    using b(2) by (fastforce simp: number_fraction_def dest: digits_required_shorter split: if_splits)
  moreover have "length bs' \<le> length b2"
    using b(3) by (fastforce simp: number_exponent_def dest: digits_required_shorter split: if_splits)
  ultimately show ?thesis by simp
qed

lemma text_shorter: "json_text path j = Some j' \<Longrightarrow> length (js_rest j') < length (js_rest j)"
  by (auto simp: json_text_def Let_def split: option.splits if_splits) (erule json_string_shorter)+

lemma scalar_shorter: "json_scalar j = Some j' \<Longrightarrow> length (js_rest j') < length (js_rest j)"
proof -
  assume s: "json_scalar j = Some j'"
  have "0 < length l \<and> js_rest j \<noteq> []" if "json_literal (js_rest j) = Some l" for l
    using that by (auto simp: json_literal_def ascii_def split: if_splits)
  then show ?thesis
    using s by (auto simp: json_scalar_def dest: number_shorter split: option.splits if_splits)
qed

lemma parsed_simps [simp]: "parsed r \<noteq> Unfinished" "parsed r = Parsed j \<longleftrightarrow> r = Some j"
  by (auto simp: parsed_def split: option.splits)

lemma json_value_reader: "json_reader (json_value d)"
proof (induction d)
  case 0
  show ?case by unfold_locales simp_all
next
  case (Suc d)
  note r = json_reader.members_return [OF Suc] json_reader.elements_return [OF Suc]
    and s = json_reader.members_shrink [OF Suc] json_reader.elements_shrink [OF Suc]
  show ?case
  proof
    fix path j j'
    show "json_value (Suc d) path j \<noteq> Unfinished"
      using r by (auto simp: Let_def simp del: json_members.simps json_elements.simps split: list.splits)
    assume v: "json_value (Suc d) path j = Parsed j'"
    then obtain c bs where c: "js_rest (json_whitespace j) = c # bs"
      by (auto simp: Let_def split: list.splits)
    let ?k = "json_whitespace ((json_whitespace j)\<lparr>js_rest := bs\<rparr>)"
    have k: "length (js_rest ?k) < length (js_rest j)"
      using whitespace_shorter [of "(json_whitespace j)\<lparr>js_rest := bs\<rparr>"] whitespace_shorter [of j] c by simp
    from v c consider "js_rest j' = tl (js_rest ?k)"
      | n where "json_members n (json_value d) path ?k = Parsed j'"
      | n where "json_elements n (json_value d) path 0 ?k = Parsed j'"
      | "json_text path (json_whitespace j) = Some j'"
      | "json_scalar (json_whitespace j) = Some j'"
      by (auto simp: Let_def simp del: json_members.simps json_elements.simps split: if_splits)
    then show "length (js_rest j') < length (js_rest j)"
    proof cases
      case 1
      with k show ?thesis by simp
    next
      case 2
      from s(1) [OF this] k show ?thesis by simp
    next
      case 3
      from s(2) [OF this] k show ?thesis by simp
    next
      case 4
      from less_le_trans [OF text_shorter [OF this] whitespace_shorter] show ?thesis .
    next
      case 5
      from less_le_trans [OF scalar_shorter [OF this] whitespace_shorter] show ?thesis .
    qed
  qed
qed

interpretation level: json_reader "json_value d" for d
  by (rule json_value_reader)

section \<open>Text round trip\<close>

text \<open>How a server writes a text of printable characters, tabs and line ends as a JSON string.\<close>

definition chat_char :: "u8 \<Rightarrow> bool" where
  "chat_char c \<longleftrightarrow> c = 10 \<or> c = 13 \<or> c = 9 \<or> 32 \<le> c \<and> c < 127"

definition json_escape :: "u8 \<Rightarrow> bytes" where
  "json_escape c =
     (if c = 34 then [92, 34] else if c = 92 then [92, 92] else if c = 10 then [92, 0x6e] else if c = 13 then [92, 0x72]
      else if c = 9 then [92, 0x74] else [c])"

definition json_quote :: "bytes \<Rightarrow> bytes" where
  "json_quote text = [34] @ concat (map json_escape text) @ [34]"

lemma chat_ascii_char: "chat_char c \<Longrightarrow> chat_ascii (ucast c) = c"
proof -
  assume c: "chat_char c"
  have "ucast c = (10 :: u32) \<longleftrightarrow> c = 10" "ucast c = (13 :: u32) \<longleftrightarrow> c = 13" "ucast c = (9 :: u32) \<longleftrightarrow> c = 9"
    "(32 :: u32) \<le> ucast c \<longleftrightarrow> 32 \<le> c" "ucast c < (127 :: u32) \<longleftrightarrow> c < 127"
    by (simp_all add: word_unat_eq_iff word_le_nat_alt word_less_nat_alt unat_widen)
  moreover have "ucast (ucast c :: u32) = c"
    by (rule bit_word_eqI) (auto simp: bit_simps)
  ultimately show ?thesis
    using c by (simp add: chat_ascii_def chat_char_def)
qed

lemma string_escape_char:
  assumes "chat_char c"
  shows "\<exists>cp. string_char (json_escape c @ bs) = Some (Some cp, bs) \<and> chat_ascii cp = c"
proof -
  have plain: "string_char (c # bs) = Some (Some (ucast c), bs)" if "32 \<le> c" "c < 127" "c \<noteq> 34" "c \<noteq> 92"
  proof -
    have "\<not> c < 32" "\<not> c \<ge> 128"
      using that by (simp_all add: not_less not_le less_trans [of c 127 128])
    with that show ?thesis by (simp add: string_char_def)
  qed
  have escaped: "string_char (92 # e # bs) = Some (Some cp, bs)" if "simple_escape e = Some cp" "e \<noteq> 0x75" for e cp
    using that by (simp add: string_char_def string_escape_def)
  consider "c = 34" | "c = 92" | "c = 10" | "c = 13" | "c = 9" | "32 \<le> c" "c < 127" "c \<noteq> 34" "c \<noteq> 92"
    using assms by (auto simp: chat_char_def)
  then show ?thesis
    using plain chat_ascii_char [OF assms]
    by cases (auto simp: json_escape_def escaped simple_escape_def chat_ascii_def)
qed

lemma string_chars_escaped:
  assumes "list_all chat_char cs"
  shows "string_chars (concat (map json_escape cs) @ 34 # bs) = Some (cs, bs)"
  using assms
proof (induction cs)
  case Nil
  then show ?case
    by (subst string_chars.simps) (simp add: string_char_def)
next
  case (Cons c cs)
  obtain cp where "string_char (json_escape c @ (concat (map json_escape cs) @ 34 # bs)) =
      Some (Some cp, concat (map json_escape cs) @ 34 # bs)" "chat_ascii cp = c"
    using string_escape_char [of c] Cons.prems by auto
  with Cons show ?case
    by (subst string_chars.simps) simp
qed

lemma json_string_quoted: "list_all chat_char text \<Longrightarrow> json_string (json_quote text @ bs) = Some (text, bs)"
  by (simp add: json_string_def json_quote_def string_chars_escaped)

section \<open>Properties\<close>

text \<open>
  C28. The JSON reader returns on every input, however deeply it is nested and however its loops are fed: each value it accepts
  takes at least one byte, so neither loop can run on.
\<close>

theorem json_reader_returns:
  "json_value d path j \<noteq> Unfinished \<and>
   (case json_value d path j of Parsed j' \<Rightarrow> length (js_rest j') < length (js_rest j) | _ \<Rightarrow> True)"
  using level.returns [of d path j] level.shrinks [of d path j] by (cases "json_value d path j") simp_all

end
