(* ===== verification/Chat_Stream.thy ===== *)
theory Chat_Stream
  imports Chat_Json
begin

text \<open>
  The incremental parser of chat responses of \<open>src/src/common/chat_stream.c\<close>: an HTTP response, plain or chunked, whose body is a
  stream of server-sent events; the text of each event goes to a callback that may refuse a byte.

  \<^item> \<open>chat_stream\<close> is the code's struct; \<open>ch_line\<close> holds the bytes of the current line and \<open>ch_text\<close> the text of the current event up to
    \<open>text_length\<close>. On a malformed event the model leaves no text; the code may leave some, but never looks at it, since an
    error stops the feed.
  \<^item> \<open>header\<close> writes terminators into the line, which is emptied right after; the model splits the line instead.
  \<^item> \<open>scan_status\<close> is what \<open>sscanf\<close> does for the format of the status line: the value and the number of bytes read.
\<close>

section \<open>State\<close>

datatype chat_phase = CHAT_STATUS_LINE | CHAT_HEADERS | CHAT_BODY

datatype chat_chunk_phase =
  CHAT_CHUNK_SIZE | CHAT_CHUNK_SIZE_LF | CHAT_CHUNK_DATA | CHAT_CHUNK_CR | CHAT_CHUNK_LF | CHAT_TRAILERS

abbreviation Z80_CHAT_LINE_MAX :: nat where "Z80_CHAT_LINE_MAX \<equiv> 4096"

record chat_stream =
  ch_line :: bytes
  ch_text :: bytes
  ch_text_position :: nat
  ch_header_bytes :: nat
  ch_remaining :: u32
  ch_chunk_size :: u32
  ch_phase :: chat_phase
  ch_chunk_phase :: chat_chunk_phase
  ch_status :: u32
  ch_chunked :: bool
  ch_have_length :: bool
  ch_event_stream :: bool
  ch_done :: bool
  ch_extension :: bool
  ch_chunk_digits :: nat
  ch_error :: "string option"

definition chat_fail :: "string \<Rightarrow> chat_stream \<Rightarrow> chat_stream" where
  "chat_fail m s = s\<lparr>ch_error := Some m\<rparr>"

definition z80_chat_stream_init :: chat_stream where
  "z80_chat_stream_init =
     \<lparr>ch_line = [], ch_text = [], ch_text_position = 0, ch_header_bytes = 0, ch_remaining = 0, ch_chunk_size = 0,
      ch_phase = CHAT_STATUS_LINE, ch_chunk_phase = CHAT_CHUNK_SIZE, ch_status = 0, ch_chunked = False,
      ch_have_length = False, ch_event_stream = False, ch_done = False, ch_extension = False, ch_chunk_digits = 0,
      ch_error = None\<rparr>"

section \<open>Lines\<close>

definition event_end :: "json \<Rightarrow> chat_stream \<Rightarrow> chat_stream" where
  "event_end j0 s0 =
     (let j = json_whitespace j0; s = s0\<lparr>ch_text := js_text j\<rparr>
      in if js_rest j \<noteq> [] then chat_fail ''Trailing data in chat SSE JSON'' s
         else if js_provider_error j then chat_fail ''Provider reported a streaming error'' s
         else s)"

definition chat_event :: "chat_stream \<Rightarrow> chat_stream" where
  "chat_event s =
     (if take 5 (ch_line s) \<noteq> ascii ''data:'' then s
      else
        let rest = drop 5 (ch_line s); data = (if rest \<noteq> [] \<and> hd rest = 32 then tl rest else rest)
        in if data = ascii ''[DONE]'' then s\<lparr>ch_done := True\<rparr>
           else
             let s = s\<lparr>ch_text := [], ch_text_position := 0\<rparr>;
                 j = json_whitespace \<lparr>js_rest = data, js_content_seen = False, js_provider_error = False, js_text = []\<rparr>
             in if js_rest j = [] \<or> hd (js_rest j) \<noteq> 0x7b then chat_fail ''Malformed chat SSE JSON'' s
                else case json_value 17 1 j of
                    Parsed j \<Rightarrow> event_end j s
                  | _ \<Rightarrow> chat_fail ''Malformed chat SSE JSON'' s)"

fun chat_equal_ci :: "bytes \<Rightarrow> bytes \<Rightarrow> bool" where
  "chat_equal_ci (x # xs) (y # ys) \<longleftrightarrow> to_lower x = to_lower y \<and> chat_equal_ci xs ys"
| "chat_equal_ci xs ys \<longleftrightarrow> xs = [] \<and> ys = []"

definition blank :: "u8 \<Rightarrow> bool" where
  "blank c \<longleftrightarrow> c = 32 \<or> c = 9"

definition chat_trim :: "bytes \<Rightarrow> bytes" where
  "chat_trim v = rev (dropWhile blank (rev (dropWhile blank v)))"

fun chat_number :: "u32 \<Rightarrow> bytes \<Rightarrow> u32 option" where
  "chat_number n [] = Some n"
| "chat_number n (c # cs) =
     (if \<not> is_digit c \<or> n > (0xFFFFFFFF - 9) div 10 then None else chat_number (n * 10 + ucast (c - 48)) cs)"

definition header_length :: "bytes \<Rightarrow> chat_stream \<Rightarrow> chat_stream" where
  "header_length val s =
     (if ch_have_length s \<or> ch_chunked s \<or> val = [] then chat_fail ''Invalid chat HTTP content length'' s
      else case chat_number 0 val of
        None \<Rightarrow> chat_fail ''Invalid chat HTTP content length'' s
      | Some n \<Rightarrow> s\<lparr>ch_remaining := n, ch_have_length := True\<rparr>)"

definition chat_header :: "chat_stream \<Rightarrow> chat_stream" where
  "chat_header s =
     (if 58 \<notin> set (ch_line s) then chat_fail ''Malformed chat HTTP header'' s
      else
        let name = takeWhile (\<lambda>c. c \<noteq> 58) (ch_line s); val = chat_trim (drop (length name + 1) (ch_line s))
        in if chat_equal_ci name (ascii ''Transfer-Encoding'') then
             (if ch_chunked s \<or> ch_have_length s \<or> \<not> chat_equal_ci val (ascii ''chunked'')
              then chat_fail ''Unsupported chat HTTP transfer encoding'' s else s)\<lparr>ch_chunked := True\<rparr>
           else if chat_equal_ci name (ascii ''Content-Length'') then header_length val s
           else if chat_equal_ci name (ascii ''Content-Type'') then
             s\<lparr>ch_event_stream := chat_equal_ci (takeWhile (\<lambda>c. c \<noteq> 59) val) (ascii ''text/event-stream'')\<rparr>
           else if chat_equal_ci name (ascii ''Content-Encoding'') \<and> \<not> chat_equal_ci val (ascii ''identity'') then
             chat_fail ''Unsupported compressed chat response'' s
           else s)"

definition c_space :: "u8 \<Rightarrow> bool" where
  "c_space c \<longleftrightarrow> c = 32 \<or> 9 \<le> c \<and> c \<le> 13"

definition scan_unsigned :: "bytes \<Rightarrow> (u32 \<times> nat) option" where
  "scan_unsigned r =
     (let sign = (r \<noteq> [] \<and> (hd r = 43 \<or> hd r = 45));
          ds = takeWhile is_digit (if sign then take 2 (tl r) else take 3 r);
          n = foldl (\<lambda>n c. n * 10 + ucast (c - 48)) 0 ds
      in if ds = [] then None
         else Some (if sign \<and> hd r = 45 then - n else n, (if sign then 1 else 0) + length ds))"

definition scan_status :: "bytes \<Rightarrow> (u32 \<times> nat) option" where
  "scan_status l =
     (if take 7 l \<noteq> ascii ''HTTP/1.'' \<or> length l < 8 \<or> l ! 7 \<notin> {48, 49} then None
      else
        let r = dropWhile c_space (drop 8 l)
        in map_option (map_prod id ((+) (length l - length r))) (scan_unsigned r))"

definition status_line_end :: "chat_stream \<Rightarrow> chat_stream" where
  "status_line_end s =
     (case scan_status (ch_line s) of
        None \<Rightarrow> chat_fail ''Invalid chat HTTP status'' s
      | Some (status, used) \<Rightarrow>
          let s = s\<lparr>ch_status := status\<rparr>; rest = drop used (ch_line s)
          in if used \<noteq> 12 \<or> rest \<noteq> [] \<and> hd rest \<noteq> 32 then chat_fail ''Invalid chat HTTP status'' s
             else if status \<noteq> 200 then
               chat_fail (if status = 401 \<or> status = 403 then ''HTTP authentication rejected (401/403)''
                          else if status = 429 then ''HTTP rate limit exceeded (429)''
                          else ''Chat HTTP status is not 200'') s
             else s)\<lparr>ch_phase := CHAT_HEADERS\<rparr>"

definition line_end :: "chat_stream \<Rightarrow> chat_stream" where
  "line_end s0 =
     (let s = (if ch_line s0 \<noteq> [] \<and> last (ch_line s0) = 13 then s0\<lparr>ch_line := butlast (ch_line s0)\<rparr> else s0);
          s = (if ch_phase s = CHAT_STATUS_LINE then status_line_end s
               else if ch_phase s = CHAT_HEADERS then
                 if ch_line s \<noteq> [] then chat_header s
                 else if \<not> ch_event_stream s then chat_fail ''Chat response is not text/event-stream'' s
                 else s\<lparr>ch_phase := CHAT_BODY\<rparr>
               else if ch_chunk_phase s = CHAT_TRAILERS \<and> ch_chunked s then
                 if ch_line s = [] then chat_fail ''Chat stream ended without [DONE]'' s else s
               else if ch_line s \<noteq> [] then chat_event s
               else s)
      in s\<lparr>ch_line := []\<rparr>)"

definition chat_line :: "u8 \<Rightarrow> chat_stream \<Rightarrow> chat_stream" where
  "chat_line byte s =
     (if byte = 0 then chat_fail ''NUL in chat HTTP/SSE'' s
      else if byte \<noteq> 10 then
        if length (ch_line s) + 1 = Z80_CHAT_LINE_MAX then chat_fail ''Chat HTTP/SSE line exceeds 4095 bytes'' s
        else s\<lparr>ch_line := ch_line s @ [byte]\<rparr>
      else line_end s)"

section \<open>The feed\<close>

definition chunk_size_byte :: "u8 \<Rightarrow> chat_stream \<Rightarrow> chat_stream" where
  "chunk_size_byte c s =
     (if c = 13 \<and> ch_chunk_digits s \<noteq> 0 then s\<lparr>ch_chunk_phase := CHAT_CHUNK_SIZE_LF\<rparr>
      else if c = 59 \<and> ch_chunk_digits s \<noteq> 0 then s\<lparr>ch_extension := True\<rparr>
      else if ch_extension s \<and> 32 \<le> c \<and> c < 127 then
        let s = s\<lparr>ch_header_bytes := ch_header_bytes s + 1\<rparr>
        in if ch_header_bytes s > 4096 then chat_fail ''Chat chunk extensions too large'' s else s
      else case json_hex c of
          Some d \<Rightarrow>
            if \<not> ch_extension s \<and> ch_chunk_digits s < 8 then
              s\<lparr>ch_chunk_size := push_bit 4 (ch_chunk_size s) OR d, ch_chunk_digits := ch_chunk_digits s + 1\<rparr>
            else chat_fail ''Invalid chat HTTP chunk size'' s
        | None \<Rightarrow> chat_fail ''Invalid chat HTTP chunk size'' s)"

definition chunk_byte :: "u8 \<Rightarrow> chat_stream \<Rightarrow> chat_stream" where
  "chunk_byte c s =
     (case ch_chunk_phase s of
        CHAT_CHUNK_SIZE \<Rightarrow> chunk_size_byte c s
      | CHAT_CHUNK_SIZE_LF \<Rightarrow>
          if c \<noteq> 10 then chat_fail ''Invalid chat HTTP chunk delimiter'' s
          else s\<lparr>ch_chunk_phase := if ch_chunk_size s \<noteq> 0 then CHAT_CHUNK_DATA else CHAT_TRAILERS\<rparr>
      | CHAT_CHUNK_DATA \<Rightarrow>
          let s = chat_line c s; s = s\<lparr>ch_chunk_size := ch_chunk_size s - 1\<rparr>
          in if ch_chunk_size s = 0 then s\<lparr>ch_chunk_phase := CHAT_CHUNK_CR\<rparr> else s
      | CHAT_CHUNK_CR \<Rightarrow>
          if c \<noteq> 13 then chat_fail ''Invalid chat HTTP chunk delimiter'' s else s\<lparr>ch_chunk_phase := CHAT_CHUNK_LF\<rparr>
      | CHAT_CHUNK_LF \<Rightarrow>
          if c \<noteq> 10 then chat_fail ''Invalid chat HTTP chunk delimiter'' s
          else s\<lparr>ch_chunk_phase := CHAT_CHUNK_SIZE, ch_chunk_digits := 0, ch_extension := False\<rparr>
      | CHAT_TRAILERS \<Rightarrow>
          let s = s\<lparr>ch_header_bytes := ch_header_bytes s + 1\<rparr>
          in if ch_header_bytes s > 8192 then chat_fail ''Chat HTTP trailers too large'' s else chat_line c s)"

definition chat_byte :: "u8 \<Rightarrow> chat_stream \<Rightarrow> chat_stream" where
  "chat_byte c s =
     (if ch_phase s \<noteq> CHAT_BODY then
        let s = s\<lparr>ch_header_bytes := ch_header_bytes s + 1\<rparr>
        in if ch_header_bytes s > 4096 then chat_fail ''Chat HTTP headers exceed 4096 bytes'' s else chat_line c s
      else if \<not> ch_chunked s then
        if ch_have_length s \<and> ch_remaining s = 0 then chat_fail ''Chat stream ended without [DONE]'' s
        else
          let s = chat_line c s
          in if ch_have_length s then
               let s = s\<lparr>ch_remaining := ch_remaining s - 1\<rparr>
               in if ch_remaining s = 0 \<and> \<not> ch_done s then chat_fail ''Chat stream ended without [DONE]'' s else s
             else s
      else chunk_byte c s)"

text \<open>The text of the current event goes out until the callback refuses a byte; \<open>True\<close> says that it did.\<close>

fun flush_text :: "('e \<Rightarrow> u8 \<Rightarrow> bool \<times> 'e) \<Rightarrow> bytes \<Rightarrow> nat \<Rightarrow> 'e \<Rightarrow> bool \<times> nat \<times> 'e" where
  "flush_text emit [] n e = (False, n, e)"
| "flush_text emit (c # cs) n e =
     (case emit e c of (False, e) \<Rightarrow> (True, n, e) | (True, e) \<Rightarrow> flush_text emit cs (Suc n) e)"

definition chat_flush :: "('e \<Rightarrow> u8 \<Rightarrow> bool \<times> 'e) \<Rightarrow> chat_stream \<Rightarrow> 'e \<Rightarrow> bool \<times> chat_stream \<times> 'e" where
  "chat_flush emit s e =
     (if ch_error s \<noteq> None then (False, s, e)
      else case flush_text emit (drop (ch_text_position s) (ch_text s)) (ch_text_position s) e of
        (full, n, e) \<Rightarrow> (full, s\<lparr>ch_text_position := n\<rparr>, e))"

fun z80_chat_stream_feed ::
    "('e \<Rightarrow> u8 \<Rightarrow> bool \<times> 'e) \<Rightarrow> chat_stream \<Rightarrow> 'e \<Rightarrow> bytes \<Rightarrow> nat \<times> chat_stream \<times> 'e" where
  "z80_chat_stream_feed emit s0 e0 [] = (case chat_flush emit s0 e0 of (full, s, e) \<Rightarrow> (0, s, e))"
| "z80_chat_stream_feed emit s0 e0 (c # cs) =
     (case chat_flush emit s0 e0 of (full, s, e) \<Rightarrow>
        if full \<or> ch_error s \<noteq> None \<or> ch_done s then (0, s, e)
        else case z80_chat_stream_feed emit (chat_byte c s) e cs of (n, r) \<Rightarrow> (Suc n, r))"

end
