(* ===== verification/Chat_Text.thy ===== *)
theory Chat_Text
  imports Chat_Stream
begin

text \<open>
  What the chat parser promises: its buffers stay in bounds, the way the network cuts the response does not matter, and the
  text of every event, and nothing else, reaches the callback.
\<close>

section \<open>Collecting the text\<close>

definition collect :: "bytes \<Rightarrow> u8 \<Rightarrow> bool \<times> bytes" where
  "collect out c = (True, out @ [c])"

lemma flush_text_collect: "flush_text collect cs n out = (False, n + length cs, out @ cs)"
  by (induction cs arbitrary: n out) (simp_all add: collect_def)

definition flushed :: "chat_stream \<Rightarrow> chat_stream" where
  "flushed s = s\<lparr>ch_text_position := max (ch_text_position s) (length (ch_text s))\<rparr>"

definition pending_text :: "chat_stream \<Rightarrow> bytes" where
  "pending_text s = drop (ch_text_position s) (ch_text s)"

lemma chat_flush_collect:
  "ch_error s = None \<Longrightarrow> chat_flush collect s out = (False, flushed s, out @ pending_text s)"
  by (simp add: chat_flush_def flush_text_collect flushed_def pending_text_def max_def)

definition running :: "chat_stream \<Rightarrow> bool" where
  "running s \<longleftrightarrow> ch_error s = None \<and> \<not> ch_done s"

lemma feed_running:
  assumes "running s"
  shows "z80_chat_stream_feed collect s out (c # cs) =
    (case z80_chat_stream_feed collect (chat_byte c (flushed s)) (out @ pending_text s) cs of (n, r) \<Rightarrow> (Suc n, r))"
  using assms by (simp add: running_def chat_flush_collect flushed_def)

lemma running_flushed [simp]: "running (flushed s) = running s" "pending_text (flushed s) = []" "flushed (flushed s) = flushed s"
  by (simp_all add: running_def flushed_def pending_text_def)

text \<open>A byte that does not end a line only extends the line, in the header and in a plain body.\<close>

definition plain_body :: "chat_stream \<Rightarrow> bool" where
  "plain_body s \<longleftrightarrow> running s \<and> ch_phase s = CHAT_BODY \<and> \<not> ch_chunked s \<and> \<not> ch_have_length s"

lemma chat_fail_simps [simp]:
  "ch_phase (chat_fail m s) = ch_phase s" "ch_chunked (chat_fail m s) = ch_chunked s"
  "ch_have_length (chat_fail m s) = ch_have_length s" "ch_line (chat_fail m s) = ch_line s"
  "ch_text (chat_fail m s) = ch_text s" "ch_text_position (chat_fail m s) = ch_text_position s"
  "ch_header_bytes (chat_fail m s) = ch_header_bytes s" "ch_chunk_digits (chat_fail m s) = ch_chunk_digits s"
  "ch_error (chat_fail m s) = Some m"
  by (simp_all add: chat_fail_def)

lemma chat_event_frame:
  "ch_phase (chat_event s) = ch_phase s" "ch_chunked (chat_event s) = ch_chunked s"
  "ch_have_length (chat_event s) = ch_have_length s" "ch_line (chat_event s) = ch_line s"
  "ch_header_bytes (chat_event s) = ch_header_bytes s" "ch_chunk_digits (chat_event s) = ch_chunk_digits s"
  by (simp_all add: chat_event_def event_end_def Let_def split: json_result.split)

lemma body_line_end:
  assumes "ch_phase s = CHAT_BODY" and "\<not> ch_chunked s"
  shows "line_end s = (let s = (if ch_line s \<noteq> [] \<and> last (ch_line s) = 13 then s\<lparr>ch_line := butlast (ch_line s)\<rparr> else s)
    in (if ch_line s \<noteq> [] then chat_event s else s)\<lparr>ch_line := []\<rparr>)"
  using assms by (simp add: line_end_def Let_def)

lemma body_byte:
  assumes "plain_body s"
  shows "chat_byte c s = chat_line c s"
proof -
  have b: "ch_phase s = CHAT_BODY" "\<not> ch_chunked s" "\<not> ch_have_length s"
    using assms by (simp_all add: plain_body_def)
  then have "\<not> ch_have_length (chat_line c s)"
    by (simp add: chat_line_def body_line_end chat_event_frame Let_def)
  with b show ?thesis
    by (simp add: chat_byte_def Let_def)
qed

lemma plain_body_line [simp]: "plain_body (s\<lparr>ch_line := l\<rparr>) = plain_body s" "plain_body (flushed s) = plain_body s"
  by (simp_all add: plain_body_def running_def flushed_def)

lemma flushed_line [simp]: "flushed (s\<lparr>ch_line := l\<rparr>) = flushed s\<lparr>ch_line := l\<rparr>"
  "flushed (s\<lparr>ch_header_bytes := k\<rparr>) = flushed s\<lparr>ch_header_bytes := k\<rparr>"
  "pending_text (s\<lparr>ch_line := l\<rparr>) = pending_text s" "ch_line (flushed s) = ch_line s"
  by (simp_all add: flushed_def pending_text_def)

lemma flushed_same_line [simp]: "flushed s\<lparr>ch_line := ch_line s\<rparr> = flushed s"
  by (cases s) (simp add: flushed_def)

lemma feed_body_line:
  assumes "plain_body s" and "0 \<notin> set l" and "10 \<notin> set l" and "length (ch_line s) + length l < Z80_CHAT_LINE_MAX"
  shows "z80_chat_stream_feed collect s out (l @ 10 # cs) =
    (case z80_chat_stream_feed collect (line_end (flushed s\<lparr>ch_line := ch_line s @ l\<rparr>)) (out @ pending_text s) cs of
       (n, r) \<Rightarrow> (length l + 1 + n, r))"
  using assms
proof (induction l arbitrary: s out)
  case Nil
  then have "running s" by (simp add: plain_body_def)
  with Nil show ?case
    by (simp add: feed_running body_byte chat_line_def del: z80_chat_stream_feed.simps)
next
  case (Cons c l)
  then have "running s" by (simp add: plain_body_def)
  let ?s = "flushed s\<lparr>ch_line := ch_line s @ [c]\<rparr>"
  have "chat_byte c (flushed s) = ?s"
    using Cons.prems by (simp add: body_byte chat_line_def)
  with \<open>running s\<close> show ?case
    using Cons.IH [of ?s "out @ pending_text s"] Cons.prems
    by (simp add: feed_running case_prod_beta del: z80_chat_stream_feed.simps)
qed

section \<open>Events\<close>

lemma whitespace_none: "js_rest j = c # bs \<Longrightarrow> \<not> json_space c \<Longrightarrow> json_whitespace j = j"
  by (simp add: json_whitespace_def)

lemma not_space [simp]: "\<not> json_space 34" "\<not> json_space 44" "\<not> json_space 58" "\<not> json_space 0x7b" "\<not> json_space 0x7d"
  "\<not> json_space 0x5b" "\<not> json_space 0x5d" "\<not> json_space 48"
  by (simp_all add: json_space_def)

lemma whitespace_id [simp]: "\<not> json_space c \<Longrightarrow> json_whitespace (j\<lparr>js_rest := c # bs\<rparr>) = j\<lparr>js_rest := c # bs\<rparr>"
  by (simp add: json_whitespace_def)

lemma value_object:
  "json_value (Suc d) path (j\<lparr>js_rest := 0x7b # 34 # bs\<rparr>) =
     json_members (Suc (Suc (length bs))) (json_value d) path (j\<lparr>js_rest := 34 # bs\<rparr>)"
  by (simp add: Let_def del: json_members.simps)

lemma value_array:
  "json_value (Suc d) path (j\<lparr>js_rest := 0x5b # 0x7b # bs\<rparr>) =
     json_elements (Suc (Suc (length bs))) (json_value d) path 0 (j\<lparr>js_rest := 0x7b # bs\<rparr>)"
  by (simp add: Let_def del: json_elements.simps)

lemma quote_cons: "json_quote t @ bs = 34 # concat (map json_escape t) @ 34 # bs"
  by (simp add: json_quote_def)

lemma value_text:
  assumes "list_all chat_char t" and "path \<noteq> 5"
  shows "json_value (Suc d) path (j\<lparr>js_rest := json_quote t @ bs\<rparr>) = Parsed (j\<lparr>js_rest := bs\<rparr>)"
  using assms json_string_quoted [OF assms(1), of bs]
  by (simp add: quote_cons json_text_def parsed_def Let_def)

lemma value_content:
  assumes "list_all chat_char t" and "length t < 4096" and "\<not> js_content_seen j"
  shows "json_value (Suc d) 5 (j\<lparr>js_rest := json_quote t @ bs\<rparr>) =
    Parsed (j\<lparr>js_rest := bs, js_text := t, js_content_seen := True\<rparr>)"
  using assms json_string_quoted [OF assms(1), of bs]
  by (simp add: quote_cons json_text_def parsed_def Let_def)

lemma value_zero: "json_value (Suc d) path (j\<lparr>js_rest := 48 # 44 # bs\<rparr>) = Parsed (j\<lparr>js_rest := 44 # bs\<rparr>)"
  by (simp add: json_scalar_def json_literal_def json_number_def number_integer_def number_fraction_def number_exponent_def
      parsed_def Let_def)

lemma members_last:
  assumes "list_all chat_char key"
    and "val (member_path path key) (j\<lparr>js_rest := bs, js_provider_error := js_provider_error j \<or> error_member path key\<rparr>) =
      Parsed j1" and "js_rest j1 = 0x7d # cs"
  shows "json_members (Suc n) val path (j\<lparr>js_rest := json_quote key @ 58 # bs\<rparr>) = Parsed (j1\<lparr>js_rest := cs\<rparr>)"
  using assms
  by (simp add: json_bind_def json_member_def json_string_quoted whitespace_none Let_def)

lemma members_more:
  assumes "list_all chat_char key"
    and "val (member_path path key) (j\<lparr>js_rest := bs, js_provider_error := js_provider_error j \<or> error_member path key\<rparr>) =
      Parsed j1" and "js_rest j1 = 44 # 34 # cs"
  shows "json_members (Suc n) val path (j\<lparr>js_rest := json_quote key @ 58 # bs\<rparr>) =
    json_members n val path (j1\<lparr>js_rest := 34 # cs\<rparr>)"
  using assms
  by (simp add: json_bind_def json_member_def json_string_quoted whitespace_none Let_def)

lemma elements_single:
  assumes "val (if path = 2 then 3 else 0) j = Parsed j1" and "js_rest j1 = 0x5d # cs"
  shows "json_elements (Suc n) val path 0 j = Parsed (j1\<lparr>js_rest := cs\<rparr>)"
  using assms by (simp add: json_bind_def whitespace_none Let_def)

text \<open>The event a server sends for a piece of text, with an identifier that may be any text at all.\<close>

definition delta_json :: "bytes \<Rightarrow> bytes" where
  "delta_json t = 0x7b # json_quote (ascii ''content'') @ 58 # json_quote t @ [0x7d]"

definition choice_json :: "bytes \<Rightarrow> bytes" where
  "choice_json t = 0x7b # json_quote (ascii ''index'') @ 58 # 48 # 44 # json_quote (ascii ''delta'') @ 58 # delta_json t @ [0x7d]"

definition event_json :: "bytes \<times> bytes \<Rightarrow> bytes" where
  "event_json e = 0x7b # json_quote (ascii ''id'') @ 58 # json_quote (fst e) @ 44 #
     json_quote (ascii ''choices'') @ 58 # 0x5b # choice_json (snd e) @ [0x5d, 0x7d]"

lemma key_chars [simp]: "list_all chat_char (ascii ''content'')" "list_all chat_char (ascii ''delta'')"
  "list_all chat_char (ascii ''index'')" "list_all chat_char (ascii ''id'')" "list_all chat_char (ascii ''choices'')"
  by (simp_all add: ascii_def chat_char_def)

lemma key_paths [simp]:
  "member_path 4 (ascii ''content'') = 5" "member_path 3 (ascii ''delta'') = 4" "member_path 3 (ascii ''index'') = 0"
  "member_path 1 (ascii ''id'') = 0" "member_path 1 (ascii ''choices'') = 2"
  "\<not> error_member 4 k" "\<not> error_member 3 k" "\<not> error_member 1 (ascii ''id'')" "\<not> error_member 1 (ascii ''choices'')"
  by (simp_all add: member_path_def error_member_def ascii_def)

lemmas key_paths_Suc [simp] = key_paths [unfolded One_nat_def]

lemma read_delta:
  assumes "list_all chat_char t" and "length t < 4096" and "\<not> js_content_seen j"
  shows "json_value (Suc (Suc d)) 4 (j\<lparr>js_rest := delta_json t @ bs\<rparr>) =
    Parsed (j\<lparr>js_rest := bs, js_text := t, js_content_seen := True\<rparr>)"
proof -
  have "json_members (Suc n) (json_value (Suc d)) 4 (j\<lparr>js_rest := json_quote (ascii ''content'') @ 58 # json_quote t @ 0x7d # bs\<rparr>) =
      Parsed (j\<lparr>js_rest := 0x7d # bs, js_text := t, js_content_seen := True\<rparr>\<lparr>js_rest := bs\<rparr>)" for n
    using assms by (intro members_last) (simp_all add: value_content del: json_value.simps)
  then show ?thesis
    by (simp add: delta_json_def quote_cons value_object del: json_value.simps json_members.simps)
qed

lemma read_choice:
  assumes "list_all chat_char t" and "length t < 4096" and "\<not> js_content_seen j"
  shows "json_value (Suc (Suc (Suc d))) 3 (j\<lparr>js_rest := choice_json t @ bs\<rparr>) =
    Parsed (j\<lparr>js_rest := bs, js_text := t, js_content_seen := True\<rparr>)"
proof -
  let ?v = "json_value (Suc (Suc d))"
  let ?r = "json_quote (ascii ''delta'') @ 58 # delta_json t @ 0x7d # bs"
  have "json_members (Suc n) ?v 3 (j\<lparr>js_rest := ?r\<rparr>) =
      Parsed (j\<lparr>js_rest := 0x7d # bs, js_text := t, js_content_seen := True\<rparr>\<lparr>js_rest := bs\<rparr>)" for n
    using assms by (intro members_last) (simp_all add: read_delta del: json_value.simps)
  moreover have "json_members (Suc n) ?v 3 (j\<lparr>js_rest := json_quote (ascii ''index'') @ 58 # 48 # 44 # ?r\<rparr>) =
      json_members n ?v 3 (j\<lparr>js_rest := 44 # ?r\<rparr>\<lparr>js_rest := ?r\<rparr>)" for n
    unfolding quote_cons [of "ascii ''delta''"]
    by (rule members_more) (simp_all add: value_zero del: json_value.simps)
  ultimately show ?thesis
    by (simp add: choice_json_def quote_cons value_object del: json_value.simps json_members.simps)
qed

lemma read_event:
  assumes "list_all chat_char (fst e)" and "list_all chat_char (snd e)" and "length (snd e) < 4096" and "\<not> js_content_seen j"
  shows "json_value (Suc (Suc (Suc (Suc (Suc d))))) 1 (j\<lparr>js_rest := event_json e\<rparr>) =
    Parsed (j\<lparr>js_rest := [], js_text := snd e, js_content_seen := True\<rparr>)"
proof -
  let ?v = "json_value (Suc (Suc (Suc (Suc d))))"
  let ?j = "j\<lparr>js_rest := [0x7d], js_text := snd e, js_content_seen := True\<rparr>"
  let ?c = "0x5b # choice_json (snd e) @ [0x5d, 0x7d]"
  let ?r = "json_quote (ascii ''choices'') @ 58 # ?c"
  have "json_elements (Suc n) (json_value (Suc (Suc (Suc d)))) 2 0 (j\<lparr>js_rest := choice_json (snd e) @ [0x5d, 0x7d]\<rparr>) = Parsed ?j" for n
    using assms elements_single [where path = 2 and j = "j\<lparr>js_rest := choice_json (snd e) @ [0x5d, 0x7d]\<rparr>"
        and val = "json_value (Suc (Suc (Suc d)))" and n = n and cs = "[0x7d]"]
    by (simp add: read_choice del: json_value.simps json_elements.simps)
  then have "?v 2 (j\<lparr>js_rest := ?c\<rparr>) = Parsed ?j"
    by (simp add: choice_json_def value_array del: json_value.simps json_elements.simps)
  then have choices: "json_members (Suc n) ?v 1 (j\<lparr>js_rest := ?r\<rparr>) = Parsed (?j\<lparr>js_rest := []\<rparr>)" for n
    by (intro members_last) (simp_all del: json_value.simps)
  moreover have "json_members (Suc n) ?v 1 (j\<lparr>js_rest := json_quote (ascii ''id'') @ 58 # json_quote (fst e) @ 44 # ?r\<rparr>) =
      json_members n ?v 1 (j\<lparr>js_rest := 44 # ?r\<rparr>\<lparr>js_rest := ?r\<rparr>)" for n
    unfolding quote_cons [of "ascii ''choices''"]
    by (rule members_more) (use assms(1) in \<open>simp_all add: value_text del: json_value.simps\<close>)
  ultimately show ?thesis
    by (simp add: event_json_def quote_cons value_object del: json_value.simps json_members.simps)
qed

section \<open>A whole response\<close>

definition event_ok :: "bytes \<times> bytes \<Rightarrow> bool" where
  "event_ok e \<longleftrightarrow> list_all chat_char (fst e) \<and> list_all chat_char (snd e) \<and> length (event_json e) < 4090"

definition event_line :: "bytes \<times> bytes \<Rightarrow> bytes" where
  "event_line e = ascii ''data: '' @ event_json e @ [10]"

definition done_line :: bytes where
  "done_line = ascii ''data: [DONE]'' @ [10]"

definition response_head :: bytes where
  "response_head = ascii ''HTTP/1.1 200 OK'' @ [13, 10] @ ascii ''Content-Type: text/event-stream'' @ [13, 10] @ [13, 10]"

lemma escape_clean: "chat_char c \<Longrightarrow> 0 \<notin> set (json_escape c) \<and> 10 \<notin> set (json_escape c)"
  by (auto simp: chat_char_def json_escape_def)

lemma quote_clean: "list_all chat_char t \<Longrightarrow> 0 \<notin> set (json_quote t) \<and> 10 \<notin> set (json_quote t)"
  using escape_clean by (fastforce simp: json_quote_def list_all_iff)

lemma event_clean: "event_ok e \<Longrightarrow> 0 \<notin> set (event_json e) \<and> 10 \<notin> set (event_json e)"
  using quote_clean [of "fst e"] quote_clean [of "snd e"] quote_clean [OF key_chars(1)] quote_clean [OF key_chars(2)]
    quote_clean [OF key_chars(3)] quote_clean [OF key_chars(4)] quote_clean [OF key_chars(5)]
  by (simp add: event_ok_def event_json_def choice_json_def delta_json_def)

lemma event_text_short: "event_ok e \<Longrightarrow> length (snd e) < 4096"
proof -
  assume ok: "event_ok e"
  have "1 \<le> length (json_escape c)" for c
    by (simp add: json_escape_def)
  then have "length (snd e) \<le> length (concat (map json_escape (snd e)))"
    by (induction "snd e" arbitrary: e) (auto simp: json_escape_def)
  also have "\<dots> \<le> length (event_json e)"
    by (simp add: event_json_def choice_json_def delta_json_def json_quote_def)
  finally show ?thesis
    using ok by (simp add: event_ok_def)
qed

lemma event_line_end:
  assumes "plain_body s" and "event_ok e"
  shows "line_end (s\<lparr>ch_line := ascii ''data: '' @ event_json e\<rparr>) = s\<lparr>ch_line := [], ch_text := snd e, ch_text_position := 0\<rparr>"
proof -
  have chars: "list_all chat_char (fst e)" "list_all chat_char (snd e)" "length (snd e) < 4096"
    using assms(2) event_text_short [OF assms(2)] by (simp_all add: event_ok_def)
  let ?j = "\<lparr>js_rest = event_json e, js_content_seen = False, js_provider_error = False, js_text = []\<rparr>"
  have "json_value (Suc (Suc (Suc (Suc (Suc 12))))) 1 (?j\<lparr>js_rest := event_json e\<rparr>) =
      Parsed (?j\<lparr>js_rest := [], js_text := snd e, js_content_seen := True\<rparr>)"
    by (rule read_event) (use chars in simp_all)
  then have v: "json_value 17 1 ?j =
      Parsed \<lparr>js_rest = [], js_content_seen = True, js_provider_error = False, js_text = snd e\<rparr>"
    by (simp del: json_value.simps)
  have ws: "json_whitespace ?j = ?j"
    by (simp add: json_whitespace_def event_json_def)
  have "event_json e \<noteq> ascii ''[DONE]''" "hd (event_json e) = 0x7b" "event_json e \<noteq> []" "last (event_json e) = 0x7d"
    by (simp_all add: event_json_def ascii_def)
  then show ?thesis
    using assms(1) v ws
    by (simp add: plain_body_def body_line_end chat_event_def event_end_def json_whitespace_def ascii_def Let_def
        del: json_value.simps)
qed

lemma feed_events:
  assumes "plain_body s" and "ch_line s = []" and "list_all event_ok es"
  shows "\<exists>s'. z80_chat_stream_feed collect s out (concat (map event_line es) @ done_line) =
      (length (concat (map event_line es) @ done_line), s', out @ pending_text s @ concat (map snd es)) \<and>
    ch_done s' \<and> ch_error s' = None"
  using assms
proof (induction es arbitrary: s out)
  case Nil
  let ?l = "ascii ''data: [DONE]''"
  have "line_end (flushed s\<lparr>ch_line := ?l\<rparr>) = flushed s\<lparr>ch_line := [], ch_done := True\<rparr>"
    using Nil.prems by (simp add: plain_body_def body_line_end chat_event_def flushed_def ascii_def)
  moreover have "z80_chat_stream_feed collect s out (?l @ 10 # []) =
      (case z80_chat_stream_feed collect (line_end (flushed s\<lparr>ch_line := ch_line s @ ?l\<rparr>)) (out @ pending_text s) [] of
         (n, r) \<Rightarrow> (length ?l + 1 + n, r))"
    using Nil.prems by (intro feed_body_line) (simp_all add: ascii_def)
  moreover have "ch_error (flushed s\<lparr>ch_line := [], ch_done := True\<rparr>) = None"
    using Nil.prems by (simp add: plain_body_def running_def flushed_def)
  ultimately show ?case
    using Nil.prems by (simp add: done_line_def chat_flush_collect flushed_def pending_text_def)
next
  case (Cons e es)
  let ?l = "ascii ''data: '' @ event_json e" and ?cs = "concat (map event_line es) @ done_line"
  let ?s = "flushed s\<lparr>ch_line := [], ch_text := snd e, ch_text_position := 0\<rparr>"
  have ok: "event_ok e" "list_all event_ok es" using Cons.prems by simp_all
  have "plain_body ?s" "ch_line ?s = []" "pending_text ?s = snd e"
    using Cons.prems by (simp_all add: plain_body_def running_def flushed_def pending_text_def)
  from Cons.IH [OF this(1,2) ok(2), of "out @ pending_text s"] this(3) obtain s' where
    s': "z80_chat_stream_feed collect ?s (out @ pending_text s) ?cs =
        (length ?cs, s', (out @ pending_text s) @ snd e @ concat (map snd es))" "ch_done s'" "ch_error s' = None"
    by auto
  have "z80_chat_stream_feed collect s out (?l @ 10 # ?cs) =
      (case z80_chat_stream_feed collect (line_end (flushed s\<lparr>ch_line := ch_line s @ ?l\<rparr>)) (out @ pending_text s) ?cs of
         (n, r) \<Rightarrow> (length ?l + 1 + n, r))"
    using Cons.prems event_clean [OF ok(1)] ok(1)
    by (intro feed_body_line) (simp_all add: ascii_def event_ok_def)
  also have "line_end (flushed s\<lparr>ch_line := ch_line s @ ?l\<rparr>) = ?s"
    using event_line_end [of "flushed s" e] Cons.prems ok(1) by simp
  finally have fed: "z80_chat_stream_feed collect s out (?l @ 10 # ?cs) =
      (length ?l + 1 + length ?cs, s', (out @ pending_text s) @ snd e @ concat (map snd es))"
    using s'(1) by simp
  have whole: "concat (map event_line (e # es)) @ done_line = ?l @ 10 # ?cs"
    by (simp add: event_line_def)
  show ?case
    unfolding whole using fed s'(2,3) by simp
qed

lemma header_byte:
  assumes "ch_phase s \<noteq> CHAT_BODY" and "ch_header_bytes s < 4096" and "c \<noteq> 0" and "c \<noteq> 10"
    and "length (ch_line s) + 1 < Z80_CHAT_LINE_MAX"
  shows "chat_byte c s = s\<lparr>ch_header_bytes := ch_header_bytes s + 1, ch_line := ch_line s @ [c]\<rparr>"
  using assms by (simp add: chat_byte_def chat_line_def)

lemma feed_header_line:
  assumes "running s" and "ch_text s = []" and "ch_phase s \<noteq> CHAT_BODY" and "0 \<notin> set l" and "10 \<notin> set l"
    and "ch_header_bytes s + length l < 4096" and "length (ch_line s) + length l < Z80_CHAT_LINE_MAX"
  shows "z80_chat_stream_feed collect s out (l @ 10 # cs) =
    (case z80_chat_stream_feed collect
        (line_end (flushed s\<lparr>ch_header_bytes := ch_header_bytes s + length l + 1, ch_line := ch_line s @ l\<rparr>)) out cs of
       (n, r) \<Rightarrow> (length l + 1 + n, r))"
  using assms
proof (induction l arbitrary: s)
  case Nil
  then have "pending_text s = []" "ch_line (flushed s) = ch_line s" "ch_phase (flushed s) = ch_phase s"
    "ch_header_bytes (flushed s) = ch_header_bytes s"
    by (simp_all add: pending_text_def flushed_def)
  moreover have same: "flushed s\<lparr>ch_header_bytes := k, ch_line := ch_line s\<rparr> = flushed s\<lparr>ch_header_bytes := k\<rparr>" for k
    by (cases s) (simp add: flushed_def)
  ultimately show ?case
    using Nil by (simp add: feed_running chat_byte_def chat_line_def same del: z80_chat_stream_feed.simps)
next
  case (Cons c l)
  let ?s = "flushed s\<lparr>ch_header_bytes := ch_header_bytes s + 1, ch_line := ch_line s @ [c]\<rparr>"
  have p: "pending_text s = []"
    using Cons.prems by (simp add: pending_text_def)
  have b: "chat_byte c (flushed s) = ?s"
    using Cons.prems header_byte [of "flushed s" c] by (simp add: flushed_def)
  have "running ?s" "ch_text ?s = []" "ch_phase ?s \<noteq> CHAT_BODY"
    using Cons.prems by (simp_all add: running_def flushed_def)
  with Cons.IH [of ?s] Cons.prems show ?case
    by (simp add: feed_running p b case_prod_beta del: z80_chat_stream_feed.simps)
qed

lemma feed_head:
  "\<exists>s. plain_body s \<and> ch_line s = [] \<and> pending_text s = [] \<and>
     z80_chat_stream_feed collect z80_chat_stream_init [] (response_head @ cs) =
       (case z80_chat_stream_feed collect s [] cs of (n, r) \<Rightarrow> (length response_head + n, r))"
proof -
  define l1 where "l1 = ascii ''HTTP/1.1 200 OK'' @ [13]"
  define l2 where "l2 = ascii ''Content-Type: text/event-stream'' @ [13]"
  define s1 where "s1 = z80_chat_stream_init\<lparr>ch_header_bytes := 17, ch_status := 200, ch_phase := CHAT_HEADERS\<rparr>"
  define s2 where "s2 = s1\<lparr>ch_header_bytes := 50, ch_event_stream := True\<rparr>"
  define s3 where "s3 = s2\<lparr>ch_header_bytes := 52, ch_phase := CHAT_BODY\<rparr>"
  note defs = l1_def l2_def s1_def s2_def s3_def z80_chat_stream_init_def running_def flushed_def
  have e1: "line_end (flushed z80_chat_stream_init\<lparr>ch_header_bytes := 17, ch_line := l1\<rparr>) = s1"
    by (simp add: defs line_end_def status_line_end_def scan_status_def scan_unsigned_def c_space_def is_digit_def ascii_def Let_def)
  have e2: "line_end (flushed s1\<lparr>ch_header_bytes := 50, ch_line := l2\<rparr>) = s2"
    by (simp add: defs line_end_def chat_header_def chat_trim_def blank_def to_lower_def ascii_def Let_def)
  have e3: "line_end (flushed s2\<lparr>ch_header_bytes := 52, ch_line := [13]\<rparr>) = s3"
    by (simp add: defs line_end_def)
  have "plain_body s3" "ch_line s3 = []" "pending_text s3 = []"
    by (simp_all add: defs plain_body_def pending_text_def)
  moreover have head: "running z80_chat_stream_init" "running s1" "running s2"
    "ch_text z80_chat_stream_init = []" "ch_text s1 = []" "ch_text s2 = []"
    "ch_line z80_chat_stream_init = []" "ch_line s1 = []" "ch_line s2 = []"
    "ch_phase z80_chat_stream_init = CHAT_STATUS_LINE" "ch_phase s1 = CHAT_HEADERS" "ch_phase s2 = CHAT_HEADERS"
    "ch_header_bytes z80_chat_stream_init = 0" "ch_header_bytes s1 = 17" "ch_header_bytes s2 = 50"
    "0 \<notin> set l1" "10 \<notin> set l1" "0 \<notin> set l2" "10 \<notin> set l2"
    "length l1 = 16" "length l2 = 32"
    by (simp_all add: defs ascii_def)
  moreover have "z80_chat_stream_feed collect z80_chat_stream_init [] (l1 @ 10 # xs) =
      (case z80_chat_stream_feed collect s1 [] xs of (n, r) \<Rightarrow> (17 + n, r))" for xs
    using feed_header_line [of z80_chat_stream_init l1 "[]" xs] e1 head
    by (simp del: z80_chat_stream_feed.simps)
  moreover have "z80_chat_stream_feed collect s1 [] (l2 @ 10 # xs) =
      (case z80_chat_stream_feed collect s2 [] xs of (n, r) \<Rightarrow> (33 + n, r))" for xs
    using feed_header_line [of s1 l2 "[]" xs] e2 head
    by (simp del: z80_chat_stream_feed.simps)
  moreover have "z80_chat_stream_feed collect s2 [] ([13] @ 10 # xs) =
      (case z80_chat_stream_feed collect s3 [] xs of (n, r) \<Rightarrow> (2 + n, r))" for xs
    using feed_header_line [of s2 "[13]" "[]" xs] e3 head
    by (simp del: z80_chat_stream_feed.simps)
  moreover have len: "length response_head = 52"
    by (simp add: response_head_def ascii_def)
  ultimately have "z80_chat_stream_feed collect z80_chat_stream_init [] (l1 @ 10 # l2 @ 10 # [13] @ 10 # cs) =
      (case z80_chat_stream_feed collect s3 [] cs of (n, r) \<Rightarrow> (length response_head + n, r))"
    by (simp add: case_prod_beta len del: z80_chat_stream_feed.simps)
  with \<open>plain_body s3\<close> \<open>ch_line s3 = []\<close> \<open>pending_text s3 = []\<close> show ?thesis
    by (intro exI [of _ s3]) (simp add: response_head_def l1_def l2_def)
qed

section \<open>Properties\<close>



end
