(* ===== verification/Chat.thy ===== *)
theory Chat
  imports Chat_Text Environment_Values Http_Stream
begin

text \<open>
  The chat service of \<open>src/src/common/chat.c\<close> and the endpoint parser of \<open>src/src/common/chat_endpoint.h\<close>: it collects a request, starts it
  with the settings of the environment, and queues the text of the response for the Z80.

  \<^item> \<open>chat\<close> holds the static variables; \<open>ct_request\<close> is the request up to its length, \<open>ct_error_text\<close> the error text up to its
    terminator. The network functions that \<open>z80_chat_init\<close> installs are not part of the file: \<open>ct_backend\<close> says that they are
    installed, and the answer of \<open>start_request\<close> is an argument.
  \<^item> \<open>load_settings\<close> returns the message it would report, or the endpoint; an endpoint that is not complete is not used by anything.
\<close>

section \<open>Endpoints\<close>

record chat_endpoint =
  ep_https :: bool
  ep_port :: u16
  ep_host :: bytes
  ep_authority :: bytes
  ep_path :: bytes
  ep_key :: bytes

definition endpoint_port :: "bytes \<Rightarrow> u16 \<Rightarrow> u16 option" where
  "endpoint_port authority standard =
     (let rest = dropWhile (\<lambda>c. c \<noteq> 58) authority
      in if rest = [] then Some standard
         else if tl rest = [] then None
         else case url_port_digits (tl rest) 0 of
           None \<Rightarrow> None
         | Some port \<Rightarrow> if port = 0 then None else Some (of_nat port))"

definition z80_chat_parse_endpoint :: "bytes \<Rightarrow> chat_endpoint option" where
  "z80_chat_parse_endpoint url =
     (let https = (take 8 url = ascii ''https://''); http = (take 7 url = ascii ''http://'');
          rest = drop (if https then 8 else 7) url;
          authority = takeWhile (\<lambda>c. c \<noteq> 47) rest; path = dropWhile (\<lambda>c. c \<noteq> 47) rest;
          host = takeWhile (\<lambda>c. c \<noteq> 58) authority
      in if \<not> https \<and> \<not> http then None
         else if path = [] \<or> authority = [] \<or> length authority \<ge> 104 \<or> length path \<ge> 160 then None
         else if \<not> list_all url_char_ok rest then None
         else if host = [] \<or> length host \<ge> 96 then None
         else if \<not> list_all host_char_ok host then None
         else case endpoint_port authority (if https then 443 else 80) of
           None \<Rightarrow> None
         | Some port \<Rightarrow>
             Some \<lparr>ep_https = https, ep_port = port, ep_host = host, ep_authority = authority, ep_path = path, ep_key = []\<rparr>)"

section \<open>State\<close>

abbreviation Z80_CHAT_REQUEST_MAX :: nat where "Z80_CHAT_REQUEST_MAX \<equiv> 8192"
abbreviation Z80_CHAT_RESPONSE_BYTES :: nat where "Z80_CHAT_RESPONSE_BYTES \<equiv> 4096"
abbreviation Z80_CHAT_EOF :: u8 where "Z80_CHAT_EOF \<equiv> 0"
abbreviation Z80_CHAT_WAITING :: u8 where "Z80_CHAT_WAITING \<equiv> 1"
abbreviation Z80_CHAT_DATA_READY :: u8 where "Z80_CHAT_DATA_READY \<equiv> 2"

record chat_ring =
  cr_data :: bytes
  cr_head :: nat
  cr_tail :: nat
  cr_count :: nat

record chat =
  ct_backend :: bool
  ct_endpoint :: chat_endpoint
  ct_stream :: chat_stream
  ct_request :: bytes
  ct_ring :: chat_ring
  ct_error_position :: nat
  ct_error_text :: bytes
  ct_active :: bool
  ct_online :: bool
  ct_generation :: u32

definition clear_response :: "chat \<Rightarrow> chat" where
  "clear_response s =
     s\<lparr>ct_ring := (ct_ring s)\<lparr>cr_head := 0, cr_tail := 0, cr_count := 0\<rparr>, ct_error_position := 0, ct_error_text := []\<rparr>"

definition z80_chat_error :: "string \<Rightarrow> chat \<Rightarrow> chat" where
  "z80_chat_error message s =
     (if ct_error_text s = [] then s\<lparr>ct_error_text := take 159 (10 # ascii ''Chat: '' @ ascii message @ [10])\<rparr> else s)
       \<lparr>ct_active := False\<rparr>"

definition chat_emit :: "chat_ring \<Rightarrow> u8 \<Rightarrow> bool \<times> chat_ring" where
  "chat_emit r byte =
     (if cr_count r = Z80_CHAT_RESPONSE_BYTES then (False, r)
      else (True, r\<lparr>cr_data := (cr_data r)[cr_head r := byte], cr_head := (cr_head r + 1) mod Z80_CHAT_RESPONSE_BYTES,
                    cr_count := cr_count r + 1\<rparr>))"

definition z80_chat_active :: "chat \<Rightarrow> bool" where
  "z80_chat_active s = ct_active s"

definition z80_chat_receive :: "bytes \<Rightarrow> chat \<Rightarrow> nat \<times> chat" where
  "z80_chat_receive data s =
     (if \<not> ct_active s then (0, s)
      else case z80_chat_stream_feed chat_emit (ct_stream s) (ct_ring s) data of
        (consumed, st, r) \<Rightarrow>
          let s = s\<lparr>ct_stream := st, ct_ring := r\<rparr>
          in (consumed, case ch_error st of
                Some m \<Rightarrow> z80_chat_error m s
              | None \<Rightarrow> if ch_done st then s\<lparr>ct_active := False\<rparr> else s))"

definition z80_chat_network_poll :: "bool \<Rightarrow> u32 \<Rightarrow> chat \<Rightarrow> chat" where
  "z80_chat_network_poll connected generation s0 =
     (let s = (if ct_active s0 \<and> (\<not> connected \<or> generation \<noteq> ct_generation s0)
               then z80_chat_error ''Network disconnected or reconfigured'' s0 else s0)
      in snd (z80_chat_receive [] (s\<lparr>ct_online := connected, ct_generation := generation\<rparr>)))"

definition z80_chat_init :: "chat \<Rightarrow> chat" where
  "z80_chat_init s = s\<lparr>ct_backend := True\<rparr>"

section \<open>Settings\<close>

definition chat_setting :: "string \<Rightarrow> nat \<Rightarrow> environment \<Rightarrow> (string + bytes) \<times> environment" where
  "chat_setting name capacity en =
     (case environment_io_get (ascii name) 256 en of
        (None, en) \<Rightarrow> (Inr [], en)
      | (Some t, en) \<Rightarrow> (if length t \<ge> capacity then Inl ''CHAT setting exceeds its size limit'' else Inr t, en))"

definition key_char_ok :: "u8 \<Rightarrow> bool" where
  "key_char_ok c \<longleftrightarrow> \<not> (c \<le> 32 \<or> c \<ge> 127)"

definition parse_endpoint :: "bytes \<Rightarrow> bytes \<Rightarrow> string + chat_endpoint" where
  "parse_endpoint url key =
     (case z80_chat_parse_endpoint url of
        None \<Rightarrow> Inl ''Invalid CHAT_ENDPOINT; use a full http(s) IPv4/DNS URL''
      | Some ep \<Rightarrow> Inr (ep\<lparr>ep_key := key\<rparr>))"

definition openai_settings :: "environment \<Rightarrow> (string + chat_endpoint) \<times> environment" where
  "openai_settings en =
     (case chat_setting ''CHAT_OPENAI_KEY'' 256 en of
        (Inl m, en) \<Rightarrow> (Inl m, en)
      | (Inr key, en) \<Rightarrow>
          (if key = [] then Inl ''Set CHAT_OPENAI_KEY in ENV''
           else if \<not> list_all key_char_ok key then Inl ''Invalid CHAT_OPENAI_KEY''
           else parse_endpoint (ascii ''https://api.openai.com/v1/chat/completions'') key, en))"

definition load_settings :: "environment \<Rightarrow> (string + chat_endpoint) \<times> environment" where
  "load_settings en0 =
     (let en = environment_io_init (environment_io_close en0)
      in if environment_input ENVIRONMENT_PORT_COMMAND en \<noteq> 0 then (Inl ''Cannot read CHAT ENV settings'', en)
         else case chat_setting ''CHAT_PROVIDER'' 16 en of
           (Inl m, en) \<Rightarrow> (Inl m, en)
         | (Inr provider, en) \<Rightarrow>
             if provider = [] \<or> provider = ascii ''openai'' then openai_settings en
             else if provider = ascii ''compatible'' \<or> provider = ascii ''ollama'' then
               case chat_setting ''CHAT_ENDPOINT'' 256 en of
                 (Inl m, en) \<Rightarrow> (Inl m, en)
               | (Inr url, en) \<Rightarrow> (parse_endpoint url [], en)
             else (Inl ''CHAT_PROVIDER must be openai, compatible or ollama'', en))"

section \<open>The service\<close>

definition chat_status :: "chat \<Rightarrow> u8" where
  "chat_status s =
     (if cr_count (ct_ring s) \<noteq> 0 \<or> drop (ct_error_position s) (ct_error_text s) \<noteq> [] then Z80_CHAT_DATA_READY
      else if ct_active s then Z80_CHAT_WAITING else Z80_CHAT_EOF)"

definition chat_append :: "bytes \<Rightarrow> chat \<Rightarrow> u8 \<times> chat" where
  "chat_append data s =
     (if ct_active s then (IO_SERVICE_BUSY_ERROR, s)
      else if length data > Z80_CHAT_REQUEST_MAX - 1 - length (ct_request s) then (IO_SERVICE_CAPACITY, s)
      else if 0 \<in> set data then (IO_SERVICE_INVALID_PARAMETER, s)
      else (IO_SERVICE_OK, s\<lparr>ct_request := ct_request s @ data\<rparr>))"

definition chat_start ::
    "(chat_endpoint \<Rightarrow> bytes \<Rightarrow> bool) \<Rightarrow> environment \<Rightarrow> chat \<Rightarrow> u8 \<times> chat \<times> environment" where
  "chat_start start en s0 =
     (if ct_active s0 then (IO_SERVICE_BUSY_ERROR, s0, en)
      else if ct_request s0 = [] then (IO_SERVICE_INVALID_STATE, s0, en)
      else
        let s = (clear_response s0)\<lparr>ct_stream := z80_chat_stream_init\<rparr>
        in if \<not> ct_online s then (IO_SERVICE_OK, z80_chat_error ''Wi-Fi unavailable'' s, en)
           else case load_settings en of
             (Inl m, en) \<Rightarrow> (IO_SERVICE_OK, z80_chat_error m s, en)
           | (Inr ep, en) \<Rightarrow>
               let s = s\<lparr>ct_endpoint := ep, ct_active := True\<rparr>
               in (IO_SERVICE_OK, if start ep (ct_request s) then s else z80_chat_error ''Cannot start HTTP request'' s, en))"

fun chat_take :: "nat \<Rightarrow> chat_ring \<Rightarrow> bytes \<times> chat_ring" where
  "chat_take 0 r = ([], r)"
| "chat_take (Suc n) r =
     (if cr_count r = 0 then ([], r)
      else
        let b = cr_data r ! cr_tail r;
            (bs, r) = chat_take n (r\<lparr>cr_tail := (cr_tail r + 1) mod Z80_CHAT_RESPONSE_BYTES, cr_count := cr_count r - 1\<rparr>)
        in (b # bs, r))"

definition chat_read :: "nat \<Rightarrow> chat \<Rightarrow> bytes \<times> chat" where
  "chat_read maximum s0 =
     (let (bs, r) = chat_take maximum (ct_ring s0);
          es = take (maximum - length bs) (drop (ct_error_position s0) (ct_error_text s0));
          s = s0\<lparr>ct_ring := r, ct_error_position := ct_error_position s0 + length es\<rparr>;
          used = length bs + length es
      in ([chat_status s, of_nat used, of_nat (used div 256)] @ bs @ es, s))"

text \<open>The answer of the service: its error code, whether there is a response, and the bytes.\<close>

definition z80_chat_service ::
    "(chat_endpoint \<Rightarrow> bytes \<Rightarrow> bool) \<Rightarrow> bytes \<Rightarrow> environment \<Rightarrow> chat \<Rightarrow> (u8 \<times> bool \<times> bytes) \<times> chat \<times> environment" where
  "z80_chat_service start data en s =
     (if \<not> ct_backend s then ((IO_SERVICE_UNAVAILABLE, False, []), s, en)
      else if data = [] then ((IO_SERVICE_INVALID_LENGTH, False, []), s, en)
      else
        let operation = data ! 0; n = length data
        in if operation > 5 then ((IO_SERVICE_UNKNOWN_OPERATION, False, []), s, en)
           else if operation = 1 \<and> n < 2 \<or> (if operation = 5 then n \<noteq> 3 else operation \<noteq> 1 \<and> n \<noteq> 1) then
             ((IO_SERVICE_INVALID_LENGTH, False, []), s, en)
           else if operation = 0 then ((IO_SERVICE_OK, False, []), s\<lparr>ct_active := False, ct_request := []\<rparr>, en)
           else if operation = 1 then
             case chat_append (tl data) s of (error, s) \<Rightarrow> ((error, False, []), s, en)
           else if operation = 2 then ((IO_SERVICE_OK, False, []), clear_response (s\<lparr>ct_active := False\<rparr>), en)
           else if operation = 3 then
             case chat_start start en s of (error, s, en) \<Rightarrow> ((error, False, []), s, en)
           else if operation = 4 then ((IO_SERVICE_OK, True, [chat_status s]), s, en)
           else
             let maximum = unat (data ! 1) + 256 * unat (data ! 2)
             in if maximum = 0 \<or> maximum > IO_SERVICE_MAX_PAYLOAD - 3 then ((IO_SERVICE_INVALID_PARAMETER, True, []), s, en)
                else case chat_read maximum s of (bs, s) \<Rightarrow> ((IO_SERVICE_OK, True, bs), s, en))"

end
