(* ===== verification/Chat_Service.thy ===== *)
theory Chat_Service
  imports Chat
begin

text \<open>
  What the chat service promises: the ring is a queue, a read takes its front and then the error text, every answer fits a service
  response, and a stored key is only ever sent to its own provider.
\<close>

section \<open>The ring is a queue\<close>

definition chat_ring_ok :: "chat_ring \<Rightarrow> bool" where
  "chat_ring_ok r \<longleftrightarrow> length (cr_data r) = Z80_CHAT_RESPONSE_BYTES \<and> cr_tail r < Z80_CHAT_RESPONSE_BYTES \<and>
     cr_count r \<le> Z80_CHAT_RESPONSE_BYTES \<and> cr_head r = (cr_tail r + cr_count r) mod Z80_CHAT_RESPONSE_BYTES"

definition chat_queue :: "chat_ring \<Rightarrow> bytes" where
  "chat_queue r = map (\<lambda>i. cr_data r ! ((cr_tail r + i) mod Z80_CHAT_RESPONSE_BYTES)) [0..<cr_count r]"

lemma length_chat_queue [simp]: "length (chat_queue r) = cr_count r"
  by (simp add: chat_queue_def)

lemma ring_places_differ:
  fixes t c i m :: nat
  assumes "c < m" and "i < c"
  shows "(t + i) mod m \<noteq> (t + c) mod m"
proof
  assume "(t + i) mod m = (t + c) mod m"
  then have "m dvd (t + c) - (t + i)"
    using assms by (intro mod_eq_dvd_iff_nat [THEN iffD1]) auto
  then show False
    using assms by (auto dest: dvd_imp_le)
qed

text \<open>The contract between a producer of bytes and the queue that may refuse them.\<close>

locale byte_sink =
  fixes contents :: "'q \<Rightarrow> bytes"
    and ok :: "'q \<Rightarrow> bool"
    and room :: nat
    and put :: "'q \<Rightarrow> u8 \<Rightarrow> bool \<times> 'q"
  assumes put_spec: "ok q \<Longrightarrow> put q b = (taken, q') \<Longrightarrow>
    ok q' \<and> (taken \<longleftrightarrow> length (contents q) < room) \<and> contents q' = contents q @ (if taken then [b] else [])"
begin

lemma flush_text_sink:
  assumes "ok q" and "flush_text put cs n q = (full, n', q')"
  shows "ok q' \<and> n \<le> n' \<and> contents q' = contents q @ take (n' - n) cs \<and> n' \<le> n + length cs \<and> (\<not> full \<longrightarrow> n' = n + length cs)"
  using assms
proof (induction cs arbitrary: n q)
  case (Cons c cs)
  obtain taken q1 where p: "put q c = (taken, q1)" by fastforce
  note s = put_spec [OF Cons.prems(1) p]
  show ?case
  proof (cases taken)
    case True
    with Cons.prems p s Cons.IH [of q1 "Suc n"] show ?thesis
      by (auto simp: Suc_diff_Suc take_Cons' le_Suc_eq split: nat.splits)
  next
    case False
    with Cons.prems p s show ?thesis by auto
  qed
qed simp

lemma feed_sink:
  assumes "ok q" and "z80_chat_stream_feed put s q cs = (n, s', q')"
  shows "ok q' \<and> (\<exists>bs. contents q' = contents q @ bs)"
  using assms
proof (induction cs arbitrary: s q n)
  case Nil
  then show ?case
    using flush_text_sink by (auto simp: chat_flush_def split: if_splits prod.splits)
next
  case (Cons c cs)
  obtain full s1 q1 where f: "chat_flush put s q = (full, s1, q1)" by (cases "chat_flush put s q") auto
  have q1: "ok q1" "\<exists>bs. contents q1 = contents q @ bs"
    using f Cons.prems(1) flush_text_sink by (auto simp: chat_flush_def split: if_splits prod.splits)
  then show ?case
    using Cons.prems(2) f Cons.IH [OF q1(1)] by (fastforce split: if_splits prod.splits)
qed

end

lemma chat_emit_queue:
  assumes ok: "chat_ring_ok r" and e: "chat_emit r b = (taken, r')"
  shows "chat_ring_ok r' \<and> (taken \<longleftrightarrow> length (chat_queue r) < Z80_CHAT_RESPONSE_BYTES) \<and>
    chat_queue r' = chat_queue r @ (if taken then [b] else [])"
proof (cases "cr_count r = Z80_CHAT_RESPONSE_BYTES")
  case True
  with assms show ?thesis by (auto simp: chat_emit_def)
next
  case False
  then have c: "cr_count r < Z80_CHAT_RESPONSE_BYTES" and t: taken
    and r': "r' = r\<lparr>cr_data := (cr_data r)[cr_head r := b], cr_head := (cr_head r + 1) mod Z80_CHAT_RESPONSE_BYTES,
      cr_count := cr_count r + 1\<rparr>"
    using assms by (auto simp: chat_emit_def chat_ring_ok_def)
  have "cr_head r \<noteq> (cr_tail r + i) mod Z80_CHAT_RESPONSE_BYTES" if "i < cr_count r" for i
    using ring_places_differ [OF c that, of "cr_tail r"] ok by (auto simp: chat_ring_ok_def)
  then have "map (\<lambda>i. cr_data r' ! ((cr_tail r + i) mod Z80_CHAT_RESPONSE_BYTES)) [0..<cr_count r] = chat_queue r"
    unfolding chat_queue_def by (intro map_cong) (auto simp: r')
  moreover have "cr_data r' ! ((cr_tail r + cr_count r) mod Z80_CHAT_RESPONSE_BYTES) = b"
    using ok by (simp add: r' chat_ring_ok_def)
  ultimately have "chat_queue r' = chat_queue r @ [b]"
    by (simp add: chat_queue_def r')
  moreover have "chat_ring_ok r'"
    using ok c by (simp add: r' chat_ring_ok_def mod_simps)
  ultimately show ?thesis
    using t c by simp
qed

interpretation response: byte_sink chat_queue chat_ring_ok Z80_CHAT_RESPONSE_BYTES chat_emit
  by unfold_locales (rule chat_emit_queue)

lemma chat_queue_pop:
  assumes "chat_ring_ok r" and "cr_count r \<noteq> 0"
  defines "r' \<equiv> r\<lparr>cr_tail := (cr_tail r + 1) mod Z80_CHAT_RESPONSE_BYTES, cr_count := cr_count r - 1\<rparr>"
  shows "chat_ring_ok r'" and "chat_queue r = cr_data r ! cr_tail r # chat_queue r'"
proof -
  obtain k where k: "cr_count r = Suc k" using assms(2) by (cases "cr_count r") auto
  show "chat_ring_ok r'"
    using assms(1) by (simp add: r'_def k chat_ring_ok_def mod_simps)
  show "chat_queue r = cr_data r ! cr_tail r # chat_queue r'"
    using assms(1) by (simp add: chat_queue_def r'_def k chat_ring_ok_def upt_conv_Cons map_Suc_upt [symmetric] comp_def mod_simps
        del: upt_Suc)
qed

lemma chat_take_queue:
  "chat_ring_ok r \<Longrightarrow> chat_take n r = (bs, r') \<Longrightarrow>
    chat_ring_ok r' \<and> bs = take n (chat_queue r) \<and> chat_queue r' = drop n (chat_queue r)"
proof (induction n r arbitrary: bs r' rule: chat_take.induct)
  case (2 n r)
  show ?case
  proof (cases "cr_count r = 0")
    case True
    with 2 show ?thesis by (simp add: chat_queue_def)
  next
    case False
    obtain bs1 r1 where t: "chat_take n (r\<lparr>cr_tail := (cr_tail r + 1) mod Z80_CHAT_RESPONSE_BYTES, cr_count := cr_count r - 1\<rparr>) =
        (bs1, r1)" by fastforce
    note pop = chat_queue_pop [OF 2(2) False]
    from 2(1) [OF False refl pop(1) t] pop(2) 2(3) False t show ?thesis by simp
  qed
qed simp

section \<open>Reading and starting\<close>

definition chat_ok :: "chat \<Rightarrow> bool" where
  "chat_ok s \<longleftrightarrow> chat_ring_ok (ct_ring s) \<and> ct_error_position s \<le> length (ct_error_text s) \<and> length (ct_error_text s) \<le> 159 \<and>
     length (ct_request s) < Z80_CHAT_REQUEST_MAX \<and> 0 \<notin> set (ct_request s)"

text \<open>What the Z80 can still read: the queued text, then the rest of the error text.\<close>

definition chat_unread :: "chat \<Rightarrow> bytes" where
  "chat_unread s = chat_queue (ct_ring s) @ drop (ct_error_position s) (ct_error_text s)"

lemma unread_nil: "chat_unread s = [] \<longleftrightarrow> cr_count (ct_ring s) = 0 \<and> drop (ct_error_position s) (ct_error_text s) = []"
  by (simp add: chat_unread_def chat_queue_def)

lemma chat_read_unread:
  assumes "chat_ok s" and r: "chat_read n s = (bs, s')"
  shows "chat_ok s' \<and> chat_unread s' = drop n (chat_unread s) \<and>
    bs = [if chat_unread s' \<noteq> [] then Z80_CHAT_DATA_READY else if ct_active s then Z80_CHAT_WAITING else Z80_CHAT_EOF] @
      le16 (of_nat (length (take n (chat_unread s)))) @ take n (chat_unread s)"
proof -
  obtain qs r' where t: "chat_take n (ct_ring s) = (qs, r')" by fastforce
  have ok: "chat_ring_ok (ct_ring s)" using assms(1) by (simp add: chat_ok_def)
  note q = chat_take_queue [OF ok t]
  let ?es = "drop (ct_error_position s) (ct_error_text s)"
  let ?s = "s\<lparr>ct_ring := r', ct_error_position := ct_error_position s + length (take (n - length qs) ?es)\<rparr>"
  let ?bs = "chat_status ?s # [of_nat (length (qs @ take (n - length qs) ?es)),
      of_nat (length (qs @ take (n - length qs) ?es) div 256)] @ qs @ take (n - length qs) ?es"
  have "chat_read n s = (?bs, ?s)"
    by (simp add: chat_read_def t Let_def)
  then have s': "s' = ?s" and bs: "bs = ?bs"
    using r by (metis prod.inject)+
  have front: "qs @ take (n - length qs) ?es = take n (chat_unread s)"
    using q by (simp add: chat_unread_def min_def)
  have "drop (n - length qs) ?es = drop (n - cr_count (ct_ring s)) ?es"
    using q by (simp add: min_def)
  moreover have "drop (ct_error_position ?s) (ct_error_text s) = drop (n - length qs) ?es"
    by (simp add: min_def add.commute)
  ultimately have rest: "chat_unread s' = drop n (chat_unread s)"
    using q by (simp add: s' chat_unread_def)
  have ok': "chat_ok s'"
    using assms(1) q by (auto simp: s' chat_ok_def)
  have st: "chat_status ?s = (if chat_unread s' \<noteq> [] then Z80_CHAT_DATA_READY else if ct_active s then Z80_CHAT_WAITING else Z80_CHAT_EOF)"
    by (simp add: chat_status_def unread_nil s')
  show ?thesis
    using ok' rest bs front st by (simp add: le16_of_nat)
qed

lemma openai_endpoint:
  "z80_chat_parse_endpoint (ascii ''https://api.openai.com/v1/chat/completions'') =
     Some \<lparr>ep_https = True, ep_port = 443, ep_host = ascii ''api.openai.com'', ep_authority = ascii ''api.openai.com'',
       ep_path = ascii ''/v1/chat/completions'', ep_key = []\<rparr>"
  by (simp add: z80_chat_parse_endpoint_def endpoint_port_def url_char_ok_def host_char_ok_def is_alpha_def is_digit_def ascii_def Let_def)

definition key_safe :: "chat_endpoint \<Rightarrow> bool" where
  "key_safe ep \<longleftrightarrow> ep_key ep = [] \<or> ep_https ep \<and> ep_port ep = 443 \<and> ep_host ep = ascii ''api.openai.com''"

lemma parse_endpoint_safe: "parse_endpoint url [] = Inr ep \<Longrightarrow> key_safe ep"
  by (auto simp: parse_endpoint_def key_safe_def split: option.splits)

lemma load_settings_safe: "load_settings en = (Inr ep, en') \<Longrightarrow> key_safe ep"
proof -
  assume l: "load_settings en = (Inr ep, en')"
  have "key_safe ep" if "openai_settings e = (Inr ep, e')" for e e'
    using that by (auto simp: openai_settings_def parse_endpoint_def openai_endpoint key_safe_def split: prod.splits sum.splits if_splits)
  with l parse_endpoint_safe show ?thesis
    by (auto simp: load_settings_def Let_def split: if_splits prod.splits sum.splits)
qed

lemma chat_start_cong:
  assumes "\<And>ep r. key_safe ep \<Longrightarrow> start ep r = start' ep r"
  shows "chat_start start en s = chat_start start' en s"
proof (cases "load_settings en")
  case (Pair r en')
  show ?thesis
  proof (cases r)
    case (Inl m)
    with Pair show ?thesis by (simp add: chat_start_def Let_def)
  next
    case (Inr ep)
    then have "start ep = start' ep"
      using assms load_settings_safe [of en ep en'] Pair by auto
    with Pair Inr show ?thesis by (simp add: chat_start_def Let_def)
  qed
qed

section \<open>Reachable states\<close>

definition chat_boot :: chat where
  "chat_boot =
     \<lparr>ct_backend = False,
      ct_endpoint = \<lparr>ep_https = False, ep_port = 0, ep_host = [], ep_authority = [], ep_path = [], ep_key = []\<rparr>,
      ct_stream = z80_chat_stream_init, ct_request = [],
      ct_ring = \<lparr>cr_data = replicate Z80_CHAT_RESPONSE_BYTES 0, cr_head = 0, cr_tail = 0, cr_count = 0\<rparr>,
      ct_error_position = 0, ct_error_text = [], ct_active = False, ct_online = False, ct_generation = 0\<rparr>"

inductive chat_step :: "chat \<Rightarrow> chat \<Rightarrow> bool" where
  init: "chat_step s (z80_chat_init s)"
| service: "z80_chat_service start data en s = (a, s', en') \<Longrightarrow> chat_step s s'"
| receive: "z80_chat_receive data s = (n, s') \<Longrightarrow> chat_step s s'"
| network_poll: "chat_step s (z80_chat_network_poll connected generation s)"
| error: "chat_step s (z80_chat_error m s)"

inductive_cases chat_stepE: "chat_step s s'"

lemma chat_ok_fields [simp]:
  "chat_ok (s\<lparr>ct_stream := st\<rparr>) = chat_ok s" "chat_ok (s\<lparr>ct_active := a\<rparr>) = chat_ok s"
  "chat_ok (s\<lparr>ct_online := o1\<rparr>) = chat_ok s" "chat_ok (s\<lparr>ct_generation := g\<rparr>) = chat_ok s"
  "chat_ok (s\<lparr>ct_endpoint := ep\<rparr>) = chat_ok s" "chat_ok (s\<lparr>ct_backend := b\<rparr>) = chat_ok s"
  by (simp_all add: chat_ok_def)

lemma chat_error_ok [simp]: "chat_ok s \<Longrightarrow> chat_ok (z80_chat_error m s)"
  by (auto simp: z80_chat_error_def chat_ok_def)

lemma clear_response_ok [simp]: "chat_ok s \<Longrightarrow> chat_ok (clear_response s)"
  by (auto simp: clear_response_def chat_ok_def chat_ring_ok_def)

lemma receive_ok:
  assumes "chat_ok s" and "z80_chat_receive data s = (n, s')"
  shows "chat_ok s'"
proof (cases "ct_active s")
  case False
  with assms show ?thesis by (simp add: z80_chat_receive_def)
next
  case True
  obtain k st r where f: "z80_chat_stream_feed chat_emit (ct_stream s) (ct_ring s) data = (k, st, r)"
    by (cases "z80_chat_stream_feed chat_emit (ct_stream s) (ct_ring s) data") auto
  have "chat_ok (s\<lparr>ct_stream := st, ct_ring := r\<rparr>)"
    using assms(1) response.feed_sink [OF _ f] by (simp add: chat_ok_def)
  with assms(2) f True show ?thesis
    by (auto simp: z80_chat_receive_def Let_def split: option.splits if_splits)
qed

lemma start_ok: "chat_ok s \<Longrightarrow> chat_start start en s = (e, s', en') \<Longrightarrow> chat_ok s'"
  by (auto simp: chat_start_def Let_def split: if_splits prod.splits sum.splits)

lemma append_ok: "chat_ok s \<Longrightarrow> chat_append data s = (e, s') \<Longrightarrow> chat_ok s'"
  by (auto simp: chat_append_def chat_ok_def split: if_splits)

lemma service_ok:
  assumes "chat_ok s" and "z80_chat_service start data en s = (a, s', en')"
  shows "chat_ok s'"
proof -
  from assms(2) consider "s' = s" | "s' = s\<lparr>ct_active := False, ct_request := []\<rparr>" | "s' = clear_response (s\<lparr>ct_active := False\<rparr>)"
    | e where "chat_append (tl data) s = (e, s')" | e where "chat_start start en s = (e, s', en')"
    | n bs where "chat_read n s = (bs, s')"
    by (auto simp: z80_chat_service_def Let_def split: if_splits prod.splits)
  then show ?thesis
  proof cases
    case 2
    with assms(1) show ?thesis by (simp add: chat_ok_def)
  next
    case 6
    with chat_read_unread [OF assms(1)] show ?thesis by blast
  next
    case 1
    with assms(1) show ?thesis by simp
  next
    case 3
    with assms(1) show ?thesis by simp
  next
    case 4
    from append_ok [OF assms(1) this] show ?thesis .
  next
    case 5
    from start_ok [OF assms(1) this] show ?thesis .
  qed
qed

lemma chat_step_ok: "chat_step s s' \<Longrightarrow> chat_ok s \<Longrightarrow> chat_ok s'"
proof (erule chat_stepE)
  fix connected generation
  assume "chat_ok s" "s' = z80_chat_network_poll connected generation s"
  then show "chat_ok s'"
    using receive_ok [OF _ prod.collapse [symmetric]] by (simp add: z80_chat_network_poll_def Let_def)
qed (auto simp: z80_chat_init_def intro: receive_ok service_ok)

lemma chat_steps_ok: "chat_step\<^sup>*\<^sup>* chat_boot s \<Longrightarrow> chat_ok s"
proof (induction rule: rtranclp_induct)
  case base
  show ?case by (simp add: chat_boot_def chat_ok_def chat_ring_ok_def)
qed (rule chat_step_ok)

section \<open>Properties\<close>

text \<open>
  C16. A stored OpenAI key goes nowhere else: the service consults the network only with endpoints that carry no key, or that are the
  secure endpoint of OpenAI itself, whatever the environment says about provider and endpoint. Changing what the network
  answers for any other endpoint changes nothing.
\<close>

theorem chat_key_stays_home:
  assumes "\<And>ep r. ep_key ep = [] \<or> ep_https ep \<and> ep_port ep = 443 \<and> ep_host ep = ascii ''api.openai.com'' \<Longrightarrow> start ep r = start' ep r"
  shows "z80_chat_service start data en s = z80_chat_service start' data en s"
  using chat_start_cong [of start start' en s] assms unfolding z80_chat_service_def key_safe_def by (simp add: Let_def)

definition chat_sample :: chat where
  "chat_sample =
     \<lparr>ct_backend = True,
      ct_endpoint = \<lparr>ep_https = False, ep_port = 0, ep_host = [], ep_authority = [], ep_path = [], ep_key = []\<rparr>,
      ct_stream = z80_chat_stream_init, ct_request = [72],
      ct_ring = \<lparr>cr_data = replicate Z80_CHAT_RESPONSE_BYTES 0, cr_head = 0, cr_tail = 0, cr_count = 0\<rparr>,
      ct_error_position = 0, ct_error_text = [66, 67], ct_active = False, ct_online = True, ct_generation = 0\<rparr>"

theorem chat_key_stays_home_witness:
  "z80_chat_service (\<lambda>ep _. ep_key ep = []) [3] sample_env chat_sample =
   z80_chat_service (\<lambda>ep _. ep_key ep = [] \<or> ep_host ep = [] \<and> ep_port ep = 80) [3] sample_env chat_sample"
  by (rule chat_key_stays_home) (auto simp: ascii_def)

text \<open>
  C29. A read of up to \<open>n\<close> bytes of the reply, in any state the service can reach, returns the next unread bytes, in order, first the queued
  text and then the error text, with their number and a status that says whether more is there; it removes exactly what it
  returned, and the answer fits a service response.
\<close>

theorem chat_read_in_order:
  assumes "chat_step\<^sup>*\<^sup>* chat_boot s" and "ct_backend s" and "0 < n" and "n \<le> IO_SERVICE_MAX_PAYLOAD - 3"
  shows "\<exists>s' status. z80_chat_service start [5, of_nat n, of_nat (n div 256)] en s =
      ((IO_SERVICE_OK, True, [status] @ le16 (of_nat (length (take n (chat_unread s)))) @ take n (chat_unread s)), s', en) \<and>
    chat_unread s' = drop n (chat_unread s) \<and> (status = Z80_CHAT_DATA_READY \<longleftrightarrow> chat_unread s' \<noteq> []) \<and>
    3 + length (take n (chat_unread s)) \<le> IO_SERVICE_MAX_PAYLOAD"
proof -
  have "unat (of_nat n :: u8) + 256 * unat (of_nat (n div 256) :: u8) = n"
    using assms(4) by (simp add: unat_of_nat)
  moreover obtain bs s' where r: "chat_read n s = (bs, s')" by fastforce
  ultimately have "z80_chat_service start [5, of_nat n, of_nat (n div 256)] en s = ((IO_SERVICE_OK, True, bs), s', en)"
    using assms(2-4) by (simp add: z80_chat_service_def Let_def)
  with chat_read_unread [OF chat_steps_ok [OF assms(1)] r] assms(4) show ?thesis by auto
qed

theorem chat_read_in_order_witness:
  "\<exists>s' status. z80_chat_service (\<lambda>_ _. False) [5, 1, 0] sample_env (z80_chat_error ''Hi'' (z80_chat_init chat_boot)) =
     ((0, True, [status, 1, 0, 10]), s', sample_env)"
proof -
  have "chat_step\<^sup>*\<^sup>* chat_boot (z80_chat_error ''Hi'' (z80_chat_init chat_boot))"
    by (rule rtranclp.rtrancl_into_rtrancl [OF r_into_rtranclp]) (rule chat_step.init, rule chat_step.error)
  moreover have "ct_backend (z80_chat_error ''Hi'' (z80_chat_init chat_boot))"
    "\<exists>bs. chat_unread (z80_chat_error ''Hi'' (z80_chat_init chat_boot)) = 10 # bs"
    by (simp_all add: chat_boot_def z80_chat_init_def z80_chat_error_def chat_unread_def chat_queue_def)
  ultimately show ?thesis
    using chat_read_in_order [of "z80_chat_error ''Hi'' (z80_chat_init chat_boot)" 1 "\<lambda>_ _. False" sample_env]
    by (auto simp: le16_def)
qed

end
