(* ===== verification/Io_Service.thy ===== *)
theory Io_Service
  imports Disk_Device Environment_Values Http_Io Chat
begin

text \<open>
  The service worker of \<open>src/src/common/io_service.c\<close>: the one-slot mailbox through which core 0 hands a request to core 1
  and takes back its result, and the environment, clock and utility services behind it.

  \<^item> \<open>board\<close> is the state the two cores share: the mailbox (\<open>mb_\<close>), the disk controller, the environment driver, the
    download device and the chat service. The environment driver works on the flash that the disk controller holds: \<open>board_env\<close> hands it over and
    \<open>put_env\<close> hands it back.
  \<^item> \<open>service_world\<close> is what the platform answers while one request is served: the microsecond clock, the random number, the
    texts of \<open>z80_service_info\<close> and \<open>z80_service_clock\<close>, the LED, the flash handshakes, the answer of the weather service, and
    whether a chat request can be started.
  \<^item> a result is its error code, its response flag and its bytes.
\<close>

section \<open>State\<close>

abbreviation IO_SERVICE_TIMERS :: u8 where "IO_SERVICE_TIMERS \<equiv> 0x10"
abbreviation IO_SERVICE_STOPWATCHES :: u8 where "IO_SERVICE_STOPWATCHES \<equiv> 0x11"
abbreviation IO_SERVICE_CLOCK :: u8 where "IO_SERVICE_CLOCK \<equiv> 0x20"
abbreviation IO_SERVICE_UTILITY :: u8 where "IO_SERVICE_UTILITY \<equiv> 0x21"
abbreviation IO_SERVICE_ENVIRONMENT :: u8 where "IO_SERVICE_ENVIRONMENT \<equiv> 0x30"
abbreviation IO_SERVICE_WEATHER :: u8 where "IO_SERVICE_WEATHER \<equiv> 0x40"
abbreviation IO_SERVICE_CHAT :: u8 where "IO_SERVICE_CHAT \<equiv> 0x50"
abbreviation IO_SERVICE_SENSE_HAT :: u8 where "IO_SERVICE_SENSE_HAT \<equiv> 0x60"

datatype work_state = WORK_IDLE | WORK_PENDING | WORK_DONE

record io_request =
  rq_generation :: u32
  rq_command :: u8
  rq_data :: bytes

record io_result =
  rs_generation :: u32
  rs_error :: u8
  rs_has_response :: bool
  rs_data :: bytes

record board =
  mb_state :: work_state
  mb_request :: io_request
  mb_result :: io_result
  mb_reboot :: bool
  bd_disk :: disk
  bd_env :: environment
  bd_http :: http_io
  bd_chat :: chat

record service_world =
  sw_micros :: u64
  sw_random :: u16
  sw_info :: "u8 \<Rightarrow> bytes"
  sw_clock :: "u8 \<Rightarrow> environment \<Rightarrow> bytes option"
  sw_led :: "bool \<Rightarrow> bool \<Rightarrow> u8 \<times> bool"
  sw_weather :: "bytes \<Rightarrow> u8 \<times> bool \<times> bytes"
  sw_chat_start :: "chat_endpoint \<Rightarrow> bytes \<Rightarrow> bool"
  sw_start :: "http_url \<Rightarrow> bool"
  sw_dev :: flash_dev
  sw_flush :: "nat \<Rightarrow> flush_env"

definition z80_service_millis :: "u64 \<Rightarrow> u64" where
  "z80_service_millis micros = micros div 1000"

definition board_env :: "board \<Rightarrow> environment" where
  "board_env s = (bd_env s)\<lparr>en_backend := dk_backend (bd_disk s)\<rparr>"

definition put_env :: "environment \<Rightarrow> board \<Rightarrow> board" where
  "put_env en s = s\<lparr>bd_env := en, bd_disk := (bd_disk s)\<lparr>dk_backend := en_backend en\<rparr>\<rparr>"

definition world_env :: "service_world \<Rightarrow> env_world" where
  "world_env w = \<lparr>ew_dev = sw_dev w, ew_first = sw_flush w 0, ew_second = sw_flush w 1,
     ew_millis = z80_service_millis (sw_micros w)\<rparr>"

section \<open>The mailbox\<close>

definition z80_io_service_init :: "board \<Rightarrow> board" where
  "z80_io_service_init s = s\<lparr>mb_state := WORK_IDLE, mb_reboot := False\<rparr>"

definition z80_io_service_submit :: "u8 \<Rightarrow> bytes \<Rightarrow> u32 \<Rightarrow> board \<Rightarrow> u8 \<times> board" where
  "z80_io_service_submit command data generation s =
     (if mb_state s \<noteq> WORK_IDLE then (IO_SERVICE_BUSY_ERROR, s)
      else
        let s = s\<lparr>mb_request := \<lparr>rq_generation = generation, rq_command = command, rq_data = data\<rparr>\<rparr>;
            s = (if command = IO_SERVICE_UTILITY \<and> data = [2, 0xa5]
                 then s\<lparr>bd_disk := z80_flash_disk_set_write_enabled False (bd_disk s)\<rparr> else s)
        in (IO_SERVICE_OK, s\<lparr>mb_state := WORK_PENDING\<rparr>))"

text \<open>The result stays in the board: \<open>True\<close> says that the pointer returned is not null.\<close>

definition z80_io_service_poll :: "board \<Rightarrow> bool \<times> board" where
  "z80_io_service_poll s = (if mb_state s \<noteq> WORK_DONE then (False, s) else (True, s\<lparr>mb_state := WORK_IDLE\<rparr>))"

definition z80_io_ports_quiescent :: "board \<Rightarrow> bool" where
  "z80_io_ports_quiescent s \<longleftrightarrow> mb_state s \<noteq> WORK_PENDING"

definition z80_io_ports_reboot_requested :: "board \<Rightarrow> bool \<times> board" where
  "z80_io_ports_reboot_requested s = (mb_reboot s, s\<lparr>mb_reboot := False\<rparr>)"

section \<open>The environment service\<close>

definition env_status :: "u8 \<Rightarrow> u8" where
  "env_status status =
     (if status = 0 then IO_SERVICE_OK
      else if status = 255 then IO_SERVICE_STORAGE_OPEN
      else if status = 254 then IO_SERVICE_STORAGE_READ
      else if status = 253 then IO_SERVICE_STORAGE_WRITE
      else if status = 252 then IO_SERVICE_CAPACITY
      else if status = 251 then IO_SERVICE_NOT_FOUND
      else IO_SERVICE_UNAVAILABLE)"

definition env_has_key :: "u8 \<Rightarrow> bool" where
  "env_has_key operation \<longleftrightarrow> operation = 2 \<or> operation = 3 \<or> operation = 4 \<or> operation = 8"

text \<open>The checks of a request; the result is the error, or the bytes to send to the driver's data port.\<close>

definition check_key_request :: "u8 \<Rightarrow> bytes \<Rightarrow> u8 + bytes" where
  "check_key_request operation d =
     (if length d < 2 then Inl IO_SERVICE_INVALID_LENGTH
      else
        let key_length = unat (d ! 1)
        in if key_length = 0 \<or> key_length > 16 then Inl IO_SERVICE_INVALID_PARAMETER
           else if length d < 2 + key_length then Inl IO_SERVICE_INVALID_LENGTH
           else if 0 \<in> set (slice 2 key_length d) then Inl IO_SERVICE_INVALID_PARAMETER
           else if operation = 3 then
             if length d < 4 + key_length then Inl IO_SERVICE_INVALID_LENGTH
             else
               let value_length = unat (rd16 (drop (2 + key_length) d))
               in if value_length > 255 then Inl IO_SERVICE_INVALID_PARAMETER
                  else if length d \<noteq> 4 + key_length + value_length then Inl IO_SERVICE_INVALID_LENGTH
                  else if 0 \<in> set (slice (4 + key_length) value_length d) then Inl IO_SERVICE_INVALID_PARAMETER
                  else Inr (slice 2 key_length d @ [0] @ slice (4 + key_length) value_length d)
           else if length d \<noteq> 2 + key_length then Inl IO_SERVICE_INVALID_LENGTH
           else Inr (slice 2 key_length d @ [0]))"

definition check_env_request :: "bytes \<Rightarrow> u8 + bytes" where
  "check_env_request d =
     (let operation = d ! 0
      in if operation > 9 then Inl IO_SERVICE_UNKNOWN_OPERATION
         else if env_has_key operation then check_key_request operation d
         else if operation = 9 then
           if length d > 512 then Inl IO_SERVICE_INVALID_LENGTH
           else if 0 \<in> set (drop 1 d) then Inl IO_SERVICE_INVALID_PARAMETER
           else Inr (drop 1 d)
         else if length d \<noteq> 1 then Inl IO_SERVICE_INVALID_LENGTH
         else Inr [])"

definition reload_env :: "environment \<Rightarrow> u8 \<times> environment" where
  "reload_env en =
     (let en = environment_io_init (environment_io_close en)
      in (env_status (environment_input ENVIRONMENT_PORT_COMMAND en), en))"

type_synonym answer = "u8 \<times> bool \<times> bytes"

definition environment_service :: "service_world \<Rightarrow> bytes \<Rightarrow> environment \<Rightarrow> answer fate \<times> environment" where
  "environment_service w d en =
     (case check_env_request d of
        Inl error \<Rightarrow> (Returned (error, False, []), en)
      | Inr payload \<Rightarrow>
          case reload_env en of (error, en) \<Rightarrow>
            if error \<noteq> IO_SERVICE_OK then (Returned (error, False, []), en)
            else
              let en = snd (environment_output (world_env w) ENVIRONMENT_PORT_COMMAND 0 0 en);
                  en = send_request (world_env w) payload en;
                  operation = d ! 0
              in case environment_output (world_env w) ENVIRONMENT_PORT_COMMAND operation
                       (IO_SERVICE_MAX_PAYLOAD + 1) en of
                   (Rebooted, en) \<Rightarrow> (Rebooted, en)
                 | (Returned out, en) \<Rightarrow>
                     (Returned (env_status (environment_input ENVIRONMENT_PORT_COMMAND en),
                        operation = 2 \<or> operation = 5 \<or> operation = 6 \<or> operation = 9, out), en))"

section \<open>The clock and utility services\<close>

definition clock_service :: "service_world \<Rightarrow> bytes \<Rightarrow> environment \<Rightarrow> answer \<times> environment" where
  "clock_service w d en =
     (let operation = d ! 0
      in if operation > 4 then ((IO_SERVICE_UNKNOWN_OPERATION, False, []), en)
         else if length d \<noteq> 1 then ((IO_SERVICE_INVALID_LENGTH, False, []), en)
         else if operation = 0 then
           let text = decimal (unat (z80_service_millis (sw_micros w) div 1000))
           in if length text \<ge> IO_SERVICE_MAX_PAYLOAD + 1 then ((IO_SERVICE_CAPACITY, False, []), en)
              else ((IO_SERVICE_OK, True, text), en)
         else
           case reload_env en of (error, en) \<Rightarrow>
             if error \<noteq> IO_SERVICE_OK then ((error, False, []), en)
             else case sw_clock w operation en of
               None \<Rightarrow> ((IO_SERVICE_CLOCK_UNSYNCED, False, []), en)
             | Some text \<Rightarrow> ((IO_SERVICE_OK, True, text), en))"

definition version_text :: bytes where
  "version_text = ascii ''Z84C0020PEC @ 20MHz, 64K, Pico 2 W Supervisor'' @ [10]"

definition flush_for_reboot :: "service_world \<Rightarrow> disk \<Rightarrow> bool fate \<times> disk" where
  "flush_for_reboot w =
     fbind (z80_flash_core1_service (sw_dev w) (sw_flush w 0) (sw_flush w 1) (sw_micros w)) (\<lambda>_.
     fbind (z80_flash_core1_service (sw_dev w) (sw_flush w 2) (sw_flush w 3) (sw_micros w)) (\<lambda>_ dk.
       case z80_flash_backend_flush (sw_dev w) (sw_flush w 4) (dk_backend dk) of
         (Rebooted, b) \<Rightarrow> (Rebooted, dk\<lparr>dk_backend := b\<rparr>)
       | (Returned ok, b) \<Rightarrow>
           let dk = dk\<lparr>dk_backend := b\<rparr> in (Returned (ok \<and> z80_flash_disk_quiescent dk), dk)))"

definition reboot_service :: "service_world \<Rightarrow> u8 \<Rightarrow> board \<Rightarrow> answer fate \<times> board" where
  "reboot_service w confirmation s =
     (if confirmation \<noteq> 0xa5 then (Returned (IO_SERVICE_REBOOT_CONFIRMATION, False, []), s)
      else case flush_for_reboot w (bd_disk s) of
        (Rebooted, dk) \<Rightarrow> (Rebooted, s\<lparr>bd_disk := dk\<rparr>)
      | (Returned durable, dk) \<Rightarrow>
          if durable then (Returned (IO_SERVICE_OK, False, []), s\<lparr>bd_disk := dk, mb_reboot := True\<rparr>)
          else (Returned (IO_SERVICE_STORAGE_WRITE, False, []),
                s\<lparr>bd_disk := z80_flash_disk_set_write_enabled True dk\<rparr>))"

definition led_service :: "service_world \<Rightarrow> bytes \<Rightarrow> answer" where
  "led_service w d =
     (if d ! 0 = 4 \<and> d ! 1 > 1 then (IO_SERVICE_INVALID_PARAMETER, False, [])
      else case sw_led w (d ! 0 = 4) (d ! 0 = 4 \<and> d ! 1 \<noteq> 0) of (error, state) \<Rightarrow>
        if error \<noteq> IO_SERVICE_OK then (error, False, [])
        else if d ! 0 = 5 then (IO_SERVICE_OK, True, [of_bool state])
        else (IO_SERVICE_OK, False, []))"

definition info_service :: "service_world \<Rightarrow> u8 \<Rightarrow> answer" where
  "info_service w selector =
     (if selector > 2 then (IO_SERVICE_INVALID_PARAMETER, False, [])
      else let text = sw_info w selector
           in if text = [] then (IO_SERVICE_UNAVAILABLE, False, []) else (IO_SERVICE_OK, True, text))"

definition utility_service :: "service_world \<Rightarrow> bytes \<Rightarrow> board \<Rightarrow> answer fate \<times> board" where
  "utility_service w d s =
     (let operation = d ! 0
      in if operation > 5 then (Returned (IO_SERVICE_UNKNOWN_OPERATION, False, []), s)
         else if length d \<noteq> (if operation = 1 \<or> operation = 2 \<or> operation = 4 then 2 else 1) then
           (Returned (IO_SERVICE_INVALID_LENGTH, False, []), s)
         else if operation = 4 \<or> operation = 5 then (Returned (led_service w d), s)
         else if operation = 0 then (Returned (IO_SERVICE_OK, True, le16 (sw_random w)), s)
         else if operation = 1 then (Returned (info_service w (d ! 1)), s)
         else if operation = 2 then reboot_service w (d ! 1) s
         else (Returned (IO_SERVICE_OK, True, version_text), s))"

section \<open>The worker\<close>

definition serve :: "service_world \<Rightarrow> board \<Rightarrow> answer fate \<times> board" where
  "serve w s =
     (let command = rq_command (mb_request s); d = rq_data (mb_request s)
      in if command = IO_SERVICE_CLOCK then
           case clock_service w d (board_env s) of (a, en) \<Rightarrow> (Returned a, put_env en s)
         else if command = IO_SERVICE_UTILITY then utility_service w d s
         else if command = IO_SERVICE_ENVIRONMENT then
           case environment_service w d (board_env s) of (r, en) \<Rightarrow> (r, put_env en s)
         else if command = IO_SERVICE_WEATHER then (Returned (sw_weather w d), s)
         else if command = IO_SERVICE_CHAT then
           case z80_chat_service (sw_chat_start w) d (board_env s) (bd_chat s) of
             (a, c, en) \<Rightarrow> (Returned a, put_env en (s\<lparr>bd_chat := c\<rparr>))
         else (Returned (IO_SERVICE_UNAVAILABLE, False, []), s))"

definition z80_io_ports_core1_service :: "service_world \<Rightarrow> board \<Rightarrow> unit fate \<times> board" where
  "z80_io_ports_core1_service w s0 =
     (case z80_http_io_core1_service (sw_start w) (board_env s0) (bd_http s0) of (h, en) \<Rightarrow>
        let s = put_env en (s0\<lparr>bd_http := h\<rparr>)
        in if mb_state s \<noteq> WORK_PENDING then (Returned (), s)
           else case serve w s of
             (Rebooted, s) \<Rightarrow> (Rebooted, s)
           | (Returned (error, has_response, data), s) \<Rightarrow>
               (Returned (), s\<lparr>mb_result := \<lparr>rs_generation = rq_generation (mb_request s), rs_error = error,
                  rs_has_response = has_response, rs_data = data\<rparr>, mb_state := WORK_DONE\<rparr>))"

end
