(* ===== verification/Io_Ports.thy ===== *)
theory Io_Ports
  imports Io_Service
begin

text \<open>
  The service ports of \<open>src/src/common/io_ports.c\<close>, on core 0: a byte-wise request and response transport (ports 2, 3 and 4),
  and the timer port with four countdown timers and three stopwatches.

  \<^item> \<open>transport\<close> and \<open>timers\<close> are the two static structs. \<open>tr_request\<close> holds the request bytes received so far
    (\<open>request_position\<close> is its length); the pointer \<open>response\<close> is either the local buffer or the worker's result, which the
    transport reads in place.
  \<^item> the clock is an argument of every access that reads it.
\<close>

section \<open>State\<close>

abbreviation IO_SERVICE_COMMAND_PORT :: u8 where "IO_SERVICE_COMMAND_PORT \<equiv> 2"
abbreviation IO_SERVICE_REQUEST_PORT :: u8 where "IO_SERVICE_REQUEST_PORT \<equiv> 3"
abbreviation IO_SERVICE_RESPONSE_PORT :: u8 where "IO_SERVICE_RESPONSE_PORT \<equiv> 4"
abbreviation IO_TIMER_PORT :: u8 where "IO_TIMER_PORT \<equiv> 0x17"
abbreviation IO_SERVICE_ACK :: u8 where "IO_SERVICE_ACK \<equiv> 0"
abbreviation IO_SERVICE_RESET :: u8 where "IO_SERVICE_RESET \<equiv> 1"
abbreviation IO_SERVICE_IDENTIFY :: u8 where "IO_SERVICE_IDENTIFY \<equiv> 2"
abbreviation LOCAL_RESPONSE :: nat where "LOCAL_RESPONSE \<equiv> 16"

datatype io_status = IO_READY | IO_COMPLETE | IO_RESPONSE_READY | IO_COLLECTING | IO_BUSY | IO_ERROR

fun status_byte :: "io_status \<Rightarrow> u8" where
  "status_byte IO_READY = 0"
| "status_byte IO_COMPLETE = 1"
| "status_byte IO_RESPONSE_READY = 2"
| "status_byte IO_COLLECTING = 3"
| "status_byte IO_BUSY = 4"
| "status_byte IO_ERROR = 0xff"

datatype response_pointer = Local_Response | Worker_Result

record transport =
  tr_status :: io_status
  tr_command :: u8
  tr_length_bytes :: nat
  tr_request_length :: u16
  tr_response_length :: nat
  tr_position :: nat
  tr_generation :: u32
  tr_reset_required :: bool
  tr_request :: bytes
  tr_local :: bytes
  tr_response :: response_pointer

record timers =
  tm_deadlines_us :: "u64 list"
  tm_stopwatches :: "u64 list"
  tm_latched :: u32
  tm_duration :: u16
  tm_command :: u8
  tm_parameter_bytes :: nat
  tm_response_bytes :: nat

record ports =
  po_transport :: transport
  po_timers :: timers
  po_board :: board

section \<open>The transport\<close>

definition reset_transport :: "transport \<Rightarrow> transport" where
  "reset_transport t =
     t\<lparr>tr_generation := tr_generation t + 1, tr_status := IO_READY, tr_length_bytes := 0, tr_request_length := 0,
       tr_request := [], tr_response_length := 0, tr_position := 0, tr_response := Local_Response,
       tr_reset_required := False\<rparr>"

definition transport_fail :: "u8 \<Rightarrow> bool \<Rightarrow> transport \<Rightarrow> transport" where
  "transport_fail error reset_required t =
     t\<lparr>tr_generation := tr_generation t + 1, tr_local := (tr_local t)[0 := error], tr_response := Local_Response,
       tr_response_length := 1, tr_position := 0, tr_reset_required := (tr_reset_required t \<or> reset_required),
       tr_status := IO_ERROR\<rparr>"

definition fill_local :: "bytes \<Rightarrow> transport \<Rightarrow> transport" where
  "fill_local bs t =
     t\<lparr>tr_local := splice 0 bs (tr_local t), tr_response := Local_Response, tr_response_length := length bs,
       tr_position := 0\<rparr>"

section \<open>The timers\<close>

definition start_timer :: "u64 \<Rightarrow> u8 \<Rightarrow> u16 \<Rightarrow> timers \<Rightarrow> timers" where
  "start_timer micros i duration t =
     (let now = z80_service_millis micros;
          deadline = (if i = 3 then (now div 1000 + ucast duration) * 1000 else now + ucast duration)
      in t\<lparr>tm_deadlines_us := (tm_deadlines_us t)[unat i := deadline * 1000]\<rparr>)"

definition timer_running :: "u8 \<Rightarrow> u64 \<Rightarrow> timers \<Rightarrow> bool" where
  "timer_running i now_us t \<longleftrightarrow> now_us < tm_deadlines_us t ! unat i"

definition stopwatch_value :: "u64 \<Rightarrow> u8 \<Rightarrow> bool \<Rightarrow> timers \<Rightarrow> u32" where
  "stopwatch_value micros i milliseconds t =
     (let elapsed = z80_service_millis micros - tm_stopwatches t ! unat i
      in ucast (if milliseconds then elapsed else elapsed div 1000))"

definition timer_parameter :: "u64 \<Rightarrow> u8 \<Rightarrow> timers \<Rightarrow> timers" where
  "timer_parameter micros data t =
     (let i = tm_command t - 0x10;
          t = (if i \<noteq> 3 \<and> tm_parameter_bytes t = 2 then t\<lparr>tm_duration := ucast data\<rparr>
               else let t = t\<lparr>tm_duration := tm_duration t OR push_bit (if i = 3 then 0 else 8) (ucast data)\<rparr>
                    in start_timer micros i (tm_duration t) t);
          t = t\<lparr>tm_parameter_bytes := tm_parameter_bytes t - 1\<rparr>
      in if tm_parameter_bytes t = 0 then t\<lparr>tm_command := 0x30\<rparr> else t)"

definition timer_command :: "u64 \<Rightarrow> u8 \<Rightarrow> timers \<Rightarrow> timers" where
  "timer_command micros data t0 =
     (let t = t0\<lparr>tm_command := data, tm_response_bytes := 0\<rparr>
      in if data \<ge> 0x10 \<and> data \<le> 0x13 then
           t\<lparr>tm_duration := 0, tm_parameter_bytes := if data = 0x13 then 1 else 2\<rparr>
         else if data \<ge> 0x20 \<and> data \<le> 0x23 \<or> data = 0x30 then t
         else if data \<ge> 0x40 \<and> data \<le> 0x42 then
           t\<lparr>tm_stopwatches := (tm_stopwatches t)[unat (data - 0x40) := z80_service_millis micros], tm_command := 0x30\<rparr>
         else if data \<ge> 0x50 \<and> data \<le> 0x52 \<or> data \<ge> 0x60 \<and> data \<le> 0x62 then
           t\<lparr>tm_latched := stopwatch_value micros (data AND 3) (data \<ge> 0x60) t, tm_response_bytes := 4\<rparr>
         else t\<lparr>tm_command := 0xff\<rparr>)"

definition timer_out :: "u64 \<Rightarrow> u8 \<Rightarrow> timers \<Rightarrow> timers" where
  "timer_out micros data t =
     (if tm_parameter_bytes t \<noteq> 0 then timer_parameter micros data t
      else if data = 0 then t\<lparr>tm_command := 0x30, tm_response_bytes := 0\<rparr>
      else if tm_command t = 0xff then t
      else timer_command micros data t)"

definition timer_mask :: "u64 \<Rightarrow> timers \<Rightarrow> u8" where
  "timer_mask now t = foldl (\<lambda>mask i. mask OR push_bit (unat i) (of_bool (timer_running i now t))) 0 [0, 1, 2, 3]"

definition timer_in :: "u64 \<Rightarrow> timers \<Rightarrow> u8 \<times> timers" where
  "timer_in micros t0 =
     (let t = (if tm_parameter_bytes t0 \<noteq> 0 then t0\<lparr>tm_parameter_bytes := 0, tm_command := 0xff\<rparr> else t0)
      in if tm_command t \<ge> 0x20 \<and> tm_command t \<le> 0x23 then
           (of_bool (timer_running (tm_command t - 0x20) micros t), t)
         else if tm_command t = 0x30 then (timer_mask micros t, t)
         else if tm_response_bytes t \<noteq> 0 then
           (ucast (tm_latched t),
            t\<lparr>tm_latched := drop_bit 8 (tm_latched t), tm_response_bytes := tm_response_bytes t - 1\<rparr>)
         else (0xff, t\<lparr>tm_command := 0xff\<rparr>))"

definition finish_local :: "transport \<Rightarrow> transport" where
  "finish_local t = t\<lparr>tr_status := if tr_response_length t \<noteq> 0 then IO_RESPONSE_READY else IO_COMPLETE\<rparr>"

definition timer_service :: "u64 \<Rightarrow> transport \<Rightarrow> timers \<Rightarrow> transport \<times> timers" where
  "timer_service micros t tm =
     (let r = tr_request t; operation = r ! 0; countdown = (tr_command t = IO_SERVICE_TIMERS)
      in if operation > (if countdown then 1 else 2) then (transport_fail IO_SERVICE_UNKNOWN_OPERATION False t, tm)
         else if unat (tr_request_length t) \<noteq> (if countdown \<and> operation = 0 then 6 else 2) then
           (transport_fail IO_SERVICE_INVALID_LENGTH False t, tm)
         else
           let i = r ! 1
           in if i > (if countdown then 3 else 2) then (transport_fail IO_SERVICE_INVALID_PARAMETER False t, tm)
              else
                let t = fill_local [] t
                in if countdown \<and> operation = 0 then
                     if r ! 4 \<noteq> 0 \<or> r ! 5 \<noteq> 0 \<or> i = 3 \<and> r ! 3 \<noteq> 0 then
                       (transport_fail IO_SERVICE_INVALID_PARAMETER False t, tm)
                     else (finish_local t, start_timer micros i (ucast (r ! 2) OR push_bit 8 (ucast (r ! 3))) tm)
                   else if countdown then
                     (finish_local (fill_local [of_bool (timer_running i micros tm)] t), tm)
                   else if operation = 0 then
                     (finish_local t, tm\<lparr>tm_stopwatches := (tm_stopwatches tm)[unat i := z80_service_millis micros]\<rparr>)
                   else (finish_local (fill_local (le32 (stopwatch_value micros i (operation = 2) tm)) t), tm))"

section \<open>Ports\<close>

definition poll_service :: "ports \<Rightarrow> ports" where
  "poll_service s0 =
     (case z80_io_service_poll (po_board s0) of (polled, b) \<Rightarrow>
        let s = s0\<lparr>po_board := b\<rparr>; t = po_transport s; r = mb_result b
        in if \<not> polled \<or> rs_generation r \<noteq> tr_generation t \<or> tr_status t \<noteq> IO_BUSY then s
           else if rs_error r \<noteq> IO_SERVICE_OK then s\<lparr>po_transport := transport_fail (rs_error r) False t\<rparr>
           else if length (rs_data r) > IO_SERVICE_MAX_PAYLOAD then
             s\<lparr>po_transport := transport_fail IO_SERVICE_CAPACITY False t\<rparr>
           else
             s\<lparr>po_transport := t\<lparr>tr_response := Worker_Result, tr_response_length := length (rs_data r), tr_position := 0,
                tr_status := if rs_has_response r then IO_RESPONSE_READY else IO_COMPLETE\<rparr>\<rparr>)"

definition z80_io_ports_init :: "ports \<Rightarrow> ports" where
  "z80_io_ports_init s =
     s\<lparr>po_transport := reset_transport (po_transport s),
       po_timers := \<lparr>tm_deadlines_us = replicate 4 0, tm_stopwatches = replicate 3 0, tm_latched = 0, tm_duration = 0,
         tm_command = 0x30, tm_parameter_bytes = 0, tm_response_bytes = 0\<rparr>,
       po_board := (z80_io_service_init (po_board s))\<lparr>bd_http := z80_http_io_init (bd_http (po_board s))\<rparr>\<rparr>"

definition identity_text :: bytes where
  "identity_text = ascii ''ROMLESS-SVC/1''"

definition command_out :: "u8 \<Rightarrow> transport \<Rightarrow> transport" where
  "command_out command t =
     (if command = IO_SERVICE_RESET then reset_transport t
      else if command = IO_SERVICE_ACK then
        if \<not> tr_reset_required t \<and>
           (tr_status t = IO_COMPLETE \<or> tr_status t = IO_ERROR \<and> tr_position t = tr_response_length t + 2)
        then reset_transport t
        else transport_fail IO_SERVICE_INVALID_STATE (tr_reset_required t) t
      else if tr_status t \<noteq> IO_READY then transport_fail IO_SERVICE_BUSY_ERROR True t
      else if command = IO_SERVICE_IDENTIFY then (fill_local identity_text t)\<lparr>tr_status := IO_RESPONSE_READY\<rparr>
      else if command \<in> {IO_SERVICE_TIMERS, IO_SERVICE_STOPWATCHES, IO_SERVICE_CLOCK, IO_SERVICE_UTILITY,
                         IO_SERVICE_ENVIRONMENT, IO_SERVICE_WEATHER, IO_SERVICE_CHAT, IO_SERVICE_SENSE_HAT} then
        t\<lparr>tr_command := command, tr_length_bytes := 0, tr_request_length := 0, tr_request := [],
          tr_status := IO_COLLECTING\<rparr>
      else transport_fail IO_SERVICE_UNKNOWN_GROUP False t)"

definition submit_request :: "ports \<Rightarrow> ports" where
  "submit_request s =
     (let t = po_transport s
      in case z80_io_service_submit (tr_command t) (tr_request t) (tr_generation t) (po_board s) of (error, b) \<Rightarrow>
           s\<lparr>po_board := b,
             po_transport := if error = IO_SERVICE_OK then t\<lparr>tr_status := IO_BUSY\<rparr>
               else transport_fail error (error = IO_SERVICE_BUSY_ERROR) t\<rparr>)"

definition length_out :: "u8 \<Rightarrow> transport \<Rightarrow> transport" where
  "length_out data t0 =
     (let t = t0\<lparr>tr_request_length := tr_request_length t0 OR push_bit (8 * tr_length_bytes t0) (ucast data),
                 tr_length_bytes := tr_length_bytes t0 + 1\<rparr>
      in if tr_length_bytes t = 2 \<and>
            (tr_request_length t = 0 \<or> unat (tr_request_length t) > IO_SERVICE_MAX_PAYLOAD)
         then transport_fail IO_SERVICE_INVALID_LENGTH False t else t)"

definition request_out :: "u64 \<Rightarrow> u8 \<Rightarrow> ports \<Rightarrow> ports" where
  "request_out micros data s =
     (let t = po_transport s
      in if tr_status t \<noteq> IO_COLLECTING then
           s\<lparr>po_transport := transport_fail IO_SERVICE_INVALID_STATE (tr_status t = IO_BUSY) t\<rparr>
         else if tr_length_bytes t < 2 then s\<lparr>po_transport := length_out data t\<rparr>
         else
           let t = t\<lparr>tr_request := tr_request t @ [data]\<rparr>; s = s\<lparr>po_transport := t\<rparr>
           in if length (tr_request t) \<noteq> unat (tr_request_length t) then s
              else
                let s = poll_service s; t = po_transport s
                in if tr_command t = IO_SERVICE_TIMERS \<or> tr_command t = IO_SERVICE_STOPWATCHES then
                     case timer_service micros t (po_timers s) of (t, tm) \<Rightarrow> s\<lparr>po_transport := t, po_timers := tm\<rparr>
                   else submit_request s)"

definition with_http :: "(http_io \<Rightarrow> http_io) \<Rightarrow> ports \<Rightarrow> ports" where
  "with_http f s = s\<lparr>po_board := (po_board s)\<lparr>bd_http := f (bd_http (po_board s))\<rparr>\<rparr>"

definition z80_io_port_out :: "u64 \<Rightarrow> u8 \<Rightarrow> u8 \<Rightarrow> ports \<Rightarrow> ports" where
  "z80_io_port_out micros port data s =
     (if port = HTTP_COMMAND_PORT \<or> port = HTTP_DATA_PORT then with_http (z80_http_io_out port data) s
      else if port = IO_TIMER_PORT then s\<lparr>po_timers := timer_out micros data (po_timers s)\<rparr>
      else if port = IO_SERVICE_COMMAND_PORT then
        let s = poll_service s in s\<lparr>po_transport := command_out data (po_transport s)\<rparr>
      else if port = IO_SERVICE_REQUEST_PORT then
        request_out micros data (if tr_status (po_transport s) \<noteq> IO_COLLECTING then poll_service s else s)
      else s)"

definition response_byte :: "nat \<Rightarrow> ports \<Rightarrow> u8" where
  "response_byte position s =
     (let t = po_transport s
      in if position < 2 then of_nat (tr_response_length t div 2 ^ (8 * position))
         else case tr_response t of
           Local_Response \<Rightarrow> tr_local t ! (position - 2)
         | Worker_Result \<Rightarrow> rs_data (mb_result (po_board s)) ! (position - 2))"

definition response_in :: "ports \<Rightarrow> u8 \<times> ports" where
  "response_in s0 =
     (let s = (if tr_status (po_transport s0) = IO_BUSY then poll_service s0 else s0); t = po_transport s
      in if tr_status t \<noteq> IO_RESPONSE_READY \<and> tr_status t \<noteq> IO_ERROR \<or> tr_position t \<ge> tr_response_length t + 2 then
           (0, s\<lparr>po_transport := transport_fail IO_SERVICE_UNDERFLOW (tr_status t = IO_BUSY) t\<rparr>)
         else
           let data = response_byte (tr_position t) s; t = t\<lparr>tr_position := tr_position t + 1\<rparr>
           in (data, s\<lparr>po_transport :=
                 if tr_status t = IO_RESPONSE_READY \<and> tr_position t = tr_response_length t + 2
                 then reset_transport t else t\<rparr>))"

definition z80_io_port_in :: "u64 \<Rightarrow> u8 \<Rightarrow> ports \<Rightarrow> u8 \<times> ports" where
  "z80_io_port_in micros port s =
     (if port = HTTP_COMMAND_PORT \<or> port = HTTP_DATA_PORT then
        case z80_http_io_in port (bd_http (po_board s)) of (b, h) \<Rightarrow> (b, with_http (\<lambda>_. h) s)
      else if port = IO_TIMER_PORT then
        case timer_in micros (po_timers s) of (b, tm) \<Rightarrow> (b, s\<lparr>po_timers := tm\<rparr>)
      else if port = IO_SERVICE_COMMAND_PORT then
        let s = poll_service s in (status_byte (tr_status (po_transport s)), s)
      else if port = IO_SERVICE_RESPONSE_PORT then response_in s
      else (0, s))"

end
