(* ===== verification/Io_Transport.thy ===== *)
theory Io_Transport
  imports Io_Ports Http_Session Chat_Service
begin

text \<open>
  What the service ports promise. \<open>ports_inv\<close> is kept by every port access and by the worker; it says that buffers are used in
  bounds, that a request in progress is the one in the mailbox, and that a response that is read in place is not touched by the
  worker. The properties follow a request through the ports, the worker and back, and state what timers, stopwatches and the
  reboot service do.
\<close>

section \<open>The invariant\<close>

definition timers_ok :: "timers \<Rightarrow> bool" where
  "timers_ok t \<longleftrightarrow> length (tm_deadlines_us t) = 4 \<and> length (tm_stopwatches t) = 3 \<and>
     (tm_parameter_bytes t \<noteq> 0 \<longrightarrow> 0x10 \<le> tm_command t \<and> tm_command t \<le> 0x13)"

definition collecting_ok :: "transport \<Rightarrow> bool" where
  "collecting_ok t \<longleftrightarrow> tr_length_bytes t \<le> 2 \<and>
     (if tr_length_bytes t = 2
      then length (tr_request t) < unat (tr_request_length t) \<and> unat (tr_request_length t) \<le> IO_SERVICE_MAX_PAYLOAD
      else tr_request t = [])"

definition mailbox_ok :: "transport \<Rightarrow> board \<Rightarrow> bool" where
  "mailbox_ok t b \<longleftrightarrow>
     (tr_status t = IO_BUSY \<longrightarrow> mb_state b = WORK_PENDING \<and> rq_generation (mb_request b) = tr_generation t \<or>
        mb_state b = WORK_DONE \<and> rs_generation (mb_result b) = tr_generation t) \<and>
     (tr_response t = Worker_Result \<longrightarrow> tr_status t \<in> {IO_RESPONSE_READY, IO_COMPLETE} \<and> mb_state b = WORK_IDLE \<and>
        tr_response_length t = length (rs_data (mb_result b)) \<and> tr_response_length t \<le> IO_SERVICE_MAX_PAYLOAD)"

definition buffers_ok :: "transport \<Rightarrow> bool" where
  "buffers_ok t \<longleftrightarrow> length (tr_local t) = LOCAL_RESPONSE \<and> tr_position t \<le> tr_response_length t + 2 \<and>
     (tr_response t = Local_Response \<longrightarrow> tr_response_length t \<le> LOCAL_RESPONSE)"

definition transport_ok :: "transport \<Rightarrow> bool" where
  "transport_ok t \<longleftrightarrow> buffers_ok t \<and> (tr_status t = IO_COLLECTING \<longrightarrow> collecting_ok t)"

definition ports_inv :: "ports \<Rightarrow> bool" where
  "ports_inv s \<longleftrightarrow> transport_ok (po_transport s) \<and> mailbox_ok (po_transport s) (po_board s) \<and> timers_ok (po_timers s)"

text \<open>A transport that is neither busy nor reading the worker's result does not depend on the mailbox.\<close>

definition detached :: "transport \<Rightarrow> bool" where
  "detached t \<longleftrightarrow> tr_status t \<noteq> IO_BUSY \<and> tr_response t = Local_Response"

lemma detached_mailbox [simp]: "detached t \<Longrightarrow> mailbox_ok t b"
  by (simp add: detached_def mailbox_ok_def)

lemma buffers_simps [simp]:
  "transport_ok t \<Longrightarrow> buffers_ok t" "buffers_ok (t\<lparr>tr_status := st\<rparr>) = buffers_ok t"
  "buffers_ok (t\<lparr>tr_request := r\<rparr>) = buffers_ok t" "buffers_ok (t\<lparr>tr_request_length := n\<rparr>) = buffers_ok t"
  "buffers_ok (t\<lparr>tr_length_bytes := k\<rparr>) = buffers_ok t"
  "buffers_ok t \<Longrightarrow> length bs \<le> LOCAL_RESPONSE \<Longrightarrow> buffers_ok (fill_local bs t)"
  by (simp_all add: buffers_ok_def transport_ok_def fill_local_def)

lemma reset_ok [simp]: "buffers_ok t \<Longrightarrow> transport_ok (reset_transport t)" "detached (reset_transport t)"
  "tr_status (reset_transport t) = IO_READY"
  by (simp_all add: buffers_ok_def transport_ok_def reset_transport_def detached_def)

lemma fail_ok [simp]: "buffers_ok t \<Longrightarrow> transport_ok (transport_fail e r t)" "detached (transport_fail e r t)"
  "tr_status (transport_fail e r t) = IO_ERROR"
  by (simp_all add: buffers_ok_def transport_ok_def transport_fail_def detached_def)

lemma fill_local_ok [simp]:
  "buffers_ok t \<Longrightarrow> length bs \<le> LOCAL_RESPONSE \<Longrightarrow> transport_ok (finish_local (fill_local bs t))"
  "buffers_ok t \<Longrightarrow> length bs \<le> LOCAL_RESPONSE \<Longrightarrow> transport_ok ((fill_local bs t)\<lparr>tr_status := IO_RESPONSE_READY\<rparr>)"
  "detached (finish_local (fill_local bs t))" "detached ((fill_local bs t)\<lparr>tr_status := IO_RESPONSE_READY\<rparr>)"
  by (simp_all add: buffers_ok_def transport_ok_def fill_local_def finish_local_def detached_def)

lemma command_out_ok:
  assumes "transport_ok t" and "mailbox_ok t b"
  shows "transport_ok (command_out command t) \<and> mailbox_ok (command_out command t) b"
proof -
  have id: "length identity_text \<le> LOCAL_RESPONSE"
    by (simp add: identity_text_def length_ascii)
  have ready: "detached t" if "tr_status t = IO_READY"
    using assms(2) that by (cases "tr_response t") (auto simp: mailbox_ok_def detached_def)
  let ?t = "t\<lparr>tr_command := command, tr_length_bytes := 0, tr_request_length := 0, tr_request := [], tr_status := IO_COLLECTING\<rparr>"
  have start: "transport_ok ?t \<and> mailbox_ok ?t b" if "tr_status t = IO_READY"
  proof -
    have "detached ?t"
      using ready [OF that] by (simp add: detached_def)
    moreover have "transport_ok ?t"
      using assms(1) by (simp add: transport_ok_def buffers_ok_def collecting_ok_def)
    ultimately show ?thesis by simp
  qed
  show ?thesis
    using assms(1) start id by (simp add: command_out_def)
qed

section \<open>Polling\<close>

lemma poll_cases:
  assumes "ports_inv s"
  obtains (same) "poll_service s = s"
  | (discard) "mb_state (po_board s) = WORK_DONE" "detached (po_transport s)"
      "poll_service s = s\<lparr>po_board := (po_board s)\<lparr>mb_state := WORK_IDLE\<rparr>\<rparr>"
  | (fail) e where "mb_state (po_board s) = WORK_DONE" "tr_status (po_transport s) = IO_BUSY"
      "poll_service s = s\<lparr>po_board := (po_board s)\<lparr>mb_state := WORK_IDLE\<rparr>,
         po_transport := transport_fail e False (po_transport s)\<rparr>"
  | (answer) "mb_state (po_board s) = WORK_DONE" "tr_status (po_transport s) = IO_BUSY"
      "length (rs_data (mb_result (po_board s))) \<le> IO_SERVICE_MAX_PAYLOAD"
      "poll_service s = s\<lparr>po_board := (po_board s)\<lparr>mb_state := WORK_IDLE\<rparr>,
         po_transport := (po_transport s)\<lparr>tr_response := Worker_Result,
           tr_response_length := length (rs_data (mb_result (po_board s))), tr_position := 0,
           tr_status := if rs_has_response (mb_result (po_board s)) then IO_RESPONSE_READY else IO_COMPLETE\<rparr>\<rparr>"
proof (cases "mb_state (po_board s) = WORK_DONE")
  case False
  then have "poll_service s = s"
    by (simp add: poll_service_def z80_io_service_poll_def)
  then show thesis by (rule same)
next
  case True
  have m: "mailbox_ok (po_transport s) (po_board s)"
    using assms by (simp add: ports_inv_def)
  have polled: "z80_io_service_poll (po_board s) = (True, (po_board s)\<lparr>mb_state := WORK_IDLE\<rparr>)"
    using True by (simp add: z80_io_service_poll_def)
  show thesis
  proof (cases "tr_status (po_transport s) = IO_BUSY")
    case False
    have "tr_response (po_transport s) = Local_Response"
      using m True by (cases "tr_response (po_transport s)") (auto simp: mailbox_ok_def)
    then have d: "detached (po_transport s)"
      using False by (simp add: detached_def)
    have "poll_service s = s\<lparr>po_board := (po_board s)\<lparr>mb_state := WORK_IDLE\<rparr>\<rparr>"
      using False by (simp add: poll_service_def polled Let_def)
    with True d show thesis by (rule discard)
  next
    case busy: True
    let ?r = "mb_result (po_board s)"
    have g: "rs_generation ?r = tr_generation (po_transport s)"
      using m True busy by (auto simp: mailbox_ok_def)
    consider "rs_error ?r \<noteq> IO_SERVICE_OK"
      | "rs_error ?r = IO_SERVICE_OK" "length (rs_data ?r) > IO_SERVICE_MAX_PAYLOAD"
      | "rs_error ?r = IO_SERVICE_OK" "length (rs_data ?r) \<le> IO_SERVICE_MAX_PAYLOAD"
      by linarith
    then show thesis
    proof cases
      case 1
      have "poll_service s = s\<lparr>po_board := (po_board s)\<lparr>mb_state := WORK_IDLE\<rparr>,
         po_transport := transport_fail (rs_error ?r) False (po_transport s)\<rparr>"
        using g busy 1 by (simp add: poll_service_def polled Let_def)
      with True busy show thesis by (rule fail)
    next
      case 2
      have "poll_service s = s\<lparr>po_board := (po_board s)\<lparr>mb_state := WORK_IDLE\<rparr>,
         po_transport := transport_fail IO_SERVICE_CAPACITY False (po_transport s)\<rparr>"
        using g busy 2 by (simp add: poll_service_def polled Let_def)
      with True busy show thesis by (rule fail)
    next
      case 3
      have "poll_service s = s\<lparr>po_board := (po_board s)\<lparr>mb_state := WORK_IDLE\<rparr>,
         po_transport := (po_transport s)\<lparr>tr_response := Worker_Result,
           tr_response_length := length (rs_data ?r), tr_position := 0,
           tr_status := if rs_has_response ?r then IO_RESPONSE_READY else IO_COMPLETE\<rparr>\<rparr>"
        using g busy 3 by (simp add: poll_service_def polled Let_def)
      with True busy 3(2) show thesis by (rule answer)
    qed
  qed
qed

lemma poll_inv: "ports_inv s \<Longrightarrow> ports_inv (poll_service s)"
proof -
  assume inv: "ports_inv s"
  then have t: "transport_ok (po_transport s)" "timers_ok (po_timers s)"
    by (simp_all add: ports_inv_def)
  from inv show ?thesis
  proof (cases rule: poll_cases)
    case answer
    then show ?thesis
      using t by (simp add: ports_inv_def transport_ok_def buffers_ok_def mailbox_ok_def)
  qed (use inv t in \<open>simp_all add: ports_inv_def\<close>)
qed

lemma poll_timers [simp]: "po_timers (poll_service s) = po_timers s"
  by (simp add: poll_service_def Let_def split: prod.splits)

lemma poll_not_busy:
  assumes "tr_status (po_transport s) \<noteq> IO_BUSY"
  shows "po_transport (poll_service s) = po_transport s"
  using assms by (simp add: poll_service_def Let_def split: prod.splits)

lemma poll_idle: "mb_state (po_board s) = WORK_IDLE \<Longrightarrow> poll_service s = s"
  by (simp add: poll_service_def z80_io_service_poll_def)

section \<open>Every access keeps the invariant\<close>

lemma start_timer_ok [simp]: "timers_ok t \<Longrightarrow> timers_ok (start_timer micros i duration t)"
  by (simp add: start_timer_def timers_ok_def Let_def)

lemma timer_out_ok: "timers_ok t \<Longrightarrow> timers_ok (timer_out micros data t)"
  by (simp add: timer_out_def timer_parameter_def timer_command_def start_timer_def timers_ok_def Let_def)

lemma timer_in_ok: "timers_ok t \<Longrightarrow> timer_in micros t = (b, t') \<Longrightarrow> timers_ok t'"
  by (auto simp: timer_in_def timers_ok_def Let_def split: if_splits)

lemma timer_service_ok:
  assumes "buffers_ok t" and "timers_ok tm" and "timer_service micros t tm = (t', tm')"
  shows "transport_ok t' \<and> detached t' \<and> timers_ok tm'"
proof -
  have nil: "buffers_ok (fill_local [] t)"
    using assms(1) by simp
  have done0: "transport_ok (finish_local (fill_local [] t)) \<and> detached (finish_local (fill_local [] t))"
    using assms(1) by simp
  have local: "transport_ok (finish_local (fill_local bs (fill_local [] t))) \<and> detached (finish_local (fill_local bs (fill_local [] t)))"
    if "length bs \<le> 4" for bs
    using nil that by simp
  have failed: "transport_ok (transport_fail e r t) \<and> detached (transport_fail e r t)"
    "transport_ok (transport_fail e r (fill_local [] t)) \<and> detached (transport_fail e r (fill_local [] t))" for e r
    using assms(1) nil by simp_all
  have watch: "timers_ok (tm\<lparr>tm_stopwatches := (tm_stopwatches tm)[i := v]\<rparr>)" for i v
    using assms(2) by (simp add: timers_ok_def)
  show ?thesis
    using assms(2,3) done0 local failed watch unfolding timer_service_def Let_def
    by (auto split: if_splits)
qed

lemma submit_inv:
  assumes "buffers_ok (po_transport s)" and "detached (po_transport s)" and "timers_ok (po_timers s)"
  shows "ports_inv (submit_request s)"
proof (cases "mb_state (po_board s) = WORK_IDLE")
  case True
  let ?t = "(po_transport s)\<lparr>tr_status := IO_BUSY\<rparr>"
  obtain b where "z80_io_service_submit (tr_command (po_transport s)) (tr_request (po_transport s))
      (tr_generation (po_transport s)) (po_board s) = (IO_SERVICE_OK, b)"
    and b: "mb_state b = WORK_PENDING" "rq_generation (mb_request b) = tr_generation (po_transport s)"
    using True by (simp add: z80_io_service_submit_def Let_def)
  then have "submit_request s = s\<lparr>po_board := b, po_transport := ?t\<rparr>"
    by (simp add: submit_request_def Let_def)
  moreover have "transport_ok ?t" "mailbox_ok ?t b"
    using assms(1,2) b by (simp_all add: transport_ok_def mailbox_ok_def detached_def)
  ultimately show ?thesis
    using assms(3) by (simp add: ports_inv_def)
next
  case False
  then have "submit_request s = s\<lparr>po_transport := transport_fail IO_SERVICE_BUSY_ERROR True (po_transport s)\<rparr>"
    by (simp add: submit_request_def z80_io_service_submit_def Let_def)
  then show ?thesis
    using assms(1,3) by (simp add: ports_inv_def)
qed

lemma collecting_detached:
  "mailbox_ok t b \<Longrightarrow> tr_status t = IO_COLLECTING \<Longrightarrow> detached t"
  by (cases "tr_response t") (auto simp: mailbox_ok_def detached_def)

lemma length_out_ok:
  assumes "transport_ok t" and "tr_status t = IO_COLLECTING" and "tr_length_bytes t < 2" and "detached t"
  shows "transport_ok (length_out data t) \<and> detached (length_out data t)"
proof -
  let ?t = "t\<lparr>tr_request_length := tr_request_length t OR push_bit (8 * tr_length_bytes t) (ucast data),
    tr_length_bytes := tr_length_bytes t + 1\<rparr>"
  have req: "tr_request t = []"
    using assms(1-3) by (simp add: transport_ok_def collecting_ok_def)
  have failed: "transport_ok (transport_fail e r ?t) \<and> detached (transport_fail e r ?t)" for e r
    using assms(1) by simp
  have "transport_ok ?t \<and> detached ?t" if "tr_length_bytes t + 1 = 2 \<longrightarrow>
      tr_request_length ?t \<noteq> 0 \<and> unat (tr_request_length ?t) \<le> IO_SERVICE_MAX_PAYLOAD"
  proof -
    have "0 < unat (tr_request_length ?t)" if "tr_request_length ?t \<noteq> 0"
      using that unat_gt_0 by blast
    then have "collecting_ok ?t"
      using that assms(3) req by (auto simp: collecting_ok_def)
    then show ?thesis
      using assms(1,2,4) by (simp add: transport_ok_def detached_def)
  qed
  then show ?thesis
    using failed by (auto simp: length_out_def Let_def)
qed

lemma request_out_inv:
  assumes inv: "ports_inv s"
  shows "ports_inv (request_out micros data s)"
proof -
  let ?t = "po_transport s"
  have t: "transport_ok ?t" "mailbox_ok ?t (po_board s)" "timers_ok (po_timers s)"
    using inv by (simp_all add: ports_inv_def)
  show ?thesis
  proof (cases "tr_status ?t = IO_COLLECTING")
    case False
    then show ?thesis
      using t by (simp add: request_out_def ports_inv_def Let_def)
  next
    case True
    note d = collecting_detached [OF t(2) True]
    show ?thesis
    proof (cases "tr_length_bytes ?t < 2")
      case short: True
      then show ?thesis
        using True t length_out_ok [OF t(1) True short d] by (simp add: request_out_def ports_inv_def Let_def)
    next
      case False
      let ?u = "?t\<lparr>tr_request := tr_request ?t @ [data]\<rparr>"
      have c: "tr_length_bytes ?t = 2" "length (tr_request ?t) < unat (tr_request_length ?t)"
        "unat (tr_request_length ?t) \<le> IO_SERVICE_MAX_PAYLOAD"
        using t(1) True False by (auto simp: transport_ok_def collecting_ok_def split: if_splits)
      have du: "detached ?u" "tr_status ?u \<noteq> IO_BUSY"
        using d True by (simp_all add: detached_def)
      let ?q = "poll_service (s\<lparr>po_transport := ?u\<rparr>)"
      have q: "po_transport ?q = ?u" "po_timers ?q = po_timers s"
        using du(2) by (simp_all add: poll_not_busy)
      show ?thesis
      proof (cases "length (tr_request ?u) = unat (tr_request_length ?u)")
        case False
        then have "transport_ok ?u"
          using t(1) c True by (auto simp: transport_ok_def collecting_ok_def)
        then show ?thesis
          using False True c(1) t du by (simp add: request_out_def ports_inv_def Let_def)
      next
        case full: True
        obtain t' tm' where ts: "timer_service micros ?u (po_timers s) = (t', tm')"
          by fastforce
        have "request_out micros data s = (if tr_command ?t = IO_SERVICE_TIMERS \<or> tr_command ?t = IO_SERVICE_STOPWATCHES
            then ?q\<lparr>po_transport := t', po_timers := tm'\<rparr> else submit_request ?q)"
          using full True c(1) ts q by (simp add: request_out_def Let_def)
        moreover have "ports_inv (submit_request ?q)"
          using t(1,3) du(1) by (intro submit_inv) (simp_all add: q)
        moreover have "ports_inv (?q\<lparr>po_transport := t', po_timers := tm'\<rparr>)"
          using timer_service_ok [OF _ t(3) ts] t(1) by (simp add: ports_inv_def)
        ultimately show ?thesis by simp
      qed
    qed
  qed
qed

lemma response_in_inv:
  assumes inv: "ports_inv s0" and run: "response_in s0 = (b, s')"
  shows "ports_inv s'"
proof -
  define s where "s = (if tr_status (po_transport s0) = IO_BUSY then poll_service s0 else s0)"
  let ?t = "po_transport s"
  let ?u = "?t\<lparr>tr_position := tr_position ?t + 1\<rparr>"
  have "ports_inv s"
    using inv by (simp add: s_def poll_inv)
  then have t: "transport_ok ?t" "mailbox_ok ?t (po_board s)" "timers_ok (po_timers s)"
    by (simp_all add: ports_inv_def)
  consider (failed) "s' = s\<lparr>po_transport := transport_fail IO_SERVICE_UNDERFLOW (tr_status ?t = IO_BUSY) ?t\<rparr>"
    | (next_byte) "tr_position ?t < tr_response_length ?t + 2"
        "s' = s\<lparr>po_transport := if tr_status ?u = IO_RESPONSE_READY \<and> tr_position ?u = tr_response_length ?u + 2
          then reset_transport ?u else ?u\<rparr>"
    using run by (auto simp: response_in_def s_def [symmetric] Let_def split: if_splits)
  then show ?thesis
  proof cases
    case failed
    then show ?thesis
      using t by (simp add: ports_inv_def)
  next
    case next_byte
    define u where "u = ?u"
    have u: "transport_ok u" "mailbox_ok u (po_board s)"
      using t next_byte(1) by (auto simp: u_def transport_ok_def buffers_ok_def mailbox_ok_def collecting_ok_def)
    then have "transport_ok (reset_transport u)" "mailbox_ok (reset_transport u) (po_board s)"
      by simp_all
    with u show ?thesis
      using next_byte(2) t(3) unfolding u_def [symmetric] by (simp add: ports_inv_def)
  qed
qed

definition same_mailbox :: "board \<Rightarrow> board \<Rightarrow> bool" where
  "same_mailbox b b' \<longleftrightarrow> mb_state b' = mb_state b \<and> mb_request b' = mb_request b \<and> mb_result b' = mb_result b"

lemma same_mailbox_ok: "same_mailbox b b' \<Longrightarrow> mailbox_ok t b \<Longrightarrow> mailbox_ok t b'"
  by (auto simp: same_mailbox_def mailbox_ok_def)

lemma same_mailbox_inv: "ports_inv s \<Longrightarrow> same_mailbox (po_board s) b \<Longrightarrow> ports_inv (s\<lparr>po_board := b\<rparr>)"
  using same_mailbox_ok by (simp add: ports_inv_def)

lemma port_out_inv: "ports_inv s \<Longrightarrow> ports_inv (z80_io_port_out micros port data s)"
proof -
  assume inv: "ports_inv s"
  have http: "ports_inv (with_http f s)" for f
    unfolding with_http_def by (rule same_mailbox_inv [OF inv]) (simp add: same_mailbox_def)
  have timer: "ports_inv (s\<lparr>po_timers := timer_out micros data (po_timers s)\<rparr>)"
    using inv timer_out_ok by (simp add: ports_inv_def)
  have command: "ports_inv (poll_service s\<lparr>po_transport := command_out data (po_transport (poll_service s))\<rparr>)"
    using poll_inv [OF inv] command_out_ok by (auto simp: ports_inv_def)
  show ?thesis
    using inv http timer command request_out_inv poll_inv by (simp add: z80_io_port_out_def Let_def)
qed

lemma port_in_inv:
  assumes inv: "ports_inv s" and run: "z80_io_port_in micros port s = (b, s')"
  shows "ports_inv s'"
proof -
  have http: "ports_inv (with_http f s)" for f
    unfolding with_http_def by (rule same_mailbox_inv [OF inv]) (simp add: same_mailbox_def)
  have timer: "timer_in micros (po_timers s) = (c, tm) \<Longrightarrow> ports_inv (s\<lparr>po_timers := tm\<rparr>)" for c tm
    using inv timer_in_ok by (auto simp: ports_inv_def)
  show ?thesis
    using run inv http timer poll_inv response_in_inv unfolding z80_io_port_in_def
    by (auto simp: Let_def split: if_splits prod.splits)
qed

lemma reboot_same_mailbox: "reboot_service w c s = (r, s') \<Longrightarrow> same_mailbox s s'"
  unfolding reboot_service_def same_mailbox_def by (auto split: if_splits prod.splits fate.splits)

lemma serve_same_mailbox: "serve w s = (r, s') \<Longrightarrow> same_mailbox s s'"
proof -
  have env: "same_mailbox s (put_env en s)" "same_mailbox s (put_env en (s\<lparr>bd_chat := c\<rparr>))" for en c
    by (simp_all add: same_mailbox_def put_env_def)
  have util: "utility_service w d s = (r, s') \<Longrightarrow> same_mailbox s s'" for d
    unfolding utility_service_def Let_def
    by (auto split: if_splits dest: reboot_same_mailbox) (simp_all add: same_mailbox_def)
  show "serve w s = (r, s') \<Longrightarrow> same_mailbox s s'"
    using env util unfolding serve_def Let_def by (auto split: if_splits prod.splits) (simp_all add: same_mailbox_def)
qed

lemma core1_cases:
  assumes "z80_io_ports_core1_service w b = (Returned (), b')"
  obtains (idle) "mb_state b \<noteq> WORK_PENDING" "same_mailbox b b'"
  | (served) b1 b2 error has_response out where "mb_state b = WORK_PENDING" "same_mailbox b b1"
      "serve w b1 = (Returned (error, has_response, out), b2)" "same_mailbox b b2"
      "b' = b2\<lparr>mb_result := \<lparr>rs_generation = rq_generation (mb_request b), rs_error = error,
         rs_has_response = has_response, rs_data = out\<rparr>, mb_state := WORK_DONE\<rparr>"
proof -
  obtain h en where h: "z80_http_io_core1_service (sw_start w) (board_env b) (bd_http b) = (h, en)"
    by fastforce
  let ?b = "put_env en (b\<lparr>bd_http := h\<rparr>)"
  have same: "same_mailbox b ?b"
    by (simp add: same_mailbox_def put_env_def)
  then have st: "mb_state ?b = mb_state b"
    by (simp add: same_mailbox_def)
  show thesis
  proof (cases "mb_state b = WORK_PENDING")
    case False
    then have "b' = ?b"
      using assms by (simp add: z80_io_ports_core1_service_def h st)
    with False same show thesis by (simp add: idle)
  next
    case True
    obtain r b2 where r: "serve w ?b = (r, b2)" by fastforce
    note keep = serve_same_mailbox [OF r]
    obtain error has_response out where "r = Returned (error, has_response, out)"
      using assms True r by (cases r) (auto simp: z80_io_ports_core1_service_def h st)
    with True same r keep served [of ?b error has_response out b2] assms show thesis
      by (simp add: z80_io_ports_core1_service_def h same_mailbox_def)
  qed
qed

lemma core1_inv:
  assumes inv: "ports_inv s" and "z80_io_ports_core1_service w (po_board s) = (Returned (), b)"
  shows "ports_inv (s\<lparr>po_board := b\<rparr>)"
  using assms(2)
proof (cases rule: core1_cases)
  case idle
  with inv show ?thesis by (simp add: same_mailbox_inv)
next
  case (served b1 b2 error has_response out)
  with inv show ?thesis
    by (auto simp: ports_inv_def mailbox_ok_def same_mailbox_def)
qed

section \<open>Steps of the two cores\<close>

text \<open>
  Core 0 reads and writes ports, the worker serves, core 0 takes the reboot request, and the other devices of the board (the disk
  ports, the flash service, the download worker) change what is not the mailbox.
\<close>

inductive ports_step :: "ports \<Rightarrow> ports \<Rightarrow> bool" where
  port_out: "ports_step s (z80_io_port_out micros port data s)"
| port_in: "z80_io_port_in micros port s = (b, s') \<Longrightarrow> ports_step s s'"
| core1: "z80_io_ports_core1_service w (po_board s) = (Returned (), b) \<Longrightarrow> ports_step s (s\<lparr>po_board := b\<rparr>)"
| reboot_requested: "z80_io_ports_reboot_requested (po_board s) = (r, b) \<Longrightarrow> ports_step s (s\<lparr>po_board := b\<rparr>)"
| other_device: "same_mailbox (po_board s) b \<Longrightarrow> ports_step s (s\<lparr>po_board := b\<rparr>)"

inductive_cases ports_stepE: "ports_step s s'"

lemma ports_step_inv: "ports_step s s' \<Longrightarrow> ports_inv s \<Longrightarrow> ports_inv s'"
proof (erule ports_stepE)
  fix r b
  assume "ports_inv s" "s' = s\<lparr>po_board := b\<rparr>" "z80_io_ports_reboot_requested (po_board s) = (r, b)"
  then show "ports_inv s'"
    by (auto simp: z80_io_ports_reboot_requested_def same_mailbox_def intro!: same_mailbox_inv)
qed (auto intro: port_out_inv port_in_inv core1_inv same_mailbox_inv)

text \<open>The statics at power-on, before \<open>z80_io_ports_init\<close>.\<close>

definition ports_boot :: "board \<Rightarrow> ports" where
  "ports_boot b = z80_io_ports_init
     \<lparr>po_transport = \<lparr>tr_status = IO_READY, tr_command = 0, tr_length_bytes = 0, tr_request_length = 0,
        tr_response_length = 0, tr_position = 0, tr_generation = 0, tr_reset_required = False, tr_request = [],
        tr_local = replicate LOCAL_RESPONSE 0, tr_response = Local_Response\<rparr>,
      po_timers = \<lparr>tm_deadlines_us = replicate 4 0, tm_stopwatches = replicate 3 0, tm_latched = 0, tm_duration = 0,
        tm_command = 0, tm_parameter_bytes = 0, tm_response_bytes = 0\<rparr>, po_board = b\<rparr>"

lemma ports_boot_inv: "ports_inv (ports_boot b)"
  by (simp add: ports_boot_def z80_io_ports_init_def ports_inv_def timers_ok_def) (simp add: buffers_ok_def)

lemma port_outs_inv:
  "ports_inv s \<Longrightarrow> ports_inv (foldl (\<lambda>s b. z80_io_port_out micros port b s) s bs)"
  by (induction bs arbitrary: s) (simp_all add: port_out_inv)

lemma ports_steps_inv:
  assumes "ports_step\<^sup>*\<^sup>* s s'" and "ports_inv s"
  shows "ports_inv s'"
  using assms by induction (auto intro: ports_step_inv)

section \<open>A request and its response\<close>

definition send_bytes :: "u64 \<Rightarrow> bytes \<Rightarrow> ports \<Rightarrow> ports" where
  "send_bytes micros bs s = foldl (\<lambda>s b. z80_io_port_out micros IO_SERVICE_REQUEST_PORT b s) s bs"

definition send_service :: "u64 \<Rightarrow> u8 \<Rightarrow> bytes \<Rightarrow> ports \<Rightarrow> ports" where
  "send_service micros command data s =
     send_bytes micros (le16 (of_nat (length data)) @ data)
       (z80_io_port_out micros IO_SERVICE_COMMAND_PORT command s)"

fun read_bytes :: "u64 \<Rightarrow> nat \<Rightarrow> ports \<Rightarrow> bytes \<times> ports" where
  "read_bytes micros 0 s = ([], s)"
| "read_bytes micros (Suc n) s =
     (case z80_io_port_in micros IO_SERVICE_RESPONSE_PORT s of (b, s1) \<Rightarrow>
        case read_bytes micros n s1 of (bs, s2) \<Rightarrow> (b # bs, s2))"

definition worker_group :: "u8 \<Rightarrow> bool" where
  "worker_group g \<longleftrightarrow> g \<in> {IO_SERVICE_CLOCK, IO_SERVICE_UTILITY, IO_SERVICE_ENVIRONMENT, IO_SERVICE_WEATHER,
     IO_SERVICE_CHAT, IO_SERVICE_SENSE_HAT}"

text \<open>What the Z80 reads for an answer of the worker, and the status that follows.\<close>

definition response_of :: "u8 \<times> bool \<times> bytes \<Rightarrow> bytes \<times> io_status" where
  "response_of a =
     (case a of (error, has_response, out) \<Rightarrow>
        if error \<noteq> IO_SERVICE_OK then ([1, 0, error], IO_ERROR)
        else if length out > IO_SERVICE_MAX_PAYLOAD then ([1, 0, IO_SERVICE_CAPACITY], IO_ERROR)
        else if has_response then (le16 (of_nat (length out)) @ out, IO_READY)
        else ([], IO_COMPLETE))"

lemma out_request_port: "z80_io_port_out micros IO_SERVICE_REQUEST_PORT b s =
    request_out micros b (if tr_status (po_transport s) \<noteq> IO_COLLECTING then poll_service s else s)"
  by (simp add: z80_io_port_out_def)

lemma collect_bytes:
  assumes "tr_status t = IO_COLLECTING" and "tr_length_bytes t = 2"
    and "length (tr_request t) + length bs < unat (tr_request_length t)"
  shows "send_bytes micros bs (s\<lparr>po_transport := t\<rparr>) = s\<lparr>po_transport := t\<lparr>tr_request := tr_request t @ bs\<rparr>\<rparr>"
  using assms
proof (induction bs arbitrary: t)
  case (Cons b bs)
  let ?t = "t\<lparr>tr_request := tr_request t @ [b]\<rparr>"
  have "z80_io_port_out micros IO_SERVICE_REQUEST_PORT b (s\<lparr>po_transport := t\<rparr>) = s\<lparr>po_transport := ?t\<rparr>"
    using Cons.prems by (simp add: out_request_port request_out_def Let_def)
  moreover have "send_bytes micros bs (s\<lparr>po_transport := ?t\<rparr>) = s\<lparr>po_transport := ?t\<lparr>tr_request := tr_request ?t @ bs\<rparr>\<rparr>"
    using Cons.prems by (intro Cons.IH) simp_all
  ultimately show ?case
    by (simp add: send_bytes_def)
qed (simp add: send_bytes_def)

lemma le16_bytes: "(ucast (ucast w :: u8) :: u16) OR push_bit 8 (ucast (ucast (drop_bit 8 w) :: u8)) = w"
  using rd16_le16 [of w "[]"] by (simp add: le16_def)

lemma send_bytes_append: "send_bytes micros (as @ bs) s = send_bytes micros bs (send_bytes micros as s)"
  by (simp add: send_bytes_def)

lemma ready_poll:
  assumes "mb_state (po_board s) = WORK_IDLE" and "worker_group g" and "tr_status (po_transport s) = IO_READY"
  shows "z80_io_port_out micros IO_SERVICE_COMMAND_PORT g s =
    s\<lparr>po_transport := (po_transport s)\<lparr>tr_command := g, tr_length_bytes := 0, tr_request_length := 0, tr_request := [],
      tr_status := IO_COLLECTING\<rparr>\<rparr>"
  using assms by (auto simp: z80_io_port_out_def poll_idle command_out_def worker_group_def)

lemma send_length:
  assumes "tr_status t = IO_COLLECTING" and "tr_length_bytes t = 0" and "tr_request_length t = 0"
    and "0 < unat n" and "unat n \<le> IO_SERVICE_MAX_PAYLOAD"
  shows "send_bytes micros (le16 n) (s\<lparr>po_transport := t\<rparr>) =
    s\<lparr>po_transport := t\<lparr>tr_request_length := n, tr_length_bytes := 2\<rparr>\<rparr>"
proof -
  have "n \<noteq> 0" using assms(4) by auto
  then show ?thesis
    using assms le16_bytes [of n]
    by (simp add: send_bytes_def le16_def out_request_port request_out_def length_out_def Let_def numeral_2_eq_2)
qed

lemma last_byte:
  assumes "tr_status t = IO_COLLECTING" and "tr_length_bytes t = 2"
    and "Suc (length (tr_request t)) = unat (tr_request_length t)" and "worker_group (tr_command t)"
    and "mb_state (po_board s) = WORK_IDLE"
  shows "z80_io_port_out micros IO_SERVICE_REQUEST_PORT b (s\<lparr>po_transport := t\<rparr>) =
    submit_request (s\<lparr>po_transport := t\<lparr>tr_request := tr_request t @ [b]\<rparr>\<rparr>)"
  using assms by (auto simp: out_request_port request_out_def poll_idle worker_group_def Let_def)

lemma send_service_eq:
  assumes idle: "mb_state (po_board s) = WORK_IDLE" and g: "worker_group g" and ready: "tr_status (po_transport s) = IO_READY"
    and data: "data \<noteq> []" "length data \<le> IO_SERVICE_MAX_PAYLOAD"
  shows "tr_status (po_transport (send_service micros g data s)) = IO_BUSY \<and>
    tr_generation (po_transport (send_service micros g data s)) = tr_generation (po_transport s) \<and>
    mb_state (po_board (send_service micros g data s)) = WORK_PENDING \<and>
    bd_http (po_board (send_service micros g data s)) = bd_http (po_board s) \<and>
    mb_request (po_board (send_service micros g data s)) =
      \<lparr>rq_generation = tr_generation (po_transport s), rq_command = g, rq_data = data\<rparr>"
proof -
  obtain body c where body: "data = body @ [c]"
    using data(1) by (cases data rule: rev_cases) auto
  define n where "n = (of_nat (length data) :: u16)"
  have n: "unat n = length data"
    using data(2) by (simp add: n_def unat_of_nat)
  let ?t = "(po_transport s)\<lparr>tr_command := g, tr_length_bytes := 0, tr_request_length := 0, tr_request := [],
      tr_status := IO_COLLECTING\<rparr>"
  let ?u = "?t\<lparr>tr_request_length := n, tr_length_bytes := 2\<rparr>"
  have "send_service micros g data s = send_bytes micros [c] (send_bytes micros body
      (send_bytes micros (le16 n) (s\<lparr>po_transport := ?t\<rparr>)))"
    by (simp add: send_service_def ready_poll [OF idle g ready] send_bytes_append n_def body del: append_assoc)
  also have "send_bytes micros (le16 n) (s\<lparr>po_transport := ?t\<rparr>) = s\<lparr>po_transport := ?u\<rparr>"
    using send_length [of ?t n micros s] data n by simp
  also have "send_bytes micros body (s\<lparr>po_transport := ?u\<rparr>) = s\<lparr>po_transport := ?u\<lparr>tr_request := body\<rparr>\<rparr>"
    using collect_bytes [of ?u body micros s] n body by simp
  also have "send_bytes micros [c] (s\<lparr>po_transport := ?u\<lparr>tr_request := body\<rparr>\<rparr>) =
      submit_request (s\<lparr>po_transport := ?u\<lparr>tr_request := data\<rparr>\<rparr>)"
    using last_byte [of "?u\<lparr>tr_request := body\<rparr>" s micros c] n body g idle by (simp add: send_bytes_def)
  finally show ?thesis
    using idle by (simp add: submit_request_def z80_io_service_submit_def Let_def)
qed

lemma poll_done:
  assumes "mb_state (po_board s) = WORK_DONE" and "tr_status (po_transport s) = IO_BUSY"
    and "rs_generation (mb_result (po_board s)) = tr_generation (po_transport s)"
  shows "poll_service s = s\<lparr>po_board := (po_board s)\<lparr>mb_state := WORK_IDLE\<rparr>,
    po_transport :=
      (let r = mb_result (po_board s); t = po_transport s
       in if rs_error r \<noteq> IO_SERVICE_OK then transport_fail (rs_error r) False t
          else if length (rs_data r) > IO_SERVICE_MAX_PAYLOAD then transport_fail IO_SERVICE_CAPACITY False t
          else t\<lparr>tr_response := Worker_Result, tr_response_length := length (rs_data r), tr_position := 0,
                 tr_status := if rs_has_response r then IO_RESPONSE_READY else IO_COMPLETE\<rparr>)\<rparr>"
  using assms by (simp add: poll_service_def z80_io_service_poll_def Let_def)

lemma in_response_port [simp]: "z80_io_port_in micros IO_SERVICE_RESPONSE_PORT s = response_in s"
  by (simp add: z80_io_port_in_def)

lemma read_bytes_poll:
  assumes "tr_status (po_transport s) = IO_BUSY" and "tr_status (po_transport (poll_service s)) \<noteq> IO_BUSY"
  shows "read_bytes micros (Suc n) s = read_bytes micros (Suc n) (poll_service s)"
proof -
  have "response_in s = response_in (poll_service s)"
    using assms unfolding response_in_def by simp
  then show ?thesis by simp
qed

lemma read_bytes_snoc:
  "read_bytes micros (Suc n) s =
     (case read_bytes micros n s of (bs, s1) \<Rightarrow>
        case z80_io_port_in micros IO_SERVICE_RESPONSE_PORT s1 of (b, s2) \<Rightarrow> (bs @ [b], s2))"
proof (induction n arbitrary: s)
  case (Suc n)
  obtain b s1 where "response_in s = (b, s1)" by fastforce
  moreover obtain bs s2 where "read_bytes micros n s1 = (bs, s2)" by fastforce
  ultimately show ?case
    using Suc.IH [of s1] by (simp del: read_bytes.simps(2) add: read_bytes.simps(2) [of micros _ s] split: prod.splits)
qed simp

lemma response_byte_position [simp]:
  "response_byte i (s\<lparr>po_transport := (po_transport s)\<lparr>tr_position := p\<rparr>\<rparr>) = response_byte i s"
  by (simp add: response_byte_def Let_def split: response_pointer.split)

lemma read_bytes_eq:
  assumes "tr_status (po_transport s) \<in> {IO_RESPONSE_READY, IO_ERROR}" and "tr_position (po_transport s) = 0"
    and "n \<le> tr_response_length (po_transport s) + 2"
    and "tr_status (po_transport s) = IO_RESPONSE_READY \<longrightarrow> n < tr_response_length (po_transport s) + 2"
  shows "read_bytes micros n s =
    (map (\<lambda>i. response_byte i s) [0..<n], s\<lparr>po_transport := (po_transport s)\<lparr>tr_position := n\<rparr>\<rparr>)"
  using assms
proof (induction n)
  case 0
  then show ?case
    by simp
next
  case (Suc n)
  let ?s = "s\<lparr>po_transport := (po_transport s)\<lparr>tr_position := n\<rparr>\<rparr>"
  have "response_in ?s = (response_byte n s, s\<lparr>po_transport := (po_transport s)\<lparr>tr_position := Suc n\<rparr>\<rparr>)"
    using Suc.prems by (auto simp: response_in_def Let_def)
  with Suc show ?case
    unfolding read_bytes_snoc by simp
qed

lemma response_bytes:
  assumes "tr_response_length (po_transport s) = n" and "length out = n"
    and "\<And>i. i < n \<Longrightarrow> response_byte (i + 2) s = out ! i"
  shows "map (\<lambda>i. response_byte i s) [0..<n + 2] = le16 (of_nat n) @ out"
proof (rule nth_equalityI)
  fix i
  assume i: "i < length (map (\<lambda>i. response_byte i s) [0..<n + 2])"
  consider "i = 0" | "i = 1" | j where "i = j + 2" "j < n"
    using i by (metis (no_types) One_nat_def add.commute add_2_eq_Suc diff_zero length_map length_upt less_SucE
        less_Suc0 not_less_eq old.nat.exhaust)
  then show "map (\<lambda>i. response_byte i s) [0..<n + 2] ! i = (le16 (of_nat n) @ out) ! i"
    using assms(1,2) assms(3) [unfolded add_2_eq_Suc'] i
    by cases (simp_all add: le16_of_nat nth_append del: upt_Suc, simp_all add: response_byte_def)
qed (simp add: assms)

definition answer_of :: "board \<Rightarrow> u8 \<times> bool \<times> bytes" where
  "answer_of b = (rs_error (mb_result b), rs_has_response (mb_result b), rs_data (mb_result b))"

lemma status_port:
  assumes "mb_state (po_board s) = WORK_IDLE"
  shows "z80_io_port_in micros IO_SERVICE_COMMAND_PORT s = (status_byte (tr_status (po_transport s)), s)"
  using assms by (simp add: z80_io_port_in_def poll_idle)

lemma read_failure:
  assumes "length (tr_local t) = LOCAL_RESPONSE"
  shows "read_bytes micros 3 (s\<lparr>po_transport := transport_fail e r t\<rparr>) =
    ([1, 0, e], s\<lparr>po_transport := (transport_fail e r t)\<lparr>tr_position := 3\<rparr>\<rparr>)"
proof -
  let ?s = "s\<lparr>po_transport := transport_fail e r t\<rparr>"
  have "map (\<lambda>i. response_byte i ?s) [0..<1 + 2] = le16 (of_nat 1) @ [e]"
    by (rule response_bytes) (use assms in \<open>simp_all add: transport_fail_def response_byte_def\<close>)
  moreover have "le16 (of_nat 1) @ [e] = [1, 0, e]"
    by (simp add: le16_def)
  ultimately show ?thesis
    by (subst read_bytes_eq) (simp_all add: transport_fail_def numeral_3_eq_3)
qed

lemma read_result:
  assumes "tr_status t = IO_RESPONSE_READY" and "tr_response t = Worker_Result" and "tr_position t = 0"
    and "tr_response_length t = length (rs_data (mb_result (po_board s)))"
  shows "read_bytes micros (2 + tr_response_length t) (s\<lparr>po_transport := t\<rparr>) =
    (le16 (of_nat (tr_response_length t)) @ rs_data (mb_result (po_board s)),
     s\<lparr>po_transport := reset_transport (t\<lparr>tr_position := tr_response_length t + 2\<rparr>)\<rparr>)"
proof -
  let ?s = "s\<lparr>po_transport := t\<rparr>" and ?n = "tr_response_length t"
  have bytes: "map (\<lambda>i. response_byte i ?s) [0..<?n + 2] = le16 (of_nat ?n) @ rs_data (mb_result (po_board s))"
    by (rule response_bytes) (use assms in \<open>simp_all add: response_byte_def\<close>)
  have "read_bytes micros (Suc ?n) ?s =
      (map (\<lambda>i. response_byte i ?s) [0..<Suc ?n], s\<lparr>po_transport := t\<lparr>tr_position := Suc ?n\<rparr>\<rparr>)"
    using assms read_bytes_eq [of ?s "Suc ?n" micros] by simp
  moreover have "response_in (s\<lparr>po_transport := t\<lparr>tr_position := Suc ?n\<rparr>\<rparr>) =
      (response_byte (Suc ?n) ?s, s\<lparr>po_transport := reset_transport (t\<lparr>tr_position := ?n + 2\<rparr>)\<rparr>)"
    using assms response_byte_position [where s = ?s and i = "Suc ?n" and p = "Suc ?n"] by (simp add: response_in_def Let_def)
  ultimately show ?thesis
    using bytes unfolding add_2_eq_Suc read_bytes_snoc [of micros "Suc ?n"] by simp
qed

lemma read_answer:
  assumes "mb_state (po_board s) = WORK_DONE" and busy: "tr_status (po_transport s) = IO_BUSY"
    and "rs_generation (mb_result (po_board s)) = tr_generation (po_transport s)"
    and len: "length (tr_local (po_transport s)) = LOCAL_RESPONSE"
  shows "\<exists>s'. read_bytes micros (length (fst (response_of (answer_of (po_board s))))) s =
      (fst (response_of (answer_of (po_board s))), s') \<and>
    fst (z80_io_port_in micros IO_SERVICE_COMMAND_PORT s') = status_byte (snd (response_of (answer_of (po_board s))))"
proof -
  let ?r = "mb_result (po_board s)" and ?t = "po_transport s"
  note poll = poll_done [OF assms(1-3)]
  define q where "q = s\<lparr>po_board := (po_board s)\<lparr>mb_state := WORK_IDLE\<rparr>\<rparr>"
  have idle: "mb_state (po_board (q\<lparr>po_transport := t\<rparr>)) = WORK_IDLE" for t
    by (simp add: q_def)
  have failed: "\<exists>s'. read_bytes micros 3 s = ([1, 0, e], s') \<and>
      fst (z80_io_port_in micros IO_SERVICE_COMMAND_PORT s') = status_byte IO_ERROR"
    if "poll_service s = q\<lparr>po_transport := transport_fail e False ?t\<rparr>" for e
    using read_bytes_poll [OF busy, of micros 2] that read_failure [OF len, where s = q and micros = micros and e = e and r = False]
      status_port [OF idle, of micros "(transport_fail e False ?t)\<lparr>tr_position := 3\<rparr>"]
    by (simp add: numeral_3_eq_3 numeral_2_eq_2)
  consider "rs_error ?r \<noteq> IO_SERVICE_OK"
    | "rs_error ?r = IO_SERVICE_OK" "length (rs_data ?r) > IO_SERVICE_MAX_PAYLOAD"
    | "rs_error ?r = IO_SERVICE_OK" "length (rs_data ?r) \<le> IO_SERVICE_MAX_PAYLOAD"
    by linarith
  then show ?thesis
  proof cases
    case 1
    then show ?thesis
      using failed [of "rs_error ?r"] poll
      by (simp add: response_of_def answer_of_def q_def Let_def numeral_3_eq_3 del: read_bytes.simps)
  next
    case 2
    then show ?thesis
      using failed [of IO_SERVICE_CAPACITY] poll
      by (simp add: response_of_def answer_of_def q_def Let_def numeral_3_eq_3 del: read_bytes.simps)
  next
    case 3
    let ?u = "?t\<lparr>tr_response := Worker_Result, tr_response_length := length (rs_data ?r), tr_position := 0,
      tr_status := if rs_has_response ?r then IO_RESPONSE_READY else IO_COMPLETE\<rparr>"
    have p: "poll_service s = q\<lparr>po_transport := ?u\<rparr>"
      using poll 3 by (simp add: q_def Let_def)
    have r: "mb_result (po_board q) = ?r"
      by (simp add: q_def)
    show ?thesis
    proof (cases "rs_has_response ?r")
      case True
      have "read_bytes micros (2 + length (rs_data ?r)) s = read_bytes micros (2 + length (rs_data ?r)) (q\<lparr>po_transport := ?u\<rparr>)"
        using read_bytes_poll [OF busy, of micros "Suc (length (rs_data ?r))"] True by (simp add: p)
      also have "\<dots> = (le16 (of_nat (length (rs_data ?r))) @ rs_data ?r,
          q\<lparr>po_transport := reset_transport (?u\<lparr>tr_position := length (rs_data ?r) + 2\<rparr>)\<rparr>)"
        using read_result [of ?u q micros] True by (simp add: r)
      finally show ?thesis
        using True 3 status_port [OF idle] by (simp add: response_of_def answer_of_def del: read_bytes.simps)
    next
      case False
      then have "fst (z80_io_port_in micros IO_SERVICE_COMMAND_PORT s) = status_byte IO_COMPLETE"
        by (simp add: z80_io_port_in_def p Let_def)
      then show ?thesis
        using False 3 by (simp add: response_of_def answer_of_def)
    qed
  qed
qed

section \<open>Timers and stopwatches\<close>

lemma scale_exact:
  fixes k :: u64
  assumes "unat k * n < 2 ^ 64" and "n < 2 ^ 64"
  shows "unat (k * of_nat n) = unat k * n"
  using assms by (simp add: unat_word_ariths unat_of_nat)

lemma deadline_exact:
  fixes m :: u64
  assumes "unat m < 2 ^ 63"
  shows "unat ((m div 1000 + ucast (d :: u16)) * 1000) = (unat m div 1000 + unat d) * 1000"
proof -
  have d: "unat (ucast d :: u64) = unat d" "unat d < 65536"
    using unat_bound [of d] by (simp_all add: unat_widen)
  have sum: "unat (m div 1000 + ucast d) = unat m div 1000 + unat d"
    using assms d by (simp add: unat_word_ariths unat_div)
  then have "unat ((m div 1000 + ucast d) * of_nat 1000) = (unat m div 1000 + unat d) * 1000"
    using assms d by (subst scale_exact) simp_all
  then show ?thesis by simp
qed

lemma duration_bytes: "unat ((ucast lo :: u16) OR push_bit 8 (ucast hi)) = unat lo + 256 * unat (hi :: u8)" for lo :: u8
proof -
  have "(ucast lo :: u16) OR push_bit 8 (ucast hi) = ucast lo + push_bit 8 (ucast hi)"
    by (rule disjunctive_add [symmetric]) (auto simp: bit_simps byte_bit_beyond)
  then show ?thesis
    using unat_bound [of lo] unat_bound [of hi]
    by (simp add: push_bit_eq_mult unat_word_ariths unat_widen)
qed

lemma timer_port_start:
  assumes "i < 3" and "tm_parameter_bytes t = 0" and "tm_command t \<noteq> 0xff"
  shows "timer_out m3 hi (timer_out m2 lo (timer_out m1 (0x10 + i) t)) =
    (start_timer m3 i (ucast lo OR push_bit 8 (ucast hi))
      (t\<lparr>tm_response_bytes := 0, tm_duration := ucast lo OR push_bit 8 (ucast hi)\<rparr>))\<lparr>tm_command := 0x30, tm_parameter_bytes := 0\<rparr>"
proof -
  have "i = 0 \<or> i = 1 \<or> i = 2"
    using assms(1) by (simp add: word_less_nat_alt word_unat_eq_iff) arith
  with assms show ?thesis
    by (elim disjE) (simp_all add: timer_out_def timer_command_def timer_parameter_def start_timer_def Let_def)
qed

lemma timer_query:
  assumes "i < 3" and "tm_parameter_bytes t = 0" and "tm_command t \<noteq> 0xff"
  shows "fst (timer_in m (timer_out m4 (0x20 + i) t)) = of_bool (timer_running i m t)"
proof -
  have "i = 0 \<or> i = 1 \<or> i = 2"
    using assms(1) by (simp add: word_less_nat_alt word_unat_eq_iff) arith
  with assms show ?thesis
    by (elim disjE) (simp_all add: timer_out_def timer_command_def timer_in_def timer_running_def Let_def)
qed

lemma timer_counts:
  assumes "i < 4" and "timers_ok t" and "unat m < 2 ^ 63"
  shows "timer_running i m' (start_timer m i d t) \<longleftrightarrow>
    unat m' < (if i = 3 then (unat m div 1000000 + unat d) * 1000000 else (unat m div 1000 + unat d) * 1000)"
proof -
  have l: "unat i < length (tm_deadlines_us t)"
    using assms(1,2) by (simp add: timers_ok_def word_less_nat_alt)
  have "unat ((m div 1000 div 1000 + ucast d) * 1000 * 1000) = (unat m div 1000000 + unat d) * 1000000"
  proof -
    have d: "unat (ucast d :: u64) = unat d" "unat d < 65536"
      using unat_bound [of d] by (simp_all add: unat_widen)
    have "unat (m div 1000 div 1000 + ucast d) = unat m div 1000000 + unat d"
      using assms(3) d by (simp add: unat_word_ariths unat_div div_mult2_eq [symmetric])
    then have "unat ((m div 1000 div 1000 + ucast d) * of_nat 1000000) = (unat m div 1000000 + unat d) * 1000000"
      using assms(3) d by (subst scale_exact) simp_all
    then show ?thesis by (simp add: mult.assoc)
  qed
  then show ?thesis
    using l deadline_exact [OF assms(3), of d]
    by (simp add: timer_running_def start_timer_def z80_service_millis_def word_less_nat_alt Let_def)
qed

fun read_timer :: "u64 \<Rightarrow> nat \<Rightarrow> timers \<Rightarrow> bytes \<times> timers" where
  "read_timer micros 0 t = ([], t)"
| "read_timer micros (Suc n) t =
     (case timer_in micros t of (b, t1) \<Rightarrow> case read_timer micros n t1 of (bs, t2) \<Rightarrow> (b # bs, t2))"

definition latching :: "timers \<Rightarrow> bool" where
  "latching t \<longleftrightarrow> \<not> (0x20 \<le> tm_command t \<and> tm_command t \<le> 0x23) \<and> tm_command t \<noteq> 0x30 \<and> tm_parameter_bytes t = 0"

lemma latched_byte:
  assumes "latching t" and "tm_response_bytes t = Suc n"
  shows "timer_in micros t = (ucast (tm_latched t), t\<lparr>tm_latched := drop_bit 8 (tm_latched t), tm_response_bytes := n\<rparr>)"
  using assms by (auto simp: latching_def timer_in_def Let_def)

lemma stopwatch_read:
  assumes "latching t" and "tm_response_bytes t = 4"
  shows "fst (read_timer micros 4 t) = le32 (tm_latched t)"
proof -
  have l: "latching (t\<lparr>tm_latched := v, tm_response_bytes := n\<rparr>)" for v n
    using assms(1) by (simp add: latching_def)
  have four: "(4 :: nat) = Suc (Suc (Suc (Suc 0)))" by simp
  show ?thesis
    using assms unfolding four by (simp add: latched_byte l le32_def)
qed

lemma stopwatch_latch:
  assumes "i < 3" and "timers_ok t" and "tm_parameter_bytes t = 0" and "tm_command t \<noteq> 0xff"
  shows "latching (timer_out m1 (0x60 + i) (timer_out m0 (0x40 + i) t))"
    and "tm_response_bytes (timer_out m1 (0x60 + i) (timer_out m0 (0x40 + i) t)) = 4"
    and "tm_latched (timer_out m1 (0x60 + i) (timer_out m0 (0x40 + i) t)) = ucast (m1 div 1000 - m0 div 1000)"
proof -
  have l: "length (tm_stopwatches t) = 3"
    using assms(2) by (simp add: timers_ok_def)
  have "i = 0 \<or> i = 1 \<or> i = 2"
    using assms(1) by (simp add: word_less_nat_alt word_unat_eq_iff) arith
  with l assms(3,4)
  show "latching (timer_out m1 (0x60 + i) (timer_out m0 (0x40 + i) t))"
    and "tm_response_bytes (timer_out m1 (0x60 + i) (timer_out m0 (0x40 + i) t)) = 4"
    and "tm_latched (timer_out m1 (0x60 + i) (timer_out m0 (0x40 + i) t)) = ucast (m1 div 1000 - m0 div 1000)"
    by (elim disjE; simp add: timer_out_def timer_command_def latching_def stopwatch_value_def z80_service_millis_def Let_def)+
qed

section \<open>Rebooting\<close>

lemma flush_for_reboot_ok:
  assumes d: "journal_flash (sw_dev w)" and inv: "disk_inv dk" and run: "flush_for_reboot w dk = (Returned ok, dk')"
  shows "disk_inv dk' \<and> (ok \<longrightarrow> z80_flash_disk_quiescent dk')"
proof -
  obtain dk1 dk2 where s: "z80_flash_core1_service (sw_dev w) (sw_flush w 0) (sw_flush w 1) (sw_micros w) dk = (Returned (), dk1)"
    "z80_flash_core1_service (sw_dev w) (sw_flush w 2) (sw_flush w 3) (sw_micros w) dk1 = (Returned (), dk2)"
    and last: "(case z80_flash_backend_flush (sw_dev w) (sw_flush w 4) (dk_backend dk2) of
         (Rebooted, b) \<Rightarrow> (Rebooted, dk2\<lparr>dk_backend := b\<rparr>)
       | (Returned ok, b) \<Rightarrow>
           let dk = dk2\<lparr>dk_backend := b\<rparr> in (Returned (ok \<and> z80_flash_disk_quiescent dk), dk)) = (Returned ok, dk')"
    using run unfolding flush_for_reboot_def fbind_Returned by auto
  have inv2: "disk_inv dk2"
    using service_inv [OF d service_inv [OF d inv s(1)] s(2)] .
  obtain r b where f: "z80_flash_backend_flush (sw_dev w) (sw_flush w 4) (dk_backend dk2) = (Returned r, b)"
    using last by (auto split: prod.splits fate.splits)
  note fr = flush_records [OF d disk_inv_core(1) [OF inv2] f]
  show ?thesis
    using last backend_inv(2) [OF inv2, of b] fr by (auto simp: f Let_def)
qed

lemma reboot_durable:
  assumes d: "journal_flash (sw_dev w)" and inv: "disk_inv (bd_disk s)"
    and run: "reboot_service w c s = (Returned (error, has_response, out), s')"
  shows "disk_inv (bd_disk s') \<and>
    (if error = IO_SERVICE_OK
     then c = 0xa5 \<and> mb_reboot s' \<and> z80_flash_disk_quiescent (bd_disk s')
     else mb_reboot s' = mb_reboot s \<and> (c = 0xa5 \<longrightarrow> disk_write_enabled (bd_disk s') = 1))"
proof (cases "c = 0xa5")
  case False
  with run inv show ?thesis by (auto simp: reboot_service_def)
next
  case True
  obtain ok dk where f: "flush_for_reboot w (bd_disk s) = (Returned ok, dk)"
    using run True by (auto simp: reboot_service_def split: prod.splits fate.splits)
  have "disk_inv (z80_flash_disk_set_write_enabled True dk)" if "disk_inv dk"
    using that disk_step_inv [OF d disk_step.set_write_enabled] by blast
  with flush_for_reboot_ok [OF d inv f] show ?thesis
    using run True f by (auto simp: reboot_service_def z80_flash_disk_set_write_enabled_def split: if_splits)
qed

section \<open>Properties\<close>

definition sample_board :: board where
  "sample_board =
     \<lparr>mb_state = WORK_IDLE, mb_request = \<lparr>rq_generation = 0, rq_command = 0, rq_data = []\<rparr>,
      mb_result = \<lparr>rs_generation = 0, rs_error = 0, rs_has_response = False, rs_data = []\<rparr>, mb_reboot = False,
      bd_disk = disk_boot sample_backend, bd_env = sample_env, bd_http = http_boot, bd_chat = chat_boot\<rparr>"

definition sample_services :: service_world where
  "sample_services =
     \<lparr>sw_micros = 0, sw_random = 0x1234, sw_info = (\<lambda>_. []), sw_clock = (\<lambda>_ _. None), sw_led = (\<lambda>_ _. (0, False)),
      sw_weather = (\<lambda>_. (IO_SERVICE_UNAVAILABLE, False, [])), sw_chat_start = (\<lambda>_ _. False), sw_start = (\<lambda>_. False), sw_dev = host_flash,
      sw_flush = (\<lambda>_. bus_granted)\<rparr>"

lemma sample_ready:
  "tr_status (po_transport (ports_boot b)) = IO_READY" "mb_state (po_board (ports_boot b)) = WORK_IDLE"
  "bd_disk (po_board (ports_boot b)) = bd_disk b" "bd_http (po_board (ports_boot b)) = z80_http_io_init (bd_http b)"
  by (simp_all add: ports_boot_def z80_io_ports_init_def z80_io_service_init_def)

text \<open>
  C18. Whatever the Z80 reads from and writes to the service, timer and download ports, in any order, and however the worker and the other
  devices are scheduled between the accesses, the transport's buffers are used in bounds, a request is collected at most up to its
  announced length of at most 2048 bytes, timer numbers are in range, a busy transport is waiting for the very request in the mailbox,
  and a result that is read in place stays put because the mailbox is idle.
\<close>

theorem ports_reachable_inv:
  assumes "ports_step\<^sup>*\<^sup>* (ports_boot b) s"
  shows "ports_inv s"
  using assms ports_boot_inv by (rule ports_steps_inv)

theorem ports_reachable_inv_witness:
  "ports_inv (z80_io_port_out 0 IO_SERVICE_COMMAND_PORT IO_SERVICE_CLOCK (ports_boot sample_board)) \<and>
   tr_status (po_transport (z80_io_port_out 0 IO_SERVICE_COMMAND_PORT IO_SERVICE_CLOCK (ports_boot sample_board))) = IO_COLLECTING"
proof
  show "ports_inv (z80_io_port_out 0 IO_SERVICE_COMMAND_PORT IO_SERVICE_CLOCK (ports_boot sample_board))"
    by (rule ports_reachable_inv [OF r_into_rtranclp, OF ports_step.port_out])
  show "tr_status (po_transport (z80_io_port_out 0 IO_SERVICE_COMMAND_PORT IO_SERVICE_CLOCK (ports_boot sample_board))) = IO_COLLECTING"
    by (simp add: ready_poll sample_ready worker_group_def)
qed

text \<open>
  C11. A request that the Z80 sends byte by byte (group, length, payload) reaches the worker unchanged, the status port reads
  \<open>BUSY\<close> until the worker has served it, and the Z80 then reads exactly the answer of the service for that request: length and bytes, or
  the error code, or no response at all, with the status that belongs to it.
\<close>

theorem service_roundtrip:
  assumes "ports_inv s" and "tr_status (po_transport s) = IO_READY" and "mb_state (po_board s) = WORK_IDLE"
    and "worker_group g" and "data \<noteq> []" and "length data \<le> IO_SERVICE_MAX_PAYLOAD"
    and "z80_io_ports_core1_service w (po_board (send_service m g data s)) = (Returned (), b)"
  shows "fst (z80_io_port_in m IO_SERVICE_COMMAND_PORT (send_service m g data s)) = status_byte IO_BUSY \<and>
    (\<exists>b1 a b2 s'. rq_command (mb_request b1) = g \<and> rq_data (mb_request b1) = data \<and> serve w b1 = (Returned a, b2) \<and>
      read_bytes m' (length (fst (response_of a))) ((send_service m g data s)\<lparr>po_board := b\<rparr>) = (fst (response_of a), s') \<and>
      fst (z80_io_port_in m' IO_SERVICE_COMMAND_PORT s') = status_byte (snd (response_of a)))"
proof
  let ?s = "send_service m g data s"
  note sent = send_service_eq [OF assms(3,4,2,5,6), of m]
  then have poll: "poll_service ?s = ?s"
    by (simp add: poll_service_def z80_io_service_poll_def)
  show "fst (z80_io_port_in m IO_SERVICE_COMMAND_PORT ?s) = status_byte IO_BUSY"
    using sent poll by (simp add: z80_io_port_in_def Let_def)
  have inv: "ports_inv ?s"
    unfolding send_service_def send_bytes_def by (intro port_outs_inv port_out_inv assms(1))
  then have len: "length (tr_local (po_transport ?s)) = LOCAL_RESPONSE"
    by (simp add: ports_inv_def transport_ok_def buffers_ok_def)
  from assms(7) show "\<exists>b1 a b2 s'. rq_command (mb_request b1) = g \<and> rq_data (mb_request b1) = data \<and> serve w b1 = (Returned a, b2) \<and>
      read_bytes m' (length (fst (response_of a))) (?s\<lparr>po_board := b\<rparr>) = (fst (response_of a), s') \<and>
      fst (z80_io_port_in m' IO_SERVICE_COMMAND_PORT s') = status_byte (snd (response_of a))"
  proof (cases rule: core1_cases)
    case idle
    with sent show ?thesis by simp
  next
    case (served b1 b2 error has_response out)
    have ans: "answer_of b = (error, has_response, out)"
      using served(5) by (simp add: answer_of_def)
    have req: "rq_command (mb_request b1) = g" "rq_data (mb_request b1) = data"
      using served(2) sent by (simp_all add: same_mailbox_def)
    have "\<exists>s'. read_bytes m' (length (fst (response_of (answer_of b)))) (?s\<lparr>po_board := b\<rparr>) = (fst (response_of (answer_of b)), s') \<and>
        fst (z80_io_port_in m' IO_SERVICE_COMMAND_PORT s') = status_byte (snd (response_of (answer_of b)))"
      using read_answer [of "?s\<lparr>po_board := b\<rparr>" m'] sent len served(5) by simp
    with req served(3) show ?thesis
      unfolding ans by blast
  qed
qed

lemma sample_http_idle:
  "z80_http_io_core1_service start en (z80_http_io_init http_boot) =
    ((z80_http_io_init http_boot)\<lparr>wk_session := 1, wk_error_status := HTTP_ERROR\<rparr>, en)"
  by (simp add: http_boot_def z80_http_io_init_def port_clear_def
        z80_http_io_core1_service_def worker_restart_def cancel_backend_def worker_network_def worker_done_def
        z80_http_stream_init_def Let_def)

theorem service_roundtrip_witness:
  "\<exists>b s'. z80_io_ports_core1_service sample_services
      (po_board (send_service 0 IO_SERVICE_UTILITY [0] (ports_boot sample_board))) = (Returned (), b) \<and>
    read_bytes 0 4 ((send_service 0 IO_SERVICE_UTILITY [0] (ports_boot sample_board))\<lparr>po_board := b\<rparr>) = ([2, 0, 0x34, 0x12], s')"
proof -
  let ?s = "ports_boot sample_board"
  let ?b = "po_board (send_service 0 IO_SERVICE_UTILITY [0] ?s)"
  have ready: "tr_status (po_transport ?s) = IO_READY" "mb_state (po_board ?s) = WORK_IDLE" "worker_group IO_SERVICE_UTILITY"
    by (simp_all add: sample_ready worker_group_def)
  have sent: "bd_http ?b = z80_http_io_init http_boot" "mb_state ?b = WORK_PENDING"
    "rq_command (mb_request ?b) = IO_SERVICE_UTILITY" "rq_data (mb_request ?b) = [0]"
    using send_service_eq [OF ready(2,3,1), of "[0]" 0] by (simp_all add: sample_ready sample_board_def)
  have random: "serve sample_services b = (Returned (IO_SERVICE_OK, True, [0x34, 0x12]), b)"
    if "rq_command (mb_request b) = IO_SERVICE_UTILITY" "rq_data (mb_request b) = [0]" for b
    using that by (simp add: serve_def utility_service_def sample_services_def le16_def Let_def)
  obtain b where b: "z80_io_ports_core1_service sample_services ?b = (Returned (), b)"
    using sent random by (simp add: z80_io_ports_core1_service_def sample_http_idle put_env_def)
  from service_roundtrip [OF ports_boot_inv ready, of "[0]", OF _ _ b, of 0]
  obtain b1 a b2 s' where r: "rq_command (mb_request b1) = IO_SERVICE_UTILITY" "rq_data (mb_request b1) = [0]"
    "serve sample_services b1 = (Returned a, b2)"
    "read_bytes 0 (length (fst (response_of a))) ((send_service 0 IO_SERVICE_UTILITY [0] ?s)\<lparr>po_board := b\<rparr>) = (fst (response_of a), s')"
    by auto
  then have "a = (IO_SERVICE_OK, True, [0x34, 0x12])"
    using random by simp
  then have "response_of a = ([2, 0, 0x34, 0x12], IO_READY)"
    by (simp add: response_of_def le16_def)
  with b r(4) show ?thesis
    by (simp del: read_bytes.simps add: numeral_eq_Suc)
qed

text \<open>
  A reset abandons the request in progress: when the worker finishes it later, its answer is dropped, the transport stays ready
  for the next request, and the mailbox is free again.
\<close>

theorem reset_drops_answer:
  assumes "ports_inv s" and "z80_io_ports_core1_service w
      (po_board (z80_io_port_out m IO_SERVICE_COMMAND_PORT IO_SERVICE_RESET s)) = (Returned (), b)"
  shows "\<exists>s'. z80_io_port_in m' IO_SERVICE_COMMAND_PORT
        ((z80_io_port_out m IO_SERVICE_COMMAND_PORT IO_SERVICE_RESET s)\<lparr>po_board := b\<rparr>) = (status_byte IO_READY, s') \<and>
      po_transport s' = po_transport (z80_io_port_out m IO_SERVICE_COMMAND_PORT IO_SERVICE_RESET s) \<and>
      mb_state (po_board s') = WORK_IDLE"
proof -
  let ?s = "z80_io_port_out m IO_SERVICE_COMMAND_PORT IO_SERVICE_RESET s"
  have ready: "tr_status (po_transport ?s) = IO_READY"
    by (simp add: z80_io_port_out_def command_out_def Let_def)
  have done_or_idle: "mb_state b \<noteq> WORK_PENDING"
    using assms(2) by (cases rule: core1_cases) (auto simp: same_mailbox_def)
  let ?q = "poll_service (?s\<lparr>po_board := b\<rparr>)"
  have "po_transport ?q = po_transport ?s"
    using ready by (simp add: poll_not_busy)
  moreover have "mb_state (po_board ?q) = WORK_IDLE"
    using done_or_idle ready
    by (cases "mb_state b") (simp_all add: poll_service_def z80_io_service_poll_def)
  ultimately show ?thesis
    using ready by (simp add: z80_io_port_in_def Let_def)
qed

theorem reset_drops_answer_witness:
  "\<exists>b s'. z80_io_port_in 0 IO_SERVICE_COMMAND_PORT
      ((z80_io_port_out 0 IO_SERVICE_COMMAND_PORT IO_SERVICE_RESET (ports_boot sample_board))\<lparr>po_board := b\<rparr>) = (0, s') \<and>
    mb_state (po_board s') = WORK_IDLE"
proof -
  have "z80_io_port_out 0 IO_SERVICE_COMMAND_PORT IO_SERVICE_RESET (ports_boot sample_board) =
      (ports_boot sample_board)\<lparr>po_transport := reset_transport (po_transport (ports_boot sample_board))\<rparr>"
    by (simp add: z80_io_port_out_def poll_idle sample_ready command_out_def Let_def)
  then have "\<exists>b. z80_io_ports_core1_service sample_services
      (po_board (z80_io_port_out 0 IO_SERVICE_COMMAND_PORT IO_SERVICE_RESET (ports_boot sample_board))) = (Returned (), b)"
    using sample_ready(2,4) [of sample_board]
    by (simp add: z80_io_ports_core1_service_def sample_board_def sample_http_idle put_env_def)
  then obtain b where b: "z80_io_ports_core1_service sample_services
      (po_board (z80_io_port_out 0 IO_SERVICE_COMMAND_PORT IO_SERVICE_RESET (ports_boot sample_board))) = (Returned (), b)" ..
  from reset_drops_answer [OF ports_boot_inv b, of 0] show ?thesis by auto
qed

text \<open>
  A countdown timer started through the timer port reads as running exactly until the millisecond it was started in plus its
  duration, and the arithmetic does not overflow for the next 290 thousand years of uptime.
\<close>

theorem countdown_timer:
  assumes "timers_ok t" and "tm_parameter_bytes t = 0" and "tm_command t \<noteq> 0xff" and "i < 3" and "unat m3 < 2 ^ 63"
  shows "fst (timer_in m (timer_out m4 (0x20 + i) (timer_out m3 hi (timer_out m2 lo (timer_out m1 (0x10 + i) t))))) =
    of_bool (unat m < (unat m3 div 1000 + unat lo + 256 * unat hi) * 1000)"
proof -
  define d where "d = (ucast lo :: u16) OR push_bit 8 (ucast hi)"
  define u where "u = t\<lparr>tm_response_bytes := 0, tm_duration := d\<rparr>"
  have "timers_ok u" "i < 4" "i \<noteq> 3"
    using assms(1,2,4) by (auto simp: timers_ok_def u_def intro: less_trans)
  then have run: "timer_running i m (start_timer m3 i d u) \<longleftrightarrow> unat m < (unat m3 div 1000 + unat lo + 256 * unat hi) * 1000"
    using timer_counts [of i u m3 m d] assms(5) duration_bytes [of lo hi] by (simp add: d_def add.assoc)
  have started: "timer_out m3 hi (timer_out m2 lo (timer_out m1 (0x10 + i) t)) =
      (start_timer m3 i d u)\<lparr>tm_command := 0x30, tm_parameter_bytes := 0\<rparr>"
    unfolding d_def u_def by (rule timer_port_start [OF assms(4,2,3)])
  have "timer_running i m ((start_timer m3 i d u)\<lparr>tm_command := 0x30, tm_parameter_bytes := 0\<rparr>) =
      timer_running i m (start_timer m3 i d u)"
    by (simp add: timer_running_def)
  with run show ?thesis
    unfolding started by (subst timer_query [OF assms(4)]) simp_all
qed

theorem countdown_timer_witness:
  "fst (timer_in 1999 (timer_out 0 0x20 (timer_out 0 0 (timer_out 0 2 (timer_out 0 0x10 (po_timers (ports_boot sample_board))))))) = 1"
proof -
  have "timers_ok (po_timers (ports_boot sample_board))"
    using ports_boot_inv by (simp add: ports_inv_def)
  from countdown_timer [OF this, of 0 0 1999 0 0 0 2] show ?thesis
    by (simp add: ports_boot_def z80_io_ports_init_def)
qed

text \<open>
  A stopwatch read through the timer port gives, in four little-endian bytes, the milliseconds between the restart and the query.
\<close>

theorem stopwatch_elapsed:
  assumes "timers_ok t" and "tm_parameter_bytes t = 0" and "tm_command t \<noteq> 0xff" and "i < 3" and "m0 \<le> m1"
  shows "fst (read_timer m 4 (timer_out m1 (0x60 + i) (timer_out m0 (0x40 + i) t))) =
    le32 (of_nat (unat m1 div 1000 - unat m0 div 1000))"
proof -
  have "m0 div 1000 \<le> m1 div 1000"
    using assms(5) by (simp add: word_le_nat_alt unat_div div_le_mono)
  moreover have "unat m1 div 1000 - unat m0 div 1000 < 2 ^ 64"
    using unat_bound [of m1] by (auto intro: le_less_trans [of _ "unat m1"])
  ultimately have "m1 div 1000 - m0 div 1000 = (of_nat (unat m1 div 1000 - unat m0 div 1000) :: u64)"
    by (simp add: word_unat_eq_iff unat_sub unat_div unat_of_nat)
  moreover have "(ucast (of_nat n :: u64) :: u32) = of_nat n" for n
    by (rule bit_word_eqI) (auto simp: bit_simps)
  ultimately have "(ucast (m1 div 1000 - m0 div 1000) :: u32) = of_nat (unat m1 div 1000 - unat m0 div 1000)"
    by simp
  then show ?thesis
    using stopwatch_latch [OF assms(4,1,2,3)] by (simp add: stopwatch_read)
qed

theorem stopwatch_elapsed_witness:
  "fst (read_timer 0 4 (timer_out 301000 0x60 (timer_out 0 0x40 (po_timers (ports_boot sample_board))))) = [45, 1, 0, 0]"
proof -
  have "timers_ok (po_timers (ports_boot sample_board))"
    using ports_boot_inv by (simp add: ports_inv_def)
  from stopwatch_elapsed [OF this, of 0 0 301000 0] show ?thesis
    by (simp add: ports_boot_def z80_io_ports_init_def le32_def)
qed

text \<open>
  C14. The reboot service asks for the restart only when nothing can be lost: an accepted request has flushed the disk, the controller
  is quiescent and every record the Z80 can read is in flash; a refused one leaves the restart flag alone and, when the flush was what
  failed, lets the Z80 write again.
\<close>

theorem reboot_only_when_durable:
  assumes "journal_flash (sw_dev w)" and "disk_inv (bd_disk s)"
    and "rq_command (mb_request s) = IO_SERVICE_UTILITY" and "rq_data (mb_request s) = [2, c]"
    and "serve w s = (Returned (error, has_response, out), s')"
  shows "if error = IO_SERVICE_OK
    then c = 0xa5 \<and> mb_reboot s' \<and> z80_flash_disk_quiescent (bd_disk s') \<and> disk_pending (bd_disk s') = 0 \<and>
      (\<forall>drive lba. record_ok drive lba \<longrightarrow>
        flash_read (be_flash (dk_backend (bd_disk s'))) (record_at drive lba) Z80_FLASH_RECORD_BYTES =
          z80_flash_backend_read_record (dk_backend (bd_disk s')) drive lba)
    else mb_reboot s' = mb_reboot s \<and> (c = 0xa5 \<longrightarrow> disk_write_enabled (bd_disk s') = 1)"
proof -
  have "reboot_service w c s = (Returned (error, has_response, out), s')"
    using assms(3-5) by (simp add: serve_def utility_service_def)
  note r = reboot_durable [OF assms(1,2) this]
  have "record_ok 0 0" by (simp add: record_ok_def)
  with r quiescent_records [of "bd_disk s'"] show ?thesis
    by (auto split: if_splits)
qed

theorem reboot_only_when_durable_witness:
  "\<exists>s'. serve sample_services (sample_board\<lparr>mb_request := \<lparr>rq_generation = 0, rq_command = IO_SERVICE_UTILITY, rq_data = [2, 0xa5]\<rparr>\<rparr>) =
      (Returned (IO_SERVICE_OK, False, []), s') \<and> mb_reboot s' \<and> z80_flash_disk_quiescent (bd_disk s')"
proof -
  let ?s = "sample_board\<lparr>mb_request := \<lparr>rq_generation = 0, rq_command = IO_SERVICE_UTILITY, rq_data = [2, 0xa5]\<rparr>\<rparr>"
  have service: "z80_flash_core1_service host_flash bus_granted bus_granted 0 (disk_boot sample_backend) = (Returned (), disk_boot sample_backend)"
    by (simp add: z80_flash_core1_service_def disk_boot_def disk_reset_def prefetch_service_def backend_reset_def
        z80_flash_backend_flush_due_def)
  have flush: "z80_flash_backend_flush host_flash bus_granted (dk_backend (disk_boot sample_backend)) =
      (Returned True, dk_backend (disk_boot sample_backend))"
    by (simp add: z80_flash_backend_flush_def disk_boot_def disk_reset_def backend_reset_def flush_clean)
  have "z80_flash_disk_quiescent (disk_boot sample_backend)"
    by (simp add: z80_flash_disk_quiescent_def disk_boot_def disk_reset_def z80_flash_backend_quiescent_def backend_reset_def)
  then have "flush_for_reboot sample_services (bd_disk ?s) = (Returned True, disk_boot sample_backend)"
    by (simp add: flush_for_reboot_def fbind_def sample_services_def sample_board_def service flush)
  then obtain s' where s': "serve sample_services ?s = (Returned (IO_SERVICE_OK, False, []), s')"
    by (simp add: serve_def utility_service_def reboot_service_def)
  have "journal_flash (sw_dev sample_services)" "disk_inv (bd_disk ?s)"
    using host.journal_flash_axioms disk_boot_inv(1) by (simp_all add: sample_services_def sample_board_def)
  from reboot_only_when_durable [OF this _ _ s'] s' show ?thesis by auto
qed

end
