(* ===== verification/Board.thy ===== *)
theory Board
  imports Prelude
begin

text \<open>
  The microcontroller's side of the Z80 bus: \<open>supervisor.c\<close>, \<open>bus.c\<close>, \<open>clock.c\<close>, \<open>cpu.c\<close> and \<open>sram.c\<close> of
  \<open>src/src/common\<close>, in the build that clocks the Z80 with the PWM (without \<open>Z80_BANKED_PIO\<close>).

  \<^item> \<open>board\<close> holds the static variables of those files and the registers the SDK calls set: the output
    levels and output enables of the 32 pins, the function of the clock pin and the PWM slice behind it.
    \<open>pin_trace\<close> is a history variable: every value the two pin registers have had, newest first.
  \<^item> everything behind the pins is the device \<open>'d\<close>. It is told of every change (\<open>hw_pins\<close>, \<open>hw_clk\<close>,
    \<open>hw_wait\<close>) and answers the reads (\<open>hw_in\<close>, \<open>hw_now\<close>). Nothing is assumed of it here; the locales of the
    theories that follow state what is.
  \<^item> \<open>absolute_time_t\<close> is a count of microseconds as a natural number.
  \<^item> the lines that only print are left out.
\<close>

section \<open>Pins, clock and time\<close>

abbreviation (input) PIN_BUSACK_N :: nat where "PIN_BUSACK_N \<equiv> 0"
abbreviation (input) PIN_IORQ_N :: nat where "PIN_IORQ_N \<equiv> 1"
abbreviation (input) PIN_CLK :: nat where "PIN_CLK \<equiv> 2"
abbreviation (input) PIN_RESET_N :: nat where "PIN_RESET_N \<equiv> 3"
abbreviation (input) PIN_BUSREQ_N :: nat where "PIN_BUSREQ_N \<equiv> 4"
abbreviation (input) PIN_BOOT_READ_DISABLE :: nat where "PIN_BOOT_READ_DISABLE \<equiv> 5"
abbreviation (input) PIN_DATA_UP_OE_N :: nat where "PIN_DATA_UP_OE_N \<equiv> 6"
abbreviation (input) PIN_DATA_DOWN_OE_N :: nat where "PIN_DATA_DOWN_OE_N \<equiv> 7"
abbreviation (input) PIN_MEMORY_BANK :: nat where "PIN_MEMORY_BANK \<equiv> 8"
abbreviation (input) PIN_IO_RELEASE :: nat where "PIN_IO_RELEASE \<equiv> 9"
abbreviation (input) PIN_DATA_0 :: nat where "PIN_DATA_0 \<equiv> 10"
abbreviation (input) PIN_PORT_A0 :: nat where "PIN_PORT_A0 \<equiv> 18"
abbreviation (input) PIN_RD_N :: nat where "PIN_RD_N \<equiv> 27"
abbreviation (input) PIN_WR_N :: nat where "PIN_WR_N \<equiv> 28"

definition DATA_MASK :: u32 where
  "DATA_MASK = push_bit PIN_DATA_0 0xFF"

record pwm_slice =
  pwm_enabled :: bool
  pwm_div :: u8
  pwm_wrap :: u16
  pwm_level :: u16
  pwm_counter :: u16

record 'd hw =
  hw_pins :: "u32 \<Rightarrow> u32 \<Rightarrow> 'd \<Rightarrow> 'd"
  hw_clk :: "bool \<Rightarrow> pwm_slice \<Rightarrow> 'd \<Rightarrow> 'd"
  hw_wait :: "nat \<Rightarrow> 'd \<Rightarrow> 'd"
  hw_spin :: "'d \<Rightarrow> 'd"
  hw_in :: "u32 \<Rightarrow> u32 \<Rightarrow> 'd \<Rightarrow> u32 \<times> 'd"
  hw_now :: "'d \<Rightarrow> nat \<times> 'd"
  hw_sys_clk :: nat

record 'd board =
  gpio_out :: u32
  gpio_oe :: u32
  gpio_no_pulls :: u32
  clk_pwm :: bool
  pwm :: pwm_slice
  actual_clock_hz :: u32
  banked_memory_available :: bool
  bank_driver :: "(nat \<Rightarrow> 'd \<Rightarrow> 'd) option"
  pin_trace :: "(u32 \<times> u32) list"
  device :: 'd

definition set_pins :: "'d hw \<Rightarrow> u32 \<Rightarrow> u32 \<Rightarrow> 'd board \<Rightarrow> 'd board" where
  "set_pins hw out oe b =
     b\<lparr>gpio_out := out, gpio_oe := oe, pin_trace := (out, oe) # pin_trace b,
       device := hw_pins hw out oe (device b)\<rparr>"

definition set_clk :: "'d hw \<Rightarrow> bool \<Rightarrow> pwm_slice \<Rightarrow> 'd board \<Rightarrow> 'd board" where
  "set_clk hw f p b = b\<lparr>clk_pwm := f, pwm := p, device := hw_clk hw f p (device b)\<rparr>"

definition gpio_put :: "'d hw \<Rightarrow> nat \<Rightarrow> bool \<Rightarrow> 'd board \<Rightarrow> 'd board" where
  "gpio_put hw pin v b =
     set_pins hw (if v then set_bit pin (gpio_out b) else unset_bit pin (gpio_out b)) (gpio_oe b) b"

definition gpio_set_dir :: "'d hw \<Rightarrow> nat \<Rightarrow> bool \<Rightarrow> 'd board \<Rightarrow> 'd board" where
  "gpio_set_dir hw pin out b =
     set_pins hw (gpio_out b) (if out then set_bit pin (gpio_oe b) else unset_bit pin (gpio_oe b)) b"

definition gpio_set_mask :: "'d hw \<Rightarrow> u32 \<Rightarrow> 'd board \<Rightarrow> 'd board" where
  "gpio_set_mask hw m b = set_pins hw (gpio_out b OR m) (gpio_oe b) b"

definition gpio_put_masked :: "'d hw \<Rightarrow> u32 \<Rightarrow> u32 \<Rightarrow> 'd board \<Rightarrow> 'd board" where
  "gpio_put_masked hw m v b = set_pins hw ((gpio_out b AND NOT m) OR (v AND m)) (gpio_oe b) b"

definition gpio_set_dir_masked :: "'d hw \<Rightarrow> u32 \<Rightarrow> u32 \<Rightarrow> 'd board \<Rightarrow> 'd board" where
  "gpio_set_dir_masked hw m v b = set_pins hw (gpio_out b) ((gpio_oe b AND NOT m) OR (v AND m)) b"

definition gpio_init :: "'d hw \<Rightarrow> nat \<Rightarrow> 'd board \<Rightarrow> 'd board" where
  "gpio_init hw pin b =
     (let b = gpio_put hw pin False (gpio_set_dir hw pin False b)
      in if pin = PIN_CLK then set_clk hw False (pwm b) b else b)"

definition gpio_disable_pulls :: "nat \<Rightarrow> 'd board \<Rightarrow> 'd board" where
  "gpio_disable_pulls pin b = b\<lparr>gpio_no_pulls := set_bit pin (gpio_no_pulls b)\<rparr>"

definition gpio_get_all :: "'d hw \<Rightarrow> 'd board \<Rightarrow> u32 \<times> 'd board" where
  "gpio_get_all hw b =
     (case hw_in hw (gpio_out b) (gpio_oe b) (device b) of (v, d) \<Rightarrow> (v, b\<lparr>device := d\<rparr>))"

definition gpio_get :: "'d hw \<Rightarrow> nat \<Rightarrow> 'd board \<Rightarrow> bool \<times> 'd board" where
  "gpio_get hw pin b = (case gpio_get_all hw b of (v, b) \<Rightarrow> (bit v pin, b))"

definition busy_wait_us_32 :: "'d hw \<Rightarrow> nat \<Rightarrow> 'd board \<Rightarrow> 'd board" where
  "busy_wait_us_32 hw us b = b\<lparr>device := hw_wait hw us (device b)\<rparr>"

definition tight_loop_contents :: "'d hw \<Rightarrow> 'd board \<Rightarrow> 'd board" where
  "tight_loop_contents hw b = b\<lparr>device := hw_spin hw (device b)\<rparr>"

definition get_absolute_time :: "'d hw \<Rightarrow> 'd board \<Rightarrow> nat \<times> 'd board" where
  "get_absolute_time hw b = (case hw_now hw (device b) of (t, d) \<Rightarrow> (t, b\<lparr>device := d\<rparr>))"

section \<open>Supervisor\<close>

definition z80_memory_bank_set_driver :: "(nat \<Rightarrow> 'd \<Rightarrow> 'd) option \<Rightarrow> 'd board \<Rightarrow> 'd board" where
  "z80_memory_bank_set_driver driver b = b\<lparr>bank_driver := driver\<rparr>"

definition z80_memory_bank_select :: "'d hw \<Rightarrow> nat \<Rightarrow> 'd board \<Rightarrow> 'd board" where
  "z80_memory_bank_select hw bank b =
     (case bank_driver b of
        Some drv \<Rightarrow> b\<lparr>device := drv (bank AND 1) (device b)\<rparr>
      | None \<Rightarrow> gpio_put hw PIN_MEMORY_BANK (bank AND 1 \<noteq> 0) b)"

definition z80_memory_bank_set_available :: "bool \<Rightarrow> 'd board \<Rightarrow> 'd board" where
  "z80_memory_bank_set_available available b = b\<lparr>banked_memory_available := available\<rparr>"

definition z80_memory_bank_status :: "'d hw \<Rightarrow> 'd board \<Rightarrow> nat \<times> 'd board" where
  "z80_memory_bank_status hw b =
     (if banked_memory_available b
      then case gpio_get hw PIN_MEMORY_BANK b of (v, b) \<Rightarrow> (0xB4 OR of_bool v, b)
      else (0, b))"

definition output_with_initial_level :: "'d hw \<Rightarrow> nat \<Rightarrow> bool \<Rightarrow> 'd board \<Rightarrow> 'd board" where
  "output_with_initial_level hw pin level b =
     gpio_set_dir hw pin True (gpio_put hw pin level (gpio_init hw pin b))"

definition input_with_no_pull :: "'d hw \<Rightarrow> nat \<Rightarrow> 'd board \<Rightarrow> 'd board" where
  "input_with_no_pull hw pin b =
     gpio_disable_pulls pin (gpio_set_dir hw pin False (gpio_init hw pin b))"

definition z80_isolate_buses :: "'d hw \<Rightarrow> 'd board \<Rightarrow> 'd board" where
  "z80_isolate_buses hw b =
     gpio_put hw PIN_DATA_DOWN_OE_N True (gpio_put hw PIN_DATA_UP_OE_N True b)"

definition z80_safe_startup :: "'d hw \<Rightarrow> 'd board \<Rightarrow> 'd board" where
  "z80_safe_startup hw b =
     (let b = output_with_initial_level hw PIN_DATA_UP_OE_N True b;
          b = output_with_initial_level hw PIN_DATA_DOWN_OE_N True b;
          b = output_with_initial_level hw PIN_RESET_N False b;
          b = output_with_initial_level hw PIN_MEMORY_BANK False b;
          b = b\<lparr>bank_driver := None, banked_memory_available := False\<rparr>;
          b = output_with_initial_level hw PIN_BUSREQ_N True b;
          b = output_with_initial_level hw PIN_BOOT_READ_DISABLE True b;
          b = output_with_initial_level hw PIN_IO_RELEASE False b;
          b = output_with_initial_level hw PIN_CLK False b
      in fold (input_with_no_pull hw)
           ([10..<18] @ [PIN_BUSACK_N, PIN_IORQ_N, PIN_RD_N, PIN_WR_N] @ [18..<22]) b)"

definition z80_walking_output_test :: "'d hw \<Rightarrow> nat list \<Rightarrow> nat \<Rightarrow> 'd board \<Rightarrow> 'd board" where
  "z80_walking_output_test hw pins dwell_ms b =
     (let b = fold (\<lambda>pin. output_with_initial_level hw pin False) pins b;
          b = fold (\<lambda>active b. busy_wait_us_32 hw (dwell_ms * 1000)
                (fold (\<lambda>i. gpio_put hw (pins ! i) (i = active)) [0..<length pins] b))
              [0..<length pins] b
      in z80_safe_startup hw b)"

section \<open>Bus\<close>

definition z80_port_decode :: "u32 \<Rightarrow> u8" where
  "z80_port_decode bits = ucast ((bits AND 7) OR push_bit 1 (bits AND 8))"

definition z80_port_bus_sample :: "'d hw \<Rightarrow> 'd board \<Rightarrow> u8 \<times> 'd board" where
  "z80_port_bus_sample hw b =
     (case gpio_get_all hw b of (v, b) \<Rightarrow> (z80_port_decode (drop_bit PIN_PORT_A0 v), b))"

definition z80_data_bus_isolate :: "'d hw \<Rightarrow> 'd board \<Rightarrow> 'd board" where
  "z80_data_bus_isolate hw = gpio_set_mask hw (push_bit PIN_DATA_UP_OE_N 1 OR push_bit PIN_DATA_DOWN_OE_N 1)"

definition z80_data_bus_drive :: "'d hw \<Rightarrow> u8 \<Rightarrow> 'd board \<Rightarrow> 'd board" where
  "z80_data_bus_drive hw v b =
     (let b = z80_data_bus_isolate hw b;
          b = busy_wait_us_32 hw 1 b;
          b = gpio_put_masked hw DATA_MASK (push_bit PIN_DATA_0 (ucast v)) b;
          b = gpio_set_dir_masked hw DATA_MASK DATA_MASK b;
          b = busy_wait_us_32 hw 1 b
      in gpio_put hw PIN_DATA_UP_OE_N False b)"

definition z80_data_bus_prepare_input :: "'d hw \<Rightarrow> 'd board \<Rightarrow> 'd board" where
  "z80_data_bus_prepare_input hw b =
     (let b = z80_data_bus_isolate hw b;
          b = gpio_set_dir_masked hw DATA_MASK 0 b;
          b = busy_wait_us_32 hw 1 b
      in gpio_put hw PIN_DATA_DOWN_OE_N False b)"

definition z80_data_bus_sample :: "'d hw \<Rightarrow> 'd board \<Rightarrow> u8 \<times> 'd board" where
  "z80_data_bus_sample hw b = (case gpio_get_all hw b of (v, b) \<Rightarrow> (ucast (drop_bit PIN_DATA_0 v), b))"

section \<open>Clock\<close>

abbreviation (input) Z80_CLOCK_MIN_HZ :: nat where "Z80_CLOCK_MIN_HZ \<equiv> 10"
abbreviation (input) Z80_CLOCK_MAX_HZ :: nat where "Z80_CLOCK_MAX_HZ \<equiv> 8000000"

definition z80_clock_stop :: "'d hw \<Rightarrow> 'd board \<Rightarrow> 'd board" where
  "z80_clock_stop hw b = set_clk hw (clk_pwm b) ((pwm b)\<lparr>pwm_enabled := False\<rparr>) b"

definition z80_clock_prepare_stepping :: "'d hw \<Rightarrow> 'd board \<Rightarrow> 'd board" where
  "z80_clock_prepare_stepping hw b =
     (let b = z80_clock_stop hw b;
          b = gpio_put hw PIN_CLK False b;
          b = gpio_set_dir hw PIN_CLK True b
      in if clk_pwm b then
           let b = busy_wait_us_32 hw 1 b
           in set_clk hw False (pwm b) b
         else b)"

definition z80_clock_step_prepared :: "'d hw \<Rightarrow> nat \<Rightarrow> 'd board \<Rightarrow> 'd board" where
  "z80_clock_step_prepared hw half b =
     (let b = busy_wait_us_32 hw half b;
          b = gpio_put hw PIN_CLK True b;
          b = busy_wait_us_32 hw half b;
          b = gpio_put hw PIN_CLK False b
      in busy_wait_us_32 hw 1 b)"

definition z80_clock_one_cycle :: "'d hw \<Rightarrow> nat \<Rightarrow> 'd board \<Rightarrow> 'd board" where
  "z80_clock_one_cycle hw half b = z80_clock_step_prepared hw half (z80_clock_prepare_stepping hw b)"

definition z80_clock_get_hz :: "'d board \<Rightarrow> u32" where
  "z80_clock_get_hz b = actual_clock_hz b"

definition z80_clock_resume :: "'d hw \<Rightarrow> 'd board \<Rightarrow> 'd board" where
  "z80_clock_resume hw b =
     (let b = set_clk hw (clk_pwm b) ((pwm b)\<lparr>pwm_counter := 0\<rparr>) b;
          b = set_clk hw True (pwm b) b
      in set_clk hw True ((pwm b)\<lparr>pwm_enabled := True\<rparr>) b)"

definition z80_reset_with_clock_cycles :: "'d hw \<Rightarrow> nat \<Rightarrow> nat \<Rightarrow> 'd board \<Rightarrow> 'd board" where
  "z80_reset_with_clock_cycles hw cycles half b =
     z80_clock_stop hw ((z80_clock_one_cycle hw half ^^ cycles) (gpio_put hw PIN_RESET_N False b))"

text \<open>
  The search of \<open>z80_clock_set_hz\<close>. The code computes in \<open>uint64_t\<close>; \<open>clock_fits\<close> below shows that no product
  or sum leaves that range, so the natural numbers here are those values.
\<close>

definition clock_count :: "nat \<Rightarrow> nat \<Rightarrow> nat \<Rightarrow> nat" where
  "clock_count sys hz divider =
     (let denominator = hz * divider;
          count = (sys + denominator - 1) div denominator;
          count = (count + 1) - (count + 1) mod 2
      in if count < 2 then 2 else count)"

definition clock_step :: "nat \<Rightarrow> nat \<Rightarrow> nat \<times> nat \<Rightarrow> nat \<Rightarrow> nat \<times> nat" where
  "clock_step sys hz best divider =
     (let count = clock_count sys hz divider
      in if count > 65536 then best
         else let product = divider * count; best_product = fst best * snd best
           in if fst best = 0 \<or> product < best_product \<or> product = best_product \<and> count > snd best
              then (divider, count) else best)"

definition clock_search :: "nat \<Rightarrow> nat \<Rightarrow> nat \<times> nat" where
  "clock_search sys hz = foldl (clock_step sys hz) (0, 0) [1..<256]"

definition z80_clock_set_hz :: "'d hw \<Rightarrow> nat \<Rightarrow> 'd board \<Rightarrow> bool \<times> 'd board" where
  "z80_clock_set_hz hw hz b =
     (if hz < Z80_CLOCK_MIN_HZ \<or> hz > Z80_CLOCK_MAX_HZ then (False, b)
      else case clock_search (hw_sys_clk hw) hz of (best_divider, best_count) \<Rightarrow>
        if best_divider = 0 then (False, b)
        else
          let b = z80_clock_prepare_stepping hw b;
              b = busy_wait_us_32 hw 1 b;
              b = set_clk hw (clk_pwm b) ((pwm b)\<lparr>pwm_div := of_nat best_divider\<rparr>) b;
              b = set_clk hw (clk_pwm b) ((pwm b)\<lparr>pwm_wrap := of_nat (best_count - 1)\<rparr>) b;
              b = set_clk hw (clk_pwm b) ((pwm b)\<lparr>pwm_level := of_nat (best_count div 2)\<rparr>) b;
              b = set_clk hw (clk_pwm b) ((pwm b)\<lparr>pwm_counter := 0\<rparr>) b;
              b = set_clk hw True (pwm b) b;
              b = set_clk hw True ((pwm b)\<lparr>pwm_enabled := True\<rparr>) b;
              product = best_divider * best_count
          in (True, b\<lparr>actual_clock_hz := of_nat ((hw_sys_clk hw + product div 2) div product)\<rparr>))"

section \<open>SRAM through the Z80\<close>

text \<open>The loader feeds the Z80 instructions, one machine cycle at a time.\<close>

definition z80_sram_prepare_loader :: "'d hw \<Rightarrow> 'd board \<Rightarrow> bool \<times> 'd board" where
  "z80_sram_prepare_loader hw b =
     (let b = z80_isolate_buses hw b;
          b = gpio_put hw PIN_BOOT_READ_DISABLE True b;
          b = gpio_put hw PIN_BUSREQ_N True b;
          b = z80_reset_with_clock_cycles hw 6 1 b;
          b = z80_memory_bank_select hw 0 b;
          b = gpio_put hw PIN_RESET_N True b;
          b = z80_clock_one_cycle hw 1 b
      in (True, z80_clock_one_cycle hw 1 b))"

definition pulse_clock :: "'d hw \<Rightarrow> nat \<Rightarrow> 'd board \<Rightarrow> 'd board" where
  "pulse_clock hw cycles = (z80_clock_one_cycle hw 1 ^^ cycles)"

definition inject_read :: "'d hw \<Rightarrow> u8 \<Rightarrow> bool \<Rightarrow> 'd board \<Rightarrow> 'd board" where
  "inject_read hw v opcode b =
     (let b = pulse_clock hw 1 b;
          b = gpio_put hw PIN_BOOT_READ_DISABLE True b;
          b = busy_wait_us_32 hw 1 b;
          b = z80_data_bus_drive hw v b;
          b = pulse_clock hw 2 b;
          b = z80_data_bus_isolate hw b
      in if opcode then pulse_clock hw 1 b else b)"

definition load_hl :: "'d hw \<Rightarrow> u16 \<Rightarrow> 'd board \<Rightarrow> 'd board" where
  "load_hl hw address b =
     inject_read hw (ucast (drop_bit 8 address)) False
       (inject_read hw (ucast address) False (inject_read hw 0x21 True b))"

definition z80_sram_write_byte :: "'d hw \<Rightarrow> u16 \<Rightarrow> u8 \<Rightarrow> 'd board \<Rightarrow> bool \<times> 'd board" where
  "z80_sram_write_byte hw address v b =
     (let b = load_hl hw address b;
          b = inject_read hw 0x36 True b;
          b = inject_read hw v False b
      in (True, pulse_clock hw 3 b))"

text \<open>\<open>has_buffer\<close> is false for a null pointer; the result is \<open>None\<close> for false and the byte stored otherwise.\<close>

definition z80_sram_read_byte :: "'d hw \<Rightarrow> bool \<Rightarrow> u16 \<Rightarrow> 'd board \<Rightarrow> u8 option \<times> 'd board" where
  "z80_sram_read_byte hw has_buffer address b =
     (if \<not> has_buffer then (None, b)
      else
        let b = load_hl hw address b;
            b = inject_read hw 0x7E True b;
            b = z80_data_bus_prepare_input hw b;
            b = gpio_put hw PIN_BOOT_READ_DISABLE False b;
            b = pulse_clock hw 2 b;
            b = busy_wait_us_32 hw 1 b
        in case z80_data_bus_sample hw b of (v, b) \<Rightarrow>
          let b = pulse_clock hw 1 b;
              b = z80_data_bus_isolate hw b
          in (Some v, gpio_put hw PIN_BOOT_READ_DISABLE True b))"

text \<open>The loops that write a list of cells and that compare a list of cells, each ending at the first failure.\<close>

fun write_cells :: "'d hw \<Rightarrow> (u16 \<times> u8) list \<Rightarrow> 'd board \<Rightarrow> bool \<times> 'd board" where
  "write_cells hw [] b = (True, b)"
| "write_cells hw ((a, v) # rest) b =
     (case z80_sram_write_byte hw a v b of
        (True, b) \<Rightarrow> write_cells hw rest b
      | (False, b) \<Rightarrow> (False, b))"

fun verify_cells :: "'d hw \<Rightarrow> (u16 \<times> u8) list \<Rightarrow> 'd board \<Rightarrow> bool \<times> 'd board" where
  "verify_cells hw [] b = (True, b)"
| "verify_cells hw ((a, v) # rest) b =
     (case z80_sram_read_byte hw True a b of
        (None, b) \<Rightarrow> (False, b)
      | (Some actual, b) \<Rightarrow> if actual \<noteq> v then (False, b) else verify_cells hw rest b)"

definition report_failure :: "'d hw \<Rightarrow> 'd board \<Rightarrow> bool \<times> 'd board" where
  "report_failure hw b = (False, z80_isolate_buses hw b)"

definition cells_of :: "u16 \<Rightarrow> bytes \<Rightarrow> (u16 \<times> u8) list" where
  "cells_of address data = map (\<lambda>i. (address + of_nat i, data ! i)) [0..<length data]"

definition z80_sram_load :: "'d hw \<Rightarrow> u16 \<Rightarrow> bytes option \<Rightarrow> 'd board \<Rightarrow> bool \<times> 'd board" where
  "z80_sram_load hw address data b =
     (case data of None \<Rightarrow> (False, b)
      | Some bs \<Rightarrow>
        if length bs > 65536 - unat address then (False, b)
        else case write_cells hw (cells_of address bs) b of
          (True, b) \<Rightarrow> (True, z80_isolate_buses hw b)
        | (False, b) \<Rightarrow> (False, b))"

definition z80_sram_verify :: "'d hw \<Rightarrow> u16 \<Rightarrow> bytes option \<Rightarrow> 'd board \<Rightarrow> bool \<times> 'd board" where
  "z80_sram_verify hw address data b =
     (case data of None \<Rightarrow> (False, b)
      | Some bs \<Rightarrow>
        if length bs > 65536 - unat address then (False, b)
        else case verify_cells hw (cells_of address bs) b of
          (True, b) \<Rightarrow> (True, z80_isolate_buses hw b)
        | (False, b) \<Rightarrow> report_failure hw b)"

definition pattern_byte :: "bool \<Rightarrow> nat \<Rightarrow> u8" where
  "pattern_byte complement address =
     (let expected = of_nat address XOR of_nat (address div 256)
      in if complement then NOT expected else expected)"

definition z80_sram_pattern_test :: "'d hw \<Rightarrow> bool \<Rightarrow> 'd board \<Rightarrow> bool \<times> 'd board" where
  "z80_sram_pattern_test hw complement b =
     (let cells = map (\<lambda>a. (of_nat a, pattern_byte complement a)) [0..<65536]
      in case write_cells hw cells b of
        (False, b) \<Rightarrow> (False, b)
      | (True, b) \<Rightarrow>
        case verify_cells hw cells b of
          (True, b) \<Rightarrow> (True, z80_isolate_buses hw b)
        | (False, b) \<Rightarrow> report_failure hw b)"

definition march_read_write :: "'d hw \<Rightarrow> u16 \<Rightarrow> u8 \<Rightarrow> u8 \<Rightarrow> 'd board \<Rightarrow> bool \<times> 'd board" where
  "march_read_write hw address expected replacement b =
     (case z80_sram_read_byte hw True address b of
        (None, b) \<Rightarrow> report_failure hw b
      | (Some actual, b) \<Rightarrow>
        if actual \<noteq> expected then report_failure hw b
        else z80_sram_write_byte hw address replacement b)"

fun march_cells :: "'d hw \<Rightarrow> u8 \<Rightarrow> u8 \<Rightarrow> nat list \<Rightarrow> 'd board \<Rightarrow> bool \<times> 'd board" where
  "march_cells hw expected replacement [] b = (True, b)"
| "march_cells hw expected replacement (a # as) b =
     (case march_read_write hw (of_nat a) expected replacement b of
        (True, b) \<Rightarrow> march_cells hw expected replacement as b
      | (False, b) \<Rightarrow> (False, b))"

definition and_then :: "bool \<times> 'd board \<Rightarrow> ('d board \<Rightarrow> bool \<times> 'd board) \<Rightarrow> bool \<times> 'd board" where
  "and_then r k = (case r of (True, b) \<Rightarrow> k b | (False, b) \<Rightarrow> (False, b))"

definition z80_sram_march_test :: "'d hw \<Rightarrow> 'd board \<Rightarrow> bool \<times> 'd board" where
  "z80_sram_march_test hw b =
     and_then (write_cells hw (map (\<lambda>a. (of_nat a, 0x00)) [0..<65536]) b) (\<lambda>b.
     and_then (march_cells hw 0x00 0xFF [0..<65536] b) (\<lambda>b.
     and_then (march_cells hw 0xFF 0x00 [0..<65536] b) (\<lambda>b.
     and_then (march_cells hw 0x00 0xFF (rev [0..<65536]) b) (\<lambda>b.
     and_then (march_cells hw 0xFF 0x00 (rev [0..<65536]) b) (\<lambda>b.
     case verify_cells hw (map (\<lambda>a. (of_nat a, 0x00)) [0..<65536]) b of
       (True, b) \<Rightarrow> (True, z80_isolate_buses hw b)
     | (False, b) \<Rightarrow> report_failure hw b)))))"

section \<open>Bank 1\<close>

text \<open>The three code arrays of the generated header \<open>bank1_system.h\<close>.\<close>

record bank1_system =
  bank1_service_code :: bytes
  bank1_resident_code :: bytes
  bank1_bdos_code :: bytes

abbreviation (input) BANK_RUNTIME_BYTES :: nat where "BANK_RUNTIME_BYTES \<equiv> 0x100"
abbreviation (input) BANK_LOAD_BYTES :: nat where "BANK_LOAD_BYTES \<equiv> 0x2300"

definition bank_load_address :: "nat \<Rightarrow> u16" where
  "bank_load_address offset =
     (if offset < BANK_RUNTIME_BYTES then of_nat offset
      else of_nat (0xDE00 + offset - BANK_RUNTIME_BYTES))"

definition bank_load_value :: "bank1_system \<Rightarrow> bytes \<Rightarrow> nat \<Rightarrow> u8" where
  "bank_load_value sys base_image offset =
     (if offset < BANK_RUNTIME_BYTES then
        (if offset = 0 \<or> offset = 5 then 0xC3
         else if offset = 1 then 0x40
         else if offset = 2 then 0xFB
         else if offset = 6 then 0x06
         else if offset = 7 then 0xEE
         else 0)
      else
        let address = 0xDE00 + offset - BANK_RUNTIME_BYTES
        in if address < 0xE600 then bank1_service_code sys ! (address - 0xDE00)
           else if address < 0xEE00 then bank1_resident_code sys ! (address - 0xE600)
           else if address < 0xFB40 then bank1_bdos_code sys ! (address - 0xEE00)
           else if 0xFC03 \<le> address \<and> address < 0xFC06 then [0xC3, 0x40, 0xFB] ! (address - 0xFC03)
           else base_image ! address)"

definition bank_cells :: "bank1_system \<Rightarrow> bytes \<Rightarrow> (u16 \<times> u8) list" where
  "bank_cells sys base_image =
     map (\<lambda>offset. (bank_load_address offset, bank_load_value sys base_image offset)) [0..<BANK_LOAD_BYTES]"

definition finish_bank :: "'d hw \<Rightarrow> bool \<times> 'd board \<Rightarrow> 'd board" where
  "finish_bank hw r = z80_memory_bank_set_available (fst r) (z80_memory_bank_select hw 0 (snd r))"

text \<open>The A16 probe: \<open>None\<close> when the probe byte cannot be restored, otherwise whether the banks are separate.\<close>

definition bank_probe :: "'d hw \<Rightarrow> u8 \<Rightarrow> 'd board \<Rightarrow> bool option \<times> 'd board" where
  "bank_probe hw original b =
     (let b = snd (z80_sram_write_byte hw 0 0x5A b);
          b = z80_memory_bank_select hw 1 b;
          b = snd (z80_sram_write_byte hw 0 0xA5 b);
          b = z80_memory_bank_select hw 0 b
      in case z80_sram_read_byte hw True 0 b of (actual, b) \<Rightarrow>
        let isolated = (actual = Some 0x5A)
        in case z80_sram_write_byte hw 0 original b of
          (False, b) \<Rightarrow> (None, b)
        | (True, b) \<Rightarrow>
          case z80_sram_read_byte hw True 0 b of (actual, b) \<Rightarrow>
            (if actual = Some original then Some isolated else None, b))"

definition z80_sram_prepare_banked_memory ::
    "'d hw \<Rightarrow> bank1_system \<Rightarrow> bytes option \<Rightarrow> 'd board \<Rightarrow> 'd board" where
  "z80_sram_prepare_banked_memory hw sys base_image b =
     (let b = z80_memory_bank_set_available False b;
          b = z80_memory_bank_select hw 0 b
      in case base_image of None \<Rightarrow> b
      | Some img \<Rightarrow>
        case z80_sram_read_byte hw True 0 b of
          (None, b) \<Rightarrow> b
        | (Some original, b) \<Rightarrow>
          case bank_probe hw original b of
            (None, b) \<Rightarrow> b
          | (Some False, b) \<Rightarrow> b
          | (Some True, b) \<Rightarrow>
            finish_bank hw
              (and_then (write_cells hw (bank_cells sys img) (z80_memory_bank_select hw 1 b))
                (verify_cells hw (bank_cells sys img))))"

section \<open>The processor\<close>

definition z80_cpu_fail_closed :: "'d hw \<Rightarrow> 'd board \<Rightarrow> 'd board" where
  "z80_cpu_fail_closed hw b =
     (let b = z80_isolate_buses hw b;
          b = gpio_put hw PIN_RESET_N False b;
          b = gpio_put hw PIN_BUSREQ_N True b;
          b = gpio_put hw PIN_BOOT_READ_DISABLE True b;
          b = gpio_put hw PIN_IO_RELEASE False b
      in z80_clock_stop hw b)"

text \<open>The chain of \<open>||\<close> stops at the first pin that is low.\<close>

fun all_high :: "'d hw \<Rightarrow> nat list \<Rightarrow> 'd board \<Rightarrow> bool \<times> 'd board" where
  "all_high hw [] b = (True, b)"
| "all_high hw (pin # pins) b =
     (case gpio_get hw pin b of (True, b) \<Rightarrow> all_high hw pins b | (False, b) \<Rightarrow> (False, b))"

definition z80_cpu_prepare_loader :: "'d hw \<Rightarrow> 'd board \<Rightarrow> bool \<times> 'd board" where
  "z80_cpu_prepare_loader hw b =
     (let b = z80_memory_bank_set_available False b;
          b = z80_cpu_fail_closed hw b;
          b = z80_reset_with_clock_cycles hw 3 1 b
      in case all_high hw [PIN_BUSACK_N, PIN_IORQ_N, PIN_RD_N, PIN_WR_N] b of
        (False, b) \<Rightarrow> (False, b)
      | (True, b) \<Rightarrow> z80_sram_prepare_loader hw b)"

definition z80_cpu_load_and_verify :: "'d hw \<Rightarrow> bytes option \<Rightarrow> 'd board \<Rightarrow> bool \<times> 'd board" where
  "z80_cpu_load_and_verify hw img b =
     (case img of None \<Rightarrow> (False, b)
      | Some bs \<Rightarrow>
        if length bs = 0 \<or> length bs > 65536 then (False, b)
        else case z80_cpu_prepare_loader hw b of
          (False, b) \<Rightarrow> (False, b)
        | (True, b) \<Rightarrow>
          case and_then (z80_sram_load hw 0 img b) (z80_sram_verify hw 0 img) of
            (True, b) \<Rightarrow> (True, b)
          | (False, b) \<Rightarrow> (False, z80_cpu_fail_closed hw b))"

definition z80_cpu_release_reset_and_run :: "'d hw \<Rightarrow> nat \<Rightarrow> 'd board \<Rightarrow> bool \<times> 'd board" where
  "z80_cpu_release_reset_and_run hw clock_hz b =
     (if clock_hz < Z80_CLOCK_MIN_HZ \<or> clock_hz > Z80_CLOCK_MAX_HZ
      then (False, z80_cpu_fail_closed hw b)
      else
        let b = z80_isolate_buses hw b;
            b = z80_reset_with_clock_cycles hw 6 1 b;
            b = z80_memory_bank_select hw 0 b;
            b = gpio_put hw PIN_BOOT_READ_DISABLE False b;
            b = gpio_put hw PIN_IO_RELEASE False b;
            b = gpio_put hw PIN_BUSREQ_N True b;
            b = gpio_put hw PIN_RESET_N True b;
            b = busy_wait_us_32 hw 1 b
        in case z80_clock_set_hz hw clock_hz b of
          (False, b) \<Rightarrow> (False, z80_cpu_fail_closed hw b)
        | (True, b) \<Rightarrow> (True, b))"

text \<open>
  The two waiting loops poll \<open>BUSACK#\<close> until it has the level \<open>want\<close> (\<open>True\<close>) or the deadline has passed
  (\<open>False\<close>). A loop that polls for ever is \<open>None\<close>.
\<close>

partial_function (option) await_busack ::
    "'d hw \<Rightarrow> bool \<Rightarrow> nat \<Rightarrow> 'd board \<Rightarrow> (bool \<times> 'd board) option" where
  "await_busack hw want deadline b =
     (case gpio_get hw PIN_BUSACK_N b of (v, b) \<Rightarrow>
        if v = want then Some (True, b)
        else case get_absolute_time hw b of (t, b) \<Rightarrow>
          if deadline \<le> t then Some (False, b)
          else await_busack hw want deadline (tight_loop_contents hw b))"

definition z80_cpu_request_bus :: "'d hw \<Rightarrow> nat \<Rightarrow> 'd board \<Rightarrow> (bool \<times> 'd board) option" where
  "z80_cpu_request_bus hw timeout_us b =
     (case get_absolute_time hw b of (t, b) \<Rightarrow>
        let b = z80_isolate_buses hw b;
            b = gpio_put hw PIN_BUSREQ_N False b
        in map_option (\<lambda>(ok, b). if ok then (True, b) else (False, gpio_put hw PIN_BUSREQ_N True b))
             (await_busack hw False (t + timeout_us) b))"

definition z80_cpu_release_bus :: "'d hw \<Rightarrow> nat \<Rightarrow> 'd board \<Rightarrow> (bool \<times> 'd board) option" where
  "z80_cpu_release_bus hw timeout_us b =
     (case get_absolute_time hw b of (t, b) \<Rightarrow>
        let b = z80_isolate_buses hw b;
            b = gpio_put hw PIN_BUSREQ_N True b
        in map_option (\<lambda>(ok, b). if ok then (True, b) else (False, z80_cpu_fail_closed hw b))
             (await_busack hw True (t + timeout_us) b))"

end
