(* ===== verification/Board_Bus.thy ===== *)
theory Board_Bus
  imports Board
begin

text \<open>
  What the pins do, whatever is behind them: the two bus drivers are never on together and the
  microcontroller never drives data pins into the driver that reads the bus (\<open>safe_board\<close>, of every value the pin
  registers ever had); the stopped state (\<open>fail_closed\<close>); the clock search finds the fastest rate that is not
  above the one asked for; and the bus handshake ends when time passes (locale \<open>ticking\<close>, interpreted with the
  device of the loader in \<open>Sram_Loader\<close>).
\<close>

named_theorems bus_safe_intros \<open>operations that keep the bus safe\<close>

section \<open>The registers after a call\<close>

lemma pins_after [simp]:
  "gpio_out (set_pins hw out oe b) = out"
  "gpio_oe (set_pins hw out oe b) = oe"
  "clk_pwm (set_pins hw out oe b) = clk_pwm b"
  "pwm (set_pins hw out oe b) = pwm b"
  "bank_driver (set_pins hw out oe b) = bank_driver b"
  "banked_memory_available (set_pins hw out oe b) = banked_memory_available b"
  "gpio_out (set_clk hw f p b) = gpio_out b"
  "gpio_oe (set_clk hw f p b) = gpio_oe b"
  "clk_pwm (set_clk hw f p b) = f"
  "pwm (set_clk hw f p b) = p"
  "bank_driver (set_clk hw f p b) = bank_driver b"
  "banked_memory_available (set_clk hw f p b) = banked_memory_available b"
  "gpio_out (busy_wait_us_32 hw n b) = gpio_out b"
  "gpio_oe (busy_wait_us_32 hw n b) = gpio_oe b"
  "clk_pwm (busy_wait_us_32 hw n b) = clk_pwm b"
  "pwm (busy_wait_us_32 hw n b) = pwm b"
  "bank_driver (busy_wait_us_32 hw n b) = bank_driver b"
  "banked_memory_available (busy_wait_us_32 hw n b) = banked_memory_available b"
  by (simp_all add: set_pins_def set_clk_def busy_wait_us_32_def)

lemmas pin_bits = bit_set_bit_iff bit_unset_bit_iff bit_or_iff bit_and_iff bit_not_iff bit_push_bit_iff

lemma out_after_put [simp]:
  "bit (gpio_out (gpio_put hw pin v b)) k \<longleftrightarrow> (if k = pin \<and> pin < 32 then v else bit (gpio_out b) k)"
  "gpio_oe (gpio_put hw pin v b) = gpio_oe b"
  "clk_pwm (gpio_put hw pin v b) = clk_pwm b"
  "pwm (gpio_put hw pin v b) = pwm b"
  "bank_driver (gpio_put hw pin v b) = bank_driver b"
  by (auto simp: gpio_put_def pin_bits impossible_bit dest: bit_imp_le_length)

section \<open>No contention on the data bus\<close>

text \<open>An active-low output is asserted when the pin is driven and low.\<close>

definition asserted :: "nat \<Rightarrow> u32 \<times> u32 \<Rightarrow> bool" where
  "asserted pin p \<longleftrightarrow> bit (snd p) pin \<and> \<not> bit (fst p) pin"

definition bus_safe :: "u32 \<times> u32 \<Rightarrow> bool" where
  "bus_safe p \<longleftrightarrow>
     \<not> (asserted PIN_DATA_UP_OE_N p \<and> asserted PIN_DATA_DOWN_OE_N p) \<and>
     (asserted PIN_DATA_DOWN_OE_N p \<longrightarrow> (\<forall>i \<in> {10..<18}. \<not> bit (snd p) i))"

definition safe_board :: "'d board \<Rightarrow> bool" where
  "safe_board b \<longleftrightarrow> bus_safe (gpio_out b, gpio_oe b) \<and> (\<forall>p \<in> set (pin_trace b). bus_safe p)"

lemma safe_set_pins: "safe_board b \<Longrightarrow> bus_safe (out, oe) \<Longrightarrow> safe_board (set_pins hw out oe b)"
  by (simp add: safe_board_def set_pins_def)

lemma safe_same_pins:
  assumes "safe_board b"
    and "gpio_out b' = gpio_out b" "gpio_oe b' = gpio_oe b" "pin_trace b' = pin_trace b"
  shows "safe_board b'"
  using assms by (simp add: safe_board_def)

lemma safe_now: "safe_board b \<Longrightarrow> bus_safe (gpio_out b, gpio_oe b)"
  by (simp add: safe_board_def)

lemma safe_gpio_put [bus_safe_intros]:
  assumes "safe_board b" and "pin \<notin> {PIN_DATA_UP_OE_N, PIN_DATA_DOWN_OE_N} \<or> v"
  shows "safe_board (gpio_put hw pin v b)"
  unfolding gpio_put_def using safe_now [OF assms(1)] assms(2)
  by (intro safe_set_pins [OF assms(1)]) (auto simp: bus_safe_def asserted_def pin_bits)

lemma safe_set_clk [bus_safe_intros]: "safe_board b \<Longrightarrow> safe_board (set_clk hw f p b)"
  by (rule safe_same_pins) (simp_all add: set_clk_def)

lemma safe_busy_wait [bus_safe_intros]: "safe_board b \<Longrightarrow> safe_board (busy_wait_us_32 hw n b)"
  by (rule safe_same_pins) (simp_all add: busy_wait_us_32_def)

lemma safe_set_dir [bus_safe_intros]:
  assumes "safe_board b"
    and "out \<Longrightarrow> pin \<notin> {10..<18} \<and> pin \<notin> {PIN_DATA_UP_OE_N, PIN_DATA_DOWN_OE_N} \<or> bit (gpio_out b) pin \<and> pin \<in> {PIN_DATA_UP_OE_N, PIN_DATA_DOWN_OE_N}"
  shows "safe_board (gpio_set_dir hw pin out b)"
  unfolding gpio_set_dir_def using safe_now [OF assms(1)] assms(2)
  by (intro safe_set_pins [OF assms(1)]) (auto simp: bus_safe_def asserted_def pin_bits)

lemma safe_init [bus_safe_intros]: "safe_board b \<Longrightarrow> safe_board (gpio_init hw pin b)"
proof -
  assume s: "safe_board b"
  let ?b = "gpio_set_dir hw pin False b"
  have sd: "safe_board ?b"
    by (rule safe_set_dir [OF s]) simp
  moreover have "\<not> bit (gpio_oe ?b) pin"
    by (simp add: gpio_set_dir_def set_pins_def pin_bits)
  ultimately have "safe_board (gpio_put hw pin False ?b)"
    unfolding gpio_put_def using safe_now [OF sd]
    by (intro safe_set_pins [OF sd]) (auto simp: bus_safe_def asserted_def pin_bits)
  then show ?thesis
    by (auto simp: gpio_init_def Let_def intro: safe_set_clk)
qed

lemma safe_output_with_initial_level [bus_safe_intros]:
  assumes "safe_board b" and "pin \<notin> {10..<18}"
    and "pin \<notin> {PIN_DATA_UP_OE_N, PIN_DATA_DOWN_OE_N} \<or> level"
  shows "safe_board (output_with_initial_level hw pin level b)"
  unfolding output_with_initial_level_def using assms
  by (intro safe_set_dir safe_gpio_put safe_init) auto

lemma safe_input_with_no_pull [bus_safe_intros]: "safe_board b \<Longrightarrow> safe_board (input_with_no_pull hw pin b)"
  unfolding input_with_no_pull_def gpio_disable_pulls_def
  by (rule safe_same_pins [OF safe_set_dir [OF safe_init]]) simp_all

lemma safe_isolate_buses [bus_safe_intros]: "safe_board b \<Longrightarrow> safe_board (z80_isolate_buses hw b)"
  unfolding z80_isolate_buses_def by (intro safe_gpio_put) simp_all

lemma safe_memory_bank_select [bus_safe_intros]:
  "safe_board b \<Longrightarrow> safe_board (z80_memory_bank_select hw bank b)"
  unfolding z80_memory_bank_select_def
  by (auto split: option.split intro!: safe_gpio_put elim!: safe_same_pins)

lemma safe_data_bus_isolate [bus_safe_intros]: "safe_board b \<Longrightarrow> safe_board (z80_data_bus_isolate hw b)"
  unfolding z80_data_bus_isolate_def gpio_set_mask_def
  by (rule safe_set_pins) (auto simp: bus_safe_def asserted_def pin_bits)

lemma isolated_data_bus:
  "bit (gpio_out (z80_data_bus_isolate hw b)) PIN_DATA_UP_OE_N"
  "bit (gpio_out (z80_data_bus_isolate hw b)) PIN_DATA_DOWN_OE_N"
  by (simp_all add: z80_data_bus_isolate_def gpio_set_mask_def set_pins_def pin_bits)

lemma data_mask_bit: "bit DATA_MASK k \<longleftrightarrow> k \<in> {10..<18}"
proof -
  have "(0xFF :: u32) = mask 8"
    by (simp add: mask_eq_exp_minus_1)
  then have "DATA_MASK = push_bit 10 (mask 8)"
    unfolding DATA_MASK_def by (rule arg_cong)
  show ?thesis
    unfolding \<open>DATA_MASK = push_bit 10 (mask 8)\<close> by (auto simp: bit_push_bit_iff bit_mask_iff)
qed

text \<open>While both drivers are off, the data pins may change in any way.\<close>

lemma safe_data_pins:
  assumes "safe_board b" and "bit (gpio_out b) PIN_DATA_UP_OE_N" and "bit (gpio_out b) PIN_DATA_DOWN_OE_N"
  shows "safe_board (gpio_put_masked hw DATA_MASK v b)"
    and "safe_board (gpio_set_dir_masked hw DATA_MASK v b)"
  unfolding gpio_put_masked_def gpio_set_dir_masked_def using assms
  by (intro safe_set_pins; auto simp: bus_safe_def asserted_def pin_bits data_mask_bit)+

lemma masked_after [simp]:
  "bit (gpio_out (gpio_put_masked hw DATA_MASK v b)) k \<longleftrightarrow>
     (if k \<in> {10..<18} then bit v k else bit (gpio_out b) k)"
  "gpio_oe (gpio_put_masked hw m v b) = gpio_oe b"
  "gpio_out (gpio_set_dir_masked hw m v b) = gpio_out b"
  "bit (gpio_oe (gpio_set_dir_masked hw DATA_MASK v b)) k \<longleftrightarrow>
     (if k \<in> {10..<18} then bit v k else bit (gpio_oe b) k)"
  by (auto simp: gpio_put_masked_def gpio_set_dir_masked_def pin_bits data_mask_bit dest: bit_imp_le_length)

lemma safe_drive_up:
  assumes "safe_board b" and "bit (gpio_out b) PIN_DATA_DOWN_OE_N"
  shows "safe_board (gpio_put hw PIN_DATA_UP_OE_N False b)"
  using assms unfolding gpio_put_def
  by (intro safe_set_pins) (auto simp: bus_safe_def asserted_def pin_bits)

lemma safe_drive_down:
  assumes "safe_board b" and "bit (gpio_out b) PIN_DATA_UP_OE_N"
    and "\<forall>i \<in> {10..<18}. \<not> bit (gpio_oe b) i"
  shows "safe_board (gpio_put hw PIN_DATA_DOWN_OE_N False b)"
  using assms unfolding gpio_put_def
  by (intro safe_set_pins) (auto simp: bus_safe_def asserted_def pin_bits)

lemma safe_data_bus_drive [bus_safe_intros]: "safe_board b \<Longrightarrow> safe_board (z80_data_bus_drive hw v b)"
  unfolding z80_data_bus_drive_def Let_def
  by (intro safe_drive_up safe_busy_wait safe_data_pins safe_data_bus_isolate) (simp_all add: isolated_data_bus)

lemma safe_data_bus_prepare_input [bus_safe_intros]:
  "safe_board b \<Longrightarrow> safe_board (z80_data_bus_prepare_input hw b)"
  unfolding z80_data_bus_prepare_input_def Let_def
  by (intro safe_drive_down safe_busy_wait safe_data_pins safe_data_bus_isolate) (simp_all add: isolated_data_bus)

lemma safe_gpio_get_all [bus_safe_intros]: "safe_board b \<Longrightarrow> safe_board (snd (gpio_get_all hw b))"
  unfolding gpio_get_all_def by (auto split: prod.split elim!: safe_same_pins)

lemma safe_gpio_get [bus_safe_intros]: "safe_board b \<Longrightarrow> safe_board (snd (gpio_get hw pin b))"
  unfolding gpio_get_def using safe_gpio_get_all [of b hw] by (auto split: prod.split)

lemma safe_data_bus_sample [bus_safe_intros]: "safe_board b \<Longrightarrow> safe_board (snd (z80_data_bus_sample hw b))"
  unfolding z80_data_bus_sample_def using safe_gpio_get_all [of b hw] by (auto split: prod.split)

lemma safe_port_bus_sample [bus_safe_intros]: "safe_board b \<Longrightarrow> safe_board (snd (z80_port_bus_sample hw b))"
  unfolding z80_port_bus_sample_def using safe_gpio_get_all [of b hw] by (auto split: prod.split)

lemma safe_clock_stop [bus_safe_intros]: "safe_board b \<Longrightarrow> safe_board (z80_clock_stop hw b)"
  unfolding z80_clock_stop_def by (rule safe_set_clk)

lemma safe_clock_resume [bus_safe_intros]: "safe_board b \<Longrightarrow> safe_board (z80_clock_resume hw b)"
  unfolding z80_clock_resume_def Let_def by (intro bus_safe_intros)

lemma safe_prepare_stepping [bus_safe_intros]:
  "safe_board b \<Longrightarrow> safe_board (z80_clock_prepare_stepping hw b)"
  unfolding z80_clock_prepare_stepping_def Let_def by (auto intro!: bus_safe_intros)

lemma safe_step_prepared [bus_safe_intros]:
  "safe_board b \<Longrightarrow> safe_board (z80_clock_step_prepared hw half b)"
  unfolding z80_clock_step_prepared_def Let_def by (auto intro!: bus_safe_intros)

lemma safe_one_cycle [bus_safe_intros]: "safe_board b \<Longrightarrow> safe_board (z80_clock_one_cycle hw half b)"
  unfolding z80_clock_one_cycle_def by (intro bus_safe_intros)

lemma safe_cycles [bus_safe_intros]: "safe_board b \<Longrightarrow> safe_board ((z80_clock_one_cycle hw half ^^ n) b)"
  by (induction n) (auto intro: safe_one_cycle)

lemma safe_pulse_clock [bus_safe_intros]: "safe_board b \<Longrightarrow> safe_board (pulse_clock hw n b)"
  unfolding pulse_clock_def by (rule safe_cycles)

lemma safe_reset_cycles [bus_safe_intros]:
  "safe_board b \<Longrightarrow> safe_board (z80_reset_with_clock_cycles hw n half b)"
  unfolding z80_reset_with_clock_cycles_def by (auto intro!: bus_safe_intros)

lemma safe_set_available [bus_safe_intros]:
  "safe_board b \<Longrightarrow> safe_board (z80_memory_bank_set_available a b)"
  unfolding z80_memory_bank_set_available_def by (erule safe_same_pins) simp_all

lemma safe_fail_closed [bus_safe_intros]: "safe_board b \<Longrightarrow> safe_board (z80_cpu_fail_closed hw b)"
  unfolding z80_cpu_fail_closed_def Let_def by (auto intro!: bus_safe_intros)

lemma safe_sram_prepare_loader [bus_safe_intros]:
  "safe_board b \<Longrightarrow> safe_board (snd (z80_sram_prepare_loader hw b))"
  unfolding z80_sram_prepare_loader_def Let_def by (auto intro!: bus_safe_intros)

lemma safe_inject_read [bus_safe_intros]: "safe_board b \<Longrightarrow> safe_board (inject_read hw v opcode b)"
  unfolding inject_read_def Let_def by (auto intro!: bus_safe_intros)

lemma safe_load_hl [bus_safe_intros]: "safe_board b \<Longrightarrow> safe_board (load_hl hw a b)"
  unfolding load_hl_def by (intro bus_safe_intros)

lemma safe_write_byte [bus_safe_intros]: "safe_board b \<Longrightarrow> safe_board (snd (z80_sram_write_byte hw a v b))"
  unfolding z80_sram_write_byte_def Let_def by (auto intro!: bus_safe_intros)

lemma safe_read_byte [bus_safe_intros]: "safe_board b \<Longrightarrow> safe_board (snd (z80_sram_read_byte hw f a b))"
  unfolding z80_sram_read_byte_def Let_def
  by (auto intro!: bus_safe_intros simp: split_beta)

text \<open>A result paired with a board: the rule for sequencing, and that a write never fails.\<close>

lemma sram_write_true [simp]: "fst (z80_sram_write_byte hw a v b)"
  by (simp add: z80_sram_write_byte_def Let_def)

lemma sram_write_pair: "z80_sram_write_byte hw a v b = (True, snd (z80_sram_write_byte hw a v b))"
  by (simp add: z80_sram_write_byte_def Let_def)

lemma write_cells_fold:
  "write_cells hw cells b = (True, fold (\<lambda>(a, v) b. snd (z80_sram_write_byte hw a v b)) cells b)"
proof (induction cells arbitrary: b)
  case (Cons c cells)
  obtain a v where c: "c = (a, v)"
    by fastforce
  obtain b' where b': "z80_sram_write_byte hw a v b = (True, b')"
    using sram_write_pair by blast
  show ?case
    unfolding c by (simp add: b' Cons)
qed simp

lemma safe_write_cells [bus_safe_intros]: "safe_board b \<Longrightarrow> safe_board (snd (write_cells hw cells b))"
  unfolding write_cells_fold snd_conv
  by (induction cells arbitrary: b) (auto intro: safe_write_byte)

lemma safe_verify_cells [bus_safe_intros]: "safe_board b \<Longrightarrow> safe_board (snd (verify_cells hw cells b))"
proof (induction hw cells b rule: verify_cells.induct)
  case (2 hw a v rest b)
  obtain r b' where r: "z80_sram_read_byte hw True a b = (r, b')"
    by fastforce
  with safe_read_byte [OF "2.prems", of hw True a] 2 show ?case
    by (cases r) auto
qed simp

lemma safe_and_then [bus_safe_intros]:
  assumes "safe_board (snd r)" and "\<And>b. safe_board b \<Longrightarrow> safe_board (snd (k b))"
  shows "safe_board (snd (and_then r k))"
  using assms by (cases r) (auto simp: and_then_def split: bool.split)

lemma and_then_case:
  "(case r of (True, b) \<Rightarrow> k b | (False, b) \<Rightarrow> l b) = (if fst r then k (snd r) else l (snd r))"
  by (cases r) (simp split: bool.split)

lemma safe_report_failure [bus_safe_intros]: "safe_board b \<Longrightarrow> safe_board (snd (report_failure hw b))"
  by (auto simp: report_failure_def intro: safe_isolate_buses)

lemma safe_sram_load [bus_safe_intros]: "safe_board b \<Longrightarrow> safe_board (snd (z80_sram_load hw a data b))"
  unfolding z80_sram_load_def and_then_case
  by (auto split: option.split intro!: bus_safe_intros)

lemma safe_sram_verify [bus_safe_intros]: "safe_board b \<Longrightarrow> safe_board (snd (z80_sram_verify hw a data b))"
  unfolding z80_sram_verify_def and_then_case
  by (auto split: option.split intro!: bus_safe_intros)

lemma safe_pattern_test [bus_safe_intros]: "safe_board b \<Longrightarrow> safe_board (snd (z80_sram_pattern_test hw c b))"
  unfolding z80_sram_pattern_test_def and_then_case Let_def
  by (auto intro!: bus_safe_intros split: prod.split bool.split)

lemma safe_march_read_write [bus_safe_intros]:
  "safe_board b \<Longrightarrow> safe_board (snd (march_read_write hw a e r b))"
  unfolding march_read_write_def
  using safe_read_byte [of b hw True a]
  by (auto split: prod.split option.split intro!: safe_report_failure safe_write_byte)

lemma safe_march_cells [bus_safe_intros]: "safe_board b \<Longrightarrow> safe_board (snd (march_cells hw e r as b))"
  by (induction as arbitrary: b) (auto simp: and_then_case intro: safe_march_read_write)

lemma safe_march_test [bus_safe_intros]: "safe_board b \<Longrightarrow> safe_board (snd (z80_sram_march_test hw b))"
  unfolding z80_sram_march_test_def and_then_case
  by (intro safe_and_then safe_write_cells safe_march_cells) (auto intro!: bus_safe_intros)

lemma safe_bank_probe [bus_safe_intros]: "safe_board b \<Longrightarrow> safe_board (snd (bank_probe hw v b))"
  unfolding bank_probe_def Let_def and_then_case
  by (auto simp: split_beta intro!: bus_safe_intros split: prod.split bool.split)

lemma option_case_pair:
  "(case r of (None, b) \<Rightarrow> k b | (Some y, b) \<Rightarrow> l y b) =
   (case fst r of None \<Rightarrow> k (snd r) | Some y \<Rightarrow> l y (snd r))"
  by (cases r) (simp split: option.split)

lemma safe_finish_bank [bus_safe_intros]: "safe_board (snd r) \<Longrightarrow> safe_board (finish_bank hw r)"
  unfolding finish_bank_def by (intro bus_safe_intros)

lemma safe_prepare_banked_memory [bus_safe_intros]:
  assumes "safe_board b"
  shows "safe_board (z80_sram_prepare_banked_memory hw sys img b)"
proof -
  let ?b0 = "z80_memory_bank_select hw 0 (z80_memory_bank_set_available False b)"
  have b0: "safe_board ?b0"
    using assms by (intro bus_safe_intros)
  obtain r b1 where r: "z80_sram_read_byte hw True 0 ?b0 = (r, b1)"
    by fastforce
  with safe_read_byte [OF b0, of hw True 0] have b1: "safe_board b1"
    by simp
  show ?thesis
  proof (cases r)
    case (Some original)
    obtain q b2 where q: "bank_probe hw original b1 = (q, b2)"
      by fastforce
    with safe_bank_probe [OF b1, of hw original] have "safe_board b2"
      by simp
    then show ?thesis
      unfolding z80_sram_prepare_banked_memory_def Let_def using b0
      by (auto simp: r q Some split: option.split bool.split intro!: bus_safe_intros)
  qed (use b0 b1 in \<open>auto simp: z80_sram_prepare_banked_memory_def Let_def r split: option.split\<close>)
qed

lemma prod_bool_case:
  "(case r of (False, b) \<Rightarrow> l b | (True, b) \<Rightarrow> k b) = (if fst r then k (snd r) else l (snd r))"
  by (cases r) (simp split: bool.split)

lemma safe_all_high [bus_safe_intros]: "safe_board b \<Longrightarrow> safe_board (snd (all_high hw pins b))"
  by (induction pins arbitrary: b) (auto simp: and_then_case intro: safe_gpio_get)

lemma safe_cpu_prepare_loader [bus_safe_intros]:
  "safe_board b \<Longrightarrow> safe_board (snd (z80_cpu_prepare_loader hw b))"
  unfolding z80_cpu_prepare_loader_def Let_def prod_bool_case
  by (auto intro!: bus_safe_intros simp del: all_high.simps)

lemma safe_load_and_verify [bus_safe_intros]:
  assumes "safe_board b"
  shows "safe_board (snd (z80_cpu_load_and_verify hw img b))"
proof -
  obtain ok b1 where p: "z80_cpu_prepare_loader hw b = (ok, b1)"
    by fastforce
  with safe_cpu_prepare_loader [OF assms, of hw] have "safe_board b1"
    by simp
  then show ?thesis
    unfolding z80_cpu_load_and_verify_def and_then_case using assms
    by (auto simp: p split: option.split intro!: bus_safe_intros)
qed

lemma safe_clock_rate [bus_safe_intros]: "safe_board b \<Longrightarrow> safe_board (b\<lparr>actual_clock_hz := hz\<rparr>)"
  by (erule safe_same_pins) simp_all

lemma safe_clock_set_hz [bus_safe_intros]: "safe_board b \<Longrightarrow> safe_board (snd (z80_clock_set_hz hw hz b))"
  unfolding z80_clock_set_hz_def Let_def
  by (auto split: prod.split intro!: bus_safe_intros)

lemma safe_release_reset_and_run [bus_safe_intros]:
  "safe_board b \<Longrightarrow> safe_board (snd (z80_cpu_release_reset_and_run hw hz b))"
  unfolding z80_cpu_release_reset_and_run_def Let_def prod_bool_case
  by (auto intro!: bus_safe_intros)

lemma safe_safe_startup [bus_safe_intros]: "safe_board b \<Longrightarrow> safe_board (z80_safe_startup hw b)"
proof -
  have inputs: "safe_board (fold (input_with_no_pull hw) pins b)" if "safe_board b" for pins and b :: "'a board"
    using that by (induction pins arbitrary: b) (auto intro: safe_input_with_no_pull)
  have flags: "safe_board (b\<lparr>bank_driver := d, banked_memory_available := a\<rparr>)" if "safe_board b" for b :: "'a board" and d a
    using that by (rule safe_same_pins) simp_all
  assume "safe_board b"
  then show ?thesis
    unfolding z80_safe_startup_def Let_def
    by (intro inputs flags safe_output_with_initial_level) auto
qed

lemma safe_get_absolute_time [bus_safe_intros]: "safe_board b \<Longrightarrow> safe_board (snd (get_absolute_time hw b))"
  unfolding get_absolute_time_def by (auto split: prod.split elim!: safe_same_pins)

lemma safe_tight_loop [bus_safe_intros]: "safe_board b \<Longrightarrow> safe_board (tight_loop_contents hw b)"
  unfolding tight_loop_contents_def by (erule safe_same_pins) simp_all

text \<open>What every step of the polling loop keeps, the loop keeps.\<close>

lemma await_busack_keeps:
  assumes "await_busack hw want deadline b = Some r" and "P b"
    and get: "\<And>b. P b \<Longrightarrow> P (snd (gpio_get hw PIN_BUSACK_N b))"
    and now: "\<And>b. P b \<Longrightarrow> P (snd (get_absolute_time hw b))"
    and spin: "\<And>b. P b \<Longrightarrow> P (tight_loop_contents hw b)"
  shows "P (snd r)"
proof -
  have "hw' = hw \<longrightarrow> P b \<longrightarrow> P (snd r)" if "await_busack hw' want deadline b = Some r" for hw'
    using that
  proof (rule await_busack.raw_induct [where P = "\<lambda>hw' _ _ b r. hw' = hw \<longrightarrow> P b \<longrightarrow> P (snd r)", rotated],
      intro impI, goal_cases)
    case (1 rec hw' want deadline b r)
    obtain v b1 where g: "gpio_get hw PIN_BUSACK_N b = (v, b1)"
      by fastforce
    obtain t b2 where n: "get_absolute_time hw b1 = (t, b2)"
      by fastforce
    have "P b1" and "P b2"
      using get [OF \<open>P b\<close>] now [of b1] g n by auto
    then show ?case
      using 1 spin [of b2] by (auto simp: g n split: if_splits)
  qed
  with assms(1,2) show ?thesis
    by blast
qed

lemma safe_await_busack:
  "await_busack hw want deadline b = Some r \<Longrightarrow> safe_board b \<Longrightarrow> safe_board (snd r)"
  by (rule await_busack_keeps [where P = safe_board]) (auto intro: bus_safe_intros)

lemma safe_bus_handshake:
  assumes "safe_board b"
  shows "z80_cpu_request_bus hw t b = Some r \<Longrightarrow> safe_board (snd r)"
    and "z80_cpu_release_bus hw t b = Some r \<Longrightarrow> safe_board (snd r)"
proof -
  have b: "safe_board (snd (get_absolute_time hw b))"
    by (rule safe_get_absolute_time [OF assms])
  then show "z80_cpu_request_bus hw t b = Some r \<Longrightarrow> safe_board (snd r)"
    unfolding z80_cpu_request_bus_def Let_def
    by (auto split: prod.splits intro!: bus_safe_intros dest!: safe_await_busack)
  from b show "z80_cpu_release_bus hw t b = Some r \<Longrightarrow> safe_board (snd r)"
    unfolding z80_cpu_release_bus_def Let_def
    by (auto split: prod.splits intro!: bus_safe_intros dest!: safe_await_busack)
qed

text \<open>The public operations of the five files, in any order, from the start-up of a board whose pins are inputs.\<close>

inductive board_reachable :: "'d hw \<Rightarrow> 'd board \<Rightarrow> bool" for hw :: "'d hw" where
  start: "gpio_oe b = 0 \<Longrightarrow> pin_trace b = [] \<Longrightarrow> board_reachable hw (z80_safe_startup hw b)"
| restart: "board_reachable hw b \<Longrightarrow> board_reachable hw (z80_safe_startup hw b)"
| isolate: "board_reachable hw b \<Longrightarrow> board_reachable hw (z80_data_bus_isolate hw b)"
| drive: "board_reachable hw b \<Longrightarrow> board_reachable hw (z80_data_bus_drive hw v b)"
| receive: "board_reachable hw b \<Longrightarrow> board_reachable hw (z80_data_bus_prepare_input hw b)"
| sample: "board_reachable hw b \<Longrightarrow> board_reachable hw (snd (z80_data_bus_sample hw b))"
| cycle: "board_reachable hw b \<Longrightarrow> board_reachable hw (z80_clock_one_cycle hw half b)"
| resume: "board_reachable hw b \<Longrightarrow> board_reachable hw (z80_clock_resume hw b)"
| set_hz: "board_reachable hw b \<Longrightarrow> board_reachable hw (snd (z80_clock_set_hz hw hz b))"
| bank: "board_reachable hw b \<Longrightarrow> board_reachable hw (z80_memory_bank_select hw bank b)"
| loader: "board_reachable hw b \<Longrightarrow> board_reachable hw (snd (z80_cpu_prepare_loader hw b))"
| write_byte: "board_reachable hw b \<Longrightarrow> board_reachable hw (snd (z80_sram_write_byte hw a v b))"
| read_byte: "board_reachable hw b \<Longrightarrow> board_reachable hw (snd (z80_sram_read_byte hw buf a b))"
| load: "board_reachable hw b \<Longrightarrow> board_reachable hw (snd (z80_sram_load hw a data b))"
| verify: "board_reachable hw b \<Longrightarrow> board_reachable hw (snd (z80_sram_verify hw a data b))"
| pattern: "board_reachable hw b \<Longrightarrow> board_reachable hw (snd (z80_sram_pattern_test hw c b))"
| march: "board_reachable hw b \<Longrightarrow> board_reachable hw (snd (z80_sram_march_test hw b))"
| banked: "board_reachable hw b \<Longrightarrow> board_reachable hw (z80_sram_prepare_banked_memory hw sys img b)"
| boot: "board_reachable hw b \<Longrightarrow> board_reachable hw (snd (z80_cpu_load_and_verify hw img b))"
| run: "board_reachable hw b \<Longrightarrow> board_reachable hw (snd (z80_cpu_release_reset_and_run hw hz b))"
| request: "board_reachable hw b \<Longrightarrow> z80_cpu_request_bus hw t b = Some r \<Longrightarrow> board_reachable hw (snd r)"
| release: "board_reachable hw b \<Longrightarrow> z80_cpu_release_bus hw t b = Some r \<Longrightarrow> board_reachable hw (snd r)"
| close: "board_reachable hw b \<Longrightarrow> board_reachable hw (z80_cpu_fail_closed hw b)"

lemma reachable_safe: "board_reachable hw b \<Longrightarrow> safe_board b"
proof (induction rule: board_reachable.induct)
  case (start b)
  then show ?case
    by (intro safe_safe_startup) (simp add: safe_board_def bus_safe_def asserted_def)
qed (auto intro: bus_safe_intros dest: safe_bus_handshake)


section \<open>The stopped processor\<close>

definition fail_closed :: "'d board \<Rightarrow> bool" where
  "fail_closed b \<longleftrightarrow>
     bit (gpio_out b) PIN_DATA_UP_OE_N \<and> bit (gpio_out b) PIN_DATA_DOWN_OE_N \<and>
     \<not> bit (gpio_out b) PIN_RESET_N \<and> bit (gpio_out b) PIN_BUSREQ_N \<and>
     bit (gpio_out b) PIN_BOOT_READ_DISABLE \<and> \<not> bit (gpio_out b) PIN_IO_RELEASE \<and>
     \<not> pwm_enabled (pwm b)"

lemma fail_closed_cpu [simp]: "fail_closed (z80_cpu_fail_closed hw b)"
  by (simp add: fail_closed_def z80_cpu_fail_closed_def z80_isolate_buses_def z80_clock_stop_def Let_def)

lemma isolate_buses_out [simp]:
  "bit (gpio_out (z80_isolate_buses hw b)) k \<longleftrightarrow>
     k = PIN_DATA_UP_OE_N \<or> k = PIN_DATA_DOWN_OE_N \<or> bit (gpio_out b) k"
  "gpio_oe (z80_isolate_buses hw b) = gpio_oe b"
  "pwm (z80_isolate_buses hw b) = pwm b"
  by (auto simp: z80_isolate_buses_def)

lemma reads_keep_registers [simp]:
  "gpio_out (snd (gpio_get_all hw b)) = gpio_out b"
  "gpio_out (snd (gpio_get hw pin b)) = gpio_out b"
  "gpio_out (snd (get_absolute_time hw b)) = gpio_out b"
  "gpio_out (tight_loop_contents hw b) = gpio_out b"
  "pwm (snd (gpio_get_all hw b)) = pwm b"
  "pwm (snd (gpio_get hw pin b)) = pwm b"
  "pwm (snd (get_absolute_time hw b)) = pwm b"
  "pwm (tight_loop_contents hw b) = pwm b"
  by (simp_all add: gpio_get_all_def gpio_get_def get_absolute_time_def tight_loop_contents_def split: prod.split)

lemma await_busack_out: "await_busack hw want deadline b = Some r \<Longrightarrow> gpio_out (snd r) = gpio_out b"
  by (rule await_busack_keeps [where P = "\<lambda>b'. gpio_out b' = gpio_out b"]) auto

section \<open>The bus handshake\<close>

locale ticking =
  fixes hw :: "'d hw" and time_of :: "'d \<Rightarrow> nat"
  assumes now_is_time: "fst (hw_now hw d) = time_of d"
    and now_no_rewind: "time_of d \<le> time_of (snd (hw_now hw d))"
    and in_no_rewind: "time_of d \<le> time_of (snd (hw_in hw out oe d))"
    and spin_advances: "time_of d < time_of (hw_spin hw d)"
    and wait_advances: "time_of d + us \<le> time_of (hw_wait hw us d)"
    and pins_no_rewind: "time_of d \<le> time_of (hw_pins hw out oe d)"
begin

lemma await_busack_returns: "\<exists>r. await_busack hw want deadline b = Some r"
proof (induction "deadline - time_of (device b)" arbitrary: b rule: less_induct)
  case less
  obtain v b1 where g: "gpio_get hw PIN_BUSACK_N b = (v, b1)"
    by fastforce
  obtain t b2 where n: "get_absolute_time hw b1 = (t, b2)"
    by fastforce
  have t: "t = time_of (device b1)" and le: "time_of (device b) \<le> time_of (device b1)"
    and "time_of (device b1) \<le> time_of (device b2)"
    using g n in_no_rewind [of "device b" "gpio_out b" "gpio_oe b"] now_is_time [of "device b1"] now_no_rewind [of "device b1"]
    by (auto simp: gpio_get_def gpio_get_all_def get_absolute_time_def split: prod.splits)
  then have "time_of (device b1) < time_of (device (tight_loop_contents hw b2))"
    using spin_advances [of "device b2"] by (simp add: tight_loop_contents_def)
  then have "\<exists>r. await_busack hw want deadline (tight_loop_contents hw b2) = Some r" if "\<not> deadline \<le> t"
    using less [of "tight_loop_contents hw b2"] that t le by simp
  then show ?case
    by (subst await_busack.simps) (auto simp: g n)
qed

lemma handshake_returns:
  "\<exists>ok b'. z80_cpu_request_bus hw t b = Some (ok, b')"
  "\<exists>ok b'. z80_cpu_release_bus hw t b = Some (ok, b')"
proof -
  obtain now b0 where n: "get_absolute_time hw b = (now, b0)"
    by fastforce
  obtain r where r: "await_busack hw False (now + t) (gpio_put hw PIN_BUSREQ_N False (z80_isolate_buses hw b0)) = Some r"
    using await_busack_returns by blast
  then show "\<exists>ok b'. z80_cpu_request_bus hw t b = Some (ok, b')"
    by (cases r; cases "fst r") (auto simp: z80_cpu_request_bus_def n)
  obtain r' where r': "await_busack hw True (now + t) (gpio_put hw PIN_BUSREQ_N True (z80_isolate_buses hw b0)) = Some r'"
    using await_busack_returns by blast
  then show "\<exists>ok b'. z80_cpu_release_bus hw t b = Some (ok, b')"
    by (cases r'; cases "fst r'") (auto simp: z80_cpu_release_bus_def n)
qed

end

lemma request_bus_pins:
  assumes "z80_cpu_request_bus hw t b = Some (ok, b')"
  shows "bit (gpio_out b') PIN_BUSREQ_N \<longleftrightarrow> \<not> ok"
    and "bit (gpio_out b') PIN_DATA_UP_OE_N" and "bit (gpio_out b') PIN_DATA_DOWN_OE_N"
  using assms unfolding z80_cpu_request_bus_def Let_def
  by (auto split: prod.splits if_splits dest!: await_busack_out)

lemma release_bus_pins:
  assumes "z80_cpu_release_bus hw t b = Some (ok, b')"
  shows "bit (gpio_out b') PIN_BUSREQ_N" and "\<not> ok \<Longrightarrow> fail_closed b'"
  using assms fail_closed_cpu [of hw] unfolding z80_cpu_release_bus_def Let_def
  by (auto split: prod.splits if_splits dest!: await_busack_out simp: fail_closed_def)

text \<open>
  C39. Asking for the bus and giving it back both return, with any timeout, as long as time passes. After a granted
  request \<open>BUSREQ#\<close> is held low with both bus drivers off; a request that is not granted is withdrawn. After a release
  \<open>BUSREQ#\<close> is high, and a Z80 that does not take the bus back is stopped in reset.
\<close>

theorem bus_handshake:
  assumes "ticking hw time_of"
  shows "(\<exists>ok b'. z80_cpu_request_bus hw t b = Some (ok, b') \<and>
      (bit (gpio_out b') PIN_BUSREQ_N \<longleftrightarrow> \<not> ok) \<and>
      bit (gpio_out b') PIN_DATA_UP_OE_N \<and> bit (gpio_out b') PIN_DATA_DOWN_OE_N) \<and>
    (\<exists>ok b'. z80_cpu_release_bus hw t b = Some (ok, b') \<and>
      bit (gpio_out b') PIN_BUSREQ_N \<and> (ok \<or> fail_closed b'))"
proof -
  obtain ok b1 where 1: "z80_cpu_request_bus hw t b = Some (ok, b1)"
    using ticking.handshake_returns(1) [OF assms] by blast
  obtain ok' b2 where 2: "z80_cpu_release_bus hw t b = Some (ok', b2)"
    using ticking.handshake_returns(2) [OF assms] by blast
  show ?thesis
    using 1 2 request_bus_pins [OF 1] release_bus_pins [OF 2] by blast
qed

section \<open>The fastest rate\<close>

lemma round_up_even: "(q + 1) - (q + 1) mod 2 = 2 * ((q + 1) div 2)" for q :: nat
  by presburger

lemma ceiling_div: "(sys + d - 1) div d \<le> c \<longleftrightarrow> sys \<le> d * c" if "0 < d" for d :: nat
proof -
  have "(sys + d - 1) div d \<le> c \<longleftrightarrow> (sys + d - 1) div d < Suc c"
    by auto
  also have "\<dots> \<longleftrightarrow> sys + d - 1 < Suc c * d"
    using that by (simp add: less_mult_imp_div_less div_less_iff_less_mult)
  also have "\<dots> \<longleftrightarrow> sys \<le> d * c"
    using that by (auto simp: algebra_simps)
  finally show ?thesis .
qed

lemma clock_count_even: "even (clock_count sys hz divider)" "2 \<le> clock_count sys hz divider"
  by (auto simp: clock_count_def Let_def)

text \<open>The count keeps the rate at or below \<open>hz\<close>, and it is the least even one that does.\<close>

lemma clock_count_least:
  assumes "0 < hz" and "0 < divider" and "even c" and "2 \<le> c"
  shows "clock_count sys hz divider \<le> c \<longleftrightarrow> sys \<le> hz * divider * c"
proof -
  have even_above: "(if 2 * ((q + 1) div 2) < 2 then 2 else 2 * ((q + 1) div 2)) \<le> c \<longleftrightarrow> q \<le> c" for q
    using assms(3,4) by presburger
  have "clock_count sys hz divider \<le> c \<longleftrightarrow> (sys + hz * divider - 1) div (hz * divider) \<le> c"
    unfolding clock_count_def Let_def round_up_even by (rule even_above)
  then show ?thesis
    using ceiling_div [of "hz * divider" sys c] assms(1,2) by simp
qed

lemma clock_count_enough:
  assumes "0 < hz" and "0 < divider"
  shows "sys \<le> hz * divider * clock_count sys hz divider"
  using clock_count_least [OF assms clock_count_even] by blast

text \<open>The state of the search: nothing feasible yet, or the least product of all divisors seen.\<close>

definition search_inv :: "nat \<Rightarrow> nat \<Rightarrow> nat \<Rightarrow> nat \<times> nat \<Rightarrow> bool" where
  "search_inv sys hz n best \<longleftrightarrow>
     (if fst best = 0 then best = (0, 0) \<and> (\<forall>d \<in> {1..<n}. clock_count sys hz d > 65536)
      else fst best \<in> {1..<n} \<and> snd best = clock_count sys hz (fst best) \<and> snd best \<le> 65536 \<and>
        (\<forall>d \<in> {1..<n}. clock_count sys hz d \<le> 65536 \<longrightarrow> fst best * snd best \<le> d * clock_count sys hz d))"

lemma search_inv_step:
  assumes "search_inv sys hz n best" and "1 \<le> n"
  shows "search_inv sys hz (Suc n) (clock_step sys hz best n)"
proof -
  have split: "{1..<Suc n} = insert n {1..<n}"
    using assms(2) by auto
  show ?thesis
    using assms unfolding search_inv_def clock_step_def Let_def split
    by (auto split: if_splits) 
qed

lemma clock_search_inv: "search_inv sys hz 256 (clock_search sys hz)"
proof -
  have "search_inv sys hz (Suc n) (foldl (clock_step sys hz) (0, 0) [1..<Suc n])" for n
  proof (induction n)
    case (Suc n)
    then show ?case
      using search_inv_step [of sys hz "Suc n"] by simp
  qed (simp add: search_inv_def)
  from this [of 255] show ?thesis
    by (simp add: clock_search_def)
qed

text \<open>
  What the PWM makes of its registers: the divider, and a period of one more than the wrap value. The widths of the
  registers lose nothing.
\<close>

definition pwm_period :: "pwm_slice \<Rightarrow> nat" where
  "pwm_period p = unat (pwm_div p) * (unat (pwm_wrap p) + 1)"

lemma rounded_rate_le:
  assumes "0 < p" and "sys \<le> hz * p"
  shows "(sys + p div 2) div p \<le> (hz :: nat)"
proof -
  have "sys + p div 2 < Suc hz * p"
    using assms by simp
  then show ?thesis
    by (simp add: less_mult_imp_div_less less_Suc_eq_le [symmetric])
qed

lemma clock_search_best:
  assumes "0 < hz" and "sys \<le> hz * (255 * 65536)" and best: "clock_search sys hz = (d, c)"
  shows "1 \<le> d" and "d \<le> 255" and "even c" and "2 \<le> c" and "c \<le> 65536" and "sys \<le> hz * (d * c)"
    and "\<And>e k. e \<in> {1..255} \<Longrightarrow> k \<in> {2..65536} \<Longrightarrow> even k \<Longrightarrow> sys \<le> hz * (e * k) \<Longrightarrow> d * c \<le> e * k"
proof -
  have "clock_count sys hz 255 \<le> 65536"
    using clock_count_least [OF assms(1), of 255 65536 sys] assms(2) by (simp add: mult.assoc)
  moreover have "clock_count sys hz 255 > 65536" if "d = 0"
    using clock_search_inv [of sys hz] that by (simp add: search_inv_def best)
  ultimately have "d \<noteq> 0"
    by fastforce
  then have dc: "1 \<le> d" "d \<le> 255" "c = clock_count sys hz d" "c \<le> 65536"
    and least: "\<And>e. e \<in> {1..<256} \<Longrightarrow> clock_count sys hz e \<le> 65536 \<Longrightarrow> d * c \<le> e * clock_count sys hz e"
    using clock_search_inv [of sys hz] by (auto simp: search_inv_def best)
  then show "1 \<le> d" and "d \<le> 255" and "c \<le> 65536"
    by simp_all
  show "even c" and "2 \<le> c" and "sys \<le> hz * (d * c)"
    using clock_count_even [of sys hz d] clock_count_enough [OF assms(1), of d sys] dc by (auto simp: mult.assoc)
  show "d * c \<le> e * k" if "e \<in> {1..255}" "k \<in> {2..65536}" "even k" "sys \<le> hz * (e * k)" for e k
  proof -
    have "clock_count sys hz e \<le> k"
      using clock_count_least [OF assms(1), of e k sys] that by (simp add: mult.assoc)
    with least [of e] that show ?thesis
      by (fastforce intro: order_trans)
  qed
qed

text \<open>
  C40. The clock: a rate in range is set if some divider and even period reach it; the rate set is not above the rate
  asked for, the output is high for half the period, and no other divider and even period that stay at or below
  the rate asked for are faster. The rate reported is not above the one asked for either.
\<close>

theorem clock_fastest_rate:
  assumes "Z80_CLOCK_MIN_HZ \<le> hz" and "hz \<le> Z80_CLOCK_MAX_HZ"
    and "hw_sys_clk hw \<le> hz * (255 * 65536)"
  shows "\<exists>b'. z80_clock_set_hz hw hz b = (True, b') \<and> pwm_enabled (pwm b') \<and> clk_pwm b' \<and>
    hw_sys_clk hw \<le> hz * pwm_period (pwm b') \<and>
    2 * unat (pwm_level (pwm b')) = unat (pwm_wrap (pwm b')) + 1 \<and>
    (\<forall>d \<in> {1..255}. \<forall>c \<in> {2..65536}. even c \<longrightarrow> hw_sys_clk hw \<le> hz * (d * c) \<longrightarrow> pwm_period (pwm b') \<le> d * c) \<and>
    unat (z80_clock_get_hz b') \<le> hz"
proof -
  let ?sys = "hw_sys_clk hw"
  obtain d c where best: "clock_search ?sys hz = (d, c)"
    by fastforce
  have hz: "0 < hz"
    using assms(1) by simp
  note dc = clock_search_best [OF hz assms(3) best]
  define b' where "b' = snd (z80_clock_set_hz hw hz b)"
  have set: "z80_clock_set_hz hw hz b = (True, b')" "pwm_enabled (pwm b')" "clk_pwm b'"
    "pwm_div (pwm b') = of_nat d" "pwm_wrap (pwm b') = of_nat (c - 1)" "pwm_level (pwm b') = of_nat (c div 2)"
    "actual_clock_hz b' = of_nat ((?sys + d * c div 2) div (d * c))"
    using assms(1,2) dc(1) by (simp_all add: b'_def z80_clock_set_hz_def best Let_def)
  have regs: "unat (of_nat d :: u8) = d" "unat (of_nat (c - 1) :: u16) = c - 1" "unat (of_nat (c div 2) :: u16) = c div 2"
    unfolding unat_of_nat using dc(2,4,5) by (auto intro!: mod_less)
  have period: "pwm_period (pwm b') = d * c"
    unfolding pwm_period_def set regs using dc(4) by simp
  moreover have "2 * unat (pwm_level (pwm b')) = unat (pwm_wrap (pwm b')) + 1"
    unfolding set regs using dc(3,4) by simp
  moreover have "unat (z80_clock_get_hz b') \<le> hz"
  proof -
    have "(?sys + d * c div 2) div (d * c) \<le> hz"
      using rounded_rate_le [of "d * c" ?sys hz] dc(1,4,6) by simp
    moreover have "unat (of_nat n :: u32) \<le> n" for n
      by (simp add: unat_of_nat)
    ultimately show ?thesis
      unfolding z80_clock_get_hz_def set by (meson order_trans)
  qed
  ultimately show ?thesis
    using set(1-3) dc(6,7) by auto
qed

text \<open>The 64-bit arithmetic of the search does not wrap.\<close>

lemma clock_fits:
  assumes "sys < 2 ^ 32" and "hz < 2 ^ 32" and "1 \<le> divider" and "divider \<le> 255"
  shows "sys + hz * divider < 2 ^ 64" and "clock_count sys hz divider + 1 < 2 ^ 64"
    and "clock_count sys hz divider \<le> 65536 \<Longrightarrow> divider * clock_count sys hz divider < 2 ^ 64"
proof -
  have "hz * divider \<le> 2 ^ 32 * 255"
    using assms(2,4) by (intro mult_le_mono) simp_all
  then have sum: "sys + hz * divider < 2 ^ 32 + 2 ^ 32 * 255"
    using assms(1) by (rule add_less_le_mono [rotated])
  then show "sys + hz * divider < 2 ^ 64"
    by simp
  have "(sys + hz * divider - 1) div (hz * divider) \<le> sys + hz * divider"
    by (rule order_trans [OF div_le_dividend]) simp
  with sum show "clock_count sys hz divider + 1 < 2 ^ 64"
    unfolding clock_count_def Let_def by simp linarith
  show "divider * clock_count sys hz divider < 2 ^ 64" if "clock_count sys hz divider \<le> 65536"
    using mult_le_mono [OF assms(4) that] by simp
qed

end
