(* ===== verification/Sram_Loader.thy ===== *)
theory Sram_Loader
  imports Board_Bus
begin

text \<open>
  The SRAM seen through the loader of \<open>sram.c\<close>. The locale \<open>sram_bus\<close> states what the injected instructions do on a
  board with a Z80 and SRAM: a read returns the cell, a write changes no other cell (it may fail to store);
  \<open>sram_good\<close> adds that writes store. The lemmas inside say what the loops of \<open>sram.c\<close> achieve under these laws.
  Both are interpreted on \<open>bench\<close>, the Z80 of the repository's loader test
  (\<open>src/src/common/tests/loader_test.c\<close>), driven through every pin change of the model.
\<close>

section \<open>Which bank is selected\<close>

definition bank_pin :: "'d board \<Rightarrow> bool" where
  "bank_pin b = bit (gpio_out b) PIN_MEMORY_BANK"

lemma bank_pin_simps [simp]:
  "bank_pin (set_clk hw f p b) = bank_pin b"
  "bank_pin (gpio_put hw pin v b) = (if pin = PIN_MEMORY_BANK then v else bank_pin b)"
  "bank_pin (gpio_set_dir hw pin v b) = bank_pin b"
  "bank_pin (busy_wait_us_32 hw n b) = bank_pin b"
  "bank_pin (gpio_put_masked hw DATA_MASK x b) = bank_pin b"
  "bank_pin (gpio_set_dir_masked hw m x b) = bank_pin b"
  "bank_pin (z80_data_bus_isolate hw b) = bank_pin b"
  "bank_pin (z80_memory_bank_set_available f b) = bank_pin b"
  by (simp_all add: bank_pin_def gpio_set_dir_def z80_data_bus_isolate_def gpio_set_mask_def pin_bits
      z80_memory_bank_set_available_def)

lemma bank_pin_cycle [simp]:
  "bank_pin (z80_clock_one_cycle hw h b) = bank_pin b"
  "bank_pin (pulse_clock hw n b) = bank_pin b"
proof -
  show one: "bank_pin (z80_clock_one_cycle hw h b) = bank_pin b" for h b
    by (simp add: z80_clock_one_cycle_def z80_clock_prepare_stepping_def z80_clock_step_prepared_def
        z80_clock_stop_def Let_def)
  show "bank_pin (pulse_clock hw n b) = bank_pin b"
    unfolding pulse_clock_def by (induction n) (simp_all add: one)
qed

lemma bank_pin_inject [simp]:
  "bank_pin (inject_read hw v opcode b) = bank_pin b"
  "bank_pin (load_hl hw a b) = bank_pin b"
  by (simp_all add: load_hl_def inject_read_def z80_data_bus_drive_def Let_def)

lemma bank_pin_sram [simp]:
  "bank_pin (snd (z80_sram_write_byte hw a v b)) = bank_pin b"
  "bank_pin (snd (z80_sram_read_byte hw f a b)) = bank_pin b"
proof -
  show "bank_pin (snd (z80_sram_write_byte hw a v b)) = bank_pin b"
    by (simp add: z80_sram_write_byte_def Let_def)
  have "bank_pin (snd (z80_data_bus_sample hw b)) = bank_pin b" for b :: "'a board"
    by (simp add: z80_data_bus_sample_def bank_pin_def split: prod.split) (metis reads_keep_registers(1) snd_conv)
  then show "bank_pin (snd (z80_sram_read_byte hw f a b)) = bank_pin b"
    by (simp add: z80_sram_read_byte_def z80_data_bus_prepare_input_def Let_def split_beta)
qed

text \<open>Only \<open>z80_memory_bank_set_available\<close> sets the flag that bank 1 may be used.\<close>

lemma available_simps [simp]:
  "banked_memory_available (gpio_put hw pin v b) = banked_memory_available b"
  "banked_memory_available (gpio_set_dir hw pin v b) = banked_memory_available b"
  "banked_memory_available (gpio_put_masked hw m x b) = banked_memory_available b"
  "banked_memory_available (gpio_set_dir_masked hw m x b) = banked_memory_available b"
  "banked_memory_available (z80_data_bus_isolate hw b) = banked_memory_available b"
  by (simp_all add: gpio_put_def gpio_set_dir_def gpio_put_masked_def gpio_set_dir_masked_def
      z80_data_bus_isolate_def gpio_set_mask_def)

lemma available_cycle [simp]:
  "banked_memory_available (z80_clock_one_cycle hw h b) = banked_memory_available b"
  "banked_memory_available (pulse_clock hw n b) = banked_memory_available b"
proof -
  show one: "banked_memory_available (z80_clock_one_cycle hw h b) = banked_memory_available b" for h b
    by (simp add: z80_clock_one_cycle_def z80_clock_prepare_stepping_def z80_clock_step_prepared_def
        z80_clock_stop_def Let_def)
  show "banked_memory_available (pulse_clock hw n b) = banked_memory_available b"
    unfolding pulse_clock_def by (induction n) (simp_all add: one)
qed

lemma sram_available [simp]:
  "banked_memory_available (snd (z80_sram_write_byte hw a v b)) = banked_memory_available b"
  "banked_memory_available (snd (z80_sram_read_byte hw f a b)) = banked_memory_available b"
proof -
  have i: "banked_memory_available (inject_read hw v opcode b) = banked_memory_available b" for v opcode b
    by (simp add: inject_read_def z80_data_bus_drive_def Let_def)
  then show "banked_memory_available (snd (z80_sram_write_byte hw a v b)) = banked_memory_available b"
    by (simp add: z80_sram_write_byte_def load_hl_def Let_def)
  have "banked_memory_available (snd (z80_data_bus_sample hw b)) = banked_memory_available b" for b :: "'a board"
    by (simp add: z80_data_bus_sample_def gpio_get_all_def split: prod.split)
  with i show "banked_memory_available (snd (z80_sram_read_byte hw f a b)) = banked_memory_available b"
    by (simp add: z80_sram_read_byte_def load_hl_def z80_data_bus_prepare_input_def Let_def split_beta)
qed

lemma select_available [simp]:
  "banked_memory_available (z80_memory_bank_select hw n b) = banked_memory_available b"
  "banked_memory_available (z80_memory_bank_set_available f b) = f"
  by (auto simp: z80_memory_bank_select_def z80_memory_bank_set_available_def split: option.split)

lemma probe_available [simp]: "banked_memory_available (snd (bank_probe hw v b)) = banked_memory_available b"
  unfolding bank_probe_def Let_def prod_bool_case by (simp add: split_beta)

text \<open>The pins that \<open>z80_safe_startup\<close> makes outputs; there is no bank driver in this build.\<close>

definition started :: "'d board \<Rightarrow> bool" where
  "started b \<longleftrightarrow> bank_driver b = None \<and> (\<forall>pin \<in> {2..<10}. bit (gpio_oe b) pin)"

section \<open>The laws\<close>

locale sram_bus =
  fixes hw :: "'d hw" and wired :: bool
    and session :: "'d board \<Rightarrow> bool" and cells :: "'d board \<Rightarrow> bool \<Rightarrow> u16 \<Rightarrow> u8"
  assumes session_started: "session b \<Longrightarrow> started b"
    and prepare_session: "started b \<Longrightarrow> z80_cpu_prepare_loader hw b = (True, b') \<Longrightarrow> session b'"
    and write_session: "session b \<Longrightarrow> session (snd (z80_sram_write_byte hw a v b))"
    and write_frame: "session b \<Longrightarrow> (k, x) \<noteq> (wired \<and> bank_pin b, a) \<Longrightarrow>
      cells (snd (z80_sram_write_byte hw a v b)) k x = cells b k x"
    and read_session: "session b \<Longrightarrow> session (snd (z80_sram_read_byte hw True a b))"
    and read_cells: "session b \<Longrightarrow> cells (snd (z80_sram_read_byte hw True a b)) = cells b"
    and read_value: "session b \<Longrightarrow> fst (z80_sram_read_byte hw True a b) = Some (cells b (wired \<and> bank_pin b) a)"
    and select_session: "session b \<Longrightarrow> session (z80_memory_bank_select hw n b)"
    and select_cells: "session b \<Longrightarrow> cells (z80_memory_bank_select hw n b) = cells b"
    and flag_session: "session (z80_memory_bank_set_available f b) = session b"
    and flag_cells: "cells (z80_memory_bank_set_available f b) = cells b"
    and close_cells: "session b \<Longrightarrow> cells (z80_cpu_fail_closed hw b) = cells b"

locale sram_good = sram_bus +
  assumes write_stores: "session b \<Longrightarrow>
      cells (snd (z80_sram_write_byte hw a v b)) (wired \<and> bank_pin b) a = v"

context sram_bus
begin

lemma select_bank: "session b \<Longrightarrow> bank_pin (z80_memory_bank_select hw n b) = (n AND 1 \<noteq> 0)"
  using session_started [of b] by (simp add: started_def z80_memory_bank_select_def)

lemma verify_cells_spec:
  assumes "session b"
  shows "session (snd (verify_cells hw cs b))" and "cells (snd (verify_cells hw cs b)) = cells b"
    and "bank_pin (snd (verify_cells hw cs b)) = bank_pin b"
    and "fst (verify_cells hw cs b) \<longleftrightarrow> (\<forall>(a, v) \<in> set cs. cells b (wired \<and> bank_pin b) a = v)"
proof -
  have "session (snd (verify_cells hw cs b)) \<and> cells (snd (verify_cells hw cs b)) = cells b \<and>
      bank_pin (snd (verify_cells hw cs b)) = bank_pin b \<and>
      (fst (verify_cells hw cs b) \<longleftrightarrow> (\<forall>(a, v) \<in> set cs. cells b (wired \<and> bank_pin b) a = v))"
    using assms
  proof (induction cs arbitrary: b)
    case (Cons c cs)
    obtain a v where c: "c = (a, v)"
      by fastforce
    obtain r b' where r: "z80_sram_read_byte hw True a b = (r, b')"
      by fastforce
    have "session b'" "cells b' = cells b" "r = Some (cells b (wired \<and> bank_pin b) a)" "bank_pin b' = bank_pin b"
      using read_session [OF Cons.prems, of a] read_cells [OF Cons.prems, of a] read_value [OF Cons.prems, of a]
        bank_pin_sram(2) [of hw True a b] by (simp_all add: r)
    then show ?case
      using Cons.IH [of b'] by (simp add: c r)
  qed simp
  then show "session (snd (verify_cells hw cs b))" and "cells (snd (verify_cells hw cs b)) = cells b"
    and "bank_pin (snd (verify_cells hw cs b)) = bank_pin b"
    and "fst (verify_cells hw cs b) \<longleftrightarrow> (\<forall>(a, v) \<in> set cs. cells b (wired \<and> bank_pin b) a = v)"
    by simp_all
qed

lemma write_cells_frame:
  assumes "session b"
  shows "session (snd (write_cells hw cs b))" and "bank_pin (snd (write_cells hw cs b)) = bank_pin b"
    and "k \<noteq> (wired \<and> bank_pin b) \<or> x \<notin> fst ` set cs \<Longrightarrow> cells (snd (write_cells hw cs b)) k x = cells b k x"
proof -
  have "session (snd (write_cells hw cs b)) \<and> bank_pin (snd (write_cells hw cs b)) = bank_pin b \<and>
    (k \<noteq> (wired \<and> bank_pin b) \<or> x \<notin> fst ` set cs \<longrightarrow> cells (snd (write_cells hw cs b)) k x = cells b k x)"
    unfolding write_cells_fold snd_conv using assms
  proof (induction cs arbitrary: b)
    case (Cons c cs)
    obtain a v where c: "c = (a, v)"
      by fastforce
    show ?case
      using Cons.IH [OF write_session [OF Cons.prems, of a v]] write_frame [OF Cons.prems, of k x a v]
      by (auto simp: c)
  qed simp
  then show "session (snd (write_cells hw cs b))" and "bank_pin (snd (write_cells hw cs b)) = bank_pin b"
    and "k \<noteq> (wired \<and> bank_pin b) \<or> x \<notin> fst ` set cs \<Longrightarrow> cells (snd (write_cells hw cs b)) k x = cells b k x"
    by blast+
qed

text \<open>
  The probe and the load of bank 1 on a board whose bank line is wired: of bank 0 only cell 0 is ever written, and it has
  its old value again whenever the probe is accepted. This holds even if writes do not store.
\<close>

lemma bank_probe_frame:
  assumes "wired" and "session b" and "\<not> bank_pin b" and "bank_probe hw original b = (q, b')"
  shows "session b'" and "\<not> bank_pin b'" and "x \<noteq> 0 \<Longrightarrow> cells b' False x = cells b False x"
    and "q \<noteq> None \<Longrightarrow> cells b' False 0 = original"
proof -
  define b1 where "b1 = z80_memory_bank_select hw 1 (snd (z80_sram_write_byte hw 0 0x5A b))"
  define b2 where "b2 = z80_memory_bank_select hw 0 (snd (z80_sram_write_byte hw 0 0xA5 b1))"
  define b3 where "b3 = snd (z80_sram_read_byte hw True 0 b2)"
  define b4 where "b4 = snd (z80_sram_write_byte hw 0 original b3)"
  have 1: "session b1" "bank_pin b1" "x \<noteq> 0 \<Longrightarrow> cells b1 False x = cells b False x" for x
    using assms(2,3) by (simp_all add: b1_def write_session select_session select_bank select_cells write_frame)
  have 2: "session b2" "\<not> bank_pin b2" "cells b2 False x = cells b1 False x" for x
    using 1(1,2) assms(1) by (simp_all add: b2_def write_session select_session select_bank select_cells write_frame)
  have 3: "session b3" "\<not> bank_pin b3" "cells b3 = cells b2"
    using 2(1,2) by (simp_all add: b3_def read_session read_cells)
  have 4: "session b4" "\<not> bank_pin b4" "x \<noteq> 0 \<Longrightarrow> cells b4 False x = cells b3 False x" for x
    using 3(1,2) by (simp_all add: b4_def write_session write_frame)
  have r: "bank_probe hw original b =
      (if fst (z80_sram_read_byte hw True 0 b4) = Some original
       then Some (fst (z80_sram_read_byte hw True 0 b2) = Some 0x5A) else None, snd (z80_sram_read_byte hw True 0 b4))"
    unfolding bank_probe_def Let_def prod_bool_case
    by (simp add: b1_def b2_def b3_def b4_def split_beta)
  show "session b'" and "\<not> bank_pin b'" and "x \<noteq> 0 \<Longrightarrow> cells b' False x = cells b False x"
    and "q \<noteq> None \<Longrightarrow> cells b' False 0 = original"
    using assms(4) 1 2 3 4 read_value [OF 4(1), of 0] unfolding r
    by (auto simp: read_session read_cells split: if_splits)
qed

lemma finish_bank_frame:
  assumes "wired" and "session b" and "\<not> bank_pin b"
    and b'_def: "b' = finish_bank hw (and_then (write_cells hw cs (z80_memory_bank_select hw 1 b)) (verify_cells hw cs))"
  shows "session b'" and "\<not> bank_pin b'" and "cells b' False x = cells b False x"
    and "banked_memory_available b' \<Longrightarrow> (a, v) \<in> set cs \<Longrightarrow> cells b' True a = v"
proof -
  define b1 where "b1 = z80_memory_bank_select hw 1 b"
  define b2 where "b2 = snd (write_cells hw cs b1)"
  define b3 where "b3 = snd (verify_cells hw cs b2)"
  have 1: "session b1" "bank_pin b1" "cells b1 = cells b"
    using assms(2) by (simp_all add: b1_def select_session select_bank select_cells)
  have 2: "session b2" "bank_pin b2" "cells b2 False x = cells b1 False x" for x
    using 1 assms(1) by (simp_all add: b2_def write_cells_frame)
  have 3: "session b3" "bank_pin b3" "cells b3 = cells b2"
    using 2 by (simp_all add: b3_def verify_cells_spec)
  have b': "b' = z80_memory_bank_set_available (fst (verify_cells hw cs b2)) (z80_memory_bank_select hw 0 b3)"
    by (simp add: b'_def finish_bank_def and_then_def write_cells_fold b1_def b2_def b3_def)
  show "session b'" and "\<not> bank_pin b'" and "cells b' False x = cells b False x"
    using 1 2 3 by (simp_all add: b' flag_session flag_cells select_session select_bank select_cells)
  have "cells b' = cells b2"
    using 3 by (simp add: b' flag_cells select_cells)
  then show "banked_memory_available b' \<Longrightarrow> (a, v) \<in> set cs \<Longrightarrow> cells b' True a = v"
    using verify_cells_spec(4) [OF 2(1), of cs] 2(2) assms(1)
    by (auto simp: b' z80_memory_bank_set_available_def)
qed

lemma prepare_banked_frame:
  assumes "wired" and "session b"
  shows "session (z80_sram_prepare_banked_memory hw sys img b)"
    and "\<not> bank_pin (z80_sram_prepare_banked_memory hw sys img b)"
    and "x \<noteq> 0 \<Longrightarrow> cells (z80_sram_prepare_banked_memory hw sys img b) False x = cells b False x"
    and "banked_memory_available (z80_sram_prepare_banked_memory hw sys (Some base) b) \<Longrightarrow>
      (a, v) \<in> set (bank_cells sys base) \<Longrightarrow> cells (z80_sram_prepare_banked_memory hw sys (Some base) b) True a = v"
proof -
  define b0 where "b0 = z80_memory_bank_select hw 0 (z80_memory_bank_set_available False b)"
  have 0: "session b0" "\<not> bank_pin b0" "cells b0 = cells b" "\<not> banked_memory_available b0"
    using assms(2) by (simp_all add: b0_def select_session select_bank select_cells flag_session flag_cells select_available)
  define b1 where "b1 = snd (z80_sram_read_byte hw True 0 b0)"
  define original where "original = cells b0 False 0"
  have 1: "session b1" "\<not> bank_pin b1" "cells b1 = cells b" "\<not> banked_memory_available b1"
    using 0 by (simp_all add: b1_def read_session read_cells sram_available)
  obtain q b2 where q: "bank_probe hw original b1 = (q, b2)"
    by fastforce
  have 2: "session b2" "\<not> bank_pin b2" "x \<noteq> 0 \<Longrightarrow> cells b2 False x = cells b False x" "\<not> banked_memory_available b2" for x
    using bank_probe_frame [OF assms(1) 1(1,2) q] 1 probe_available [of hw original b1] by (simp_all add: q)
  have r: "z80_sram_prepare_banked_memory hw sys img b = (case img of None \<Rightarrow> b0 | Some base \<Rightarrow>
      if q = Some True then finish_bank hw (and_then (write_cells hw (bank_cells sys base) (z80_memory_bank_select hw 1 b2))
        (verify_cells hw (bank_cells sys base))) else b2)" for img
  proof -
    have "z80_sram_read_byte hw True 0 b0 = (Some original, b1)"
      using read_value [OF 0(1), of 0] 0(2) by (simp add: b1_def original_def prod_eq_iff)
    then show ?thesis
      unfolding z80_sram_prepare_banked_memory_def Let_def b0_def [symmetric]
      by (auto simp: q split: option.split bool.split)
  qed
  show "session (z80_sram_prepare_banked_memory hw sys img b)"
    and "\<not> bank_pin (z80_sram_prepare_banked_memory hw sys img b)"
    and "x \<noteq> 0 \<Longrightarrow> cells (z80_sram_prepare_banked_memory hw sys img b) False x = cells b False x"
    using 0 2 finish_bank_frame(1-3) [OF assms(1) 2(1,2) refl] by (auto simp: r split: option.split)
  show "banked_memory_available (z80_sram_prepare_banked_memory hw sys (Some base) b) \<Longrightarrow>
      (a, v) \<in> set (bank_cells sys base) \<Longrightarrow> cells (z80_sram_prepare_banked_memory hw sys (Some base) b) True a = v"
    using 2(4) finish_bank_frame(4) [OF assms(1) 2(1,2) refl] by (auto simp: r split: if_splits)
qed

end

text \<open>The addresses that a bank-1 load writes are all different.\<close>

lemma bank_load_address_unat:
  "offset < BANK_LOAD_BYTES \<Longrightarrow>
   unat (bank_load_address offset) = (if offset < BANK_RUNTIME_BYTES then offset else 0xDE00 + offset - BANK_RUNTIME_BYTES)"
  by (cases "offset < BANK_RUNTIME_BYTES")
    (simp_all only: bank_load_address_def unat_of_nat if_True if_False, simp_all)

lemma bank_cells_distinct: "distinct (map fst (bank_cells sys base))"
proof -
  have "inj_on bank_load_address {0..<BANK_LOAD_BYTES}"
  proof (rule inj_onI)
    fix m n
    assume m: "m \<in> {0..<BANK_LOAD_BYTES}" and n: "n \<in> {0..<BANK_LOAD_BYTES}"
      and eq: "bank_load_address m = bank_load_address n"
    have "unat (bank_load_address m) = unat (bank_load_address n)"
      by (rule arg_cong [OF eq])
    then show "m = n"
      using m n by (simp add: bank_load_address_unat split: if_splits)
  qed
  then show ?thesis
    by (simp add: bank_cells_def comp_def distinct_map)
qed

lemma address_eq: "m < 65536 \<Longrightarrow> n < 65536 \<Longrightarrow> (of_nat m :: u16) = of_nat n \<longleftrightarrow> m = n"
  by (auto dest: arg_cong [where f = unat] simp: unat_of_nat)

lemma cells_of_distinct: "length data \<le> 65536 \<Longrightarrow> distinct (map fst (cells_of a data))"
proof -
  assume "length data \<le> 65536"
  then have "inj_on (\<lambda>i. a + of_nat i) {0..<length data}"
    by (auto intro!: inj_onI simp: address_eq)
  then show ?thesis
    by (simp add: cells_of_def comp_def distinct_map)
qed

context sram_good
begin

lemma write_cells_stores:
  assumes "session b" and "distinct (map fst cs)" and "(a, v) \<in> set cs"
  shows "cells (snd (write_cells hw cs b)) (wired \<and> bank_pin b) a = v"
  unfolding write_cells_fold snd_conv using assms
proof (induction cs arbitrary: b)
  case (Cons c cs)
  obtain a' v' where c: "c = (a', v')"
    by fastforce
  let ?b = "snd (z80_sram_write_byte hw a' v' b)"
  note s = write_session [OF Cons.prems(1), of a' v']
  show ?case
  proof (cases "(a, v) = c")
    case True
    then have "a \<notin> fst ` set cs"
      using Cons.prems(2) by (simp add: c)
    then show ?thesis
      using write_cells_frame(3) [OF s, of "wired \<and> bank_pin b" a cs] write_stores [OF Cons.prems(1), of a v] True
      by (simp add: c write_cells_fold)
  next
    case False
    then show ?thesis
      using Cons.IH [OF s] Cons.prems by (auto simp: c)
  qed
qed simp

lemma write_then_verify:
  assumes "session b" and "distinct (map fst cs)"
  shows "fst (verify_cells hw cs (snd (write_cells hw cs b)))"
  using verify_cells_spec(4) [OF write_cells_frame(1) [OF assms(1)], of cs cs]
    write_cells_frame(2) [OF assms(1), of cs] write_cells_stores [OF assms] by auto

lemma bank_probe_good:
  assumes "session b" and "\<not> bank_pin b" and "cells b False 0 = original"
  shows "fst (bank_probe hw original b) = Some wired" and "session (snd (bank_probe hw original b))"
    and "\<not> bank_pin (snd (bank_probe hw original b))"
    and "cells (snd (bank_probe hw original b)) False = cells b False"
proof -
  define b0 where "b0 = snd (z80_sram_write_byte hw 0 0x5A b)"
  define b1 where "b1 = z80_memory_bank_select hw 1 b0"
  define b1' where "b1' = snd (z80_sram_write_byte hw 0 0xA5 b1)"
  define b2 where "b2 = z80_memory_bank_select hw 0 b1'"
  define b3 where "b3 = snd (z80_sram_read_byte hw True 0 b2)"
  define b4 where "b4 = snd (z80_sram_write_byte hw 0 original b3)"
  have 0: "session b0" "\<not> bank_pin b0" "cells b0 False 0 = 0x5A" "x \<noteq> 0 \<Longrightarrow> cells b0 False x = cells b False x" for x
    using assms write_stores [OF assms(1), of 0 "0x5A"] by (simp_all add: b0_def write_session write_frame)
  have 1: "session b1" "bank_pin b1" "cells b1 = cells b0"
    using 0 by (simp_all add: b1_def select_session select_bank select_cells)
  have w: "session b1'" "bank_pin b1'" "cells b1' False 0 = (if wired then 0x5A else 0xA5)"
    "x \<noteq> 0 \<Longrightarrow> cells b1' False x = cells b1 False x" for x
    using 0 1 write_stores [OF 1(1), of 0 "0xA5"] by (auto simp: b1'_def write_session write_frame)
  have 2: "session b2" "\<not> bank_pin b2" "cells b2 = cells b1'"
    using w by (simp_all add: b2_def select_session select_bank select_cells)
  have 3: "session b3" "\<not> bank_pin b3" "cells b3 = cells b2"
    using 2(1,2) by (simp_all add: b3_def read_session read_cells)
  have 4: "session b4" "\<not> bank_pin b4" "cells b4 False 0 = original" "x \<noteq> 0 \<Longrightarrow> cells b4 False x = cells b3 False x" for x
    using 3(1,2) write_stores [OF 3(1), of 0 original] by (simp_all add: b4_def write_session write_frame)
  have r: "bank_probe hw original b =
      (if fst (z80_sram_read_byte hw True 0 b4) = Some original
       then Some (fst (z80_sram_read_byte hw True 0 b2) = Some 0x5A) else None, snd (z80_sram_read_byte hw True 0 b4))"
    unfolding bank_probe_def Let_def prod_bool_case
    by (simp add: b0_def b1_def b1'_def b2_def b3_def b4_def split_beta)
  have "cells b4 False = cells b False"
    using 0(4) 1(3) w(4) 2(3) 3(3) 4(3,4) assms(3) by (intro ext, case_tac "x = 0") simp_all
  then show "fst (bank_probe hw original b) = Some wired" and "session (snd (bank_probe hw original b))"
    and "\<not> bank_pin (snd (bank_probe hw original b))"
    and "cells (snd (bank_probe hw original b)) False = cells b False"
    using w 2 4 read_value [OF 4(1), of 0] read_value [OF 2(1), of 0] unfolding r
    by (simp_all add: read_session read_cells)
qed

text \<open>On good memory bank 1 is enabled exactly if its address line is wired, and then it holds its image.\<close>

lemma prepare_banked_good:
  assumes "session b" and b': "b' = z80_sram_prepare_banked_memory hw sys (Some base) b"
  shows "session b'" and "\<not> bank_pin b'" and "cells b' False = cells b False"
    and "banked_memory_available b' = wired"
    and "wired \<Longrightarrow> (a, v) \<in> set (bank_cells sys base) \<Longrightarrow> cells b' True a = v"
proof -
  define b0 where "b0 = z80_memory_bank_select hw 0 (z80_memory_bank_set_available False b)"
  define b1 where "b1 = snd (z80_sram_read_byte hw True 0 b0)"
  define b2 where "b2 = snd (bank_probe hw (cells b False 0) b1)"
  have 0: "session b0" "\<not> bank_pin b0" "cells b0 = cells b" "\<not> banked_memory_available b0"
    using assms(1) by (simp_all add: b0_def select_session select_bank select_cells flag_session flag_cells)
  have 1: "session b1" "\<not> bank_pin b1" "cells b1 = cells b" "\<not> banked_memory_available b1"
    using 0 by (simp_all add: b1_def read_session read_cells)
  have p: "bank_probe hw (cells b False 0) b1 = (Some wired, b2)"
    using bank_probe_good(1) [OF 1(1,2), of "cells b False 0"] 1(3) by (simp add: b2_def prod_eq_iff)
  have 2: "session b2" "\<not> bank_pin b2" "cells b2 False = cells b False" "\<not> banked_memory_available b2"
    using bank_probe_good [OF 1(1,2), of "cells b False 0"] 1(3,4) by (simp_all add: b2_def)
  have rd: "z80_sram_read_byte hw True 0 b0 = (Some (cells b False 0), b1)"
    using read_value [OF 0(1), of 0] 0(2,3) by (simp add: b1_def prod_eq_iff)
  define b3 where "b3 = finish_bank hw (and_then (write_cells hw (bank_cells sys base) (z80_memory_bank_select hw 1 b2))
    (verify_cells hw (bank_cells sys base)))"
  have r: "b' = (if wired then b3 else b2)"
    unfolding b' z80_sram_prepare_banked_memory_def Let_def b0_def [symmetric]
    by (simp add: rd p b3_def)
  have "banked_memory_available b3"
    using write_then_verify [OF select_session [OF 2(1)] bank_cells_distinct]
    by (simp add: b3_def finish_bank_def and_then_def write_cells_fold)
  with 2 finish_bank_frame [OF _ 2(1,2) b3_def]
  show "session b'" and "\<not> bank_pin b'" and "cells b' False = cells b False"
    and "banked_memory_available b' = wired"
    and "wired \<Longrightarrow> (a, v) \<in> set (bank_cells sys base) \<Longrightarrow> cells b' True a = v"
    unfolding r by (auto intro!: ext)
qed

end

text \<open>A loop over memory that reads and replaces every cell.\<close>

context sram_good
begin

lemma march_cells_good:
  assumes "session b" and "distinct as" and "set as \<subseteq> {..<65536}"
    and "\<forall>a \<in> set as. cells b (wired \<and> bank_pin b) (of_nat a) = e"
  shows "fst (march_cells hw e r as b)" and "session (snd (march_cells hw e r as b))"
    and "bank_pin (snd (march_cells hw e r as b)) = bank_pin b"
    and "a \<in> set as \<Longrightarrow> cells (snd (march_cells hw e r as b)) (wired \<and> bank_pin b) (of_nat a) = r"
    and "a \<notin> set as \<Longrightarrow> a < 65536 \<Longrightarrow>
      cells (snd (march_cells hw e r as b)) (wired \<and> bank_pin b) (of_nat a) = cells b (wired \<and> bank_pin b) (of_nat a)"
proof -
  note inj = address_eq
  have "fst (march_cells hw e r as b) \<and> session (snd (march_cells hw e r as b)) \<and>
    bank_pin (snd (march_cells hw e r as b)) = bank_pin b \<and>
    (\<forall>a < 65536. cells (snd (march_cells hw e r as b)) (wired \<and> bank_pin b) (of_nat a) =
      (if a \<in> set as then r else cells b (wired \<and> bank_pin b) (of_nat a)))"
    using assms
  proof (induction as arbitrary: b)
    case (Cons n as)
    define b1 where "b1 = snd (z80_sram_read_byte hw True (of_nat n) b)"
    define b2 where "b2 = snd (z80_sram_write_byte hw (of_nat n) r b1)"
    have 1: "session b1" "cells b1 = cells b" "bank_pin b1 = bank_pin b"
      using Cons.prems(1) by (simp_all add: b1_def read_session read_cells)
    have 2: "session b2" "bank_pin b2 = bank_pin b"
      and frame: "a < 65536 \<Longrightarrow> cells b2 (wired \<and> bank_pin b) (of_nat a) =
        (if a = n then r else cells b (wired \<and> bank_pin b) (of_nat a))" for a
      using 1 write_stores [OF 1(1), of "of_nat n" r] write_frame [OF 1(1), of "wired \<and> bank_pin b" "of_nat a" "of_nat n" r]
        Cons.prems(3) inj [of a n] by (auto simp: b2_def write_session)
    have rd: "march_read_write hw (of_nat n) e r b = (True, b2)"
    proof -
      have "z80_sram_read_byte hw True (of_nat n) b = (Some e, b1)"
        using read_value [OF Cons.prems(1), of "of_nat n"] Cons.prems(4) by (simp add: b1_def prod_eq_iff)
      then show ?thesis
        by (simp add: march_read_write_def b2_def) (rule sram_write_pair)
    qed
    have "\<forall>a \<in> set as. cells b2 (wired \<and> bank_pin b2) (of_nat a) = e"
      using frame 2 Cons.prems by auto
    then show ?case
      using Cons.IH [OF 2(1)] Cons.prems 2 frame rd by (auto simp: subset_iff)
  qed simp
  then show "fst (march_cells hw e r as b)" and "session (snd (march_cells hw e r as b))"
    and "bank_pin (snd (march_cells hw e r as b)) = bank_pin b"
    and "a \<in> set as \<Longrightarrow> cells (snd (march_cells hw e r as b)) (wired \<and> bank_pin b) (of_nat a) = r"
    and "a \<notin> set as \<Longrightarrow> a < 65536 \<Longrightarrow>
      cells (snd (march_cells hw e r as b)) (wired \<and> bank_pin b) (of_nat a) = cells b (wired \<and> bank_pin b) (of_nat a)"
    using assms(3) by auto
qed

lemma isolate_pin [simp]: "bank_pin (z80_isolate_buses hw b) = bank_pin b"
  by (simp add: z80_isolate_buses_def)

lemma load_cells:
  assumes "session b" and "length data \<le> 65536" and "(a, v) \<in> set (cells_of base data)"
  shows "cells (snd (write_cells hw (cells_of base data) b)) (wired \<and> bank_pin b) a = v"
  using write_cells_stores [OF assms(1) cells_of_distinct [OF assms(2)] assms(3)] .

lemma pattern_test_good:
  assumes "session b"
  shows "fst (z80_sram_pattern_test hw c b)"
proof -
  let ?cs = "map (\<lambda>a. (of_nat a :: u16, pattern_byte c a)) [0..<65536]"
  have "distinct (map fst ?cs)"
    by (auto simp: comp_def distinct_map intro!: inj_onI simp: address_eq)
  then have "fst (verify_cells hw ?cs (snd (write_cells hw ?cs b)))"
    by (rule write_then_verify [OF assms])
  then show ?thesis
    unfolding z80_sram_pattern_test_def Let_def prod_bool_case and_then_case
    by (simp only: write_cells_fold fst_conv if_True)
qed

lemma march_test_good:
  assumes "session b"
  shows "fst (z80_sram_march_test hw b)"
proof -
  let ?zero = "map (\<lambda>a. (of_nat a :: u16, 0x00 :: u8)) [0..<65536]"
  define k where "k = (wired \<and> bank_pin b)"
  define b1 where "b1 = snd (write_cells hw ?zero b)"
  have d: "distinct (map fst ?zero)"
    by (auto simp: comp_def distinct_map intro!: inj_onI simp: address_eq)
  have 1: "session b1" "(wired \<and> bank_pin b1) = k" "\<forall>a < 65536. cells b1 k (of_nat a) = 0x00"
    using write_cells_frame(1,2) [OF assms, of ?zero] write_cells_stores [OF assms d] unfolding b1_def k_def by auto
  have step: "fst (march_cells hw e r as b) \<and> session (snd (march_cells hw e r as b)) \<and>
      (wired \<and> bank_pin (snd (march_cells hw e r as b))) = k \<and>
      (\<forall>a < 65536. cells (snd (march_cells hw e r as b)) k (of_nat a) = r)"
    if "session b" "(wired \<and> bank_pin b) = k" "\<forall>a < 65536. cells b k (of_nat a) = e"
      "distinct as" "set as = {..<65536}" for e r as b
    using march_cells_good [OF that(1,4), where e = e and r = r] that(2,3,5) by auto
  define b2 where "b2 = snd (march_cells hw 0x00 0xFF [0..<65536] b1)"
  define b3 where "b3 = snd (march_cells hw 0xFF 0x00 [0..<65536] b2)"
  define b4 where "b4 = snd (march_cells hw 0x00 0xFF (rev [0..<65536]) b3)"
  define b5 where "b5 = snd (march_cells hw 0xFF 0x00 (rev [0..<65536]) b4)"
  note 2 = step [OF 1, of "[0..<65536]" "0xFF", folded b2_def]
  note 3 = step [of b2 "0xFF" "[0..<65536]" "0x00", folded b3_def]
  note 4 = step [of b3 "0x00" "rev [0..<65536]" "0xFF", folded b4_def]
  note 5 = step [of b4 "0xFF" "rev [0..<65536]" "0x00", folded b5_def]
  have up: "set [0..<65536] = {..<65536 :: nat}" "set (rev [0..<65536]) = {..<65536 :: nat}"
    "distinct [0..<65536 :: nat]" "distinct (rev [0..<65536 :: nat])"
    by auto
  have pair: "fst r \<Longrightarrow> r = (True, snd r)" for r :: "bool \<times> 'd board"
    by (simp add: prod_eq_iff)
  have w: "write_cells hw ?zero b = (True, b1)"
    unfolding b1_def by (rule pair) (simp add: write_cells_fold)
  have m: "march_cells hw 0x00 0xFF [0..<65536] b1 = (True, b2)" "march_cells hw 0xFF 0x00 [0..<65536] b2 = (True, b3)"
    "march_cells hw 0x00 0xFF (rev [0..<65536]) b3 = (True, b4)" "march_cells hw 0xFF 0x00 (rev [0..<65536]) b4 = (True, b5)"
    unfolding b2_def b3_def b4_def b5_def using 2 3 4 5 up unfolding b2_def b3_def b4_def b5_def
    by (blast intro: pair)+
  obtain b6 where v: "verify_cells hw ?zero b5 = (True, b6)"
    using verify_cells_spec(4) [of b5 ?zero] 2 3 4 5 up pair [of "verify_cells hw ?zero b5"] by auto
  show ?thesis
    unfolding z80_sram_march_test_def w m and_then_def prod.case bool.case v by simp
qed

end

section \<open>The bench\<close>

record z80 =
  z_cycle :: nat
  z_tail :: nat
  z_opcode :: u8
  z_immediate :: u8
  z_address :: u16
  z_memory :: "bool \<Rightarrow> u16 \<Rightarrow> u8"
  z_clk :: bool

record bench =
  bench_z80 :: z80
  bench_now :: nat

text \<open>One clock of the test's Z80, with the byte on the data bus and the selected bank.\<close>

definition z80_tick :: "u8 \<Rightarrow> bool \<Rightarrow> z80 \<Rightarrow> z80" where
  "z80_tick x bank z =
     (if z_tail z > 0 then z\<lparr>z_tail := z_tail z - 1\<rparr>
      else
        let cycle = z_cycle z + 1;
            opcode = (if cycle = 3 then x else z_opcode z);
            z = z\<lparr>z_cycle := cycle, z_opcode := opcode\<rparr>
        in if opcode = 0x21 \<and> cycle = 7 then z\<lparr>z_immediate := x\<rparr>
           else if opcode = 0x21 \<and> cycle = 10
             then z\<lparr>z_address := ucast (z_immediate z) OR push_bit 8 (ucast x), z_cycle := 0\<rparr>
           else if opcode = 0x36 \<and> cycle = 7 then z\<lparr>z_immediate := x\<rparr>
           else if opcode = 0x36 \<and> cycle = 10
             then z\<lparr>z_memory := (z_memory z)(bank := (z_memory z bank)(z_address z := z_immediate z)), z_cycle := 0\<rparr>
           else if opcode = 0x7E \<and> cycle = 7 then z\<lparr>z_cycle := 0\<rparr>
           else z)"

definition bus_byte :: "u32 \<Rightarrow> u32 \<Rightarrow> u8" where
  "bus_byte out oe = (if asserted PIN_DATA_UP_OE_N (out, oe) then ucast (drop_bit PIN_DATA_0 out) else 0xFF)"

text \<open>The Z80 sees a reset as a level and its clock as rising edges.\<close>

definition z80_pins :: "bool \<Rightarrow> u32 \<Rightarrow> u32 \<Rightarrow> z80 \<Rightarrow> z80" where
  "z80_pins wired out oe z =
     (let clk = bit out PIN_CLK; rising = clk \<and> \<not> z_clk z; z = z\<lparr>z_clk := clk\<rparr>
      in if \<not> bit out PIN_RESET_N then z\<lparr>z_cycle := 0, z_tail := 2\<rparr>
         else if rising then z80_tick (bus_byte out oe) (wired \<and> bit out PIN_MEMORY_BANK) z
         else z)"

definition bench_in :: "bool \<Rightarrow> u32 \<Rightarrow> u32 \<Rightarrow> z80 \<Rightarrow> u32" where
  "bench_in wired out oe z =
     push_bit PIN_DATA_0 (ucast (if asserted PIN_DATA_DOWN_OE_N (out, oe)
       then z_memory z (wired \<and> bit out PIN_MEMORY_BANK) (z_address z) else 0xFF))
     OR (push_bit PIN_BUSACK_N 1 OR push_bit PIN_IORQ_N 1 OR push_bit PIN_RD_N 1 OR push_bit PIN_WR_N 1)"

definition bench :: "bool \<Rightarrow> bench hw" where
  "bench wired =
     \<lparr>hw_pins = (\<lambda>out oe d. d\<lparr>bench_z80 := z80_pins wired out oe (bench_z80 d)\<rparr>),
      hw_clk = (\<lambda>f p d. d),
      hw_wait = (\<lambda>us d. d\<lparr>bench_now := bench_now d + us\<rparr>),
      hw_spin = (\<lambda>d. d\<lparr>bench_now := bench_now d + 100000\<rparr>),
      hw_in = (\<lambda>out oe d. (bench_in wired out oe (bench_z80 d), d)),
      hw_now = (\<lambda>d. (bench_now d, d)),
      hw_sys_clk = 144000000\<rparr>"

lemma bench_simps [simp]:
  "hw_pins (bench w) out oe d = d\<lparr>bench_z80 := z80_pins w out oe (bench_z80 d)\<rparr>"
  "hw_clk (bench w) f p d = d"
  "hw_wait (bench w) us d = d\<lparr>bench_now := bench_now d + us\<rparr>"
  "hw_spin (bench w) d = d\<lparr>bench_now := bench_now d + 100000\<rparr>"
  "hw_in (bench w) out oe d = (bench_in w out oe (bench_z80 d), d)"
  "hw_now (bench w) d = (bench_now d, d)"
  "hw_sys_clk (bench w) = 144000000"
  by (simp_all add: bench_def)

interpretation bench_time: ticking "bench w" bench_now
  by unfold_locales simp_all

section \<open>Running the bench\<close>

abbreviation bz :: "bench board \<Rightarrow> z80" where "bz b \<equiv> bench_z80 (device b)"

text \<open>Between two clock pulses of a Z80 that is out of reset.\<close>

definition clocked :: "bench board \<Rightarrow> bool" where
  "clocked b \<longleftrightarrow> started b \<and> \<not> clk_pwm b \<and> \<not> bit (gpio_out b) PIN_CLK \<and> bit (gpio_out b) PIN_RESET_N \<and> \<not> z_clk (bz b)"

lemma quiet_pins:
  assumes "bit out PIN_RESET_N" and "\<not> bit out PIN_CLK" and "\<not> z_clk z"
  shows "z80_pins w out oe z = z"
  using assms by (simp add: z80_pins_def Let_def)

lemma tick_clk: "z80_tick x k (z\<lparr>z_clk := c\<rparr>) = (z80_tick x k z)\<lparr>z_clk := c\<rparr>"
  by (simp add: z80_tick_def Let_def)

lemma tick_keeps_clk [simp]: "z_clk (z80_tick x k z) = z_clk z"
  by (simp add: z80_tick_def Let_def)

lemma bz_set_pins [simp]:
  "bz (set_pins (bench w) out oe b) = z80_pins w out oe (bz b)"
  "bz (set_clk (bench w) f p b) = bz b"
  "bz (busy_wait_us_32 (bench w) n b) = bz b"
  by (simp_all add: set_pins_def set_clk_def busy_wait_us_32_def)

lemma set_bit_same: "bit w n \<Longrightarrow> set_bit n w = w" "\<not> bit w n \<Longrightarrow> unset_bit n w = w" for w :: "'a::len word"
  by (rule bit_word_eqI, auto simp: bit_set_bit_iff bit_unset_bit_iff)+

lemma unset_set_bit: "\<not> bit w n \<Longrightarrow> unset_bit n (set_bit n w) = w" for w :: "'a::len word"
  by (rule bit_word_eqI) (auto simp: bit_set_bit_iff bit_unset_bit_iff)

lemma bus_byte_set_clk: "bus_byte (set_bit 2 out) oe = bus_byte out oe"
proof -
  have "ucast (drop_bit 10 (set_bit 2 out)) = (ucast (drop_bit 10 out) :: u8)"
    by (rule bit_word_eqI) (auto simp: bit_ucast_iff bit_drop_bit_eq bit_set_bit_iff)
  then show ?thesis
    by (simp add: bus_byte_def asserted_def bit_set_bit_iff)
qed

lemma clock_cycle:
  assumes "clocked b"
  shows "gpio_out (z80_clock_one_cycle (bench w) h b) = gpio_out b"
    and "gpio_oe (z80_clock_one_cycle (bench w) h b) = gpio_oe b"
    and "bz (z80_clock_one_cycle (bench w) h b) =
      z80_tick (bus_byte (gpio_out b) (gpio_oe b)) (w \<and> bank_pin b) (bz b)"
    and "clocked (z80_clock_one_cycle (bench w) h b)"
proof -
  have c: "bank_driver b = None" "\<forall>pin \<in> {2..<10}. bit (gpio_oe b) pin" "\<not> clk_pwm b" "\<not> bit (gpio_out b) 2"
    "bit (gpio_out b) 3" "\<not> z_clk (bz b)" "bit (gpio_oe b) 2"
    using assms by (auto simp: clocked_def started_def)
  have rise: "z80_pins w (set_bit 2 (gpio_out b)) (gpio_oe b) (bz b) =
      (z80_tick (bus_byte (gpio_out b) (gpio_oe b)) (w \<and> bank_pin b) (bz b))\<lparr>z_clk := True\<rparr>"
    using c by (simp add: z80_pins_def Let_def bit_set_bit_iff tick_clk bus_byte_set_clk bank_pin_def)
  have fall: "z80_pins w (gpio_out b) (gpio_oe b) (z\<lparr>z_clk := True\<rparr>) = z\<lparr>z_clk := False\<rparr>" for z
    using c by (simp add: z80_pins_def Let_def)
  note defs = z80_clock_one_cycle_def z80_clock_prepare_stepping_def z80_clock_step_prepared_def z80_clock_stop_def
    gpio_put_def gpio_set_dir_def Let_def
  show out: "gpio_out (z80_clock_one_cycle (bench w) h b) = gpio_out b"
    and oe: "gpio_oe (z80_clock_one_cycle (bench w) h b) = gpio_oe b"
    using c by (simp_all add: defs set_bit_same unset_set_bit)
  have "bz (z80_clock_one_cycle (bench w) h b) =
      (z80_tick (bus_byte (gpio_out b) (gpio_oe b)) (w \<and> bank_pin b) (bz b))\<lparr>z_clk := False\<rparr>"
    using c by (simp add: defs set_bit_same unset_set_bit quiet_pins rise fall)
  then show z: "bz (z80_clock_one_cycle (bench w) h b) =
      z80_tick (bus_byte (gpio_out b) (gpio_oe b)) (w \<and> bank_pin b) (bz b)"
    using c(6) by simp
  show "clocked (z80_clock_one_cycle (bench w) h b)"
    unfolding clocked_def started_def out oe z using c by (simp add: defs)
qed

text \<open>A pin change other than of clock and reset leaves the Z80 alone.\<close>

lemma quiet_change:
  assumes "clocked b" and "bit out PIN_RESET_N" and "\<not> bit out PIN_CLK" and "\<forall>pin \<in> {2..<10}. bit oe pin"
  shows "clocked (set_pins (bench w) out oe b)" and "bz (set_pins (bench w) out oe b) = bz b"
  using assms by (auto simp: clocked_def started_def quiet_pins)

lemma clockedD:
  assumes "clocked b"
  shows "bit (gpio_out b) PIN_RESET_N" "\<not> bit (gpio_out b) PIN_CLK" "\<forall>pin \<in> {2..<10}. bit (gpio_oe b) pin"
    "\<not> z_clk (bz b)"
  using assms by (auto simp: clocked_def started_def)

lemma quiet_put:
  assumes "clocked b" and "pin \<notin> {2, 3}"
  shows "clocked (gpio_put (bench w) pin v b)" and "bz (gpio_put (bench w) pin v b) = bz b"
  unfolding gpio_put_def using clockedD [OF assms(1)] assms
  by (auto intro!: quiet_change simp: quiet_pins pin_bits)

lemma quiet_wait:
  assumes "clocked b"
  shows "clocked (busy_wait_us_32 (bench w) n b)"
  using assms by (simp add: clocked_def started_def)

lemma quiet_isolate:
  assumes "clocked b"
  shows "clocked (z80_data_bus_isolate (bench w) b)" and "bz (z80_data_bus_isolate (bench w) b) = bz b"
    and "bank_pin (z80_data_bus_isolate (bench w) b) = bank_pin b"
  unfolding z80_data_bus_isolate_def gpio_set_mask_def using clockedD [OF assms]
  by (auto intro!: quiet_change [OF assms] simp: quiet_pins pin_bits bank_pin_def)

lemma quiet_masked:
  assumes "clocked b"
  shows "clocked (gpio_put_masked (bench w) DATA_MASK v b)" "bz (gpio_put_masked (bench w) DATA_MASK v b) = bz b"
    and "clocked (gpio_set_dir_masked (bench w) DATA_MASK v b)" "bz (gpio_set_dir_masked (bench w) DATA_MASK v b) = bz b"
  unfolding gpio_put_masked_def gpio_set_dir_masked_def using clockedD [OF assms]
  by (auto intro!: quiet_change [OF assms] simp: quiet_pins pin_bits data_mask_bit)

lemma driven_byte:
  assumes "\<forall>pin \<in> {2..<10}. bit (gpio_oe b) pin"
  shows "bus_byte (gpio_out (z80_data_bus_drive hw v b)) (gpio_oe (z80_data_bus_drive hw v b)) = v"
proof -
  have "ucast (drop_bit 10 (gpio_out (z80_data_bus_drive hw v b))) = v"
    by (rule bit_word_eqI)
      (simp add: z80_data_bus_drive_def Let_def bit_ucast_iff bit_drop_bit_eq bit_push_bit_iff)
  moreover have "asserted 6 (gpio_out (z80_data_bus_drive hw v b), gpio_oe (z80_data_bus_drive hw v b))"
    using assms by (simp add: asserted_def z80_data_bus_drive_def Let_def z80_data_bus_isolate_def gpio_set_mask_def)
  ultimately show ?thesis
    by (simp add: bus_byte_def)
qed

lemma bench_drive:
  assumes "clocked b"
  shows "clocked (z80_data_bus_drive (bench w) v b)" and "bz (z80_data_bus_drive (bench w) v b) = bz b"
    and "bank_pin (z80_data_bus_drive (bench w) v b) = bank_pin b"
  unfolding z80_data_bus_drive_def Let_def
  using assms by (simp_all add: quiet_put quiet_wait quiet_masked quiet_isolate)

lemma isolated_byte:
  "bit out 6 \<Longrightarrow> bus_byte out oe = 0xFF"
  by (simp add: bus_byte_def asserted_def)

lemma bench_pulse:
  assumes "clocked b"
  shows "clocked (pulse_clock (bench w) n b)"
    and "gpio_out (pulse_clock (bench w) n b) = gpio_out b" and "gpio_oe (pulse_clock (bench w) n b) = gpio_oe b"
    and "bz (pulse_clock (bench w) n b) =
      (z80_tick (bus_byte (gpio_out b) (gpio_oe b)) (w \<and> bank_pin b) ^^ n) (bz b)"
proof -
  have "clocked (pulse_clock (bench w) n b) \<and> gpio_out (pulse_clock (bench w) n b) = gpio_out b \<and>
      gpio_oe (pulse_clock (bench w) n b) = gpio_oe b \<and>
      bz (pulse_clock (bench w) n b) =
      (z80_tick (bus_byte (gpio_out b) (gpio_oe b)) (w \<and> bank_pin b) ^^ n) (bz b)"
    unfolding pulse_clock_def using assms
    by (induction n) (simp_all add: clock_cycle, simp add: bank_pin_def clock_cycle)
  then show "clocked (pulse_clock (bench w) n b)"
    and "gpio_out (pulse_clock (bench w) n b) = gpio_out b" and "gpio_oe (pulse_clock (bench w) n b) = gpio_oe b"
    and "bz (pulse_clock (bench w) n b) =
      (z80_tick (bus_byte (gpio_out b) (gpio_oe b)) (w \<and> bank_pin b) ^^ n) (bz b)"
    by blast+
qed

text \<open>Both bus drivers off.\<close>

definition lined :: "bench board \<Rightarrow> bool" where
  "lined b \<longleftrightarrow> clocked b \<and> bit (gpio_out b) PIN_DATA_UP_OE_N \<and> bit (gpio_out b) PIN_DATA_DOWN_OE_N"

lemma bench_inject:
  assumes "lined b"
  shows "lined (inject_read (bench w) v opcode b)" and "bank_pin (inject_read (bench w) v opcode b) = bank_pin b"
    and "bz (inject_read (bench w) v opcode b) =
      (let t = z80_tick v (w \<and> bank_pin b); i = z80_tick 0xFF (w \<and> bank_pin b)
       in (if opcode then i else id) (t (t (i (bz b)))))"
proof -
  define b1 where "b1 = busy_wait_us_32 (bench w) 1 (gpio_put (bench w) 5 True (pulse_clock (bench w) 1 b))"
  define b2 where "b2 = z80_data_bus_drive (bench w) v b1"
  define b3 where "b3 = z80_data_bus_isolate (bench w) (pulse_clock (bench w) 2 b2)"
  have b: "clocked b" and ff: "bus_byte (gpio_out b) (gpio_oe b) = 0xFF"
    using assms by (auto simp: lined_def isolated_byte)
  have pin: "bank_pin (pulse_clock (bench w) n b) = bank_pin b" if "clocked b" for n b
    using bench_pulse(2) [OF that] by (simp add: bank_pin_def)
  have b1: "clocked b1" "bank_pin b1 = bank_pin b" "bz b1 = z80_tick 0xFF (w \<and> bank_pin b) (bz b)"
    using b by (simp_all add: b1_def quiet_wait quiet_put bench_pulse pin ff)
  have b2: "clocked b2" "bank_pin b2 = bank_pin b" "bz b2 = bz b1" "bus_byte (gpio_out b2) (gpio_oe b2) = v"
    using b1 clockedD [OF b1(1)] by (auto simp: b2_def bench_drive driven_byte)
  have b3: "lined b3" "bank_pin b3 = bank_pin b"
    "bz b3 = z80_tick v (w \<and> bank_pin b) (z80_tick v (w \<and> bank_pin b) (bz b1))"
    using b2 by (simp_all add: b3_def lined_def quiet_isolate bench_pulse pin isolated_data_bus numeral_2_eq_2)
  have r: "inject_read (bench w) v opcode b = (if opcode then pulse_clock (bench w) 1 b3 else b3)"
    by (simp add: inject_read_def b1_def b2_def b3_def Let_def)
  have b4: "clocked b3" "bus_byte (gpio_out b3) (gpio_oe b3) = 0xFF"
    using b3(1) by (auto simp: lined_def isolated_byte)
  show "lined (inject_read (bench w) v opcode b)" and "bank_pin (inject_read (bench w) v opcode b) = bank_pin b"
    and "bz (inject_read (bench w) v opcode b) =
      (let t = z80_tick v (w \<and> bank_pin b); i = z80_tick 0xFF (w \<and> bank_pin b)
       in (if opcode then i else id) (t (t (i (bz b)))))"
    using b3 b4 bench_pulse [OF b4(1), of w 1] b1(3) by (auto simp: r pin lined_def Let_def)
qed

text \<open>The Z80 is about to fetch: the first clock of an instruction comes next.\<close>

definition bench_session :: "bench board \<Rightarrow> bool" where
  "bench_session b \<longleftrightarrow> lined b \<and> z_cycle (bz b) = 0 \<and> z_tail (bz b) = 0"

lemma address_bytes: "ucast (ucast a :: u8) OR push_bit 8 (ucast (ucast (drop_bit 8 a) :: u8)) = (a :: u16)"
proof (rule bit_word_eqI)
  fix n assume "n < LENGTH(16)"
  then show "bit (ucast (ucast a :: u8) OR push_bit 8 (ucast (ucast (drop_bit 8 a) :: u8)) :: u16) n = bit a n"
    by (auto simp: bit_or_iff bit_push_bit_iff bit_ucast_iff bit_drop_bit_eq)
qed

text \<open>The instructions of the loader, clock by clock, on the Z80 of the bench.\<close>

lemma load_hl_ticks:
  assumes "z_cycle z = 0" and "z_tail z = 0"
  shows "z80_tick hi k (z80_tick hi k (z80_tick 0xFF k (z80_tick lo k (z80_tick lo k (z80_tick 0xFF k
      (z80_tick 0xFF k (z80_tick 0x21 k (z80_tick 0x21 k (z80_tick 0xFF k z))))))))) =
    z\<lparr>z_opcode := 0x21, z_immediate := lo, z_address := ucast lo OR push_bit 8 (ucast hi)\<rparr>"
  using assms by (cases z) (simp add: z80_tick_def Let_def)

lemma store_ticks:
  assumes "z_cycle z = 0" and "z_tail z = 0"
  shows "z80_tick 0xFF k (z80_tick 0xFF k (z80_tick 0xFF k (z80_tick v k (z80_tick v k (z80_tick 0xFF k
      (z80_tick 0xFF k (z80_tick 0x36 k (z80_tick 0x36 k (z80_tick 0xFF k z))))))))) =
    z\<lparr>z_opcode := 0x36, z_immediate := v,
      z_memory := (z_memory z)(k := (z_memory z k)(z_address z := v))\<rparr>"
  using assms by (cases z) (simp add: z80_tick_def Let_def)

lemma fetch_ticks:
  assumes "z_cycle z = 0" and "z_tail z = 0"
  shows "z80_tick 0xFF k (z80_tick 0xFF k (z80_tick 0xFF k (z80_tick 0x7E k (z80_tick 0x7E k (z80_tick 0xFF k z))))) =
    z\<lparr>z_opcode := 0x7E, z_cycle := 6\<rparr>"
    and "z80_tick x k (z\<lparr>z_opcode := 0x7E, z_cycle := 6\<rparr>) = z\<lparr>z_opcode := 0x7E\<rparr>"
  using assms by (cases z, simp add: z80_tick_def Let_def)+

lemma bench_load_hl:
  assumes "bench_session b"
  shows "bench_session (load_hl (bench w) a b)" and "bank_pin (load_hl (bench w) a b) = bank_pin b"
    and "z_memory (bz (load_hl (bench w) a b)) = z_memory (bz b)" and "z_address (bz (load_hl (bench w) a b)) = a"
  using assms
  by (simp_all add: bench_session_def load_hl_def bench_inject Let_def load_hl_ticks address_bytes)

lemma pulse_2_3: "(f ^^ 2) x = f (f x)" "(f ^^ 3) x = f (f (f x))"
  by (simp_all add: eval_nat_numeral)

lemma bench_write:
  assumes "bench_session b"
  shows "bench_session (snd (z80_sram_write_byte (bench w) a v b))"
    and "z_memory (bz (snd (z80_sram_write_byte (bench w) a v b))) =
      (z_memory (bz b))(w \<and> bank_pin b := (z_memory (bz b) (w \<and> bank_pin b))(a := v))"
proof -
  define b1 where "b1 = load_hl (bench w) a b"
  define b2 where "b2 = inject_read (bench w) v False (inject_read (bench w) 0x36 True b1)"
  have b1: "lined b1" "z_cycle (bz b1) = 0" "z_tail (bz b1) = 0" "bank_pin b1 = bank_pin b"
    "z_memory (bz b1) = z_memory (bz b)" "z_address (bz b1) = a"
    using bench_load_hl [OF assms] by (auto simp: b1_def bench_session_def)
  have b2: "lined b2" "bank_pin b2 = bank_pin b"
    using b1 by (simp_all add: b2_def bench_inject)
  then have l: "clocked b2" "bus_byte (gpio_out b2) (gpio_oe b2) = 0xFF"
    by (auto simp: lined_def isolated_byte)
  have r: "snd (z80_sram_write_byte (bench w) a v b) = pulse_clock (bench w) 3 b2"
    by (simp add: z80_sram_write_byte_def b1_def b2_def Let_def)
  have "bz (pulse_clock (bench w) 3 b2) = (bz b1)\<lparr>z_opcode := 0x36, z_immediate := v,
      z_memory := (z_memory (bz b))(w \<and> bank_pin b := (z_memory (bz b) (w \<and> bank_pin b))(a := v))\<rparr>"
    using b1 b2(2) unfolding bench_pulse(4) [OF l(1)] l(2) pulse_2_3
    by (simp add: b2_def bench_inject Let_def store_ticks)
  then show "bench_session (snd (z80_sram_write_byte (bench w) a v b))"
    and "z_memory (bz (snd (z80_sram_write_byte (bench w) a v b))) =
      (z_memory (bz b))(w \<and> bank_pin b := (z_memory (bz b) (w \<and> bank_pin b))(a := v))"
    unfolding r using b1 b2 bench_pulse [OF l(1), of w 3] by (auto simp: bench_session_def lined_def)
qed

lemma bench_prepare_input:
  assumes "clocked b"
  shows "clocked (z80_data_bus_prepare_input (bench w) b)" and "bz (z80_data_bus_prepare_input (bench w) b) = bz b"
    and "bank_pin (z80_data_bus_prepare_input (bench w) b) = bank_pin b"
  unfolding z80_data_bus_prepare_input_def Let_def
  using assms by (simp_all add: quiet_put quiet_wait quiet_masked quiet_isolate)

lemma prepared_input:
  assumes "\<forall>pin \<in> {2..<10}. bit (gpio_oe b) pin"
  shows "bit (gpio_out (z80_data_bus_prepare_input hw b)) PIN_DATA_UP_OE_N"
    and "\<not> bit (gpio_out (z80_data_bus_prepare_input hw b)) PIN_DATA_DOWN_OE_N"
    and "bit (gpio_oe (z80_data_bus_prepare_input hw b)) PIN_DATA_DOWN_OE_N"
  using assms
  by (simp_all add: z80_data_bus_prepare_input_def Let_def z80_data_bus_isolate_def gpio_set_mask_def pin_bits)

lemma bench_in_data:
  "ucast (drop_bit 10 (bench_in w out oe z)) = (if asserted 7 (out, oe)
     then z_memory z (w \<and> bit out 8) (z_address z) else 0xFF)"
proof -
  have split: "ucast (drop_bit 10 (push_bit 10 (ucast x) OR c)) = x OR ucast (drop_bit 10 c)" for x :: u8 and c :: u32
    by (rule bit_word_eqI) (auto simp: bit_ucast_iff bit_drop_bit_eq bit_or_iff bit_push_bit_iff)
  have "(0x60000 :: u8) = 0"
    by simp
  then have none: "x OR 0x60000 = x" for x :: u8
    by (simp only: or.right_neutral)
  show ?thesis
    unfolding bench_in_def split by (simp add: none)
qed

lemma bench_sample:
  assumes "bit (gpio_oe b) PIN_DATA_DOWN_OE_N" and "\<not> bit (gpio_out b) PIN_DATA_DOWN_OE_N"
  shows "z80_data_bus_sample (bench w) b = (z_memory (bz b) (w \<and> bank_pin b) (z_address (bz b)), b)"
  using assms by (simp add: z80_data_bus_sample_def gpio_get_all_def bench_in_data asserted_def bank_pin_def)

lemma bench_read:
  assumes "bench_session b"
  shows "bench_session (snd (z80_sram_read_byte (bench w) True a b))"
    and "z_memory (bz (snd (z80_sram_read_byte (bench w) True a b))) = z_memory (bz b)"
    and "fst (z80_sram_read_byte (bench w) True a b) = Some (z_memory (bz b) (w \<and> bank_pin b) a)"
proof -
  define b1 where "b1 = load_hl (bench w) a b"
  define b2 where "b2 = z80_data_bus_prepare_input (bench w) (inject_read (bench w) 0x7E True b1)"
  define b3 where "b3 = busy_wait_us_32 (bench w) 1 (pulse_clock (bench w) 2 (gpio_put (bench w) 5 False b2))"
  define b4 where "b4 = gpio_put (bench w) 5 True (z80_data_bus_isolate (bench w) (pulse_clock (bench w) 1 b3))"
  have b1: "lined b1" "z_cycle (bz b1) = 0" "z_tail (bz b1) = 0" "bank_pin b1 = bank_pin b"
    "z_memory (bz b1) = z_memory (bz b)" "z_address (bz b1) = a"
    using bench_load_hl [OF assms] by (auto simp: b1_def bench_session_def)
  have i: "clocked (inject_read (bench w) 0x7E True b1)"
    using bench_inject(1) [OF b1(1)] by (simp add: lined_def)
  have b2: "clocked b2" "bank_pin b2 = bank_pin b" "bz b2 = bz (inject_read (bench w) 0x7E True b1)"
    "bit (gpio_out b2) 6" "\<not> bit (gpio_out b2) 7" "bit (gpio_oe b2) 7"
    using i b1 prepared_input [OF clockedD(3) [OF i], of "bench w"]
    by (auto simp: b2_def bench_prepare_input bench_inject)
  have p: "clocked (gpio_put (bench w) 5 False b2)"
    using b2(1) by (simp add: quiet_put)
  have b3: "clocked b3" "bank_pin b3 = bank_pin b" "bit (gpio_out b3) 6" "\<not> bit (gpio_out b3) 7" "bit (gpio_oe b3) 7"
    using b2 bench_pulse [OF p, of w 2] by (auto simp: b3_def quiet_wait bank_pin_def)
  have z3: "bz b3 = (bz b1)\<lparr>z_opcode := 0x7E, z_cycle := 6\<rparr>"
    using b1 b2 bench_pulse(4) [OF p, of w 2]
    by (simp add: b3_def pulse_2_3 isolated_byte quiet_put bench_inject Let_def fetch_ticks)
  have b4: "bench_session b4" "z_memory (bz b4) = z_memory (bz b)"
    using b1 b3 z3 bench_pulse [OF b3(1), of w 1] isolated_data_bus [of "bench w"]
    by (auto simp: b4_def bench_session_def lined_def quiet_put quiet_isolate fetch_ticks)
  have r: "z80_sram_read_byte (bench w) True a b = (Some (z_memory (bz b) (w \<and> bank_pin b) a), b4)"
    using bench_sample [OF b3(5,4), of w] b1 b3(2) z3
    unfolding z80_sram_read_byte_def Let_def b1_def [symmetric] b2_def [symmetric] b3_def [symmetric]
    by (simp add: b4_def)
  show "bench_session (snd (z80_sram_read_byte (bench w) True a b))"
    and "z_memory (bz (snd (z80_sram_read_byte (bench w) True a b))) = z_memory (bz b)"
    and "fst (z80_sram_read_byte (bench w) True a b) = Some (z_memory (bz b) (w \<and> bank_pin b) a)"
    using r b4 by simp_all
qed

text \<open>Held in reset, between two clock pulses, with both bus drivers off.\<close>

definition held :: "bench board \<Rightarrow> bool" where
  "held b \<longleftrightarrow> started b \<and> \<not> clk_pwm b \<and> \<not> bit (gpio_out b) PIN_CLK \<and> \<not> bit (gpio_out b) PIN_RESET_N \<and>
     bit (gpio_out b) PIN_DATA_UP_OE_N \<and> bit (gpio_out b) PIN_DATA_DOWN_OE_N \<and>
     \<not> z_clk (bz b) \<and> z_cycle (bz b) = 0 \<and> z_tail (bz b) = 2"

lemma reset_cycle:
  assumes "started b" and "\<not> bit (gpio_out b) PIN_RESET_N"
    and "bit (gpio_out b) PIN_DATA_UP_OE_N" and "bit (gpio_out b) PIN_DATA_DOWN_OE_N"
  shows "held (z80_clock_one_cycle (bench w) h b)"
  using assms
  by (simp add: held_def started_def z80_clock_one_cycle_def z80_clock_prepare_stepping_def
      z80_clock_step_prepared_def z80_clock_stop_def gpio_put_def gpio_set_dir_def Let_def z80_pins_def pin_bits)

lemma reset_cycles:
  assumes "started b" and "bit (gpio_out b) PIN_DATA_UP_OE_N" and "bit (gpio_out b) PIN_DATA_DOWN_OE_N"
  shows "held (z80_reset_with_clock_cycles (bench w) (Suc n) h b)"
proof -
  have "held ((z80_clock_one_cycle (bench w) h ^^ Suc n) (gpio_put (bench w) 3 False b))"
  proof (induction n)
    case 0
    then show ?case
      using assms by (simp, intro reset_cycle) (simp_all add: started_def)
  next
    case (Suc n)
    then show ?case
      using reset_cycle [of "(z80_clock_one_cycle (bench w) h ^^ Suc n) (gpio_put (bench w) 3 False b)"]
      by (simp add: held_def)
  qed
  then show ?thesis
    by (simp add: z80_reset_with_clock_cycles_def z80_clock_stop_def held_def started_def)
qed

lemma started_after [simp]:
  "started (gpio_put hw pin v b) = started b"
  "started (set_clk hw f p b) = started b"
  "started (busy_wait_us_32 hw n b) = started b"
  "started (z80_memory_bank_set_available f b) = started b"
  "started (z80_isolate_buses hw b) = started b"
  by (simp_all add: started_def z80_memory_bank_set_available_def z80_isolate_buses_def)

lemma fail_closed_started: "started b \<Longrightarrow> started (z80_cpu_fail_closed hw b)"
  by (simp add: z80_cpu_fail_closed_def Let_def z80_clock_stop_def)

lemma bench_get [simp]: "snd (gpio_get (bench w) pin b) = b"
  by (simp add: gpio_get_def gpio_get_all_def)

lemma bench_all_high: "snd (all_high (bench w) pins b) = b"
  by (induction pins arbitrary: b) (simp_all add: and_then_case)

lemma bench_sram_prepare:
  assumes "started b"
  shows "bench_session (snd (z80_sram_prepare_loader (bench w) b))"
proof -
  define b1 where "b1 = z80_reset_with_clock_cycles (bench w) 6 1
    (gpio_put (bench w) 4 True (gpio_put (bench w) 5 True (z80_isolate_buses (bench w) b)))"
  define b2 where "b2 = gpio_put (bench w) 3 True (z80_memory_bank_select (bench w) 0 b1)"
  have "held b1"
    unfolding b1_def using assms reset_cycles [of _ w 5 1] by simp
  then have b2: "lined b2" "z_cycle (bz b2) = 0" "z_tail (bz b2) = 2"
    by (auto simp: b2_def held_def lined_def clocked_def started_def z80_memory_bank_select_def gpio_put_def
        z80_pins_def Let_def pin_bits)
  then have c: "clocked b2"
    by (simp add: lined_def)
  have r: "snd (z80_sram_prepare_loader (bench w) b) = pulse_clock (bench w) 2 b2"
    unfolding z80_sram_prepare_loader_def Let_def b1_def [symmetric] b2_def [symmetric]
    by (simp add: pulse_clock_def pulse_2_3)
  show ?thesis
    unfolding r using b2 bench_pulse [OF c, of w 2]
    by (simp add: bench_session_def lined_def pulse_2_3 z80_tick_def)
qed

lemma bench_prepare:
  assumes "started b" and "z80_cpu_prepare_loader (bench w) b = (True, b')"
  shows "bench_session b'"
proof -
  define b1 where "b1 = z80_reset_with_clock_cycles (bench w) 3 1
    (z80_cpu_fail_closed (bench w) (z80_memory_bank_set_available False b))"
  have "held b1"
    unfolding b1_def
    using assms(1) reset_cycles [of "z80_cpu_fail_closed (bench w) (z80_memory_bank_set_available False b)" w 2 1]
      fail_closed_cpu [of "bench w" "z80_memory_bank_set_available False b"]
    by (simp add: fail_closed_started fail_closed_def)
  then have "bench_session (snd (z80_sram_prepare_loader (bench w) b1))"
    by (intro bench_sram_prepare) (simp add: held_def)
  moreover have "b' = snd (z80_sram_prepare_loader (bench w) b1)"
    using assms(2) bench_all_high [of w "[0, 1, 27, 28]" b1]
    unfolding z80_cpu_prepare_loader_def Let_def prod_bool_case b1_def [symmetric]
    by (auto split: if_splits simp del: all_high.simps)
  ultimately show ?thesis
    by simp
qed

lemma bench_session_clocked: "bench_session b \<Longrightarrow> clocked b"
  by (simp add: bench_session_def lined_def)

lemma bench_select:
  assumes "bench_session b"
  shows "bench_session (z80_memory_bank_select (bench w) n b)"
    and "bz (z80_memory_bank_select (bench w) n b) = bz b"
proof -
  have "z80_memory_bank_select (bench w) n b = gpio_put (bench w) 8 (n AND 1 \<noteq> 0) b"
    using bench_session_clocked [OF assms] by (simp add: clocked_def started_def z80_memory_bank_select_def)
  then show "bench_session (z80_memory_bank_select (bench w) n b)"
    and "bz (z80_memory_bank_select (bench w) n b) = bz b"
    using assms quiet_put [OF bench_session_clocked [OF assms], of 8 w] by (simp_all add: bench_session_def lined_def)
qed

lemma bench_close:
  assumes "bench_session b"
  shows "z_memory (bz (z80_cpu_fail_closed (bench w) b)) = z_memory (bz b)"
proof -
  have reset: "z_memory (z80_pins w out oe z) = z_memory z" if "\<not> bit out 3" for out oe z
    using that by (simp add: z80_pins_def Let_def)
  have c: "clocked (z80_isolate_buses (bench w) b)" "bz (z80_isolate_buses (bench w) b) = bz b"
    using bench_session_clocked [OF assms] by (simp_all add: z80_isolate_buses_def quiet_put)
  then show ?thesis
    unfolding z80_cpu_fail_closed_def Let_def z80_clock_stop_def
    by (simp add: gpio_put_def reset pin_bits)
qed

lemma bench_flag:
  "bench_session (z80_memory_bank_set_available f b) = bench_session b"
  "bz (z80_memory_bank_set_available f b) = bz b"
  by (simp_all add: bench_session_def lined_def clocked_def started_def z80_memory_bank_set_available_def)

interpretation bench_sram: sram_good "bench w" w bench_session "\<lambda>b. z_memory (bz b)"
proof unfold_locales
  show "bench_session b \<Longrightarrow> started b" for b
    using bench_session_clocked by (simp add: clocked_def)
qed (auto simp: bench_prepare bench_write bench_read bench_select bench_close bench_flag)

section \<open>The laws at work\<close>

text \<open>A board as it powers up: pins undriven, memory zero.\<close>

definition bench_board :: "bench board" where
  "bench_board =
     \<lparr>gpio_out = 0, gpio_oe = 0, gpio_no_pulls = 0, clk_pwm = False,
      pwm = \<lparr>pwm_enabled = False, pwm_div = 1, pwm_wrap = 0xFFFF, pwm_level = 0, pwm_counter = 0\<rparr>,
      actual_clock_hz = 0, banked_memory_available = False, bank_driver = None, pin_trace = [],
      device = \<lparr>bench_z80 = \<lparr>z_cycle = 0, z_tail = 0, z_opcode = 0, z_immediate = 0, z_address = 0,
        z_memory = (\<lambda>_ _. 0), z_clk = False\<rparr>, bench_now = 0\<rparr>\<rparr>"

lemma bench_reachable: "board_reachable (bench w) (z80_safe_startup (bench w) bench_board)"
  by (rule board_reachable.start) (simp_all add: bench_board_def)


theorem bus_handshake_witness: "\<exists>ok b'. z80_cpu_request_bus (bench True) 500000 bench_board = Some (ok, b')"
  using bus_handshake [OF bench_time.ticking_axioms [of True], of 500000 bench_board] by blast

theorem clock_fastest_rate_witness:
  "\<exists>b'. z80_clock_set_hz (bench True) 4000000 bench_board = (True, b') \<and> 144000000 \<le> 4000000 * pwm_period (pwm b')"
  using clock_fastest_rate [of 4000000 "bench True" bench_board] by auto

end
