(* ===== verification/Boot_Loader.thy ===== *)
theory Boot_Loader
  imports Sram_Loader Flash_Journal
begin

text \<open>
  The boot of \<open>src/src/common/flash_backend.c\<close>: \<open>z80_flash_backend_init_observed\<close> recovers the journal, checks the boot
  manifest and the image in flash, writes the image into SRAM through the Z80, reads it all back, prepares bank 1
  and leaves the Z80 stopped. \<open>loader\<close> is the board, the published \<open>boot_status\<close> and the observer's context;
  an observer that answers false cancels the boot. The SDK's \<open>flash_safe_execute_core_init\<close> and the lockout
  answers are arguments.
\<close>

section \<open>Status and manifest\<close>

datatype boot_phase =
  Z80_BOOT_RECOVERY | Z80_BOOT_MANIFEST | Z80_BOOT_LOAD | Z80_BOOT_VERIFY | Z80_BOOT_VERIFIED

datatype boot_error =
  Z80_BOOT_ERROR_NONE | Z80_BOOT_ERROR_JOURNAL | Z80_BOOT_ERROR_MANIFEST | Z80_BOOT_ERROR_PAYLOAD_CRC
| Z80_BOOT_ERROR_LOADER | Z80_BOOT_ERROR_WRITE | Z80_BOOT_ERROR_READ | Z80_BOOT_ERROR_MISMATCH
| Z80_BOOT_ERROR_FLASH_INIT | Z80_BOOT_ERROR_CANCELLED

record boot_status =
  bs_phase :: boot_phase
  bs_error :: boot_error
  bs_completed :: nat
  bs_total :: nat
  bs_address :: u16
  bs_expected :: u8
  bs_actual :: u8

type_synonym 'c observer = "(boot_status \<Rightarrow> 'c \<Rightarrow> bool \<times> 'c) option"

record ('d, 'c) loader =
  ld_board :: "'d board"
  ld_status :: boot_status
  ld_context :: 'c

record boot_manifest =
  bm_magic :: u32
  bm_version :: u16
  bm_header_bytes :: u16
  bm_image_bytes :: u32
  bm_image_crc32 :: u32
  bm_header_crc32 :: u32

abbreviation (input) FLASH_BOOT_PAYLOAD_OFFSET :: nat where "FLASH_BOOT_PAYLOAD_OFFSET \<equiv> 0x1E1000"
abbreviation (input) Z80_BOOT_MAGIC :: u32 where "Z80_BOOT_MAGIC \<equiv> 0x5442385A"
abbreviation (input) Z80_BOOT_VERSION :: u16 where "Z80_BOOT_VERSION \<equiv> 1"
abbreviation (input) Z80_BOOT_IMAGE_BYTES :: nat where "Z80_BOOT_IMAGE_BYTES \<equiv> 65536"
abbreviation (input) BOOT_PROGRESS_BYTES :: nat where "BOOT_PROGRESS_BYTES \<equiv> 256"

definition manifest_of :: "bytes \<Rightarrow> boot_manifest" where
  "manifest_of bs =
     \<lparr>bm_magic = rd32 bs, bm_version = rd16 (drop 4 bs), bm_header_bytes = rd16 (drop 6 bs),
      bm_image_bytes = rd32 (drop 8 bs), bm_image_crc32 = rd32 (drop 12 bs), bm_header_crc32 = rd32 (drop 16 bs)\<rparr>"

definition manifest_valid :: "bytes \<Rightarrow> bool" where
  "manifest_valid bs \<longleftrightarrow>
     (let manifest = manifest_of bs
      in bm_magic manifest = Z80_BOOT_MAGIC \<and> bm_version manifest = Z80_BOOT_VERSION \<and>
         bm_header_bytes manifest = 20 \<and> bm_image_bytes manifest = of_nat Z80_BOOT_IMAGE_BYTES \<and>
         crc32_bytes (take 16 bs) = bm_header_crc32 manifest)"

definition z80_flash_boot_status :: "('d, 'c) loader \<Rightarrow> boot_status" where
  "z80_flash_boot_status s = ld_status s"

definition boot_failed :: "'d hw \<Rightarrow> boot_error \<Rightarrow> ('d, 'c) loader \<Rightarrow> bool \<times> ('d, 'c) loader" where
  "boot_failed hw e s =
     (False, s\<lparr>ld_status := (ld_status s)\<lparr>bs_error := e\<rparr>, ld_board := z80_cpu_fail_closed hw (ld_board s)\<rparr>)"

definition boot_progress ::
    "'d hw \<Rightarrow> boot_phase \<Rightarrow> nat \<Rightarrow> 'c observer \<Rightarrow> ('d, 'c) loader \<Rightarrow> bool \<times> ('d, 'c) loader" where
  "boot_progress hw phase completed observer s =
     (let s = s\<lparr>ld_status := (ld_status s)\<lparr>bs_phase := phase, bs_completed := completed\<rparr>\<rparr>
      in case observer of None \<Rightarrow> (True, s)
      | Some ob \<Rightarrow>
        case ob (ld_status s) (ld_context s) of (go, c) \<Rightarrow>
          let s = s\<lparr>ld_context := c\<rparr>
          in if go then (True, s) else boot_failed hw Z80_BOOT_ERROR_CANCELLED s)"

section \<open>Loading the image\<close>

text \<open>The progress call at every 256th byte, and the status fields set for a byte.\<close>

definition boot_tick ::
    "'d hw \<Rightarrow> boot_phase \<Rightarrow> nat \<Rightarrow> u8 \<Rightarrow> 'c observer \<Rightarrow> ('d, 'c) loader \<Rightarrow> bool \<times> ('d, 'c) loader" where
  "boot_tick hw phase address expected observer s =
     (case (if address mod BOOT_PROGRESS_BYTES = 0 then boot_progress hw phase address observer s else (True, s)) of
        (False, s) \<Rightarrow> (False, s)
      | (True, s) \<Rightarrow>
        (True, s\<lparr>ld_status := (ld_status s)\<lparr>bs_completed := address, bs_address := of_nat address, bs_expected := expected\<rparr>\<rparr>))"

fun boot_write :: "'d hw \<Rightarrow> 'c observer \<Rightarrow> (nat \<times> u8) list \<Rightarrow> ('d, 'c) loader \<Rightarrow> bool \<times> ('d, 'c) loader" where
  "boot_write hw observer [] s = (True, s)"
| "boot_write hw observer ((address, byte) # rest) s =
     (case boot_tick hw Z80_BOOT_LOAD address byte observer s of
        (False, s) \<Rightarrow> (False, s)
      | (True, s) \<Rightarrow>
        case z80_sram_write_byte hw (of_nat address) byte (ld_board s) of (ok, b) \<Rightarrow>
          let s = s\<lparr>ld_board := b\<rparr>
          in if ok then boot_write hw observer rest s else boot_failed hw Z80_BOOT_ERROR_WRITE s)"

text \<open>Reading one byte into \<open>boot_status.actual\<close> and comparing it.\<close>

definition boot_compare :: "'d hw \<Rightarrow> u16 \<Rightarrow> u8 \<Rightarrow> ('d, 'c) loader \<Rightarrow> bool \<times> ('d, 'c) loader" where
  "boot_compare hw address expected s =
     (case z80_sram_read_byte hw True address (ld_board s) of
        (None, b) \<Rightarrow> boot_failed hw Z80_BOOT_ERROR_READ (s\<lparr>ld_board := b\<rparr>)
      | (Some actual, b) \<Rightarrow>
        let s = s\<lparr>ld_board := b, ld_status := (ld_status s)\<lparr>bs_actual := actual\<rparr>\<rparr>
        in if actual \<noteq> expected then boot_failed hw Z80_BOOT_ERROR_MISMATCH s else (True, s))"

fun boot_verify :: "'d hw \<Rightarrow> 'c observer \<Rightarrow> (nat \<times> u8) list \<Rightarrow> ('d, 'c) loader \<Rightarrow> bool \<times> ('d, 'c) loader" where
  "boot_verify hw observer [] s = (True, s)"
| "boot_verify hw observer ((address, byte) # rest) s =
     (case boot_tick hw Z80_BOOT_VERIFY address byte observer s of
        (False, s) \<Rightarrow> (False, s)
      | (True, s) \<Rightarrow>
        case boot_compare hw (of_nat address) byte s of
          (False, s) \<Rightarrow> (False, s)
        | (True, s) \<Rightarrow> boot_verify hw observer rest s)"

text \<open>Sequencing of steps that may fail; a failed step has already stopped the processor.\<close>

definition boot_then :: "bool \<times> 's \<Rightarrow> ('s \<Rightarrow> bool \<times> 's) \<Rightarrow> bool \<times> 's" where
  "boot_then r k = (case r of (False, s) \<Rightarrow> (False, s) | (True, s) \<Rightarrow> k s)"

definition boot_cells :: "flash \<Rightarrow> (nat \<times> u8) list" where
  "boot_cells f = map (\<lambda>a. (a, f (FLASH_BOOT_PAYLOAD_OFFSET + a))) [0..<Z80_BOOT_IMAGE_BYTES]"

definition boot_image :: "flash \<Rightarrow> bytes" where
  "boot_image f = flash_read f FLASH_BOOT_PAYLOAD_OFFSET Z80_BOOT_IMAGE_BYTES"

definition load_boot_image ::
    "'d hw \<Rightarrow> bank1_system \<Rightarrow> 'c observer \<Rightarrow> flash \<Rightarrow> ('d, 'c) loader \<Rightarrow> bool \<times> ('d, 'c) loader" where
  "load_boot_image hw sys observer f s =
     (let manifest = flash_read f Z80_FLASH_BOOT_OFFSET 20; source = boot_image f
      in boot_then (boot_progress hw Z80_BOOT_MANIFEST 0 observer s) (\<lambda>s.
         if \<not> manifest_valid manifest then boot_failed hw Z80_BOOT_ERROR_MANIFEST s
         else if crc32_bytes source \<noteq> bm_image_crc32 (manifest_of manifest)
           then boot_failed hw Z80_BOOT_ERROR_PAYLOAD_CRC s
         else if source ! 0 \<noteq> 0xC3 \<or> source ! 1 \<noteq> 0x00 \<or> source ! 2 \<noteq> 0xFC
           then boot_failed hw Z80_BOOT_ERROR_MANIFEST s
         else case z80_cpu_prepare_loader hw (ld_board s) of
           (False, b) \<Rightarrow> boot_failed hw Z80_BOOT_ERROR_LOADER (s\<lparr>ld_board := b\<rparr>)
         | (True, b) \<Rightarrow>
         boot_then (boot_write hw observer (boot_cells f) (s\<lparr>ld_board := b\<rparr>)) (\<lambda>s.
         boot_then (boot_progress hw Z80_BOOT_LOAD Z80_BOOT_IMAGE_BYTES observer s) (\<lambda>s.
         boot_then (boot_verify hw observer (boot_cells f) s) (\<lambda>s.
         boot_then (boot_progress hw Z80_BOOT_VERIFY Z80_BOOT_IMAGE_BYTES observer s) (\<lambda>s.
         let s = s\<lparr>ld_board := z80_sram_prepare_banked_memory hw sys (Some source) (ld_board s),
                   ld_status := (ld_status s)\<lparr>bs_address := 0, bs_expected := source ! 0\<rparr>\<rparr>
         in boot_then (boot_compare hw 0 (source ! 0) s) (\<lambda>s.
            (True, s\<lparr>ld_board := z80_cpu_fail_closed hw (ld_board s)\<rparr>))))))))"

section \<open>The start of the backend\<close>

definition boot_status_init :: boot_status where
  "boot_status_init =
     \<lparr>bs_phase = Z80_BOOT_RECOVERY, bs_error = Z80_BOOT_ERROR_NONE, bs_completed = 0, bs_total = Z80_BOOT_IMAGE_BYTES,
      bs_address = 0, bs_expected = 0, bs_actual = 0\<rparr>"

definition z80_flash_backend_init_observed ::
    "'d hw \<Rightarrow> bank1_system \<Rightarrow> flash_dev \<Rightarrow> (nat \<Rightarrow> bool) \<Rightarrow> bool \<Rightarrow> 'c observer \<Rightarrow> backend \<Rightarrow> ('d, 'c) loader \<Rightarrow>
     bool \<times> backend \<times> ('d, 'c) loader" where
  "z80_flash_backend_init_observed hw sys d lockout core_init observer be s =
     (let s = s\<lparr>ld_board := z80_cpu_fail_closed hw (ld_board s), ld_status := boot_status_init\<rparr>
      in case boot_progress hw Z80_BOOT_RECOVERY 0 observer s of
        (False, s) \<Rightarrow> (False, be, s)
      | (True, s) \<Rightarrow>
        case recover_journal d lockout (be_flash be) of (restored, f) \<Rightarrow>
          let be = be\<lparr>be_flash := f\<rparr>
          in if \<not> restored then (False, be, snd (boot_failed hw Z80_BOOT_ERROR_JOURNAL s))
             else case load_boot_image hw sys observer f s of
               (False, s) \<Rightarrow> (False, be, s)
             | (True, s) \<Rightarrow>
               let be = backend_reset be
               in if \<not> core_init then (False, be, snd (boot_failed hw Z80_BOOT_ERROR_FLASH_INIT s))
                  else case boot_progress hw Z80_BOOT_VERIFIED Z80_BOOT_IMAGE_BYTES observer s of
                    (ok, s) \<Rightarrow> (ok, be, s))"

definition z80_flash_backend_init ::
    "'d hw \<Rightarrow> bank1_system \<Rightarrow> flash_dev \<Rightarrow> (nat \<Rightarrow> bool) \<Rightarrow> bool \<Rightarrow> backend \<Rightarrow> ('d, 'c) loader \<Rightarrow>
     bool \<times> backend \<times> ('d, 'c) loader" where
  "z80_flash_backend_init hw sys d lockout core_init = z80_flash_backend_init_observed hw sys d lockout core_init None"

section \<open>A failed step has stopped the processor\<close>

definition stops :: "bool \<times> ('d, 'c) loader \<Rightarrow> ('d, 'c) loader \<Rightarrow> bool" where
  "stops r s \<longleftrightarrow>
     (if fst r then bs_error (ld_status (snd r)) = bs_error (ld_status s)
      else fail_closed (ld_board (snd r)) \<and> bs_error (ld_status (snd r)) \<noteq> Z80_BOOT_ERROR_NONE)"

lemma stops_failed: "e \<noteq> Z80_BOOT_ERROR_NONE \<Longrightarrow> stops (boot_failed hw e s) s'"
  by (simp add: stops_def boot_failed_def)

lemma stops_progress: "stops (boot_progress hw phase n observer s) s"
  by (auto simp: boot_progress_def Let_def stops_failed split: option.split prod.split) (simp_all add: stops_def)

lemma progress_board:
  "fst (boot_progress hw phase n observer s) \<Longrightarrow> ld_board (snd (boot_progress hw phase n observer s)) = ld_board s"
  by (auto simp: boot_progress_def Let_def boot_failed_def split: option.split prod.split)

lemma stops_then:
  assumes "stops r s" and "\<And>s'. r = (True, s') \<Longrightarrow> stops (k s') s'"
  shows "stops (boot_then r k) s"
  using assms by (cases r) (auto simp: boot_then_def stops_def split: bool.split if_splits)

lemma stops_tick: "stops (boot_tick hw phase a v observer s) s"
  using stops_progress [of hw phase a observer s]
  by (auto simp: boot_tick_def stops_def split: prod.splits bool.splits)

lemma tick_board:
  "fst (boot_tick hw phase a v observer s) \<Longrightarrow> ld_board (snd (boot_tick hw phase a v observer s)) = ld_board s"
  using progress_board [of hw phase a observer s]
  by (auto simp: boot_tick_def split: prod.splits bool.splits if_splits)

lemma boot_write_then:
  "boot_write hw observer ((a, v) # rest) s =
     boot_then (boot_tick hw Z80_BOOT_LOAD a v observer s) (\<lambda>s.
       boot_write hw observer rest (s\<lparr>ld_board := snd (z80_sram_write_byte hw (of_nat a) v (ld_board s))\<rparr>))"
  by (auto simp: boot_then_def Let_def split_beta split: bool.split prod.split)

lemma boot_verify_then:
  "boot_verify hw observer ((a, v) # rest) s =
     boot_then (boot_tick hw Z80_BOOT_VERIFY a v observer s) (\<lambda>s.
     boot_then (boot_compare hw (of_nat a) v s) (boot_verify hw observer rest))"
  by (auto simp: boot_then_def split: bool.split prod.split)

lemma stops_compare: "stops (boot_compare hw a v s) s"
  by (auto simp: boot_compare_def Let_def stops_failed split: prod.split option.split) (simp add: stops_def)

lemma stops_trans: "stops r s' \<Longrightarrow> bs_error (ld_status s') = bs_error (ld_status s) \<Longrightarrow> stops r s"
  by (simp add: stops_def)

lemma stops_write: "stops (boot_write hw observer cs s) s"
proof (induction cs arbitrary: s)
  case (Cons c cs)
  obtain a v where c: "c = (a, v)"
    by fastforce
  show ?case
    unfolding c boot_write_then
    by (rule stops_then [OF stops_tick]) (rule stops_trans [OF Cons], simp)
qed (simp add: stops_def)

lemma stops_verify: "stops (boot_verify hw observer cs s) s"
proof (induction cs arbitrary: s)
  case (Cons c cs)
  obtain a v where c: "c = (a, v)"
    by fastforce
  show ?case
    unfolding c boot_verify_then
    by (intro stops_then [OF stops_tick] stops_then [OF stops_compare] Cons)
qed (simp add: stops_def)

lemma stops_load: "stops (load_boot_image hw sys observer f s) s"
  unfolding load_boot_image_def Let_def prod_bool_case
  by (intro stops_then stops_progress)
    (auto intro!: stops_failed stops_then stops_progress stops_verify stops_trans [OF stops_write]
      stops_trans [OF stops_then [OF stops_compare]] simp: stops_def [of "(True, s)" for s])

lemma load_closed: "load_boot_image hw sys observer f s = (True, s') \<Longrightarrow> fail_closed (ld_board s')"
  unfolding load_boot_image_def Let_def boot_then_def prod_bool_case
  by (auto simp: boot_failed_def split: if_splits)
section \<open>What is in memory after an accepted boot\<close>

lemma boot_then_True: "boot_then r k = (True, s') \<Longrightarrow> (\<And>s. r = (True, s) \<Longrightarrow> k s = (True, s') \<Longrightarrow> P) \<Longrightarrow> P"
  by (cases r) (auto simp: boot_then_def split: bool.splits)

lemma progress_True: "boot_progress hw phase n observer s = (True, s') \<Longrightarrow> ld_board s' = ld_board s"
  using progress_board [of hw phase n observer s] by simp

lemma tick_True: "boot_tick hw phase a v observer s = (True, s') \<Longrightarrow> ld_board s' = ld_board s"
  using tick_board [of hw phase a v observer s] by simp

text \<open>The loader starts in bank 0.\<close>

lemma driver_kept [simp]:
  "bank_driver (z80_clock_one_cycle hw h b) = bank_driver b"
  "bank_driver (z80_reset_with_clock_cycles hw n h b) = bank_driver b"
proof -
  show one: "bank_driver (z80_clock_one_cycle hw h b) = bank_driver b" for h b
    by (simp add: z80_clock_one_cycle_def z80_clock_prepare_stepping_def z80_clock_step_prepared_def
        z80_clock_stop_def gpio_set_dir_def Let_def)
  have "bank_driver ((z80_clock_one_cycle hw h ^^ n) b) = bank_driver b" for b
    by (induction n) (simp_all add: one)
  then show "bank_driver (z80_reset_with_clock_cycles hw n h b) = bank_driver b"
    by (simp add: z80_reset_with_clock_cycles_def z80_clock_stop_def)
qed

lemma driver_after [simp]:
  "bank_driver (z80_isolate_buses hw b) = bank_driver b"
  "bank_driver (z80_cpu_fail_closed hw b) = bank_driver b"
  "bank_driver (z80_memory_bank_set_available f b) = bank_driver b"
  "bank_driver (snd (all_high hw pins b)) = bank_driver b"
proof -
  show "bank_driver (z80_isolate_buses hw b) = bank_driver b"
    "bank_driver (z80_cpu_fail_closed hw b) = bank_driver b"
    "bank_driver (z80_memory_bank_set_available f b) = bank_driver b"
    by (simp_all add: z80_isolate_buses_def z80_cpu_fail_closed_def z80_clock_stop_def
        z80_memory_bank_set_available_def Let_def)
  have get: "bank_driver (snd (gpio_get hw pin b)) = bank_driver b" for pin b
    by (simp add: gpio_get_def gpio_get_all_def split: prod.split)
  then show "bank_driver (snd (all_high hw pins b)) = bank_driver b"
    by (induction pins arbitrary: b) (simp_all add: and_then_case)
qed

lemma prepare_loader_bank:
  assumes "bank_driver b = None" and "z80_cpu_prepare_loader hw b = (True, b')"
  shows "\<not> bank_pin b'"
proof -
  have "\<not> bank_pin (snd (z80_sram_prepare_loader hw b))" if "bank_driver b = None" for b
    using that by (simp add: z80_sram_prepare_loader_def Let_def z80_memory_bank_select_def)
  moreover have "bank_driver (snd (all_high hw pins b1)) = None" if "bank_driver b1 = None" for pins b1
    using that by simp
  ultimately show ?thesis
    using assms unfolding z80_cpu_prepare_loader_def Let_def prod_bool_case
    by (auto split: if_splits simp del: all_high.simps) (metis driver_after(2-4) driver_kept(2) snd_conv)
qed

lemma fail_closed_flags [simp]:
  "banked_memory_available (z80_cpu_fail_closed hw b) = banked_memory_available b"
  by (simp add: z80_cpu_fail_closed_def z80_isolate_buses_def z80_clock_stop_def Let_def)

lemma compare_available:
  "boot_compare hw a v s = (True, s') \<Longrightarrow>
   banked_memory_available (ld_board s') = banked_memory_available (ld_board s)"
proof -
  obtain r b where r: "z80_sram_read_byte hw True a (ld_board s) = (r, b)"
    by fastforce
  have "banked_memory_available b = banked_memory_available (ld_board s)"
    by (metis r sram_available(2) snd_conv)
  then show "boot_compare hw a v s = (True, s') \<Longrightarrow>
      banked_memory_available (ld_board s') = banked_memory_available (ld_board s)"
    by (auto simp: boot_compare_def Let_def boot_failed_def r split: option.splits if_splits)
qed

lemma boot_cells_image: "(a, v) \<in> set (boot_cells f) \<longleftrightarrow> a < 65536 \<and> v = boot_image f ! a"
proof -
  have "boot_image f ! a = f (FLASH_BOOT_PAYLOAD_OFFSET + a)" if "a < 65536"
    unfolding boot_image_def by (rule nth_flash_read [OF that])
  then show ?thesis
    unfolding boot_cells_def set_map set_upt by auto
qed

context sram_bus
begin

lemma boot_compare_True:
  assumes "session (ld_board s)" and "boot_compare hw a v s = (True, s')"
  shows "session (ld_board s')" and "cells (ld_board s') = cells (ld_board s)"
    and "bank_pin (ld_board s') = bank_pin (ld_board s)" and "cells (ld_board s) (wired \<and> bank_pin (ld_board s)) a = v"
proof -
  obtain r b where r: "z80_sram_read_byte hw True a (ld_board s) = (r, b)"
    by fastforce
  have "session b" "cells b = cells (ld_board s)" "bank_pin b = bank_pin (ld_board s)"
    and "r = Some (cells (ld_board s) (wired \<and> bank_pin (ld_board s)) a)"
    using read_session [OF assms(1), of a] read_cells [OF assms(1), of a] read_value [OF assms(1), of a]
      bank_pin_sram(2) [of hw True a "ld_board s"] by (simp_all add: r)
  then show "session (ld_board s')" and "cells (ld_board s') = cells (ld_board s)"
    and "bank_pin (ld_board s') = bank_pin (ld_board s)" and "cells (ld_board s) (wired \<and> bank_pin (ld_board s)) a = v"
    using assms(2) by (auto simp: boot_compare_def r Let_def boot_failed_def split: if_splits)
qed

lemma boot_write_True:
  assumes "session (ld_board s)" and "boot_write hw observer cs s = (True, s')"
  shows "session (ld_board s') \<and> bank_pin (ld_board s') = bank_pin (ld_board s)"
  using assms
proof (induction cs arbitrary: s)
  case (Cons c cs)
  obtain a v where c: "c = (a, v)"
    by fastforce
  obtain s1 where s1: "boot_tick hw Z80_BOOT_LOAD a v observer s = (True, s1)"
    and r: "boot_write hw observer cs (s1\<lparr>ld_board := snd (z80_sram_write_byte hw (of_nat a) v (ld_board s1))\<rparr>) = (True, s')"
    using Cons.prems(2) unfolding c boot_write_then by (elim boot_then_True)
  then show ?case
    using Cons.IH [OF _ r] Cons.prems(1) tick_True [OF s1] by (simp add: write_session)
qed simp

lemma boot_verify_True:
  assumes "session (ld_board s)" and "boot_verify hw observer cs s = (True, s')"
  shows "session (ld_board s') \<and> bank_pin (ld_board s') = bank_pin (ld_board s) \<and>
    cells (ld_board s') = cells (ld_board s) \<and>
    (\<forall>(a, v) \<in> set cs. cells (ld_board s) (wired \<and> bank_pin (ld_board s)) (of_nat a) = v)"
  using assms
proof (induction cs arbitrary: s)
  case (Cons c cs)
  obtain a v where c: "c = (a, v)"
    by fastforce
  obtain s1 s2 where s1: "boot_tick hw Z80_BOOT_VERIFY a v observer s = (True, s1)"
    and s2: "boot_compare hw (of_nat a) v s1 = (True, s2)" and r: "boot_verify hw observer cs s2 = (True, s')"
    using Cons.prems(2) unfolding c boot_verify_then by (elim boot_then_True)
  have "session (ld_board s1)"
    using Cons.prems(1) tick_True [OF s1] by simp
  note cmp = boot_compare_True [OF this s2]
  show ?case
    using Cons.IH [OF cmp(1) r] cmp tick_True [OF s1] by (simp add: c)
qed simp

lemma accepted_image:
  assumes "wired" and "started (ld_board s)" and "load_boot_image hw sys observer f s = (True, s')"
  shows "manifest_valid (flash_read f Z80_FLASH_BOOT_OFFSET 20)"
    and "crc32_bytes (boot_image f) = bm_image_crc32 (manifest_of (flash_read f Z80_FLASH_BOOT_OFFSET 20))"
    and "\<forall>a < 65536. cells (ld_board s') False (of_nat a) = boot_image f ! a"
    and "banked_memory_available (ld_board s') \<Longrightarrow> (a, v) \<in> set (bank_cells sys (boot_image f)) \<Longrightarrow>
      cells (ld_board s') True a = v"
proof -
  let ?m = "flash_read f Z80_FLASH_BOOT_OFFSET 20"
  let ?prep = "\<lambda>s. s\<lparr>ld_board := z80_sram_prepare_banked_memory hw sys (Some (boot_image f)) (ld_board s),
    ld_status := (ld_status s)\<lparr>bs_address := 0, bs_expected := boot_image f ! 0\<rparr>\<rparr>"
  obtain s1 b s2 s3 s4 s5 s6 where m: "manifest_valid ?m"
    and crc: "crc32_bytes (boot_image f) = bm_image_crc32 (manifest_of ?m)"
    and 1: "boot_progress hw Z80_BOOT_MANIFEST 0 observer s = (True, s1)"
    and b: "z80_cpu_prepare_loader hw (ld_board s1) = (True, b)"
    and 2: "boot_write hw observer (boot_cells f) (s1\<lparr>ld_board := b\<rparr>) = (True, s2)"
    and 3: "boot_progress hw Z80_BOOT_LOAD Z80_BOOT_IMAGE_BYTES observer s2 = (True, s3)"
    and 4: "boot_verify hw observer (boot_cells f) s3 = (True, s4)"
    and 5: "boot_progress hw Z80_BOOT_VERIFY Z80_BOOT_IMAGE_BYTES observer s4 = (True, s5)"
    and 6: "boot_compare hw 0 (boot_image f ! 0) (?prep s5) = (True, s6)"
    and s': "s' = s6\<lparr>ld_board := z80_cpu_fail_closed hw (ld_board s6)\<rparr>"
    using assms(3) unfolding load_boot_image_def Let_def
    by (elim boot_then_True) (auto simp: boot_failed_def split: if_splits prod.splits bool.splits elim!: boot_then_True)
  have s1: "ld_board s1 = ld_board s"
    by (rule progress_True [OF 1])
  have "session b" and "\<not> bank_pin b"
    using prepare_session [OF _ b] prepare_loader_bank [OF _ b] assms(2) s1 by (auto simp: started_def)
  then have w: "session (ld_board s3)" "\<not> bank_pin (ld_board s3)"
    using boot_write_True [OF _ 2] progress_True [OF 3] by auto
  have ver: "session (ld_board s5)" "\<not> bank_pin (ld_board s5)" "cells (ld_board s5) = cells (ld_board s3)"
    and "\<forall>x \<in> set (boot_cells f). cells (ld_board s3) False (of_nat (fst x)) = snd x"
    using boot_verify_True [OF w(1) 4] progress_True [OF 5] w(2) by (auto simp del: set_map)
  then have v: "cells (ld_board s5) False (of_nat a) = boot_image f ! a" if "a < 65536" for a
    using boot_cells_image [of a "boot_image f ! a" f] that by (metis fst_conv snd_conv)
  note p = prepare_banked_frame(1-3) [OF assms(1) ver(1), where sys = sys and img = "Some (boot_image f)"]
  note q = boot_compare_True [of "?prep s5", OF _ 6, simplified, OF p(1)]
  have c: "cells (ld_board s') = cells (z80_sram_prepare_banked_memory hw sys (Some (boot_image f)) (ld_board s5))"
    using q by (simp add: s' close_cells)
  have "cells (ld_board s') False (of_nat a) = boot_image f ! a" if "a < 65536" for a
  proof (cases "a = 0")
    case True
    then show ?thesis
      using q(4) p(2) by (simp add: c)
  next
    case False
    then have "(of_nat a :: u16) \<noteq> 0"
      using that address_eq [of a 0] by simp
    then show ?thesis
      using p(3) [of "of_nat a"] v that by (simp add: c)
  qed
  then show "\<forall>a < 65536. cells (ld_board s') False (of_nat a) = boot_image f ! a"
    by blast
  show "manifest_valid ?m" and "crc32_bytes (boot_image f) = bm_image_crc32 (manifest_of ?m)"
    by fact+
  assume "banked_memory_available (ld_board s')" and av: "(a, v) \<in> set (bank_cells sys (boot_image f))"
  then have "banked_memory_available (z80_sram_prepare_banked_memory hw sys (Some (boot_image f)) (ld_board s5))"
    using compare_available [OF 6] by (simp add: s')
  from prepare_banked_frame(4) [OF assms(1) ver(1) this av] show "cells (ld_board s') True a = v"
    by (simp add: c)
qed

end
section \<open>A good board boots\<close>

definition never_cancels :: "'c observer \<Rightarrow> bool" where
  "never_cancels observer \<longleftrightarrow> (\<forall>ob status c. observer = Some ob \<longrightarrow> fst (ob status c))"

lemma progress_ok:
  assumes "never_cancels observer"
  shows "\<exists>s'. boot_progress hw phase n observer s = (True, s') \<and> ld_board s' = ld_board s"
proof (cases observer)
  case (Some ob)
  then have "fst (ob st c)" for st c
    using assms by (simp add: never_cancels_def)
  then show ?thesis
    using Some by (auto simp: boot_progress_def Let_def split_beta)
qed (auto simp: boot_progress_def Let_def)

lemma tick_ok:
  assumes "never_cancels observer"
  shows "\<exists>s'. boot_tick hw phase a v observer s = (True, s') \<and> ld_board s' = ld_board s"
  using progress_ok [OF assms, of hw phase a s] by (auto simp: boot_tick_def)

lemma boot_write_ok:
  assumes "never_cancels observer"
  shows "\<exists>s'. boot_write hw observer cs s = (True, s') \<and>
    ld_board s' = snd (write_cells hw (map (\<lambda>(a, v). (of_nat a, v)) cs) (ld_board s))"
proof (induction cs arbitrary: s)
  case (Cons c cs)
  obtain a v where c: "c = (a, v)"
    by fastforce
  obtain s1 where "boot_tick hw Z80_BOOT_LOAD a v observer s = (True, s1)" and "ld_board s1 = ld_board s"
    using tick_ok [OF assms] by blast
  then show ?case
    using Cons [of "s1\<lparr>ld_board := snd (z80_sram_write_byte hw (of_nat a) v (ld_board s1))\<rparr>"]
    unfolding c boot_write_then by (simp add: boot_then_def write_cells_fold)
qed simp

context sram_bus
begin

lemma boot_compare_ok:
  assumes "session (ld_board s)" and "cells (ld_board s) (wired \<and> bank_pin (ld_board s)) a = v"
  shows "\<exists>s'. boot_compare hw a v s = (True, s')"
proof -
  obtain b where "z80_sram_read_byte hw True a (ld_board s) = (Some v, b)"
    using read_value [OF assms(1), of a] assms(2) by (metis prod.collapse)
  then show ?thesis
    by (simp add: boot_compare_def Let_def)
qed

lemma boot_verify_ok:
  assumes "never_cancels observer" and "session (ld_board s)"
    and "\<forall>x \<in> set cs. cells (ld_board s) (wired \<and> bank_pin (ld_board s)) (of_nat (fst x)) = snd x"
  shows "\<exists>s'. boot_verify hw observer cs s = (True, s')"
  using assms(2,3)
proof (induction cs arbitrary: s)
  case (Cons c cs)
  obtain a v where c: "c = (a, v)"
    by fastforce
  obtain s1 where s1: "boot_tick hw Z80_BOOT_VERIFY a v observer s = (True, s1)" "ld_board s1 = ld_board s"
    using tick_ok [OF assms(1)] by blast
  obtain s2 where s2: "boot_compare hw (of_nat a) v s1 = (True, s2)"
    using boot_compare_ok [of s1 "of_nat a" v] Cons.prems s1(2) by (auto simp: c)
  then have "session (ld_board s2)" "cells (ld_board s2) = cells (ld_board s)" "bank_pin (ld_board s2) = bank_pin (ld_board s)"
    using boot_compare_True [OF _ s2] Cons.prems(1) s1(2) by simp_all
  then show ?case
    using Cons.IH [of s2] Cons.prems(2) unfolding c boot_verify_then by (simp add: boot_then_def s1 s2)
qed simp

end

text \<open>Flash with a manifest and an image that the checks accept.\<close>

definition bootable :: "flash \<Rightarrow> bool" where
  "bootable f \<longleftrightarrow>
     manifest_valid (flash_read f Z80_FLASH_BOOT_OFFSET 20) \<and>
     crc32_bytes (boot_image f) = bm_image_crc32 (manifest_of (flash_read f Z80_FLASH_BOOT_OFFSET 20)) \<and>
     boot_image f ! 0 = 0xC3 \<and> boot_image f ! 1 = 0x00 \<and> boot_image f ! 2 = 0xFC"

lemma boot_addresses_distinct: "distinct (map fst (map (\<lambda>(a, v). (of_nat a :: u16, v)) (boot_cells f)))"
proof -
  have "inj_on (of_nat :: nat \<Rightarrow> u16) {0..<65536}"
    by (auto intro!: inj_onI simp: address_eq)
  then show ?thesis
    unfolding boot_cells_def map_map comp_def split_conv fst_conv distinct_map by (simp only: set_upt distinct_upt)
qed

context sram_good
begin

lemma load_succeeds:
  assumes "never_cancels observer" and "bootable f" and "started (ld_board s)"
    and ready: "fst (z80_cpu_prepare_loader hw (ld_board s))"
  shows "\<exists>s'. load_boot_image hw sys observer f s = (True, s') \<and>
    (\<forall>a < 65536. cells (ld_board s') False (of_nat a) = boot_image f ! a) \<and>
    banked_memory_available (ld_board s') = wired"
proof -
  let ?cs = "map (\<lambda>(a, v). (of_nat a :: u16, v)) (boot_cells f)"
  let ?prep = "\<lambda>s. s\<lparr>ld_board := z80_sram_prepare_banked_memory hw sys (Some (boot_image f)) (ld_board s),
    ld_status := (ld_status s)\<lparr>bs_address := 0, bs_expected := boot_image f ! 0\<rparr>\<rparr>"
  obtain s1 where 1: "boot_progress hw Z80_BOOT_MANIFEST 0 observer s = (True, s1)" "ld_board s1 = ld_board s"
    using progress_ok [OF assms(1)] by blast
  obtain b where b: "z80_cpu_prepare_loader hw (ld_board s) = (True, b)"
    using ready by (cases "z80_cpu_prepare_loader hw (ld_board s)") auto
  have b0: "session b" "\<not> bank_pin b"
    using prepare_session [OF assms(3) b] prepare_loader_bank [OF _ b] assms(3) by (auto simp: started_def)
  obtain s2 where 2: "boot_write hw observer (boot_cells f) (s1\<lparr>ld_board := b\<rparr>) = (True, s2)"
    "ld_board s2 = snd (write_cells hw ?cs b)"
    using boot_write_ok [OF assms(1), of hw "boot_cells f" "s1\<lparr>ld_board := b\<rparr>"] by auto
  obtain s3 where 3: "boot_progress hw Z80_BOOT_LOAD Z80_BOOT_IMAGE_BYTES observer s2 = (True, s3)" "ld_board s3 = ld_board s2"
    using progress_ok [OF assms(1)] by blast
  have s3: "session (ld_board s3)" "\<not> bank_pin (ld_board s3)"
    using write_cells_frame(1,2) [OF b0(1), of ?cs] b0(2) by (simp_all add: 3 2)
  have stored: "cells (ld_board s3) False (of_nat (fst x)) = snd x" if "x \<in> set (boot_cells f)" for x
  proof -
    have "(of_nat (fst x), snd x) \<in> set ?cs"
      using that by (force simp only: set_map image_iff split_beta)
    from write_cells_stores [OF b0(1) boot_addresses_distinct this] show ?thesis
      using b0(2) by (simp only: 3 2) simp
  qed
  obtain s4 where 4: "boot_verify hw observer (boot_cells f) s3 = (True, s4)"
    using boot_verify_ok [OF assms(1) s3(1), of "boot_cells f"] s3(2) stored by auto
  obtain s5 where 5: "boot_progress hw Z80_BOOT_VERIFY Z80_BOOT_IMAGE_BYTES observer s4 = (True, s5)" "ld_board s5 = ld_board s4"
    using progress_ok [OF assms(1)] by blast
  have s5: "session (ld_board s5)" "cells (ld_board s5) = cells (ld_board s3)"
    using boot_verify_True [OF s3(1) 4] 5(2) by auto
  note p = prepare_banked_good(1-4) [OF s5(1) refl, of sys "boot_image f"]
  have image: "cells (ld_board s5) False (of_nat a) = boot_image f ! a" if "a < 65536" for a
    using stored [of "(a, boot_image f ! a)"] boot_cells_image [of a "boot_image f ! a" f] that s5(2) by simp
  then have "cells (ld_board s5) False 0 = boot_image f ! 0"
    using image [of 0] by simp
  then obtain s6 where 6: "boot_compare hw 0 (boot_image f ! 0) (?prep s5) = (True, s6)"
    using boot_compare_ok [of "?prep s5" 0 "boot_image f ! 0"] p by auto
  note q = boot_compare_True [of "?prep s5", OF _ 6, simplified, OF p(1)]
  let ?s = "s6\<lparr>ld_board := z80_cpu_fail_closed hw (ld_board s6)\<rparr>"
  have "load_boot_image hw sys observer f s = (True, ?s)"
    using assms(2) 6 unfolding load_boot_image_def bootable_def Let_def
    by (simp add: boot_then_def 1 b 2 3 4 5)
  moreover have "cells (ld_board ?s) False = cells (ld_board s5) False"
    using q p(3) by (simp add: close_cells)
  moreover have "banked_memory_available (ld_board ?s) = wired"
    using compare_available [OF 6] p(4) by simp
  ultimately show ?thesis
    using image by simp
qed

end

section \<open>The properties\<close>

text \<open>The states a boot passes through.\<close>

lemma init_True:
  assumes "z80_flash_backend_init_observed hw sys d lockout core_init observer be s = (True, be', s')"
  obtains f s1 s2 where "recover_journal d lockout (be_flash be) = (True, f)"
    and "ld_board s1 = z80_cpu_fail_closed hw (ld_board s)" and "bs_error (ld_status s1) = Z80_BOOT_ERROR_NONE"
    and "load_boot_image hw sys observer f s1 = (True, s2)"
    and "boot_progress hw Z80_BOOT_VERIFIED Z80_BOOT_IMAGE_BYTES observer s2 = (True, s')"
    and "be' = backend_reset (be\<lparr>be_flash := f\<rparr>)"
proof -
  let ?s0 = "s\<lparr>ld_board := z80_cpu_fail_closed hw (ld_board s), ld_status := boot_status_init\<rparr>"
  obtain s1 f s2 where "boot_progress hw Z80_BOOT_RECOVERY 0 observer ?s0 = (True, s1)"
    and "recover_journal d lockout (be_flash be) = (True, f)"
    and "load_boot_image hw sys observer f s1 = (True, s2)"
    and "boot_progress hw Z80_BOOT_VERIFIED Z80_BOOT_IMAGE_BYTES observer s2 = (True, s')"
    and "be' = backend_reset (be\<lparr>be_flash := f\<rparr>)"
    using assms unfolding z80_flash_backend_init_observed_def Let_def
    by (auto split: prod.splits bool.splits if_splits)
  then show ?thesis
    using that [of f s1 s2] progress_True [of hw Z80_BOOT_RECOVERY 0 observer ?s0 s1]
      stops_progress [of hw Z80_BOOT_RECOVERY 0 observer ?s0] by (simp add: stops_def boot_status_init_def)
qed

lemma init_False:
  assumes "z80_flash_backend_init_observed hw sys d lockout core_init observer be s = (False, be', s')"
  shows "fail_closed (ld_board s')" and "bs_error (ld_status s') \<noteq> Z80_BOOT_ERROR_NONE"
proof -
  let ?s0 = "s\<lparr>ld_board := z80_cpu_fail_closed hw (ld_board s), ld_status := boot_status_init\<rparr>"
  obtain ok1 s1 where 1: "boot_progress hw Z80_BOOT_RECOVERY 0 observer ?s0 = (ok1, s1)"
    by fastforce
  obtain ok f where r: "recover_journal d lockout (be_flash be) = (ok, f)"
    by fastforce
  obtain ok2 s2 where 2: "load_boot_image hw sys observer f s1 = (ok2, s2)"
    by fastforce
  obtain ok3 s3 where 3: "boot_progress hw Z80_BOOT_VERIFIED Z80_BOOT_IMAGE_BYTES observer s2 = (ok3, s3)"
    by fastforce
  have "stops (ok1, s1) ?s0" and "stops (ok2, s2) s1" and "stops (ok3, s3) s2"
    using stops_progress [of hw Z80_BOOT_RECOVERY 0 observer ?s0] stops_load [of hw sys observer f s1]
      stops_progress [of hw Z80_BOOT_VERIFIED Z80_BOOT_IMAGE_BYTES observer s2] by (simp_all only: 1 2 3)
  then show "fail_closed (ld_board s')" and "bs_error (ld_status s') \<noteq> Z80_BOOT_ERROR_NONE"
    using assms unfolding z80_flash_backend_init_observed_def Let_def
    by (auto simp: 1 r 2 3 boot_failed_def stops_def split: bool.splits if_splits)
qed

text \<open>
  C26. However a boot ends, the processor is stopped in reset with its clock off and the bus isolated; the boot is accepted
  exactly if no error is recorded, and then the status says that the whole image is verified.
\<close>

theorem boot_stops_processor:
  assumes "z80_flash_backend_init_observed hw sys d lockout core_init observer be s = (ok, be', s')"
  shows "fail_closed (ld_board s') \<and> (ok \<longleftrightarrow> bs_error (z80_flash_boot_status s') = Z80_BOOT_ERROR_NONE) \<and>
    (ok \<longrightarrow> bs_phase (z80_flash_boot_status s') = Z80_BOOT_VERIFIED \<and> bs_completed (z80_flash_boot_status s') = 65536)"
proof (cases ok)
  case False
  then show ?thesis
    using assms init_False [of hw sys d lockout core_init observer be s be' s'] by (simp add: z80_flash_boot_status_def)
next
  case True
  then obtain f s1 s2 where e: "bs_error (ld_status s1) = Z80_BOOT_ERROR_NONE"
    and l: "load_boot_image hw sys observer f s1 = (True, s2)"
    and p: "boot_progress hw Z80_BOOT_VERIFIED Z80_BOOT_IMAGE_BYTES observer s2 = (True, s')"
    using assms by (auto elim: init_True)
  have "fail_closed (ld_board s')"
    using load_closed [OF l] progress_True [OF p] by simp
  moreover have "bs_error (ld_status s') = Z80_BOOT_ERROR_NONE"
    using stops_load [of hw sys observer f s1] stops_progress [of hw Z80_BOOT_VERIFIED Z80_BOOT_IMAGE_BYTES observer s2] e
    by (simp add: l p stops_def)
  moreover have "bs_phase (ld_status s') = Z80_BOOT_VERIFIED \<and> bs_completed (ld_status s') = 65536"
    using p by (auto simp: boot_progress_def Let_def boot_failed_def split: option.splits prod.splits if_splits)
  ultimately show ?thesis
    using True by (simp add: z80_flash_boot_status_def)
qed


lemma boot_completes:
  assumes "sram_good hw wired session cells" and "started (ld_board s)"
    and "\<And>b. started b \<Longrightarrow> fst (z80_cpu_prepare_loader hw b)"
    and "recover_journal d lockout (be_flash be) = (True, f)" and "bootable f"
    and "never_cancels observer"
  shows "\<exists>be' s'. z80_flash_backend_init_observed hw sys d lockout True observer be s = (True, be', s') \<and>
    be_flash be' = f \<and> z80_flash_backend_quiescent be' \<and>
    (\<forall>a < 65536. cells (ld_board s') False (of_nat a) = boot_image f ! a) \<and>
    banked_memory_available (ld_board s') = wired"
proof -
  let ?s0 = "s\<lparr>ld_board := z80_cpu_fail_closed hw (ld_board s), ld_status := boot_status_init\<rparr>"
  obtain s1 where 1: "boot_progress hw Z80_BOOT_RECOVERY 0 observer ?s0 = (True, s1)" "ld_board s1 = z80_cpu_fail_closed hw (ld_board s)"
    using progress_ok [OF assms(6), of hw Z80_BOOT_RECOVERY 0 ?s0] by auto
  have st: "started (ld_board s1)"
    using 1(2) assms(2) by (simp add: fail_closed_started)
  obtain s2 where 2: "load_boot_image hw sys observer f s1 = (True, s2)"
    "\<forall>a < 65536. cells (ld_board s2) False (of_nat a) = boot_image f ! a" "banked_memory_available (ld_board s2) = wired"
    using sram_good.load_succeeds [OF assms(1,6,5) st assms(3) [OF st]] by blast
  obtain s3 where 3: "boot_progress hw Z80_BOOT_VERIFIED Z80_BOOT_IMAGE_BYTES observer s2 = (True, s3)" "ld_board s3 = ld_board s2"
    using progress_ok [OF assms(6)] by blast
  have "z80_flash_backend_init_observed hw sys d lockout True observer be s =
      (True, backend_reset (be\<lparr>be_flash := f\<rparr>), s3)"
    by (simp add: z80_flash_backend_init_observed_def Let_def 1 assms(4) 2 3)
  then show ?thesis
    using 2 3(2) by (simp add: backend_reset_def z80_flash_backend_quiescent_def)
qed


section \<open>A boot on the bench\<close>

definition manifest_body :: "bytes \<Rightarrow> bytes" where
  "manifest_body img = le32 Z80_BOOT_MAGIC @ le16 Z80_BOOT_VERSION @ le16 20 @
     le32 (of_nat Z80_BOOT_IMAGE_BYTES) @ le32 (crc32_bytes img)"

definition boot_flash :: "bytes \<Rightarrow> flash" where
  "boot_flash img = flash_put FLASH_BOOT_PAYLOAD_OFFSET img
     (flash_put Z80_FLASH_BOOT_OFFSET (manifest_body img @ le32 (crc32_bytes (manifest_body img))) (\<lambda>_. 0xFF))"

definition sample_image :: bytes where
  "sample_image = [0xC3, 0x00, 0xFC] @ replicate 65533 0"

lemma boot_flash_reads:
  assumes "length img = 65536"
  shows "boot_image (boot_flash img) = img"
    and "flash_read (boot_flash img) Z80_FLASH_BOOT_OFFSET 20 = manifest_body img @ le32 (crc32_bytes (manifest_body img))"
  using assms
  by (simp_all add: boot_image_def boot_flash_def manifest_body_def flash_read_put_other flash_read_put_same)

lemma boot_flash_bootable: "bootable (boot_flash sample_image)"
proof -
  have "length sample_image = 65536"
    by (simp add: sample_image_def)
  moreover have "manifest_valid (manifest_body img @ le32 (crc32_bytes (manifest_body img)))"
    and "bm_image_crc32 (manifest_of (manifest_body img @ le32 (crc32_bytes (manifest_body img)))) = crc32_bytes img" for img
    using rd32_le32 [of _ "[]"] by (simp_all add: manifest_valid_def manifest_of_def manifest_body_def Let_def)
  moreover have "sample_image ! 0 = 0xC3" "sample_image ! 1 = 0x00" "sample_image ! 2 = 0xFC"
    by (simp_all add: sample_image_def nth_append)
  ultimately show ?thesis
    by (simp add: bootable_def boot_flash_reads)
qed

lemma boot_flash_recovers: "recover_journal host_flash (\<lambda>_. True) (boot_flash img) = (True, boot_flash img)"
proof -
  have "journal_clean (boot_flash img)"
    unfolding journal_clean_def list_all_iff
    by (auto simp: boot_flash_def flash_put_def manifest_body_def journal_header_offset_def intro!: cleared_invalid(1))
  then show ?thesis
    using host.recover_journal_exact [of "boot_flash img"] by simp
qed

lemma startup_outputs:
  "pin < 32 \<Longrightarrow> bit (gpio_oe (output_with_initial_level hw pin level b)) k \<longleftrightarrow> k = pin \<or> bit (gpio_oe b) k"
  "bit (gpio_oe (input_with_no_pull hw pin b)) k \<longleftrightarrow> k \<noteq> pin \<and> bit (gpio_oe b) k"
  "bank_driver (output_with_initial_level hw pin level b) = bank_driver b"
  "bank_driver (input_with_no_pull hw pin b) = bank_driver b"
  by (auto simp: output_with_initial_level_def input_with_no_pull_def gpio_disable_pulls_def gpio_init_def
      gpio_set_dir_def Let_def pin_bits dest: bit_imp_le_length)

lemma startup_started: "started (z80_safe_startup hw b)"
proof -
  have inputs: "started (fold (input_with_no_pull hw) pins b)"
    if "started b" "set pins \<inter> {2..<10} = {}" for pins and b :: "'a board"
    using that by (induction pins arbitrary: b) (auto simp: started_def startup_outputs)
  have "pin \<in> {2..<10} \<Longrightarrow> pin \<in> {2, 3, 4, 5, 6, 7, 8, 9}" for pin :: nat
    by auto
  then show ?thesis
    unfolding z80_safe_startup_def Let_def
    by (intro inputs) (auto simp: started_def startup_outputs)
qed

lemma bench_ready: "fst (z80_cpu_prepare_loader (bench w) b)"
proof -
  have "bit (bench_in w out oe z) k" if "k \<in> {0, 1, 27, 28}" for out oe z k
    using that by (auto simp: bench_in_def bit_or_iff)
  then have "fst (gpio_get (bench w) k b)" if "k \<in> {0, 1, 27, 28}" for k b
    using that by (simp add: gpio_get_def gpio_get_all_def)
  then have "fst (all_high (bench w) [0, 1, 27, 28] b)" for b
    by (simp add: and_then_case)
  then show ?thesis
    unfolding z80_cpu_prepare_loader_def Let_def prod_bool_case
    by (simp add: z80_sram_prepare_loader_def Let_def del: all_high.simps)
qed

definition bench_loader :: "(bench, unit) loader" where
  "bench_loader = \<lparr>ld_board = z80_safe_startup (bench True) bench_board, ld_status = boot_status_init, ld_context = ()\<rparr>"

definition sample_system :: bank1_system where
  "sample_system = \<lparr>bank1_service_code = replicate 2048 0, bank1_resident_code = replicate 2048 0,
     bank1_bdos_code = replicate 3392 0\<rparr>"

definition boot_backend :: backend where
  "boot_backend = \<lparr>be_flash = boot_flash sample_image,
     be_cache = \<lparr>dc_valid = False, dc_dirty = False, dc_drive = 0, dc_block = 0, dc_data = replicate FLASH_SECTOR_SIZE 0\<rparr>,
     journal_sequence = 0, next_journal_pair = 0, flush_deadline = 0, armed_fault = 0\<rparr>"

lemma bench_boot:
  "\<exists>be' s'. z80_flash_backend_init_observed (bench True) sample_system host_flash (\<lambda>_. True) True None boot_backend bench_loader =
     (True, be', s')"
  using boot_completes [OF bench_sram.sram_good_axioms [of True], of bench_loader host_flash "\<lambda>_. True" boot_backend
      "boot_flash sample_image" None sample_system]
  by (auto simp: bench_loader_def startup_started bench_ready boot_backend_def boot_flash_recovers boot_flash_bootable
      never_cancels_def)

theorem boot_stops_processor_witness:
  "fail_closed (ld_board (snd (snd (z80_flash_backend_init_observed (bench True) sample_system host_flash (\<lambda>_. True) True
     None boot_backend bench_loader))))"
  using boot_stops_processor [of "bench True" sample_system host_flash "\<lambda>_. True" True None boot_backend bench_loader]
  by (metis prod.collapse)



end
