(* ===== verification/Io_Trap.thy ===== *)
theory Io_Trap
  imports Boot_Loader
begin

text \<open>
  The I/O trap of \<open>src/src/common/io_trap.c\<close>, in the build without \<open>Z80_BANKED_PIO\<close>, and core 0's side of the bus
  service of \<open>flash_backend.c\<close>. A falling edge of \<open>IORQ#\<close> stops the clock; the handler reads the bus, calls the
  port handler it was given, answers, and releases the cycle. An answer that the Z80 does not take within half a second, or control
  lines that make no sense, end in a watchdog reset whose reason is left in scratch registers. \<open>io_trap\<close> holds the
  static variables, the interrupt of the \<open>IORQ#\<close> pin and the scratch registers; a call that ends in the reset has
  the fate \<open>Rebooted\<close>, and one that never returns is \<open>None\<close>.
\<close>

section \<open>State\<close>

record ('d, 'c) io_trap =
  it_board :: "'d board"
  it_irq :: bool
  it_edge :: bool
  application_read :: "(u8 \<Rightarrow> 'c \<Rightarrow> u8 \<times> 'c) option"
  application_write :: "(u8 \<Rightarrow> u8 \<Rightarrow> 'c \<Rightarrow> 'c) option"
  application_context :: 'c
  trap_timeouts :: u32
  control_errors :: u32
  inactive_irqs :: u32
  wd_scratch :: "u32 list"

abbreviation (input) RESET_FAULT_MAGIC :: u32 where "RESET_FAULT_MAGIC \<equiv> 0x5A384954"
abbreviation (input) Z80_IO_TRAP_RESET_NONE :: u32 where "Z80_IO_TRAP_RESET_NONE \<equiv> 0"
abbreviation (input) Z80_IO_TRAP_RESET_RELEASE_TIMEOUT :: u32 where "Z80_IO_TRAP_RESET_RELEASE_TIMEOUT \<equiv> 1"
abbreviation (input) Z80_IO_TRAP_RESET_INVALID_CONTROLS :: u32 where "Z80_IO_TRAP_RESET_INVALID_CONTROLS \<equiv> 2"
abbreviation (input) TRAP_RELEASE_TIMEOUT_US :: nat where "TRAP_RELEASE_TIMEOUT_US \<equiv> 500000"

definition on_board :: "('d board \<Rightarrow> 'd board) \<Rightarrow> ('d, 'c) io_trap \<Rightarrow> ('d, 'c) io_trap" where
  "on_board g t = t\<lparr>it_board := g (it_board t)\<rparr>"

section \<open>The reason of a reset\<close>

definition z80_io_trap_take_reset_fault :: "bool \<Rightarrow> ('d, 'c) io_trap \<Rightarrow> (u32 \<times> u32) \<times> ('d, 'c) io_trap" where
  "z80_io_trap_take_reset_fault caused_reboot t =
     (let magic = wd_scratch t ! 0; reason = wd_scratch t ! 1; gpio = wd_scratch t ! 2; check = wd_scratch t ! 3;
          t = t\<lparr>wd_scratch := (wd_scratch t)[0 := 0]\<rparr>
      in if \<not> caused_reboot \<or> magic \<noteq> RESET_FAULT_MAGIC \<or> check \<noteq> magic XOR reason XOR gpio \<or>
            reason < Z80_IO_TRAP_RESET_RELEASE_TIMEOUT \<or> reason > Z80_IO_TRAP_RESET_INVALID_CONTROLS
         then ((Z80_IO_TRAP_RESET_NONE, 0), t)
         else ((reason, gpio), t))"

definition z80_io_trap_disable :: "('d, 'c) io_trap \<Rightarrow> ('d, 'c) io_trap" where
  "z80_io_trap_disable t = t\<lparr>it_irq := False, it_edge := False\<rparr>"

definition trap_fail_closed :: "'d hw \<Rightarrow> u32 \<Rightarrow> u32 \<Rightarrow> ('d, 'c) io_trap \<Rightarrow> unit fate \<times> ('d, 'c) io_trap" where
  "trap_fail_closed hw reason controls t =
     (let t = t\<lparr>wd_scratch := (wd_scratch t)[0 := 0]\<rparr>;
          t = t\<lparr>wd_scratch := (wd_scratch t)[1 := reason]\<rparr>;
          t = t\<lparr>wd_scratch := (wd_scratch t)[2 := controls]\<rparr>;
          t = t\<lparr>wd_scratch := (wd_scratch t)[3 := RESET_FAULT_MAGIC XOR reason XOR controls]\<rparr>;
          t = t\<lparr>wd_scratch := (wd_scratch t)[0 := RESET_FAULT_MAGIC]\<rparr>;
          t = z80_io_trap_disable t;
          t = on_board (z80_cpu_fail_closed hw) t
      in (Rebooted, on_board (z80_reset_with_clock_cycles hw 3 1) t))"

section \<open>Serving a trapped cycle\<close>

text \<open>The stepping loop: \<open>True\<close> when the cycle is released, \<open>False\<close> when the deadline has passed.\<close>

partial_function (option) step_until_released ::
    "'d hw \<Rightarrow> u32 \<Rightarrow> nat \<Rightarrow> 'd board \<Rightarrow> (bool \<times> 'd board) option" where
  "step_until_released hw released_mask deadline b =
     (case get_absolute_time hw b of (now, b) \<Rightarrow>
        if deadline \<le> now then Some (False, b)
        else case gpio_get_all hw (z80_clock_step_prepared hw 1 b) of (controls, b) \<Rightarrow>
          if controls AND released_mask = released_mask then Some (True, b)
          else step_until_released hw released_mask deadline b)"

definition finish_cycle :: "'d hw \<Rightarrow> 'd board \<Rightarrow> 'd board" where
  "finish_cycle hw b =
     (let b = z80_data_bus_isolate hw b;
          b = busy_wait_us_32 hw 1 b;
          b = gpio_put hw PIN_IO_RELEASE False b
      in z80_clock_resume hw b)"

definition resume_and_wait_for_release ::
    "'d hw \<Rightarrow> nat \<Rightarrow> ('d, 'c) io_trap \<Rightarrow> (unit fate \<times> ('d, 'c) io_trap) option" where
  "resume_and_wait_for_release hw control_pin t =
     (let released_mask = push_bit PIN_IORQ_N 1 OR push_bit control_pin 1;
          b = gpio_put hw PIN_IO_RELEASE True (it_board t)
      in case gpio_get_all hw b of (controls, b) \<Rightarrow>
        if controls AND released_mask = released_mask
        then Some (Returned (), t\<lparr>it_board := finish_cycle hw b\<rparr>)
        else case get_absolute_time hw b of (now, b) \<Rightarrow>
          map_option (\<lambda>(released, b).
            if released then (Returned (), t\<lparr>it_board := finish_cycle hw b\<rparr>)
            else case gpio_get_all hw b of (controls, b) \<Rightarrow>
              trap_fail_closed hw Z80_IO_TRAP_RESET_RELEASE_TIMEOUT controls
                (t\<lparr>it_board := b, trap_timeouts := trap_timeouts t + 1\<rparr>))
            (step_until_released hw released_mask (now + TRAP_RELEASE_TIMEOUT_US) (z80_clock_prepare_stepping hw b)))"

definition call_write :: "u8 \<Rightarrow> u8 \<Rightarrow> ('d, 'c) io_trap \<Rightarrow> ('d, 'c) io_trap" where
  "call_write port v t =
     (case application_write t of
        Some wr \<Rightarrow> if port \<noteq> 7 then t\<lparr>application_context := wr port v (application_context t)\<rparr> else t
      | None \<Rightarrow> t)"

definition call_read :: "u8 \<Rightarrow> ('d, 'c) io_trap \<Rightarrow> u8 \<times> ('d, 'c) io_trap" where
  "call_read port t =
     (if port = 7 then (0, t)
      else case application_read t of
        None \<Rightarrow> (0xFF, t)
      | Some rd \<Rightarrow> (case rd port (application_context t) of (v, c) \<Rightarrow> (v, t\<lparr>application_context := c\<rparr>)))"

definition service_stopped_io :: "'d hw \<Rightarrow> ('d, 'c) io_trap \<Rightarrow> (unit fate \<times> ('d, 'c) io_trap) option" where
  "service_stopped_io hw t =
     (case gpio_get_all hw (it_board t) of (controls, b) \<Rightarrow>
        if bit controls PIN_IORQ_N
        then Some (Returned (), t\<lparr>it_board := z80_clock_resume hw b, inactive_irqs := inactive_irqs t + 1,
               control_errors := control_errors t + 1\<rparr>)
        else
          let is_read = (\<not> bit controls PIN_RD_N); is_write = (\<not> bit controls PIN_WR_N)
          in if is_read = is_write
             then Some (trap_fail_closed hw Z80_IO_TRAP_RESET_INVALID_CONTROLS controls
               (t\<lparr>it_board := b, control_errors := control_errors t + 1\<rparr>))
             else case z80_port_bus_sample hw b of (port, b) \<Rightarrow>
               if is_write
               then case z80_data_bus_sample hw (z80_data_bus_prepare_input hw b) of (v, b) \<Rightarrow>
                 resume_and_wait_for_release hw PIN_WR_N (call_write port v (t\<lparr>it_board := b\<rparr>))
               else case call_read port (t\<lparr>it_board := b\<rparr>) of (v, t) \<Rightarrow>
                 resume_and_wait_for_release hw PIN_RD_N (on_board (z80_data_bus_drive hw v) t))"

definition io_trap_handler :: "'d hw \<Rightarrow> nat \<Rightarrow> ('d, 'c) io_trap \<Rightarrow> (unit fate \<times> ('d, 'c) io_trap) option" where
  "io_trap_handler hw gpio t =
     (if gpio \<noteq> PIN_IORQ_N then Some (Returned (), t)
      else case gpio_get hw PIN_BUSACK_N (it_board t) of (busack_n, b) \<Rightarrow>
        if \<not> busack_n then Some (Returned (), t\<lparr>it_board := b, it_irq := False\<rparr>)
        else
          let b = z80_clock_stop hw b;
              b = busy_wait_us_32 hw 1 b
          in service_stopped_io hw (t\<lparr>it_board := b\<rparr>))"

section \<open>Arming and the bus service\<close>

definition z80_io_trap_rearm :: "'d hw \<Rightarrow> ('d, 'c) io_trap \<Rightarrow> bool \<times> ('d, 'c) io_trap" where
  "z80_io_trap_rearm hw t =
     (let b = gpio_init hw PIN_IORQ_N (it_board t);
          b = gpio_set_dir hw PIN_IORQ_N False b;
          b = gpio_disable_pulls PIN_IORQ_N b
      in (True, t\<lparr>it_board := b, it_edge := False, it_irq := True\<rparr>))"

definition z80_io_trap_enable ::
    "'d hw \<Rightarrow> (u8 \<Rightarrow> 'c \<Rightarrow> u8 \<times> 'c) option \<Rightarrow> (u8 \<Rightarrow> u8 \<Rightarrow> 'c \<Rightarrow> 'c) option \<Rightarrow> 'c \<Rightarrow>
     ('d, 'c) io_trap \<Rightarrow> bool \<times> ('d, 'c) io_trap" where
  "z80_io_trap_enable hw read_handler write_handler context t =
     z80_io_trap_rearm hw (t\<lparr>application_read := read_handler, application_write := write_handler,
       application_context := context\<rparr>)"

definition z80_io_trap_timeout_count :: "('d, 'c) io_trap \<Rightarrow> u32" where
  "z80_io_trap_timeout_count t = trap_timeouts t"

definition z80_io_trap_control_error_count :: "('d, 'c) io_trap \<Rightarrow> u32" where
  "z80_io_trap_control_error_count t = control_errors t"

definition z80_io_trap_inactive_irq_count :: "('d, 'c) io_trap \<Rightarrow> u32" where
  "z80_io_trap_inactive_irq_count t = inactive_irqs t"

text \<open>What \<open>reboot_after_flash_failure\<close> does to the pins before the watchdog resets the microcontroller.\<close>

definition reboot_pins :: "'d hw \<Rightarrow> 'd board \<Rightarrow> 'd board" where
  "reboot_pins hw b = z80_clock_stop hw (z80_isolate_buses hw (gpio_put hw PIN_RESET_N False b))"

text \<open>The two queues between the cores hold four entries each.\<close>

record ('d, 'c) core0 =
  c0_trap :: "('d, 'c) io_trap"
  service_requests :: "nat list"
  service_results :: "bool list"

abbreviation (input) FLASH_SERVICE_ACQUIRE_BUS :: nat where "FLASH_SERVICE_ACQUIRE_BUS \<equiv> 0"
abbreviation (input) FLASH_SERVICE_RELEASE_BUS :: nat where "FLASH_SERVICE_RELEASE_BUS \<equiv> 1"

definition bus_operation :: "'d hw \<Rightarrow> nat \<Rightarrow> ('d, 'c) io_trap \<Rightarrow> (bool \<times> ('d, 'c) io_trap) option" where
  "bus_operation hw operation t =
     (if operation = FLASH_SERVICE_ACQUIRE_BUS
      then map_option (\<lambda>(result, b).
          let t = t\<lparr>it_board := b\<rparr>
          in (result, if result then z80_io_trap_disable t else t))
        (z80_cpu_request_bus hw 500000 (it_board t))
      else if operation = FLASH_SERVICE_RELEASE_BUS
      then case z80_io_trap_rearm hw t of (armed, t) \<Rightarrow>
        if \<not> armed then Some (False, z80_io_trap_disable t)
        else map_option (\<lambda>(result, b).
            let t = t\<lparr>it_board := b\<rparr>
            in (result, if result then t else z80_io_trap_disable t))
          (z80_cpu_release_bus hw 500000 (it_board t))
      else Some (False, t))"

definition z80_flash_backend_core0_service ::
    "'d hw \<Rightarrow> ('d, 'c) core0 \<Rightarrow> (unit fate \<times> ('d, 'c) core0) option" where
  "z80_flash_backend_core0_service hw c =
     (case service_requests c of
        [] \<Rightarrow> Some (Returned (), c)
      | operation # rest \<Rightarrow>
        map_option (\<lambda>(result, t).
            let c = c\<lparr>c0_trap := t, service_requests := rest\<rparr>
            in if length (service_results c) < 4
               then (Returned (), c\<lparr>service_results := service_results c @ [result]\<rparr>)
               else (Rebooted, c\<lparr>c0_trap := on_board (reboot_pins hw) t\<rparr>))
          (bus_operation hw operation (c0_trap c)))"

section \<open>The pins\<close>

lemma out_after_cycle [simp]:
  "k \<noteq> 2 \<Longrightarrow> bit (gpio_out (z80_clock_prepare_stepping hw b)) k = bit (gpio_out b) k"
  "k \<noteq> 2 \<Longrightarrow> bit (gpio_out (z80_clock_step_prepared hw h b)) k = bit (gpio_out b) k"
  "pwm_enabled (pwm (z80_clock_prepare_stepping hw b)) = False"
  "pwm (z80_clock_step_prepared hw h b) = pwm b"
  by (simp_all add: z80_clock_prepare_stepping_def z80_clock_step_prepared_def z80_clock_stop_def gpio_set_dir_def Let_def)

lemma fail_closed_reset:
  assumes "fail_closed b"
  shows "fail_closed (z80_reset_with_clock_cycles hw n h b)"
proof -
  have "fail_closed (z80_clock_one_cycle hw h b)" if "fail_closed b" for b :: "'a board"
    using that by (simp add: fail_closed_def z80_clock_one_cycle_def)
  moreover have "fail_closed (gpio_put hw 3 False b)"
    using assms by (simp add: fail_closed_def)
  ultimately have "fail_closed ((z80_clock_one_cycle hw h ^^ n) (gpio_put hw 3 False b))"
    by (induction n) auto
  then show ?thesis
    by (simp add: z80_reset_with_clock_cycles_def z80_clock_stop_def fail_closed_def)
qed

text \<open>Between two trapped cycles: both bus drivers off and the cycle release line low.\<close>

definition bus_idle :: "'d board \<Rightarrow> bool" where
  "bus_idle b \<longleftrightarrow> safe_board b \<and> bit (gpio_out b) PIN_DATA_UP_OE_N \<and> bit (gpio_out b) PIN_DATA_DOWN_OE_N \<and>
     \<not> bit (gpio_out b) PIN_IO_RELEASE"

definition clock_runs :: "'d board \<Rightarrow> bool" where
  "clock_runs b \<longleftrightarrow> clk_pwm b \<and> pwm_enabled (pwm b)"

lemma resume_runs [simp]: "clock_runs (z80_clock_resume hw b)"
  by (simp add: clock_runs_def z80_clock_resume_def Let_def)

lemma resume_out [simp]: "gpio_out (z80_clock_resume hw b) = gpio_out b"
  by (simp add: z80_clock_resume_def Let_def)

lemma finish_cycle_idle:
  assumes "safe_board b"
  shows "bus_idle (finish_cycle hw b)" and "clock_runs (finish_cycle hw b)"
proof -
  show "clock_runs (finish_cycle hw b)"
    by (simp add: finish_cycle_def Let_def)
  have "safe_board (finish_cycle hw b)"
    unfolding finish_cycle_def Let_def using assms by (intro bus_safe_intros) auto
  then show "bus_idle (finish_cycle hw b)"
    by (simp add: bus_idle_def finish_cycle_def Let_def isolated_data_bus)
qed

lemma clock_stop_out [simp]: "gpio_out (z80_clock_stop hw b) = gpio_out b"
  by (simp add: z80_clock_stop_def)

section \<open>The reset\<close>

text \<open>A reset that the trap asks for, as the next start finds it.\<close>

definition reset_recorded :: "u32 \<Rightarrow> ('d, 'c) io_trap \<Rightarrow> bool" where
  "reset_recorded reason t \<longleftrightarrow>
     safe_board (it_board t) \<and> fail_closed (it_board t) \<and>
     (\<exists>controls. wd_scratch t = [RESET_FAULT_MAGIC, reason, controls, RESET_FAULT_MAGIC XOR reason XOR controls])"

lemma trap_fail_closed_recorded:
  assumes "safe_board (it_board t)" and "length (wd_scratch t) = 4"
  shows "fst (trap_fail_closed hw reason controls t) = Rebooted"
    and "reset_recorded reason (snd (trap_fail_closed hw reason controls t))"
    and "application_context (snd (trap_fail_closed hw reason controls t)) = application_context t"
proof -
  obtain x0 x1 x2 x3 where w: "wd_scratch t = [x0, x1, x2, x3]"
    using assms(2) by (auto simp: numeral_eq_Suc length_Suc_conv)
  have "safe_board (z80_reset_with_clock_cycles hw 3 1 (z80_cpu_fail_closed hw (it_board t)))"
    using assms(1) by (intro bus_safe_intros)
  moreover have "fail_closed (z80_reset_with_clock_cycles hw 3 1 (z80_cpu_fail_closed hw (it_board t)))"
    by (rule fail_closed_reset) simp
  ultimately show "fst (trap_fail_closed hw reason controls t) = Rebooted"
    and "reset_recorded reason (snd (trap_fail_closed hw reason controls t))"
    and "application_context (snd (trap_fail_closed hw reason controls t)) = application_context t"
    by (simp_all add: trap_fail_closed_def z80_io_trap_disable_def on_board_def reset_recorded_def w Let_def)
qed

section \<open>The stepping loop\<close>

lemma step_until_released_keeps:
  assumes "step_until_released hw m deadline b = Some r" and "P b"
    and now: "\<And>b. P b \<Longrightarrow> P (snd (get_absolute_time hw b))"
    and step: "\<And>b. P b \<Longrightarrow> P (z80_clock_step_prepared hw 1 b)"
    and get: "\<And>b. P b \<Longrightarrow> P (snd (gpio_get_all hw b))"
  shows "P (snd r)"
proof -
  have "hw' = hw \<longrightarrow> P b \<longrightarrow> P (snd r)" if "step_until_released hw' m deadline b = Some r" for hw'
    using that
  proof (rule step_until_released.raw_induct [where P = "\<lambda>hw' _ _ b r. hw' = hw \<longrightarrow> P b \<longrightarrow> P (snd r)", rotated],
      intro impI, goal_cases)
    case (1 rec hw' m deadline b r)
    obtain t b1 where n: "get_absolute_time hw b = (t, b1)"
      by fastforce
    obtain c b2 where g: "gpio_get_all hw (z80_clock_step_prepared hw 1 b1) = (c, b2)"
      by fastforce
    have "P b1" and "P b2"
      using now [OF \<open>P b\<close>] get [OF step, of b1] g n by auto
    then show ?case
      using 1 by (auto simp: g n split: if_splits simp del: One_nat_def)
  qed
  with assms(1,2) show ?thesis
    by blast
qed

lemma device_after:
  "device (set_pins hw out oe b) = hw_pins hw out oe (device b)"
  "device (busy_wait_us_32 hw n b) = hw_wait hw n (device b)"
  by (simp_all add: set_pins_def busy_wait_us_32_def)

context ticking
begin

lemma step_advances: "time_of (device b) < time_of (device (z80_clock_step_prepared hw 1 b))"
proof -
  define d1 where "d1 = hw_wait hw 1 (device b)"
  define d2 where "d2 = hw_pins hw (set_bit 2 (gpio_out b)) (gpio_oe b) d1"
  define d3 where "d3 = hw_wait hw 1 d2"
  define d4 where "d4 = hw_pins hw (unset_bit 2 (set_bit 2 (gpio_out b))) (gpio_oe b) d3"
  have "time_of (device b) + 1 \<le> time_of d1" "time_of d1 \<le> time_of d2" "time_of d2 + 1 \<le> time_of d3"
    "time_of d3 \<le> time_of d4" "time_of d4 + 1 \<le> time_of (hw_wait hw 1 d4)"
    unfolding d1_def d2_def d3_def d4_def by (rule wait_advances pins_no_rewind)+
  then have "time_of (device b) < time_of (hw_wait hw 1 d4)"
    by linarith
  moreover have "device (z80_clock_step_prepared hw 1 b) = hw_wait hw 1 d4"
    unfolding z80_clock_step_prepared_def Let_def gpio_put_def d1_def d2_def d3_def d4_def by (simp add: device_after)
  ultimately show ?thesis
    by (simp only:)
qed

lemma step_until_released_returns: "\<exists>r. step_until_released hw m deadline b = Some r"
proof (induction "deadline - time_of (device b)" arbitrary: b rule: less_induct)
  case less
  obtain t b1 where n: "get_absolute_time hw b = (t, b1)"
    by fastforce
  obtain c b2 where g: "gpio_get_all hw (z80_clock_step_prepared hw 1 b1) = (c, b2)"
    by fastforce
  have "t = time_of (device b)" and "time_of (device b) \<le> time_of (device b1)"
    using n now_is_time [of "device b"] now_no_rewind [of "device b"]
    by (auto simp: get_absolute_time_def split: prod.splits)
  moreover have "time_of (device (z80_clock_step_prepared hw 1 b1)) \<le> time_of (device b2)"
    using g in_no_rewind [of "device (z80_clock_step_prepared hw 1 b1)"]
    by (auto simp: gpio_get_all_def split: prod.splits simp del: One_nat_def) (metis snd_conv)
  ultimately have "\<exists>r. step_until_released hw m deadline b2 = Some r" if "\<not> deadline \<le> t"
    using less [of b2] that step_advances [of b1] by simp
  then show ?case
    by (subst step_until_released.simps) (auto simp: g n simp del: One_nat_def)
qed

end

section \<open>What the pins have shown\<close>

text \<open>A value that the pin registers have had stays in their history.\<close>

definition shown :: "u32 \<times> u32 \<Rightarrow> 'd board \<Rightarrow> bool" where
  "shown p b \<longleftrightarrow> p \<in> set (pin_trace b)"

named_theorems shown_intros \<open>operations that keep the history of the pins\<close>

lemma shown_primitive [shown_intros]:
  "shown p b \<Longrightarrow> shown p (set_pins hw out oe b)"
  "shown p b \<Longrightarrow> shown p (set_clk hw f q b)"
  "shown p b \<Longrightarrow> shown p (busy_wait_us_32 hw n b)"
  "shown p b \<Longrightarrow> shown p (gpio_put hw pin v b)"
  "shown p b \<Longrightarrow> shown p (gpio_set_dir hw pin v b)"
  "shown p b \<Longrightarrow> shown p (z80_data_bus_isolate hw b)"
  "shown p b \<Longrightarrow> shown p (snd (gpio_get_all hw b))"
  "shown p b \<Longrightarrow> shown p (snd (get_absolute_time hw b))"
  by (simp_all add: shown_def set_pins_def set_clk_def busy_wait_us_32_def gpio_put_def gpio_set_dir_def
      z80_data_bus_isolate_def gpio_set_mask_def gpio_get_all_def get_absolute_time_def split: prod.split)

lemma shown_clock [shown_intros]:
  "shown p b \<Longrightarrow> shown p (z80_clock_stop hw b)"
  "shown p b \<Longrightarrow> shown p (z80_clock_resume hw b)"
  "shown p b \<Longrightarrow> shown p (z80_clock_prepare_stepping hw b)"
  "shown p b \<Longrightarrow> shown p (z80_clock_step_prepared hw h b)"
  unfolding z80_clock_stop_def z80_clock_resume_def z80_clock_prepare_stepping_def z80_clock_step_prepared_def Let_def
  by (auto intro!: shown_intros)

lemma shown_reset [shown_intros]:
  "shown p b \<Longrightarrow> shown p (z80_cpu_fail_closed hw b)"
  "shown p b \<Longrightarrow> shown p (z80_reset_with_clock_cycles hw n h b)"
  "shown p b \<Longrightarrow> shown p (finish_cycle hw b)"
proof -
  show "shown p b \<Longrightarrow> shown p (z80_cpu_fail_closed hw b)" and "shown p b \<Longrightarrow> shown p (finish_cycle hw b)"
    unfolding z80_cpu_fail_closed_def z80_isolate_buses_def finish_cycle_def Let_def by (auto intro!: shown_intros)
  have "shown p b \<Longrightarrow> shown p ((z80_clock_one_cycle hw h ^^ n) b)" for b
    by (induction n) (auto simp: z80_clock_one_cycle_def intro!: shown_intros)
  then show "shown p b \<Longrightarrow> shown p (z80_reset_with_clock_cycles hw n h b)"
    unfolding z80_reset_with_clock_cycles_def by (auto intro!: shown_intros)
qed

section \<open>One trapped cycle\<close>

text \<open>
  What a trapped cycle may end in: the Z80 runs on with the bus idle, or the watchdog resets the microcontroller with the Z80 stopped
  and the reason on record.
\<close>

definition cycle_ended :: "unit fate \<times> ('d, 'c) io_trap \<Rightarrow> bool" where
  "cycle_ended r \<longleftrightarrow>
     (case fst r of
        Returned _ \<Rightarrow> bus_idle (it_board (snd r)) \<and> clock_runs (it_board (snd r)) \<and> length (wd_scratch (snd r)) = 4
      | Rebooted \<Rightarrow> \<exists>reason \<in> {Z80_IO_TRAP_RESET_RELEASE_TIMEOUT, Z80_IO_TRAP_RESET_INVALID_CONTROLS}.
          reset_recorded reason (snd r))"

lemma cycle_ended_failed:
  assumes "safe_board (it_board t)" and "length (wd_scratch t) = 4"
    and "reason \<in> {Z80_IO_TRAP_RESET_RELEASE_TIMEOUT, Z80_IO_TRAP_RESET_INVALID_CONTROLS}"
  shows "cycle_ended (trap_fail_closed hw reason controls t)"
  using trap_fail_closed_recorded [OF assms(1,2), where hw = hw and reason = reason and controls = controls] assms(3) by (auto simp: cycle_ended_def)

context ticking
begin

lemma resume_ends:
  fixes t :: "('d, 'c) io_trap"
  assumes "safe_board (it_board t)" and "length (wd_scratch t) = 4"
  shows "\<exists>r. resume_and_wait_for_release hw pin t = Some r \<and> cycle_ended r \<and>
    application_context (snd r) = application_context t \<and>
    (\<forall>p. shown p (it_board t) \<longrightarrow> shown p (it_board (snd r)))"
proof -
  define m :: u32 where "m = push_bit PIN_IORQ_N 1 OR push_bit pin 1"
  define keeps where "keeps b \<longleftrightarrow> safe_board b \<and> (\<forall>p. shown p (it_board t) \<longrightarrow> shown p b)" for b :: "'d board"
  obtain c b1 where b1: "gpio_get_all hw (gpio_put hw PIN_IO_RELEASE True (it_board t)) = (c, b1)"
    by fastforce
  obtain now b2 where b2: "get_absolute_time hw b1 = (now, b2)"
    by fastforce
  have k: "keeps b \<Longrightarrow> keeps (snd (gpio_get_all hw b))" "keeps b \<Longrightarrow> keeps (snd (get_absolute_time hw b))"
    "keeps b \<Longrightarrow> keeps (z80_clock_step_prepared hw 1 b)" "keeps b \<Longrightarrow> keeps (z80_clock_prepare_stepping hw b)" for b
    by (auto simp: keeps_def intro: shown_intros bus_safe_intros)
  have "keeps (gpio_put hw PIN_IO_RELEASE True (it_board t))"
    using assms(1) by (auto simp: keeps_def intro!: shown_intros bus_safe_intros)
  with k(1,2) b1 b2 have "keeps b1" and "keeps b2"
    by (metis snd_conv)+
  obtain released b3 where b3: "step_until_released hw m (now + TRAP_RELEASE_TIMEOUT_US) (z80_clock_prepare_stepping hw b2) = Some (released, b3)"
    using step_until_released_returns [of m "now + TRAP_RELEASE_TIMEOUT_US" "z80_clock_prepare_stepping hw b2"] by auto
  obtain c' b4 where b4: "gpio_get_all hw b3 = (c', b4)"
    by fastforce
  have "keeps b3"
    using step_until_released_keeps [OF b3, of keeps] k \<open>keeps b2\<close> by auto
  with k(1) b4 have "keeps b4"
    by (metis snd_conv)
  have done': "cycle_ended (Returned (), t\<lparr>it_board := finish_cycle hw b\<rparr>) \<and>
      (\<forall>p. shown p (it_board t) \<longrightarrow> shown p (finish_cycle hw b))" if "keeps b" for b
    using that assms(2) finish_cycle_idle [of b hw] by (auto simp: cycle_ended_def keeps_def intro: shown_intros)
  have failed: "cycle_ended (trap_fail_closed hw 1 c' t') \<and> application_context (snd (trap_fail_closed hw 1 c' t')) = application_context t' \<and>
      (\<forall>p. shown p (it_board t) \<longrightarrow> shown p (it_board (snd (trap_fail_closed hw 1 c' t'))))"
    if "keeps (it_board t')" "length (wd_scratch t') = 4" for t' :: "('d, 'c) io_trap"
    using that cycle_ended_failed [of t' 1 hw c'] trap_fail_closed_recorded(3) [of t' hw 1 c']
    by (auto simp: keeps_def trap_fail_closed_def z80_io_trap_disable_def on_board_def Let_def intro!: shown_intros)
  let ?fail = "trap_fail_closed hw 1 c' (t\<lparr>it_board := b4, trap_timeouts := trap_timeouts t + 1\<rparr>)"
  let ?r = "if c AND m = m then (Returned (), t\<lparr>it_board := finish_cycle hw b1\<rparr>)
    else if released then (Returned (), t\<lparr>it_board := finish_cycle hw b3\<rparr>) else ?fail"
  have "resume_and_wait_for_release hw pin t = Some ?r"
    unfolding resume_and_wait_for_release_def Let_def m_def [symmetric] by (simp add: b1 b2 b3 b4)
  moreover have "cycle_ended ?r \<and> application_context (snd ?r) = application_context t \<and>
      (\<forall>p. shown p (it_board t) \<longrightarrow> shown p (it_board (snd ?r)))"
    using done' [OF \<open>keeps b1\<close>] done' [OF \<open>keeps b3\<close>] failed [of "t\<lparr>it_board := b4, trap_timeouts := trap_timeouts t + 1\<rparr>"]
      \<open>keeps b4\<close> assms(2) by auto
  ultimately show ?thesis
    by blast
qed

lemma service_ends:
  fixes t :: "('d, 'c) io_trap"
  assumes "bus_idle (it_board t)" and "length (wd_scratch t) = 4"
  shows "\<exists>r. service_stopped_io hw t = Some r \<and> cycle_ended r"
proof -
  obtain controls b1 where c: "gpio_get_all hw (it_board t) = (controls, b1)"
    by fastforce
  obtain port b2 where p: "z80_port_bus_sample hw b1 = (port, b2)"
    by fastforce
  obtain v b3 where v: "z80_data_bus_sample hw (z80_data_bus_prepare_input hw b2) = (v, b3)"
    by fastforce
  have s1: "safe_board b1" and idle: "bus_idle b1"
    using assms(1) safe_gpio_get_all [of "it_board t" hw] reads_keep_registers(1) [of hw "it_board t"]
    by (simp_all add: bus_idle_def c)
  have s2: "safe_board b2"
    using safe_port_bus_sample [OF s1, of hw] by (simp add: p)
  have s3: "safe_board b3"
    using safe_data_bus_sample [OF safe_data_bus_prepare_input [OF s2, of hw], of hw] by (simp add: v)
  have "call_read port (t\<lparr>it_board := b2\<rparr>) = (fst (call_read port (t\<lparr>it_board := b2\<rparr>)), snd (call_read port (t\<lparr>it_board := b2\<rparr>)))"
    by simp
  moreover have "it_board (snd (call_read port t)) = it_board t" "wd_scratch (snd (call_read port t)) = wd_scratch t"
    "it_board (call_write port v t) = it_board t" "wd_scratch (call_write port v t) = wd_scratch t" for t :: "('d, 'c) io_trap"
    by (auto simp: call_read_def call_write_def split: option.split prod.split)
  ultimately have wr: "\<exists>r. resume_and_wait_for_release hw 28 (call_write port v (t\<lparr>it_board := b3\<rparr>)) = Some r \<and> cycle_ended r"
    and rd: "\<exists>r. resume_and_wait_for_release hw 27 (on_board (z80_data_bus_drive hw (fst (call_read port (t\<lparr>it_board := b2\<rparr>))))
        (snd (call_read port (t\<lparr>it_board := b2\<rparr>)))) = Some r \<and> cycle_ended r"
    using resume_ends [of "call_write port v (t\<lparr>it_board := b3\<rparr>)" 28] s3 assms(2)
      resume_ends [of "on_board (z80_data_bus_drive hw (fst (call_read port (t\<lparr>it_board := b2\<rparr>)))) (snd (call_read port (t\<lparr>it_board := b2\<rparr>)))" 27]
      safe_data_bus_drive [OF s2, of hw] by (auto simp: on_board_def)
  have bad: "cycle_ended (trap_fail_closed hw 2 controls (t\<lparr>it_board := b1, control_errors := control_errors t + 1\<rparr>))"
    using s1 assms(2) by (intro cycle_ended_failed) simp_all
  have late: "cycle_ended (Returned (), t\<lparr>it_board := z80_clock_resume hw b1, inactive_irqs := inactive_irqs t + 1,
      control_errors := control_errors t + 1\<rparr>)"
    using idle assms(2) by (auto simp: cycle_ended_def bus_idle_def intro: bus_safe_intros)
  show ?thesis
    unfolding service_stopped_io_def using wr rd bad late
    by (simp add: c p v Let_def split_beta del: split_paired_Ex)
qed

lemma handler_ends:
  fixes t :: "('d, 'c) io_trap"
  assumes "bus_idle (it_board t)" and "length (wd_scratch t) = 4" and "clock_runs (it_board t)"
  shows "\<exists>r. io_trap_handler hw gpio t = Some r \<and> cycle_ended r"
proof -
  obtain busack_n b1 where g: "gpio_get hw PIN_BUSACK_N (it_board t) = (busack_n, b1)"
    by fastforce
  have same: "gpio_out b1 = gpio_out (it_board t)" "pwm b1 = pwm (it_board t)" "clk_pwm b1 = clk_pwm (it_board t)"
    using g by (auto simp: gpio_get_def gpio_get_all_def split: prod.splits)
  have "safe_board b1"
    using safe_gpio_get [of "it_board t" hw PIN_BUSACK_N] assms(1) by (simp add: g bus_idle_def)
  then have idle: "bus_idle b1" "clock_runs b1"
    and stopped: "bus_idle (busy_wait_us_32 hw 1 (z80_clock_stop hw b1))"
    using assms same by (auto simp: bus_idle_def clock_runs_def intro: bus_safe_intros)
  have "\<exists>r. service_stopped_io hw (t\<lparr>it_board := busy_wait_us_32 hw 1 (z80_clock_stop hw b1)\<rparr>) = Some r \<and> cycle_ended r"
    by (rule service_ends) (use stopped assms(2) in simp_all)
  then show ?thesis
    unfolding io_trap_handler_def using assms idle
    by (auto simp: g cycle_ended_def simp del: split_paired_Ex)
qed

end

section \<open>The properties\<close>

text \<open>
  C8. Every trapped I/O cycle comes to an end, as long as time passes: either the Z80 runs on, with its clock on, both bus drivers off and
  the release line low, or the microcontroller is reset with the Z80 stopped, and the next start reports why. The bus
  drivers are never in contention on the way.
\<close>

theorem trapped_cycle_ends:
  assumes "ticking hw time_of" and "bus_idle (it_board t)" and "clock_runs (it_board t)" and "length (wd_scratch t) = 4"
  shows "\<exists>fate t'. io_trap_handler hw gpio t = Some (fate, t') \<and> safe_board (it_board t') \<and>
    (fate = Returned () \<longrightarrow> bus_idle (it_board t') \<and> clock_runs (it_board t')) \<and>
    (fate = Rebooted \<longrightarrow> fail_closed (it_board t') \<and>
      fst (fst (z80_io_trap_take_reset_fault True t')) \<in>
        {Z80_IO_TRAP_RESET_RELEASE_TIMEOUT, Z80_IO_TRAP_RESET_INVALID_CONTROLS})"
proof -
  obtain fate t' where h: "io_trap_handler hw gpio t = Some (fate, t')" "cycle_ended (fate, t')"
    using ticking.handler_ends [OF assms(1,2,4,3), of gpio] by auto
  have "fst (fst (z80_io_trap_take_reset_fault True t')) = reason"
    if "reset_recorded reason t'" "reason \<in> {Z80_IO_TRAP_RESET_RELEASE_TIMEOUT, Z80_IO_TRAP_RESET_INVALID_CONTROLS}" for reason
    using that by (auto simp: reset_recorded_def z80_io_trap_take_reset_fault_def Let_def)
  with h show ?thesis
    by (cases fate) (auto simp: cycle_ended_def bus_idle_def reset_recorded_def)
qed

text \<open>
  The reason of a trap reset survives it: the next start that the watchdog caused reports the reason and the control lines
  that were recorded, once; a start from another cause, or a second question, reports none.
\<close>

theorem reset_fault_roundtrip:
  assumes "length (wd_scratch t) = 4" and "trap_fail_closed hw reason controls t = (fate, t')"
    and "reason \<in> {Z80_IO_TRAP_RESET_RELEASE_TIMEOUT, Z80_IO_TRAP_RESET_INVALID_CONTROLS}"
    and "z80_io_trap_take_reset_fault caused_reboot t' = (fault, t'')"
  shows "fault = (if caused_reboot then (reason, controls) else (Z80_IO_TRAP_RESET_NONE, 0)) \<and>
    fst (z80_io_trap_take_reset_fault caused_reboot t'') = (Z80_IO_TRAP_RESET_NONE, 0)"
proof -
  obtain x0 x1 x2 x3 where "wd_scratch t = [x0, x1, x2, x3]"
    using assms(1) by (auto simp: numeral_eq_Suc length_Suc_conv)
  then have "wd_scratch t' = [RESET_FAULT_MAGIC, reason, controls, RESET_FAULT_MAGIC XOR reason XOR controls]"
    using assms(2) by (auto simp: trap_fail_closed_def z80_io_trap_disable_def on_board_def Let_def)
  then show ?thesis
    using assms(3,4) by (auto simp: z80_io_trap_take_reset_fault_def Let_def)
qed

lemma reads_keep_outputs:
  "gpio_oe (snd (gpio_get_all hw b)) = gpio_oe b"
  "gpio_oe (snd (z80_port_bus_sample hw b)) = gpio_oe b"
  by (auto simp: gpio_get_all_def z80_port_bus_sample_def split: prod.split)

lemma drive_shows:
  assumes "\<forall>pin \<in> {2..<10}. bit (gpio_oe b) pin"
    and p_def: "p = (gpio_out (z80_data_bus_drive hw v b), gpio_oe (z80_data_bus_drive hw v b))"
  shows "shown p (z80_data_bus_drive hw v b)" and "asserted PIN_DATA_UP_OE_N p" and "bus_byte (fst p) (snd p) = v"
proof -
  show "bus_byte (fst p) (snd p) = v"
    unfolding p_def fst_conv snd_conv by (rule driven_byte [OF assms(1)])
  show "asserted PIN_DATA_UP_OE_N p"
    using assms(1) by (simp add: p_def asserted_def z80_data_bus_drive_def Let_def z80_data_bus_isolate_def gpio_set_mask_def)
  show "shown p (z80_data_bus_drive hw v b)"
    by (simp add: p_def shown_def z80_data_bus_drive_def Let_def gpio_put_def set_pins_def)
qed



section \<open>A cycle on a small board\<close>

text \<open>A Z80 that reads port 2 until the release line goes high; the device is the time.\<close>

definition read_cycle :: "nat hw" where
  "read_cycle =
     \<lparr>hw_pins = (\<lambda>out oe d. d), hw_clk = (\<lambda>f p d. d), hw_wait = (\<lambda>us d. d + us), hw_spin = (\<lambda>d. d + 1),
      hw_in = (\<lambda>out oe d. (if bit out PIN_IO_RELEASE then 0x18000003 else 0x10080001, d)),
      hw_now = (\<lambda>d. (d, d)), hw_sys_clk = 144000000\<rparr>"

interpretation read_cycle_time: ticking read_cycle "\<lambda>d. d"
  by unfold_locales (simp_all add: read_cycle_def)

definition trapped :: "(nat, nat list) io_trap" where
  "trapped =
     \<lparr>it_board = \<lparr>gpio_out = 0xF8, gpio_oe = 0x3FC, gpio_no_pulls = 0, clk_pwm = True,
        pwm = \<lparr>pwm_enabled = True, pwm_div = 1, pwm_wrap = 35, pwm_level = 18, pwm_counter = 0\<rparr>,
        actual_clock_hz = 4000000, banked_memory_available = False, bank_driver = None, pin_trace = [], device = 0\<rparr>,
      it_irq = True, it_edge = False,
      application_read = Some (\<lambda>port c. (0x41, unat port # c)), application_write = Some (\<lambda>port v c. c),
      application_context = [], trap_timeouts = 0, control_errors = 0, inactive_irqs = 0, wd_scratch = [0, 0, 0, 0]\<rparr>"

lemma trapped_idle:
  "bus_idle (it_board trapped)" "clock_runs (it_board trapped)" "length (wd_scratch trapped) = 4"
  "\<forall>pin \<in> {2..<10}. bit (gpio_oe (it_board trapped)) pin"
proof -
  show "\<forall>pin \<in> {2..<10}. bit (gpio_oe (it_board trapped)) pin"
  proof
    fix pin :: nat
    assume "pin \<in> {2..<10}"
    then consider "pin = 2" | "pin = 3" | "pin = 4" | "pin = 5" | "pin = 6" | "pin = 7" | "pin = 8" | "pin = 9"
      by fastforce
    then show "bit (gpio_oe (it_board trapped)) pin"
      by cases (simp_all add: trapped_def)
  qed
  show "bus_idle (it_board trapped)" "clock_runs (it_board trapped)" "length (wd_scratch trapped) = 4"
    by (simp_all add: trapped_def bus_idle_def clock_runs_def safe_board_def bus_safe_def asserted_def)
qed

theorem trapped_cycle_ends_witness:
  "\<exists>fate t'. io_trap_handler read_cycle PIN_IORQ_N trapped = Some (fate, t') \<and> safe_board (it_board t')"
  using trapped_cycle_ends [OF read_cycle_time.ticking_axioms trapped_idle(1,2,3), of PIN_IORQ_N] by blast

theorem reset_fault_roundtrip_witness:
  "fst (z80_io_trap_take_reset_fault True (snd (trap_fail_closed read_cycle Z80_IO_TRAP_RESET_INVALID_CONTROLS 7 trapped))) =
     (Z80_IO_TRAP_RESET_INVALID_CONTROLS, 7)"
  using reset_fault_roundtrip [OF trapped_idle(3) prod.collapse [symmetric], where caused_reboot = True,
      OF _ prod.collapse [symmetric], of Z80_IO_TRAP_RESET_INVALID_CONTROLS read_cycle 7] by simp



end
