(* ===== verification/C_Numbers.thy ===== *)
theory C_Numbers
  imports Complex_Main Http_Stream "HOL-Library.Log_Nat"
begin

text \<open>
  The number readers of the C library that the firmware uses on texts from outside: \<open>strtod\<close> and \<open>strtol\<close>, as the C standard describes them, in
  the C locale, for a 64-bit binary \<open>double\<close> and a 32-bit \<open>long\<close>.

  \<^item> A string is the list of its bytes before the terminator; a reader returns what it has read and the rest of the string.
  \<^item> A finite \<open>double\<close> is the rational number it stands for. \<open>round_binary64\<close> rounds to the nearest one, ties to the even significand.
  \<^item> \<open>ERANGE\<close> is reported on overflow, and on underflow to zero, which the standard leaves open.
\<close>

section \<open>Binary floating point\<close>

definition round_half_even :: "rat \<Rightarrow> int" where
  "round_half_even x =
     (let f = \<lfloor>x\<rfloor>; d = x - of_int f
      in if d < 1 / 2 \<or> d = 1 / 2 \<and> even f then f else f + 1)"

text \<open>The exponent of the last place of a double near the positive number \<open>x\<close>.\<close>

definition binary64_exponent :: "rat \<Rightarrow> int" where
  "binary64_exponent x =
     (case quotient_of x of (p, q) \<Rightarrow>
        let e = int (floorlog 2 (nat p)) - int (floorlog 2 (nat q))
        in max (- 1074) (if 2 powi e \<le> x then e - 52 else e - 53))"

definition round_binary64 :: "rat \<Rightarrow> rat" where
  "round_binary64 x =
     (if x = 0 then 0
      else let e = binary64_exponent \<bar>x\<bar> in of_int (round_half_even (x / 2 powi e)) * 2 powi e)"

section \<open>Reading numbers\<close>

definition c_isspace :: "u8 \<Rightarrow> bool" where
  "c_isspace c \<longleftrightarrow> c = 32 \<or> 9 \<le> c \<and> c \<le> 13"

definition based_digit :: "nat \<Rightarrow> u8 \<Rightarrow> bool" where
  "based_digit base c \<longleftrightarrow> (case digit_value c of None \<Rightarrow> False | Some d \<Rightarrow> d < base)"

definition number_of :: "nat \<Rightarrow> bytes \<Rightarrow> nat" where
  "number_of base ds = foldl (\<lambda>n c. n * base + (case digit_value c of None \<Rightarrow> 0 | Some d \<Rightarrow> d)) 0 ds"

text \<open>An optional sign: whether it is a minus, and the rest.\<close>

definition c_sign :: "bytes \<Rightarrow> bool \<times> bytes" where
  "c_sign s = (if s \<noteq> [] \<and> hd s = 45 then (True, tl s) else if s \<noteq> [] \<and> hd s = 43 then (False, tl s) else (False, s))"

text \<open>Digits with an optional point: their value without the point, the number of digits behind it, and the rest.\<close>

definition significand :: "nat \<Rightarrow> bytes \<Rightarrow> (nat \<times> nat \<times> bytes) option" where
  "significand base s =
     (let w = takeWhile (based_digit base) s; r = dropWhile (based_digit base) s;
          (f, r) = (if r \<noteq> [] \<and> hd r = 46 then (takeWhile (based_digit base) (tl r), dropWhile (based_digit base) (tl r)) else ([], r))
      in if w = [] \<and> f = [] then None else Some (number_of base (w @ f), length f, r))"

definition exponent_part :: "u8 \<Rightarrow> bytes \<Rightarrow> int \<times> bytes" where
  "exponent_part marker s =
     (if s \<noteq> [] \<and> to_lower (hd s) = marker
      then case c_sign (tl s) of (neg, t) \<Rightarrow>
        let ds = takeWhile is_digit t
        in if ds = [] then (0, s)
           else ((if neg then - int (number_of 10 ds) else int (number_of 10 ds)), dropWhile is_digit t)
      else (0, s))"

text \<open>The characters in parentheses that may follow \<open>nan\<close>.\<close>

definition after_nan :: "bytes \<Rightarrow> bytes" where
  "after_nan s =
     (let t = dropWhile (\<lambda>c. is_alpha c \<or> is_digit c \<or> c = 95) (tl s)
      in if s \<noteq> [] \<and> hd s = 40 \<and> t \<noteq> [] \<and> hd t = 41 then tl t else s)"

text \<open>The exact value of a number without its sign, \<open>None\<close> for infinity and \<open>nan\<close>; nothing when there is no number.\<close>

definition read_float :: "bytes \<Rightarrow> (rat option \<times> bytes) option" where
  "read_float s =
     (if starts_ci (ascii ''infinity'') s then Some (None, drop 8 s)
      else if starts_ci (ascii ''inf'') s then Some (None, drop 3 s)
      else if starts_ci (ascii ''nan'') s then Some (None, after_nan (drop 3 s))
      else case (if starts_ci (ascii ''0x'') s then significand 16 (drop 2 s) else None) of
        Some (m, k, r) \<Rightarrow> (case exponent_part 112 r of (e, r) \<Rightarrow> Some (Some (of_nat m * 2 powi (e - 4 * int k)), r))
      | None \<Rightarrow>
          case significand 10 s of
            None \<Rightarrow> None
          | Some (m, k, r) \<Rightarrow> (case exponent_part 101 r of (e, r) \<Rightarrow> Some (Some (of_nat m * 10 powi (e - int k)), r)))"

text \<open>\<open>strtod\<close>: the value if it is finite, \<open>ERANGE\<close>, and the rest; \<open>None\<close> when nothing is converted.\<close>

definition strtod :: "bytes \<Rightarrow> (rat option \<times> bool \<times> bytes) option" where
  "strtod s =
     (case c_sign (dropWhile c_isspace s) of (neg, t) \<Rightarrow>
        case read_float t of
          None \<Rightarrow> None
        | Some (None, r) \<Rightarrow> Some (None, False, r)
        | Some (Some x, r) \<Rightarrow>
            let v = round_binary64 x
            in Some (if v \<ge> 2 ^ 1024 then (None, True, r) else (Some (if neg then - v else v), x \<noteq> 0 \<and> v = 0, r)))"

text \<open>\<open>strtol\<close> with base 10: the value, \<open>ERANGE\<close>, and the rest.\<close>

definition strtol :: "bytes \<Rightarrow> (int \<times> bool \<times> bytes) option" where
  "strtol s =
     (case c_sign (dropWhile c_isspace s) of (neg, t) \<Rightarrow>
        let ds = takeWhile is_digit t;
            v = (if neg then - int (number_of 10 ds) else int (number_of 10 ds))
        in if ds = [] then None
           else Some (if v < - 2147483648 then (- 2147483648, True, dropWhile is_digit t)
                      else if v > 2147483647 then (2147483647, True, dropWhile is_digit t)
                      else (v, False, dropWhile is_digit t)))"

section \<open>Rounding\<close>

lemma round_half_even_error: "\<bar>of_int (round_half_even x) - x\<bar> \<le> 1 / 2"
proof -
  have "of_int \<lfloor>x\<rfloor> \<le> x" "x < of_int \<lfloor>x\<rfloor> + 1"
    by linarith+
  then show ?thesis
    by (auto simp: round_half_even_def Let_def abs_le_iff)
qed

lemma round_half_even_of_int [simp]: "round_half_even (of_int i) = i"
  by (simp add: round_half_even_def)

lemma exponent_choice:
  fixes x :: rat
  assumes "x < 2 powi (i + 1)" and "2 powi (i - 1) \<le> x" and e: "e = max (- 1074) (if 2 powi i \<le> x then i - 52 else i - 53)"
  shows "x < 2 powi (e + 53) \<and> (2 powi (e + 52) \<le> x \<or> e = - 1074)"
proof (cases "2 powi i \<le> x")
  case True
  then have "(2 :: rat) powi (i + 1) \<le> 2 powi (e + 53)"
    using e by (intro power_int_increasing) auto
  with True assms(1) e show ?thesis
    by (cases "- 1074 \<le> i - 52") (simp_all add: max_def)
next
  case False
  then have "(2 :: rat) powi i \<le> 2 powi (e + 53)"
    using e by (intro power_int_increasing) auto
  with False assms(2) e show ?thesis
    by (cases "- 1074 \<le> i - 53") (simp_all add: max_def)
qed

lemma binary64_exponent_range:
  assumes "0 < x"
  shows "x < 2 powi (binary64_exponent x + 53)"
    and "2 powi (binary64_exponent x + 52) \<le> x \<or> binary64_exponent x = - 1074"
proof -
  obtain p q where pq: "quotient_of x = (p, q)" by fastforce
  have q: "0 < q" and x: "x = of_int p / of_int q"
    using quotient_of_denom_pos [OF pq] quotient_of_div [OF pq] by auto
  then have p: "0 < p"
    using assms by (simp add: zero_less_divide_iff)
  let ?a = "floorlog 2 (nat p)" and ?b = "floorlog 2 (nat q)"
  have a: "2 ^ (?a - 1) \<le> nat p" "nat p < 2 ^ ?a" "0 < ?a" and b: "2 ^ (?b - 1) \<le> nat q" "nat q < 2 ^ ?b" "0 < ?b"
    using floorlog_bounds [of "nat p" 2] floorlog_bounds [of "nat q" 2] p q by (auto simp: floorlog_def)
  have cast: "rat_of_int z = rat_of_nat (nat z)" if "0 < z" for z
    using that by simp
  have le: "2 ^ k \<le> rat_of_nat n" if "2 ^ k \<le> n" for k n
    using of_nat_le_iff [of "2 ^ k" n, where 'a = rat] that by simp
  have less: "rat_of_nat n < 2 ^ k" if "n < 2 ^ k" for k n
    using of_nat_less_iff [of n "2 ^ k", where 'a = rat] that by simp
  have pq': "2 ^ (?a - 1) \<le> rat_of_int p" "rat_of_int p < 2 ^ ?a" "2 ^ (?b - 1) \<le> rat_of_int q" "rat_of_int q < 2 ^ ?b"
    unfolding cast [OF p] cast [OF q] using a(1,2) b(1,2) le less by blast+
  have "x < 2 ^ ?a / 2 ^ (?b - 1)" "2 ^ (?a - 1) / 2 ^ ?b \<le> x"
    unfolding x using pq' p q by (auto intro!: frac_less frac_le)
  moreover have "int ?a - int ?b + 1 = int ?a - int (?b - 1)" "int ?a - int ?b - 1 = int (?a - 1) - int ?b"
    using a(3) b(3) by simp_all
  moreover have "2 powi (int i - int j) = (2 ^ i / 2 ^ j :: rat)" for i j
    by (simp add: power_int_diff)
  ultimately have x': "x < 2 powi (int ?a - int ?b + 1)" "2 powi (int ?a - int ?b - 1) \<le> x"
    by (simp_all only:)
  moreover have "binary64_exponent x = max (- 1074) (if 2 powi (int ?a - int ?b) \<le> x then int ?a - int ?b - 52 else int ?a - int ?b - 53)"
    by (simp add: binary64_exponent_def pq Let_def)
  ultimately have "x < 2 powi (binary64_exponent x + 53) \<and> (2 powi (binary64_exponent x + 52) \<le> x \<or> binary64_exponent x = - 1074)"
    by (rule exponent_choice)
  then show "x < 2 powi (binary64_exponent x + 53)" "2 powi (binary64_exponent x + 52) \<le> x \<or> binary64_exponent x = - 1074"
    by blast+
qed

lemma round_binary64_0 [simp]: "round_binary64 0 = 0"
  by (simp add: round_binary64_def)

text \<open>Rounding a number below \<open>2 ^ k\<close> changes it by at most half a unit of the last of 53 places.\<close>

lemma round_binary64_error:
  assumes "0 \<le> x" and "x < 2 powi k" and "- 1021 \<le> k"
  shows "\<bar>round_binary64 x - x\<bar> \<le> 2 powi (k - 54)"
proof (cases "x = 0")
  case False
  let ?e = "binary64_exponent x"
  have x: "0 < x" "\<bar>x\<bar> = x"
    using assms(1) False by auto
  have e: "?e \<le> k - 53"
  proof (rule ccontr)
    assume n: "\<not> ?e \<le> k - 53"
    then have "(2 :: rat) powi k \<le> 2 powi (?e + 52)"
      by (intro power_int_increasing) auto
    with binary64_exponent_range(2) [OF x(1)] assms(2,3) n show False
      by auto
  qed
  have "round_binary64 x - x = (of_int (round_half_even (x / 2 powi ?e)) - x / 2 powi ?e) * 2 powi ?e"
    using x by (simp add: round_binary64_def Let_def left_diff_distrib)
  then have "\<bar>round_binary64 x - x\<bar> \<le> 1 / 2 * 2 powi ?e"
    using round_half_even_error [of "x / 2 powi ?e"] by (simp add: abs_mult mult_right_mono)
  also have "\<dots> = 2 powi (?e - 1)"
    by (simp add: power_int_diff)
  also have "\<dots> \<le> 2 powi (k - 54)"
    using e by (intro power_int_increasing) auto
  finally show ?thesis .
qed simp

lemma round_binary64_exact:
  assumes "0 \<le> z" and "z < 2 ^ 53" and "- 1074 \<le> j"
  shows "round_binary64 (of_int z * 2 powi j) = of_int z * 2 powi j"
proof (cases "z = 0")
  case False
  let ?x = "rat_of_int z * 2 powi j"
  let ?e = "binary64_exponent ?x"
  have x: "0 < ?x" "\<bar>?x\<bar> = ?x"
    using assms(1) False by auto
  have "rat_of_int z < 2 ^ 53"
    using assms(2) of_int_less_iff [of z "2 ^ 53", where 'a = rat] by simp
  then have lt: "?x < 2 powi (j + 53)"
    by (simp add: power_int_add)
  have e: "?e \<le> j"
  proof (rule ccontr)
    assume n: "\<not> ?e \<le> j"
    then have "(2 :: rat) powi (j + 53) \<le> 2 powi (?e + 52)"
      by (intro power_int_increasing) auto
    with binary64_exponent_range(2) [OF x(1)] lt n assms(3) show False
      by auto
  qed
  have "?x / 2 powi ?e = of_int z * 2 powi (j - ?e)"
    by (simp add: power_int_diff)
  also have "\<dots> = of_int (z * 2 ^ nat (j - ?e))"
    using e by (simp add: power_int_def)
  finally have y: "?x / 2 powi ?e = of_int (z * 2 ^ nat (j - ?e))" .
  have "round_binary64 ?x = ?x / 2 powi ?e * 2 powi ?e"
    using x unfolding round_binary64_def Let_def by (simp add: y del: of_int_mult of_int_power)
  then show ?thesis
    by simp
qed simp

lemma floor_off_integer:
  fixes y s d :: rat
  assumes "of_int n + d \<le> y" and "y \<le> of_int n + 1 - d" and "\<bar>s - y\<bar> < d"
  shows "\<lfloor>s\<rfloor> = n"
  using assms by (intro floor_unique) (auto simp: abs_less_iff)

text \<open>
  The code rounds by adding a half and cutting off. Although both the number and the sum are rounded to doubles first, the result is the
  nearest integer for decimals of up to four places below \<open>2 ^ 31\<close>.
\<close>

lemma nearest_integer:
  assumes "x = of_nat m / 10 ^ 4" and "x < 2 ^ 31"
  shows "\<lfloor>round_binary64 (round_binary64 x + 1 / 2)\<rfloor> = \<lfloor>x + 1 / 2\<rfloor>"
proof (cases "10000 dvd (m + 5000)")
  case True
  then obtain q where q: "m + 5000 = 10000 * q" ..
  then have "(of_nat m :: rat) + 5000 = 10000 * of_nat q"
    by (metis of_nat_add of_nat_mult of_nat_numeral)
  then have x: "x = of_int (2 * int q - 1) * 2 powi (- 1)" and x1: "x + 1 / 2 = of_int (int q) * 2 powi 0"
    using assms(1) by (simp_all add: power_int_minus field_simps)
  have "q < 2 ^ 32"
    using assms(2) x1 of_nat_less_iff [of q "2 ^ 32", where 'a = rat] by simp
  then have "round_binary64 x = x"
    unfolding x using q by (intro round_binary64_exact) auto
  moreover have "round_binary64 (x + 1 / 2) = x + 1 / 2"
    unfolding x1 using \<open>q < 2 ^ 32\<close> by (intro round_binary64_exact) auto
  ultimately show ?thesis
    by simp
next
  case False
  define q r where "q = (m + 5000) div 10000" and "r = (m + 5000) mod 10000"
  let ?n = "int q"
  have r: "m + 5000 = 10000 * q + r" "1 \<le> r" "r + 1 \<le> 10000"
    using False by (simp_all add: q_def r_def dvd_eq_mod_eq_0 Suc_leI)
  have "(of_nat m :: rat) + 5000 = 10000 * of_nat q + of_nat r" "1 \<le> (of_nat r :: rat)" "(of_nat r :: rat) + 1 \<le> 10000"
    using arg_cong [OF r(1), of "of_nat :: nat \<Rightarrow> rat"] r(2,3) of_nat_le_iff [of 1 r, where 'a = rat]
      of_nat_le_iff [of "r + 1" 10000, where 'a = rat]
    by simp_all
  then have x: "0 \<le> x" and y: "of_int ?n + 1 / 10000 \<le> x + 1 / 2" "x + 1 / 2 \<le> of_int ?n + 1 - 1 / 10000"
    using assms(1) by (simp_all add: field_simps)
  have "\<bar>round_binary64 x - x\<bar> \<le> 2 powi (31 - 54)"
    using assms(2) x by (intro round_binary64_error) auto
  then have v: "\<bar>round_binary64 x - x\<bar> \<le> 1 / 8388608"
    by (simp add: power_int_minus)
  moreover have "x < 2147483648"
    using assms(2) by simp
  ultimately have "0 \<le> round_binary64 x + 1 / 2" "round_binary64 x + 1 / 2 < 4294967296"
    using x by linarith+
  then have "\<bar>round_binary64 (round_binary64 x + 1 / 2) - (round_binary64 x + 1 / 2)\<bar> \<le> 2 powi (32 - 54)"
    by (intro round_binary64_error) auto
  then have "\<bar>round_binary64 (round_binary64 x + 1 / 2) - (round_binary64 x + 1 / 2)\<bar> \<le> 1 / 4194304"
    by (simp add: power_int_minus)
  with v have "\<bar>round_binary64 (round_binary64 x + 1 / 2) - (x + 1 / 2)\<bar> < 1 / 10000"
    by linarith
  then have "\<lfloor>round_binary64 (round_binary64 x + 1 / 2)\<rfloor> = ?n"
    by (rule floor_off_integer [OF y])
  moreover have "\<lfloor>x + 1 / 2\<rfloor> = ?n"
    using floor_off_integer [OF y, of "x + 1 / 2"] by simp
  ultimately show ?thesis
    by simp
qed

section \<open>Decimal texts\<close>

lemma decimal_digit:
  assumes "d < 10"
  shows "is_digit (of_nat d + 48)" and "digit_value (of_nat d + 48) = Some d"
proof -
  have "list_all (\<lambda>d. is_digit (of_nat d + 48) \<and> digit_value (of_nat d + 48) = Some d) [0..<10]"
    by code_simp
  then show "is_digit (of_nat d + 48)" "digit_value (of_nat d + 48) = Some d"
    unfolding list_all_iff set_upt using assms by auto
qed

lemma decimal_digits_only: "c \<in> set (decimal n) \<Longrightarrow> is_digit c"
proof (induction n rule: decimal.induct)
  case (1 n)
  then show ?case
    using decimal_digit(1) [of n] decimal_digit(1) [of "n mod 10"]
    by (subst (asm) (2) decimal.simps) (auto split: if_splits)
qed

lemma decimal_not_Nil [simp]: "decimal n \<noteq> []"
  by (subst decimal.simps) simp

lemma based_digit_10: "based_digit 10 c \<longleftrightarrow> is_digit c"
proof -
  have "list_all (\<lambda>c. based_digit 10 c = is_digit c) (map of_nat [0..<256])"
    by code_simp
  moreover have "c \<in> set (map of_nat [0..<256])"
    using unat_bound [of c] by (auto intro!: image_eqI [of _ _ "unat c"])
  ultimately show ?thesis
    unfolding list_all_iff by blast
qed

lemma number_of_append: "number_of b (xs @ ys) = number_of b xs * b ^ length ys + number_of b ys"
proof (induction ys rule: rev_induct)
  case (snoc y ys)
  then show ?case
    by (simp add: number_of_def algebra_simps flip: append_assoc)
qed (simp add: number_of_def)

lemma number_of_decimal: "number_of 10 (decimal n) = n"
proof (induction n rule: decimal.induct)
  case (1 n)
  show ?case
  proof (cases "n < 10")
    case True
    then show ?thesis
      using decimal_digit(2) [OF True] by (subst decimal.simps) (simp add: number_of_def)
  next
    case False
    then show ?thesis
      using 1 decimal_digit(2) [of "n mod 10"] by (subst decimal.simps) (simp add: number_of_append, simp add: number_of_def)
  qed
qed

text \<open>A number with up to four digits behind the point, and the integer nearest to it, halves away from zero.\<close>

definition decimal_text :: "bool \<Rightarrow> nat \<Rightarrow> bytes \<Rightarrow> bytes" where
  "decimal_text neg n fs = (if neg then [45] else []) @ decimal n @ (if fs = [] then [] else 46 # fs)"

definition ten_thousandths :: "nat \<Rightarrow> bytes \<Rightarrow> nat" where
  "ten_thousandths n fs = n * 10000 + number_of 10 fs * 10 ^ (4 - length fs)"

definition nearest :: "bool \<Rightarrow> nat \<Rightarrow> bytes \<Rightarrow> int" where
  "nearest neg n fs = (if neg then -1 else 1) * int ((ten_thousandths n fs + 5000) div 10000)"

definition ends_number :: "u8 \<Rightarrow> bool" where
  "ends_number c \<longleftrightarrow> c \<in> {44, 125, 93, 0}"

lemma significand_decimal:
  assumes "list_all is_digit fs" and "ends_number c"
  shows "significand 10 (decimal n @ (if fs = [] then [] else 46 # fs) @ c # s) =
    Some (number_of 10 (decimal n @ fs), length fs, c # s)"
proof -
  have d: "based_digit 10 x" if "x \<in> set (decimal n)" for x
    using decimal_digits_only that by (simp add: based_digit_10)
  have f: "based_digit 10 x" if "x \<in> set fs" for x
    using assms(1) that by (simp add: based_digit_10 list_all_iff)
  have c: "\<not> based_digit 10 c" "c \<noteq> 46" "\<not> based_digit 10 46"
    using assms(2) by (auto simp: ends_number_def based_digit_10 is_digit_def)
  show ?thesis
    using d f c by (auto simp: significand_def Let_def takeWhile_append2 dropWhile_append2)
qed

lemma starts_ci_Cons [simp]:
  "starts_ci (p # ps) (c # s) \<longleftrightarrow> to_lower c = to_lower p \<and> starts_ci ps s" "\<not> starts_ci (p # ps) []" "starts_ci [] s"
  by (auto simp: starts_ci_def)

lemma lower_digit: "is_digit c \<Longrightarrow> to_lower c = c \<and> c \<notin> {45, 43, 110, 105, 120} \<and> \<not> c_isspace c"
  by (auto simp: is_digit_def to_lower_def c_isspace_def word_le_nat_alt)

lemma decimal_head: obtains d ds where "decimal n = d # ds" and "is_digit d" and "list_all is_digit ds"
  using decimal_digits_only [of _ n] decimal_not_Nil [of n] by (cases "decimal n") (auto simp: list_all_iff)

lemma read_float_decimal:
  assumes "list_all is_digit fs" and "ends_number c"
  shows "read_float (decimal n @ (if fs = [] then [] else 46 # fs) @ c # s) =
    Some (Some (of_nat (number_of 10 (decimal n @ fs)) * 10 powi (- int (length fs))), c # s)"
proof -
  obtain d ds where d: "decimal n = d # ds" "is_digit d" "list_all is_digit ds"
    by (rule decimal_head)
  have c: "to_lower c = c" "c \<noteq> 120" "c \<noteq> 101"
    using assms(2) by (auto simp: ends_number_def to_lower_def)
  define t where "t = ds @ (if fs = [] then [] else 46 # fs) @ c # s"
  have t: "decimal n @ (if fs = [] then [] else 46 # fs) @ c # s = d # t"
    by (simp add: t_def d(1))
  have "\<not> starts_ci [120] t"
    using d(3) c lower_digit by (cases ds) (auto simp: t_def to_lower_def)
  moreover have "exponent_part 101 (c # s) = (0, c # s)"
    using c by (simp add: exponent_part_def)
  moreover have "to_lower d = d" "to_lower 105 = 105" "to_lower 110 = 110" "to_lower 120 = 120"
    using lower_digit [OF d(2)] by (simp_all add: to_lower_def)
  ultimately show ?thesis
    using significand_decimal [OF assms, of n s, unfolded t] lower_digit [OF d(2)]
    unfolding t by (simp add: read_float_def ascii_def)
qed

lemma round_binary64_decimal:
  assumes "x = of_nat m / 10 ^ 4" and "m < 2147483647 * 10000"
  shows "x < 2147483647" and "0 \<le> round_binary64 x" and "round_binary64 x = 0 \<longleftrightarrow> x = 0" and "round_binary64 x < 2147483647 + 1 / 2"
proof -
  show x: "x < 2147483647"
    using assms of_nat_less_iff [of m "2147483647 * 10000", where 'a = rat] by simp
  have m: "m = 0 \<or> 1 \<le> (of_nat m :: rat)"
    using of_nat_le_iff [of 1 m, where 'a = rat] by auto
  then have "0 \<le> x"
    using assms(1) by auto
  have "\<bar>round_binary64 x - x\<bar> \<le> 2 powi (31 - 54)"
    using x \<open>0 \<le> x\<close> by (intro round_binary64_error) auto
  then have e: "\<bar>round_binary64 x - x\<bar> \<le> 1 / 8388608"
    by (simp add: power_int_minus)
  have "x = 0 \<or> 1 / 10000 \<le> x"
    using m assms(1) by auto
  with e \<open>0 \<le> x\<close> x show "0 \<le> round_binary64 x" "round_binary64 x = 0 \<longleftrightarrow> x = 0" "round_binary64 x < 2147483647 + 1 / 2"
    by (auto, linarith+)
qed

text \<open>What \<open>strtod\<close> reads there.\<close>

lemma decimal_value:
  assumes "length fs \<le> 4"
  shows "of_nat (number_of 10 (decimal n @ fs)) * 10 powi (- int (length fs)) = (of_nat (ten_thousandths n fs) / 10 ^ 4 :: rat)"
proof -
  have "(10 :: rat) ^ 4 = 10 ^ length fs * 10 ^ (4 - length fs)"
    using assms by (simp flip: power_add)
  moreover have "(10000 :: rat) = 10 ^ 4"
    by simp
  ultimately show ?thesis
    by (simp add: number_of_append number_of_decimal ten_thousandths_def power_int_minus field_simps del: power_numeral)
qed

lemma strtod_decimal_text:
  assumes "list_all is_digit fs" and "length fs \<le> 4" and "ends_number c" and "ten_thousandths n fs < 2147483647 * 10000"
  shows "strtod (decimal_text neg n fs @ c # s) =
    Some (Some ((if neg then - 1 else 1) * round_binary64 (of_nat (ten_thousandths n fs) / 10 ^ 4)), False, c # s)"
proof -
  define t where "t = decimal n @ (if fs = [] then [] else 46 # fs) @ c # s"
  let ?x = "of_nat (ten_thousandths n fs) / 10 ^ 4 :: rat"
  obtain d ds where d: "decimal n = d # ds" "is_digit d"
    by (rule decimal_head)
  then obtain t' where t: "t = d # t'"
    by (simp add: t_def)
  have "\<not> c_isspace 45"
    by (simp add: c_isspace_def)
  then have "c_sign (dropWhile c_isspace (decimal_text neg n fs @ c # s)) = (neg, t)"
    using lower_digit [OF d(2)] t by (simp add: decimal_text_def c_sign_def flip: t_def)
  moreover have "read_float t = Some (Some ?x, c # s)"
    unfolding t_def read_float_decimal [OF assms(1,3)] decimal_value [OF assms(2)] ..
  moreover have "\<not> round_binary64 ?x \<ge> 2 ^ 1024"
    using round_binary64_decimal(4) [OF refl assms(4)] by (simp add: not_le)
  moreover have "round_binary64 ?x = 0 \<longleftrightarrow> ?x = 0"
    by (rule round_binary64_decimal(3) [OF refl assms(4)])
  ultimately show ?thesis
    by (auto simp: strtod_def Let_def)
qed

lemma round_half_even_minus: "round_half_even (- x) = - round_half_even x"
proof (cases "x = of_int \<lfloor>x\<rfloor>")
  case True
  then show ?thesis
    using round_half_even_of_int [of "\<lfloor>x\<rfloor>"] round_half_even_of_int [of "- \<lfloor>x\<rfloor>"] by simp
next
  case False
  then have "\<lfloor>- x\<rfloor> = - \<lfloor>x\<rfloor> - 1"
    by (intro floor_unique) (auto simp: floor_le_iff less_floor_iff intro: order.strict_implies_order, linarith+)
  then show ?thesis
    by (auto simp: round_half_even_def Let_def)
qed

lemma round_binary64_minus: "round_binary64 (- x) = - round_binary64 x"
  using round_half_even_minus by (simp add: round_binary64_def Let_def)

text \<open>Adding a half away from zero and cutting off gives the nearest integer.\<close>

definition c_truncate :: "rat \<Rightarrow> int" where
  "c_truncate x = (if 0 \<le> x then \<lfloor>x\<rfloor> else \<lceil>x\<rceil>)"

definition round_away :: "rat \<Rightarrow> int" where
  "round_away v = c_truncate (round_binary64 (if 0 \<le> v then v + 1 / 2 else v - 1 / 2))"

lemma floor_half:
  assumes "x = (of_nat m / 10 ^ 4 :: rat)"
  shows "\<lfloor>x + 1 / 2\<rfloor> = int ((m + 5000) div 10000)"
proof -
  have "x + 1 / 2 = of_nat (m + 5000) / of_nat 10000"
    using assms by simp
  then show ?thesis
    by (simp only: floor_divide_of_nat_eq)
qed

lemma truncate_nearest:
  assumes "m < 2147483647 * 10000" and "x = of_nat m / 10 ^ 4" and "v = (if neg then - 1 else 1) * round_binary64 x"
  shows "round_away v = (if neg then - 1 else 1) * int ((m + 5000) div 10000)"
proof -
  note b = round_binary64_decimal [OF assms(2,1)]
  let ?r = "round_binary64 (round_binary64 x + 1 / 2)" and ?n = "int ((m + 5000) div 10000)"
  have r: "\<lfloor>?r\<rfloor> = ?n"
    using nearest_integer [OF assms(2)] b(1) floor_half [OF assms(2)] by simp
  then have "0 \<le> ?r"
    by (metis of_nat_0_le_iff zero_le_floor)
  then have minus: "c_truncate (- ?r) = - ?n"
    using r by (auto simp: c_truncate_def ceiling_def)
  consider "\<not> neg" | "neg" "round_binary64 x = 0" | "neg" "round_binary64 x > 0"
    using b(2) by (cases neg) (auto simp: order_le_less)
  then show ?thesis
  proof cases
    case 1
    then show ?thesis
      using assms(3) b(2) r \<open>0 \<le> ?r\<close> by (simp add: round_away_def c_truncate_def)
  next
    case 2
    have half: "round_binary64 (0 + 1 / 2) = 1 / 2"
      using round_binary64_exact [of 1 "- 1"] by (simp add: power_int_minus)
    have h: "\<lfloor>1 / 2 :: rat\<rfloor> = 0"
      by (rule floor_unique) simp_all
    have "?n = \<lfloor>1 / 2 :: rat\<rfloor>"
      using r unfolding 2(2) half by simp
    moreover have "round_away v = 0"
      using 2 assms(3) half by (simp only: round_away_def mult_zero_right order_refl if_True) (simp add: c_truncate_def h)
    ultimately show ?thesis
      using h by simp
  next
    case 3
    have "round_binary64 (- round_binary64 x - 1 / 2) = - ?r"
      using round_binary64_minus [of "round_binary64 x + 1 / 2"] by simp
    then show ?thesis
      using assms(3) 3 minus by (simp add: round_away_def)
  qed
qed

end
