(* ===== verification/Json_Scan.thy ===== *)
theory Json_Scan
  imports C_Numbers
begin

text \<open>
  The scanner of JSON texts in \<open>src/src/cpm/dcc_io_adapter/port_drivers/json_scan.c\<close>, which looks keys up by their text.

  \<^item> A pointer into a range is the list of the bytes from there to the end of the range, so \<open>cursor < range.end\<close> says that it is not empty. A
    range with its end somewhere in a C string is a pair: its bytes, and the bytes between its end and the terminator, which only the
    number readers of the C library can see.
  \<^item> A buffer that is filled and terminated is the list of its bytes before the terminator; it is returned on failure too.
\<close>

section \<open>Scanning\<close>

type_synonym json_scan_range = "bytes \<times> bytes"

definition json_scan_space :: "u8 \<Rightarrow> bool" where
  "json_scan_space c \<longleftrightarrow> c = 32 \<or> c = 9 \<or> c = 13 \<or> c = 10"

definition json_scan_skip_ws :: "bytes \<Rightarrow> bytes" where
  "json_scan_skip_ws s = dropWhile json_scan_space s"

lemma length_skip_ws: "length (json_scan_skip_ws s) \<le> length s"
  by (simp add: json_scan_skip_ws_def length_dropWhile_le)

definition json_scan_pattern :: "bytes \<Rightarrow> bytes" where
  "json_scan_pattern key = 34 # key @ [34]"

text \<open>The loop of \<open>json_scan_find_key\<close>; the result is the pointer to the value.\<close>

function find_pattern :: "bytes \<Rightarrow> bytes \<Rightarrow> bytes option" where
  "find_pattern p s =
     (if s \<noteq> [] \<and> length p \<le> length s \<and> hd s \<noteq> 0 then
        if take (length p) s \<noteq> p then find_pattern p (tl s)
        else
          let r = json_scan_skip_ws (drop (length p) s)
          in if r \<noteq> [] \<and> hd r = 58 then Some (json_scan_skip_ws (tl r)) else find_pattern p (tl r)
      else None)"
  by pat_completeness auto
termination
proof (relation "measure (\<lambda>(p, s). length s)", goal_cases)
  case (3 p s r)
  then show ?case
    using length_skip_ws [of "drop (length p) s"] by (cases s) auto
qed auto

declare find_pattern.simps [simp del]

definition json_scan_find_key :: "bytes \<Rightarrow> bytes \<Rightarrow> bytes option" where
  "json_scan_find_key s key =
     (if length (json_scan_pattern key) \<ge> 64 then None else find_pattern (json_scan_pattern key) s)"

text \<open>The loop of \<open>json_scan_match_end\<close>: how many bytes there are up to the end of the object or array that \<open>opn\<close> opens.\<close>

fun match_loop :: "u8 \<Rightarrow> u8 \<Rightarrow> int \<Rightarrow> bool \<Rightarrow> bool \<Rightarrow> bytes \<Rightarrow> nat option" where
  "match_loop opn cls depth in_string escaped [] = None"
| "match_loop opn cls depth in_string escaped (c # s) =
     (if c = 0 then None
      else if in_string then
        map_option Suc
          (if escaped then match_loop opn cls depth True False s
           else if c = 92 then match_loop opn cls depth True True s
           else match_loop opn cls depth (c \<noteq> 34) False s)
      else if c = 34 then map_option Suc (match_loop opn cls depth True escaped s)
      else if c = opn then map_option Suc (match_loop opn cls (depth + 1) False escaped s)
      else if c = cls then
        if depth - 1 = 0 then Some 1 else map_option Suc (match_loop opn cls (depth - 1) False escaped s)
      else map_option Suc (match_loop opn cls depth False escaped s))"

definition json_scan_match_end :: "bytes \<Rightarrow> nat option" where
  "json_scan_match_end s = (let opn = hd s in match_loop opn (if opn = 123 then 125 else 93) 0 False False s)"

section \<open>Strings and numbers\<close>

text \<open>The digits of a \<open>\\u\<close> escape.\<close>

fun skip_bytes :: "nat \<Rightarrow> bytes \<Rightarrow> bytes" where
  "skip_bytes (Suc n) (c # s) = (if c = 0 then c # s else skip_bytes n s)"
| "skip_bytes n s = s"

definition scan_escape :: "u8 \<Rightarrow> bytes \<Rightarrow> u8 \<times> bytes" where
  "scan_escape c s =
     (if c = 92 \<and> s \<noteq> [] \<and> hd s \<noteq> 0
      then let d = hd s
           in if d \<in> {0x6E, 0x72, 0x74, 0x62, 0x66} then (32, tl s)
              else if d = 0x75 then (63, skip_bytes 4 (tl s))
              else (d, tl s)
      else (c, s))"

lemma length_skip_bytes: "length (skip_bytes n s) \<le> length s"
  by (induction n s rule: skip_bytes.induct) auto

lemma length_scan_escape: "length (snd (scan_escape c s)) \<le> length s"
  using length_skip_bytes [of 4 "tl s"] by (auto simp: scan_escape_def Let_def intro: order.trans)

function scan_string :: "nat \<Rightarrow> bytes \<Rightarrow> bytes \<Rightarrow> bool \<times> bytes" where
  "scan_string dst_len [] out = (False, out)"
| "scan_string dst_len (c # s) out =
     (if c = 0 then (False, out)
      else if c = 34 then (True, out)
      else case scan_escape c s of (ch, s) \<Rightarrow>
        scan_string dst_len s (if length out + 1 < dst_len then out @ [ch] else out))"
  by pat_completeness auto
termination
proof (relation "measure (\<lambda>(n, s, out). length s)", goal_cases)
  case (2 n c s out ch s')
  then show ?case
    using length_scan_escape [of c s] by (cases "scan_escape c s") auto
qed simp

definition json_scan_get_string :: "bytes \<Rightarrow> bytes \<Rightarrow> nat \<Rightarrow> bool \<times> bytes" where
  "json_scan_get_string s key dst_len =
     (case json_scan_find_key s key of
        None \<Rightarrow> (False, [])
      | Some c \<Rightarrow> if c = [] \<or> hd c \<noteq> 34 then (False, []) else scan_string dst_len (tl c) [])"

definition json_scan_get_number :: "json_scan_range \<Rightarrow> bytes \<Rightarrow> nat \<Rightarrow> bool \<times> bytes" where
  "json_scan_get_number rg key dst_len =
     (case json_scan_find_key (fst rg) key of
        None \<Rightarrow> (False, [])
      | Some c \<Rightarrow>
          if c = [] then (False, [])
          else case strtod (cstr (c @ snd rg)) of
            None \<Rightarrow> (False, [])
          | Some (v, erange, r) \<Rightarrow>
              let n = length (cstr (c @ snd rg)) - length r
              in case v of
                None \<Rightarrow> (False, [])
              | Some x \<Rightarrow>
                  if erange \<or> n > length c \<or> x \<le> - 2147483648 - 1 / 2 \<or> x \<ge> 2147483647 + 1 / 2 \<or>
                     n < length c \<and> c ! n \<notin> {44, 125, 93, 32, 13, 10, 9}
                  then (False, [])
                  else (True, take (dst_len - 1) (decimal_int (round_away x))))"

definition json_scan_get_int :: "json_scan_range \<Rightarrow> bytes \<Rightarrow> int option" where
  "json_scan_get_int rg key =
     (case json_scan_find_key (fst rg) key of
        None \<Rightarrow> None
      | Some c \<Rightarrow>
          if c = [] then None
          else if hd c = 34 then
            case json_scan_get_string (fst rg) key 12 of
              (False, _) \<Rightarrow> None
            | (True, tmp) \<Rightarrow>
                (case strtol tmp of
                   None \<Rightarrow> None
                 | Some (v, erange, r) \<Rightarrow> if erange \<or> r \<noteq> [] then None else Some v)
          else case strtol (cstr (c @ snd rg)) of
            None \<Rightarrow> None
          | Some (v, erange, r) \<Rightarrow> if erange \<or> length (cstr (c @ snd rg)) - length r > length c then None else Some v)"

section \<open>Objects and arrays\<close>

lemma find_pattern_length: "find_pattern p s = Some c \<Longrightarrow> length c < length s"
proof (induction p s rule: find_pattern.induct)
  case (1 p s)
  let ?r = "json_scan_skip_ws (drop (length p) s)"
  have r: "length ?r \<le> length s"
    using length_skip_ws [of "drop (length p) s"] by simp
  have "s \<noteq> []" "length p \<le> length s" "hd s \<noteq> 0"
    using 1(3) by (auto simp: find_pattern.simps [of p s] split: if_splits)
  note g = this
  then have l: "length (tl s) < length s"
    by (cases s) auto
  show ?case
  proof (cases "take (length p) s = p")
    case False
    with 1 g l show ?thesis
      by (simp add: find_pattern.simps [of p s] Let_def)
  next
    case True
    then have "?r \<noteq> [] \<and> c = json_scan_skip_ws (tl ?r) \<or> \<not> (?r \<noteq> [] \<and> hd ?r = 58) \<and> find_pattern p (tl ?r) = Some c"
      using 1(3) g by (auto simp: find_pattern.simps [of p s] Let_def split: if_splits)
    moreover have "length (tl ?r) < length s"
      using r g(1) by (cases ?r) auto
    ultimately show ?thesis
      using 1(2) [OF _ _ refl] g True length_skip_ws [of "tl ?r"] by fastforce
  qed
qed

text \<open>The loops of \<open>json_scan_object\<close> and \<open>json_scan_first_array_object\<close>: every occurrence of the key is tried.\<close>

function scan_object :: "bytes \<Rightarrow> bytes \<Rightarrow> (bytes \<times> bytes) option" where
  "scan_object key s =
     (if s = [] then None
      else case json_scan_find_key s key of
        None \<Rightarrow> None
      | Some c \<Rightarrow>
          let c = json_scan_skip_ws c
          in if c \<noteq> [] \<and> hd c = 123 then map_option (\<lambda>n. (take n c, drop n c)) (json_scan_match_end c)
             else scan_object key (tl c))"
  by pat_completeness auto
termination
proof (relation "measure (\<lambda>(key, s). length s)", goal_cases)
  case (2 key s c r)
  then show ?case
    using find_pattern_length [of "json_scan_pattern key" s c] length_skip_ws [of c]
    by (auto simp: json_scan_find_key_def split: if_splits)
qed simp

declare scan_object.simps [simp del]

definition json_scan_object :: "json_scan_range \<Rightarrow> bytes \<Rightarrow> json_scan_range option" where
  "json_scan_object rg key = map_option (\<lambda>(ob, r). (ob, r @ snd rg)) (scan_object key (fst rg))"

text \<open>The first object of the array that the bytes begin with, and what follows it.\<close>

definition first_object :: "bytes \<Rightarrow> (bytes \<times> bytes) option" where
  "first_object c =
     (case json_scan_match_end c of
        None \<Rightarrow> None
      | Some n \<Rightarrow>
          let a = dropWhile (\<lambda>x. x \<noteq> 0 \<and> x \<noteq> 123) (json_scan_skip_ws (tl (take n c)))
          in if a = [] \<or> hd a \<noteq> 123 then None
             else map_option (\<lambda>m. (take m a, drop m a @ drop n c)) (json_scan_match_end a))"

function scan_array :: "bytes \<Rightarrow> bytes \<Rightarrow> (bytes \<times> bytes) option" where
  "scan_array key s =
     (if s = [] then None
      else case json_scan_find_key s key of
        None \<Rightarrow> None
      | Some c \<Rightarrow>
          let c = json_scan_skip_ws c
          in if c \<noteq> [] \<and> hd c = 91 then first_object c else scan_array key (tl c))"
  by pat_completeness auto
termination
proof (relation "measure (\<lambda>(key, s). length s)", goal_cases)
  case (2 key s c r)
  then show ?case
    using find_pattern_length [of "json_scan_pattern key" s c] length_skip_ws [of c]
    by (auto simp: json_scan_find_key_def split: if_splits)
qed simp

declare scan_array.simps [simp del]

definition json_scan_first_array_object :: "json_scan_range \<Rightarrow> bytes \<Rightarrow> json_scan_range option" where
  "json_scan_first_array_object rg key = map_option (\<lambda>(ob, r). (ob, r @ snd rg)) (scan_array key (fst rg))"

section \<open>Finding a key\<close>

text \<open>Strings without quotes, escapes and zeros; \<open>json_scan_pattern\<close> puts one in quotes.\<close>

definition json_plain :: "bytes \<Rightarrow> bool" where
  "json_plain s \<longleftrightarrow> 0 \<notin> set s \<and> 34 \<notin> set s \<and> 92 \<notin> set s"

lemma find_pattern_short: "length s < length p \<Longrightarrow> find_pattern p s = None"
  by (simp add: find_pattern.simps [of p s])

lemma find_mismatch:
  "take (length p) (c # s) \<noteq> p \<Longrightarrow> c \<noteq> 0 \<Longrightarrow> p \<noteq> [] \<Longrightarrow> find_pattern p (c # s) = find_pattern p s"
  by (cases "length p \<le> length (c # s)") (simp_all add: find_pattern.simps [of p "c # s"] find_pattern_short)

lemma find_skip_byte: "c \<noteq> 34 \<Longrightarrow> c \<noteq> 0 \<Longrightarrow> find_pattern (json_scan_pattern key) (c # s) = find_pattern (json_scan_pattern key) s"
  by (intro find_mismatch) (auto simp: json_scan_pattern_def)

lemma find_skip: "34 \<notin> set xs \<Longrightarrow> 0 \<notin> set xs \<Longrightarrow>
    find_pattern (json_scan_pattern key) (xs @ s) = find_pattern (json_scan_pattern key) s"
  by (induction xs) (simp_all add: find_skip_byte)

lemma quoted_prefix:
  fixes a b s :: bytes
  assumes "34 \<notin> set a" and "34 \<notin> set b" and "take (length b + 1) (a @ 34 # s) = b @ [34]"
  shows "a = b"
  using assms
proof (induction a arbitrary: b)
  case Nil
  then show ?case
    by (cases b) auto
next
  case (Cons x a)
  then show ?case
    by (cases b) auto
qed

text \<open>A quoted string that is not the key is skipped, and so is one that is the key but no member's name.\<close>

lemma find_after_quote:
  assumes "key \<noteq> []" and "c \<noteq> hd key"
  shows "find_pattern (json_scan_pattern key) (34 # c # s) = find_pattern (json_scan_pattern key) (c # s)"
  using assms by (intro find_mismatch) (auto simp: json_scan_pattern_def neq_Nil_conv)

lemma find_other_string:
  assumes "json_plain str" and "json_plain key" and "key \<noteq> []" and "c \<noteq> hd key" and "str \<noteq> key"
  shows "find_pattern (json_scan_pattern key) (json_scan_pattern str @ c # s) = find_pattern (json_scan_pattern key) (c # s)"
proof -
  have "take (length (json_scan_pattern key)) (34 # str @ 34 # c # s) \<noteq> json_scan_pattern key"
    using quoted_prefix [of str key "c # s"] assms by (auto simp: json_scan_pattern_def json_plain_def)
  then have "find_pattern (json_scan_pattern key) (34 # str @ 34 # c # s) = find_pattern (json_scan_pattern key) (str @ 34 # c # s)"
    by (intro find_mismatch) (auto simp: json_scan_pattern_def)
  then show ?thesis
    using assms by (simp add: json_scan_pattern_def [of str] find_skip find_after_quote json_plain_def)
qed

lemma find_value_string:
  assumes "json_plain str" and "json_plain key" and "key \<noteq> []" and "c \<noteq> hd key" and "c \<notin> {0, 34, 58}" and "\<not> json_scan_space c"
  shows "find_pattern (json_scan_pattern key) (json_scan_pattern str @ c # s) = find_pattern (json_scan_pattern key) s"
proof (cases "str = key")
  case True
  have "find_pattern (json_scan_pattern key) (json_scan_pattern key @ c # s) = find_pattern (json_scan_pattern key) s"
    using assms(5,6)
    by (subst find_pattern.simps) (simp add: json_scan_skip_ws_def json_scan_pattern_def)
  with True show ?thesis
    by simp
next
  case False
  with assms show ?thesis
    by (simp add: find_other_string find_skip_byte)
qed

lemma find_key_here:
  "find_pattern (json_scan_pattern key) (json_scan_pattern key @ 58 # s) = Some (json_scan_skip_ws s)"
  by (subst find_pattern.simps) (simp add: json_scan_skip_ws_def json_scan_space_def json_scan_pattern_def)

section \<open>Matching brackets\<close>

lemma match_skip:
  "\<forall>c \<in> set xs. c \<notin> {0, 34, opn, cls} \<Longrightarrow>
    match_loop opn cls d False False (xs @ s) = map_option (\<lambda>n. n + length xs) (match_loop opn cls d False False s)"
  by (induction xs) (auto simp: option.map_comp comp_def option.map_ident)

lemma match_in_string:
  "json_plain str \<Longrightarrow>
    match_loop opn cls d True False (str @ 34 # s) = map_option (\<lambda>n. n + (length str + 1)) (match_loop opn cls d False False s)"
  by (induction str) (auto simp: json_plain_def option.map_comp comp_def)

lemma match_string:
  "json_plain str \<Longrightarrow>
    match_loop opn cls d False False (json_scan_pattern str @ s) =
      map_option (\<lambda>n. n + length (json_scan_pattern str)) (match_loop opn cls d False False s)"
  by (simp add: json_scan_pattern_def match_in_string option.map_comp comp_def)

section \<open>Reading strings\<close>

lemma scan_plain:
  "json_plain str \<Longrightarrow> length out < n \<Longrightarrow> scan_string n (str @ 34 # s) out = (True, take (n - 1) (out @ str))"
proof (induction str arbitrary: out)
  case (Cons c str)
  then have "c \<noteq> 0" "c \<noteq> 34" "scan_escape c (str @ 34 # s) = (c, str @ 34 # s)" "json_plain str"
    by (auto simp: json_plain_def scan_escape_def)
  then show ?case
    using Cons by (cases "length out + 1 < n") (auto simp: take_Cons')
qed simp

section \<open>Reading numbers\<close>

lemma cstr_append: "0 \<notin> set a \<Longrightarrow> cstr (a @ b) = a @ cstr b"
  by (induction a) (auto simp: cstr_def)

lemma decimal_text_bytes:
  assumes "list_all is_digit fs"
  shows "\<forall>c \<in> set (decimal_text neg n fs). is_digit c \<or> c \<in> {45, 46}"
  using assms decimal_digits_only by (auto simp: decimal_text_def list_all_iff)

lemma number_read:
  assumes "json_scan_find_key s key = Some (decimal_text neg n fs @ c # r)" and "c \<in> {44, 125, 93}"
    and "list_all is_digit fs" and "length fs \<le> 4" and "ten_thousandths n fs < 2147483647 * 10000"
  shows "json_scan_get_number (s, t) key dst_len = (True, take (dst_len - 1) (decimal_int (nearest neg n fs)))"
proof -
  let ?d = "decimal_text neg n fs"
  let ?x = "of_nat (ten_thousandths n fs) / 10 ^ 4 :: rat"
  define v where "v = (if neg then - 1 else 1) * round_binary64 ?x"
  have z: "0 \<notin> set ?d"
    using decimal_text_bytes [OF assms(3), of neg n] by (auto simp: is_digit_def)
  have ne: "?d \<noteq> []"
    by (simp add: decimal_text_def)
  have c: "cstr ((?d @ c # r) @ t) = ?d @ c # cstr (r @ t)"
    using z assms(2) by (simp add: cstr_append) (auto simp: cstr_def)
  have "strtod (?d @ c # cstr (r @ t)) = Some (Some v, False, c # cstr (r @ t))"
    unfolding v_def using assms by (intro strtod_decimal_text) (auto simp: ends_number_def)
  moreover have "\<not> (v \<le> - 2147483648 - 1 / 2)" "\<not> v \<ge> 2147483647 + 1 / 2"
    using round_binary64_decimal(2,4) [OF refl assms(5)] by (auto simp: v_def not_le)
  moreover have "round_away v = nearest neg n fs"
    unfolding nearest_def by (rule truncate_nearest [OF assms(5) refl v_def])
  ultimately show ?thesis
    using assms(1,2) ne c by (auto simp: json_scan_get_number_def Let_def)
qed

end
