(* ===== verification/Weather_Http.thy ===== *)
theory Weather_Http
  imports Http_Stream
begin

text \<open>
  The decoder of weather responses in \<open>src/src/common/weather_http.c\<close>. It gets a whole response, checks its header and leaves the body in
  one piece in the buffer, moving the data of chunks forward over their framing.

  \<^item> A buffer is the list of its bytes, the terminating zero included. A pointer into it is an offset; the string at a pointer ends before
    the next zero (\<open>cstr\<close>). The status line and the header fields are read as the string from the current line on.
  \<^item> The result is the status, the offset of the body and its length; the buffer after the call is returned with it.
  \<^item> \<open>unchunk\<close> is the reference definition of the chunk loop, on the string that is left and without a buffer.
\<close>

section \<open>Strings\<close>

text \<open>\<open>strstr\<close>: the offset of the first occurrence of \<open>p\<close>.\<close>

fun strstr :: "bytes \<Rightarrow> bytes \<Rightarrow> nat option" where
  "strstr p [] = (if p = [] then Some 0 else None)"
| "strstr p (c # s) = (if take (length p) (c # s) = p then Some 0 else map_option Suc (strstr p s))"

abbreviation CRLF :: bytes where "CRLF \<equiv> [13, 10]"

abbreviation Z80_WEATHER_BODY_MAX :: nat where "Z80_WEATHER_BODY_MAX \<equiv> 8192"

section \<open>The header\<close>

text \<open>The function \<open>decimal\<close>; that of this name in the prelude prints.\<close>

fun decimal_digits :: "bytes \<Rightarrow> nat \<Rightarrow> nat option" where
  "decimal_digits [] value = Some value"
| "decimal_digits (c # cs) value =
     (if c < 48 \<or> c > 57 \<or> value > (Z80_WEATHER_BODY_MAX - unat (c - 48)) div 10 then None
      else decimal_digits cs (value * 10 + unat (c - 48)))"

definition weather_decimal :: "bytes \<Rightarrow> nat option" where
  "weather_decimal s = (if s = [] then None else decimal_digits s 0)"

record framing =
  fr_chunked :: bool
  fr_length :: "nat option"

definition weather_header_field :: "bytes \<Rightarrow> framing \<Rightarrow> framing option" where
  "weather_header_field line f =
     (if 58 \<notin> set line then None
      else
        let name = takeWhile (\<lambda>c. c \<noteq> 58) line; v = trim_blanks (drop (length name + 1) line)
        in if equal_ci name (ascii ''Content-Length'') then
             if fr_length f \<noteq> None then None
             else map_option (\<lambda>n. f\<lparr>fr_length := Some n\<rparr>) (weather_decimal v)
           else if equal_ci name (ascii ''Transfer-Encoding'') then
             if fr_chunked f \<or> \<not> equal_ci v (ascii ''chunked'') then None else Some (f\<lparr>fr_chunked := True\<rparr>)
           else if equal_ci name (ascii ''Content-Encoding'') then
             if \<not> equal_ci v (ascii ''identity'') then None else Some f
           else Some f)"

text \<open>The loop over the header fields: \<open>s\<close> is the string at \<open>line\<close>, \<open>left\<close> is \<open>header_end - line\<close>.\<close>

function header_fields :: "bytes \<Rightarrow> nat \<Rightarrow> framing \<Rightarrow> framing option" where
  "header_fields s left f =
     (if left = 0 then Some f
      else case strstr CRLF s of
        None \<Rightarrow> None
      | Some e \<Rightarrow>
          if e > left then None
          else case weather_header_field (take e s) f of
            None \<Rightarrow> None
          | Some f \<Rightarrow> header_fields (drop (e + 2) s) (left - (e + 2)) f)"
  by pat_completeness auto
termination
  by (relation "measure (\<lambda>(s, left, f). left)") auto

declare header_fields.simps [simp del]

definition weather_status :: "bytes \<Rightarrow> nat option" where
  "weather_status line =
     (if length line < 12 \<or> take 9 line \<noteq> ascii ''HTTP/1.0 '' \<and> take 9 line \<noteq> ascii ''HTTP/1.1 '' \<or>
         line ! 9 < 49 \<or> line ! 9 > 53 \<or> \<not> is_digit (line ! 10) \<or> \<not> is_digit (line ! 11) \<or>
         length line > 12 \<and> line ! 12 \<noteq> 32
      then None
      else Some (unat (line ! 9 - 48) * 100 + unat (line ! 10 - 48) * 10 + unat (line ! 11 - 48)))"

section \<open>Chunks\<close>

text \<open>The size of a chunk: hexadecimal digits up to the end of the line or a semicolon.\<close>

fun size_digits :: "bytes \<Rightarrow> nat \<Rightarrow> nat option" where
  "size_digits [] value = Some value"
| "size_digits (c # cs) value =
     (if c = 59 then Some value
      else case digit_value c of
        None \<Rightarrow> None
      | Some v \<Rightarrow> if value > (Z80_WEATHER_BODY_MAX - v) div 16 then None else size_digits cs (value * 16 + v))"

definition chunk_size :: "bytes \<Rightarrow> nat option" where
  "chunk_size line = (if line = [] \<or> hd line = 59 then None else size_digits line 0)"

text \<open>The lines after the last chunk, up to the empty line, which must end the response.\<close>

function trailer_lines :: "bytes \<Rightarrow> bool" where
  "trailer_lines s =
     (case strstr CRLF s of
        None \<Rightarrow> False
      | Some 0 \<Rightarrow> length s = 2
      | Some (Suc e) \<Rightarrow> 58 \<in> set (take (Suc e) s) \<and> trailer_lines (drop (Suc e + 2) s))"
  by pat_completeness auto
termination
proof (relation "measure length", goal_cases)
  case (2 s e n)
  then have "s \<noteq> []"
    by auto
  then show ?case
    by simp
qed simp

declare trailer_lines.simps [simp del]

text \<open>
  The loop over the chunks, in the buffer \<open>b\<close> with the terminator at \<open>e\<close>: \<open>read\<close> and \<open>write\<close> are the two pointers,
  \<open>data\<close> the start of the body. The result is \<open>write - data\<close>.
\<close>

function chunk_loop :: "nat \<Rightarrow> nat \<Rightarrow> nat \<Rightarrow> nat \<Rightarrow> bytes \<Rightarrow> nat option \<times> bytes" where
  "chunk_loop data e rd wr b =
     (let s = cstr (drop rd b)
      in case strstr CRLF s of
           None \<Rightarrow> (None, b)
         | Some k \<Rightarrow>
             if k > 64 \<or> k = 0 then (None, b)
             else case chunk_size (take k s) of
               None \<Rightarrow> (None, b)
             | Some c \<Rightarrow>
                 let rd = rd + k + 2
                 in if c = 0 then (if trailer_lines (cstr (drop rd b)) then Some (wr - data) else None, b)
                    else if e - rd < c + 2 \<or> wr - data + c > Z80_WEATHER_BODY_MAX \<or>
                            b ! (rd + c) \<noteq> 13 \<or> b ! (rd + c + 1) \<noteq> 10 then (None, b)
                    else chunk_loop data e (rd + c + 2) (wr + c) (splice wr (slice rd c b) b))"
  by pat_completeness auto
termination
  by (relation "measure (\<lambda>(data, e, rd, wr, b). e - rd)") auto

declare chunk_loop.simps [simp del]

section \<open>The decoder\<close>

text \<open>What is done once the header is read.\<close>

definition weather_body :: "nat \<Rightarrow> nat \<Rightarrow> framing \<Rightarrow> bytes \<Rightarrow> nat option \<times> bytes" where
  "weather_body data e f b =
     (if \<not> fr_chunked f then
        (if e - data > Z80_WEATHER_BODY_MAX \<or> fr_length f \<noteq> None \<and> fr_length f \<noteq> Some (e - data) then None
         else Some (e - data), b)
      else if fr_length f \<noteq> None then (None, b)
      else chunk_loop data e data data b)"

definition weather_header :: "bytes \<Rightarrow> (nat \<times> nat \<times> framing) option" where
  "weather_header s =
     (case strstr (CRLF @ CRLF) s of
        None \<Rightarrow> None
      | Some header_end \<Rightarrow>
          if header_end > 2048 then None
          else case strstr CRLF s of
            None \<Rightarrow> None
          | Some line \<Rightarrow>
              case weather_status (take line s) of
                None \<Rightarrow> None
              | Some status \<Rightarrow>
                  map_option (\<lambda>f. (status, header_end + 4, f))
                    (header_fields (drop (line + 2) s) (header_end - (line + 2)) \<lparr>fr_chunked = False, fr_length = None\<rparr>))"

definition z80_weather_http_decode :: "bytes \<Rightarrow> nat \<Rightarrow> (nat \<times> nat \<times> nat) option \<times> bytes" where
  "z80_weather_http_decode wire n =
     (if 0 \<in> set (take n wire) then (None, wire)
      else case weather_header (cstr wire) of
        None \<Rightarrow> (None, wire)
      | Some (status, data, f) \<Rightarrow>
          case weather_body data n f wire of
            (None, wire) \<Rightarrow> (None, wire)
          | (Some body_length, wire) \<Rightarrow> (Some (status, data, body_length), wire[data + body_length := 0]))"

section \<open>The reference definition\<close>

function unchunk :: "bytes \<Rightarrow> nat \<Rightarrow> bytes option" where
  "unchunk s n =
     (case strstr CRLF s of
        None \<Rightarrow> None
      | Some k \<Rightarrow>
          if k > 64 \<or> k = 0 then None
          else case chunk_size (take k s) of
            None \<Rightarrow> None
          | Some c \<Rightarrow>
              let s = drop (k + 2) s
              in if c = 0 then (if trailer_lines s then Some [] else None)
                 else if length s < c + 2 \<or> n + c > Z80_WEATHER_BODY_MAX \<or> slice c 2 s \<noteq> CRLF then None
                 else map_option (append (take c s)) (unchunk (drop (c + 2) s) (n + c)))"
  by pat_completeness auto
termination
  by (relation "measure (\<lambda>(s, n). length s)") auto

declare unchunk.simps [simp del]

section \<open>Searching\<close>

lemma strstr_Some:
  "strstr p s = Some k \<Longrightarrow> k + length p \<le> length s \<and> take (length p) (drop k s) = p"
proof (induction p s arbitrary: k rule: strstr.induct)
  case (2 p c s)
  show ?case
  proof (cases "take (length p) (c # s) = p")
    case True
    with 2(2) show ?thesis
      by (auto dest: arg_cong [of _ _ length])
  next
    case False
    with 2 show ?thesis
      by auto
  qed
qed (auto split: if_splits)

lemma strstr_CRLF: "13 \<notin> set x \<Longrightarrow> strstr CRLF (x @ 13 # 10 # y) = Some (length x)"
  by (induction x) auto

text \<open>What is found in a prefix of the string.\<close>

lemma strstr_take:
  "p \<noteq> [] \<Longrightarrow> strstr p (take n s) =
    (case strstr p s of None \<Rightarrow> None | Some k \<Rightarrow> if k + length p \<le> n then Some k else None)"
proof (induction p s arbitrary: n rule: strstr.induct)
  case (2 p c s)
  show ?case
  proof (cases n)
    case 0
    with 2(2) show ?thesis
      by (auto split: option.splits)
  next
    case (Suc m)
    show ?thesis
    proof (cases "take (length p) (c # s) = p")
      case True
      then have "length p \<le> Suc (length s)"
        by (auto dest: arg_cong [of _ _ length])
      have "take (length p) (take n (c # s)) = p \<longleftrightarrow> length p \<le> n"
        using True arg_cong [of "take (length p) (take n (c # s))" p length]
        by (cases "length p \<le> n") (auto simp: min_absorb1)
      moreover have "strstr p (take m s) \<noteq> Some k" if "\<not> length p \<le> n" for k
        using that strstr_Some [of p "take m s" k] Suc by auto
      ultimately show ?thesis
        using True Suc by (cases "length p \<le> n") auto
    next
      case False
      have "take (length p) (take n (c # s)) \<noteq> p"
      proof
        assume eq: "take (length p) (take n (c # s)) = p"
        then have "length p \<le> n"
          by (auto dest: arg_cong [of _ _ length])
        with eq False show False
          by (simp add: take_take min_def)
      qed
      with False 2(1) [OF False 2(2), of m] Suc show ?thesis
        by (auto split: option.splits)
    qed
  qed
qed auto

lemma terminated_split: "length b = e + 1 \<Longrightarrow> b ! e = 0 \<Longrightarrow> b = take e b @ [0]"
  by (metis Suc_eq_plus1 lessI take_Suc_conv_app_nth take_all order_refl)

lemma cstr_terminated: "0 \<notin> set s \<Longrightarrow> cstr (s @ 0 # t) = s"
  by (induction s) (auto simp: cstr_def)

lemma cstr_drop_terminated:
  assumes "length b = e + 1" and "b ! e = 0" and "rd \<le> e" and "0 \<notin> set (drop rd (take e b))"
  shows "cstr (drop rd b) = drop rd (take e b)"
proof -
  have "drop rd b = drop rd (take e b) @ [0]"
    using assms(1,3) by (subst terminated_split [OF assms(1,2)]) simp
  then show ?thesis
    using assms(4) by (simp add: cstr_terminated)
qed

section \<open>The loop in the buffer is the reference definition\<close>

lemma slice_two: "i + 1 < length b \<Longrightarrow> slice i 2 b = [b ! i, b ! (i + 1)]"
  by (simp add: slice_def numeral_2_eq_2 take_Suc_conv_app_nth flip: Cons_nth_drop_Suc)

lemma slice_append_splice:
  assumes "data \<le> wr" and "wr + length d \<le> length b"
  shows "slice data (wr - data + length d) (splice wr d b) = slice data (wr - data) b @ d"
  using assms by (cases d) (auto simp: slice_def splice_def drop_take)

text \<open>The bytes of the chunk at \<open>rd\<close> of the string that is left, and the buffer once they are moved to \<open>wr\<close>.\<close>

lemma chunk_bytes:
  assumes "length b = e + 1" and "rd + n + 2 \<le> e"
  shows "slice n 2 (drop rd (take e b)) = [b ! (rd + n), b ! (rd + n + 1)]"
    and "take n (drop rd (take e b)) = slice rd n b"
  using assms by (auto intro!: nth_equalityI simp: nth_slice less_Suc_eq numeral_2_eq_2)

lemma chunk_moved:
  assumes "length b = e + 1" and "b ! e = 0" and "0 \<notin> set (drop rd (take e b))" and "data \<le> wr" and "wr \<le> rd" and "rd + n + 2 \<le> e"
  defines "c \<equiv> splice wr (slice rd n b) b"
  shows "length c = e + 1" and "c ! e = 0" and "drop (rd + n + 2) (take e c) = drop (n + 2) (drop rd (take e b))"
    and "slice data (wr + n - data) c = slice data (wr - data) b @ slice rd n b"
proof -
  have n: "length (slice rd n b) = n"
    using assms by simp
  show "length c = e + 1" "c ! e = 0"
    using assms n by (simp_all add: c_def nth_splice)
  have "drop (rd + n + 2) c = drop (rd + n + 2) b"
    using assms n by (simp add: c_def splice_def)
  moreover have "drop (n + 2) (drop rd (take e b)) = drop (rd + n + 2) (take e b)"
    by (simp only: drop_drop) (simp add: ac_simps)
  ultimately show "drop (rd + n + 2) (take e c) = drop (n + 2) (drop rd (take e b))"
    by (simp only: drop_take)
  show "slice data (wr + n - data) c = slice data (wr - data) b @ slice rd n b"
    using slice_append_splice [of data wr "slice rd n b" b] assms n by (simp add: c_def)
qed

lemma chunk_loop_unchunk:
  assumes "length b = e + 1" and "b ! e = 0" and "0 \<notin> set (drop rd (take e b))"
    and "data \<le> wr" and "wr \<le> rd" and "rd \<le> e" and "wr - data \<le> Z80_WEATHER_BODY_MAX"
    and "chunk_loop data e rd wr b = (r, b')"
  shows "length b' = e + 1 \<and> b' ! e = 0 \<and>
    (case unchunk (drop rd (take e b)) (wr - data) of
       None \<Rightarrow> r = None
     | Some d \<Rightarrow> r = Some (wr - data + length d) \<and> wr + length d \<le> e \<and> wr - data + length d \<le> Z80_WEATHER_BODY_MAX \<and>
         slice data (wr - data + length d) b' = slice data (wr - data) b @ d)"
  using assms
proof (induction data e rd wr b arbitrary: r b' rule: chunk_loop.induct)
  case (1 data e rd wr b)
  let ?s = "drop rd (take e b)"
  have c: "cstr (drop rd b) = ?s"
    using 1(2-8) by (simp add: cstr_drop_terminated)
  note run = 1(9) [unfolded chunk_loop.simps [of data e rd wr b] Let_def c]
  note ref = unchunk.simps [of ?s, unfolded Let_def]
  consider "strstr CRLF ?s = None"
    | k where "strstr CRLF ?s = Some k" "k > 64 \<or> k = 0 \<or> chunk_size (take k ?s) = None"
    | k n where "strstr CRLF ?s = Some k" "\<not> (k > 64 \<or> k = 0)" "chunk_size (take k ?s) = Some n"
    by (cases "strstr CRLF ?s") blast+
  then show ?case
  proof cases
    case (3 k n)
    let ?rd = "rd + k + 2"
    have k: "?rd \<le> e"
      using strstr_Some [OF 3(1)] 1(2) by auto
    have s: "drop (k + 2) ?s = drop ?rd (take e b)"
      by (simp add: add.left_commute add.commute)
    have nz: "0 \<notin> set (drop ?rd (take e b))"
      using 1(4) by (metis in_set_dropD s)
    have c': "cstr (drop ?rd b) = drop ?rd (take e b)"
      using 1(2-8) k nz by (simp add: cstr_drop_terminated)
    let ?guard = "e - ?rd < n + 2 \<or> wr - data + n > Z80_WEATHER_BODY_MAX \<or> b ! (?rd + n) \<noteq> 13 \<or> b ! (?rd + n + 1) \<noteq> 10"
    have run': "(if n = 0 then (if trailer_lines (drop ?rd (take e b)) then Some (wr - data) else None, b) else
        if ?guard then (None, b) else chunk_loop data e (?rd + n + 2) (wr + n) (splice wr (slice ?rd n b) b)) = (r, b')"
      using run unfolding 3 option.case c' if_not_P [OF 3(2)] .
    have "?guard \<longleftrightarrow> length (drop ?rd (take e b)) < n + 2 \<or> wr - data + n > Z80_WEATHER_BODY_MAX \<or> slice n 2 (drop ?rd (take e b)) \<noteq> CRLF"
      using chunk_bytes(1) [OF 1(2), of ?rd n] 1(2) k by (cases "?rd + n + 2 \<le> e") auto
    then have ref': "unchunk ?s (wr - data) =
        (if n = 0 then (if trailer_lines (drop ?rd (take e b)) then Some [] else None) else
         if ?guard then None else
         map_option (append (take n (drop ?rd (take e b)))) (unchunk (drop (n + 2) (drop ?rd (take e b))) (wr - data + n)))"
      by (simp only: ref 3 option.case if_False s)
    show ?thesis
    proof (cases "n = 0 \<or> ?guard")
      case True
      then show ?thesis
        using run' ref' 1(2-8) by (cases "n = 0") (auto split: if_splits)
    next
      case False
      then have g: "?rd + n + 2 \<le> e" and sum: "wr - data + n = wr + n - data" "wr + n - data \<le> Z80_WEATHER_BODY_MAX"
        using 1(5) by auto
      have wr: "wr \<le> ?rd"
        using 1(6) by simp
      note m = chunk_moved [OF 1(2,3) nz 1(5) wr g]
      have loop: "chunk_loop data e (?rd + n + 2) (wr + n) (splice wr (slice ?rd n b) b) = (r, b')"
        using run' False by simp
      have nz': "0 \<notin> set (drop (n + 2) (drop ?rd (take e b)))"
        using nz by (metis in_set_dropD)
      let ?c = "splice wr (slice ?rd n b) b"
      have "length b' = e + 1 \<and> b' ! e = 0 \<and>
        (case unchunk (drop (?rd + n + 2) (take e ?c)) (wr + n - data) of
           None \<Rightarrow> r = None
         | Some d \<Rightarrow> r = Some (wr + n - data + length d) \<and> wr + n + length d \<le> e \<and> wr + n - data + length d \<le> Z80_WEATHER_BODY_MAX \<and>
             slice data (wr + n - data + length d) b' = slice data (wr + n - data) ?c @ d)"
        using 1(1) [OF refl _ 3(2) _ refl, unfolded c, OF 3(1,3) _ _ m(1,2) _ _ _ g _ loop] False m(3) nz' 1(5,6) sum by simp
      moreover have "min n (length b - ?rd) = n"
        using 1(2) g by simp
      ultimately show ?thesis
        using ref' False m(3,4) sum g wr 1(5) chunk_bytes(2) [OF 1(2) g] by (auto simp: add.assoc split: option.splits)
    qed
  qed (use run ref 1(2-8) in auto)
qed

section \<open>The decoder is its reference definition\<close>

text \<open>What a response says: its status and its body, or nothing when it is refused.\<close>

definition framed_body :: "framing \<Rightarrow> bytes \<Rightarrow> bytes option" where
  "framed_body f s =
     (if fr_chunked f then if fr_length f \<noteq> None then None else unchunk s 0
      else if length s > Z80_WEATHER_BODY_MAX \<or> fr_length f \<noteq> None \<and> fr_length f \<noteq> Some (length s) then None
      else Some s)"

definition weather_response :: "bytes \<Rightarrow> (nat \<times> bytes) option" where
  "weather_response s =
     (if 0 \<in> set s then None
      else case weather_header s of
        None \<Rightarrow> None
      | Some (status, data, f) \<Rightarrow>
          map_option (Pair status) (framed_body f (drop data s)))"

lemma header_offset: "weather_header s = Some (status, data, f) \<Longrightarrow> 4 \<le> data \<and> data \<le> length s"
  using strstr_Some [of "CRLF @ CRLF" s] by (auto simp: weather_header_def split: option.splits if_splits)

lemma body_decoded:
  assumes "0 \<notin> set w" and "data \<le> length w" and "weather_body data (length w) f (w @ [0]) = (r, b)"
  shows "length b = length w + 1 \<and>
    (case framed_body f (drop data w) of
       None \<Rightarrow> r = None
     | Some d \<Rightarrow> r = Some (length d) \<and> data + length d \<le> length w \<and> length d \<le> Z80_WEATHER_BODY_MAX \<and> slice data (length d) b = d)"
proof (cases "fr_chunked f")
  case False
  with assms show ?thesis
    by (auto simp: weather_body_def framed_body_def slice_def)
next
  case True
  have "0 \<notin> set (drop data w)"
    using assms(1) by (metis in_set_dropD)
  then have "length b = length w + 1 \<and> (case unchunk (drop data w) 0 of
       None \<Rightarrow> r = None
     | Some d \<Rightarrow> r = Some (length d) \<and> data + length d \<le> length w \<and> length d \<le> Z80_WEATHER_BODY_MAX \<and> slice data (length d) b = d)"
    if "chunk_loop data (length w) data data (w @ [0]) = (r, b)"
    using chunk_loop_unchunk [of "w @ [0]" "length w" data data data r b] that assms(1,2)
    by (auto simp: slice_def split: option.splits)
  with True assms(3) show ?thesis
    by (auto simp: weather_body_def framed_body_def split: if_splits)
qed

lemma decode_response:
  assumes "z80_weather_http_decode (w @ [0]) (length w) = (r, b)"
  shows "length b = length w + 1 \<and>
    (case r of
       None \<Rightarrow> weather_response w = None
     | Some (status, data, n) \<Rightarrow> weather_response w = Some (status, slice data n b) \<and>
         data + n \<le> length w \<and> n \<le> Z80_WEATHER_BODY_MAX \<and> b ! (data + n) = 0)"
proof (cases "0 \<in> set w \<or> weather_header w = None")
  case True
  with assms show ?thesis
    by (auto simp: z80_weather_http_decode_def weather_response_def cstr_terminated split: if_splits)
next
  case False
  then obtain status data f where h: "weather_header w = Some (status, data, f)" "0 \<notin> set w"
    by (cases "weather_header w") auto
  obtain q c where body: "weather_body data (length w) f (w @ [0]) = (q, c)"
    by fastforce
  have "slice data n (c[data + n := 0]) = slice data n c" for n
    by (simp add: slice_def drop_update_swap)
  with body_decoded [OF h(2) conjunct2 [OF header_offset [OF h(1)]] body] h body assms show ?thesis
    by (auto simp: z80_weather_http_decode_def weather_response_def cstr_terminated split: option.splits)
qed

section \<open>Prefixes\<close>

lemma strstr_first: "strstr p s = Some k \<Longrightarrow> take (length p) (drop h s) = p \<Longrightarrow> k \<le> h"
proof (induction p s arbitrary: k h rule: strstr.induct)
  case (2 p c s)
  then show ?case
    by (cases h) (auto split: if_splits)
qed (auto split: if_splits)

lemma header_fields_take: "left = 0 \<or> left + 2 \<le> q \<Longrightarrow> header_fields (take q s) left f = header_fields s left f"
proof (induction s left f arbitrary: q rule: header_fields.induct)
  case (1 s left f)
  show ?case
  proof (cases "left = 0")
    case False
    then have q: "left + 2 \<le> q"
      using 1(2) by simp
    show ?thesis
    proof (cases "strstr CRLF s")
      case None
      with False show ?thesis
        by (subst (1 2) header_fields.simps) (simp add: strstr_take)
    next
      case (Some e)
      show ?thesis
      proof (cases "e \<le> left \<and> weather_header_field (take e s) f \<noteq> None")
        case True
        then obtain g where g: "weather_header_field (take e s) f = Some g" by auto
        have "header_fields (take (q - (e + 2)) (drop (e + 2) s)) (left - (e + 2)) g = header_fields (drop (e + 2) s) (left - (e + 2)) g"
          by (rule 1(1) [OF False Some _ g]) (use q True in auto)
        then show ?thesis
          using False Some True g q by (subst (1 2) header_fields.simps) (simp add: strstr_take drop_take min_def)
      next
        case other: False
        then show ?thesis
          using False Some q by (subst (1 2) header_fields.simps) (auto simp: strstr_take min_def)
      qed
    qed
  qed (simp add: header_fields.simps)
qed

text \<open>The header is in a prefix of the response or the prefix is refused.\<close>

lemma weather_header_take:
  "weather_header (take m s) =
    (case weather_header s of None \<Rightarrow> None | Some (status, data, f) \<Rightarrow> if data \<le> m then Some (status, data, f) else None)"
proof (cases "strstr (CRLF @ CRLF) s")
  case None
  then show ?thesis
    by (simp add: weather_header_def strstr_take)
next
  case (Some h)
  show ?thesis
  proof (cases "h + 4 \<le> m")
    case False
    with Some show ?thesis
      by (auto simp: weather_header_def strstr_take split: option.splits)
  next
    case True
    have "take 2 (drop h s) = CRLF"
      using arg_cong [OF conjunct2 [OF strstr_Some [OF Some]], of "take 2"] by (simp add: numeral_2_eq_2)
    then have l: "l \<le> h" if "strstr CRLF s = Some l" for l
      using strstr_first [OF that, of h] by (simp add: numeral_2_eq_2)
    have "header_fields (drop (l + 2) (take m s)) (h - (l + 2)) f = header_fields (drop (l + 2) s) (h - (l + 2)) f" for l f
    proof -
      have "h - (l + 2) = 0 \<or> h - (l + 2) + 2 \<le> m - (l + 2)"
        using True by arith
      from header_fields_take [OF this, of "drop (l + 2) s" f] show ?thesis
        by (simp add: drop_take)
    qed
    with True l Some show ?thesis
      by (auto simp: weather_header_def strstr_take min_def split: option.splits)
  qed
qed

lemma trailer_lines_take: "trailer_lines s \<Longrightarrow> m < length s \<Longrightarrow> \<not> trailer_lines (take m s)"
proof (induction s arbitrary: m rule: trailer_lines.induct)
  case (1 s)
  then obtain e where e: "strstr CRLF s = Some e"
    by (auto simp: trailer_lines.simps [of s] split: option.splits)
  show ?case
  proof (cases e)
    case 0
    with 1 e show ?thesis
      by (subst trailer_lines.simps) (auto simp: trailer_lines.simps [of s] strstr_take)
  next
    case (Suc k)
    have rest: "trailer_lines (drop (Suc k + 2) s)"
      using 1(2) e Suc by (simp add: trailer_lines.simps [of s])
    show ?thesis
    proof (cases "Suc k + 2 \<le> m")
      case True
      have "\<not> trailer_lines (take (m - (Suc k + 2)) (drop (Suc k + 2) s))"
        using 1(1) [OF e Suc rest, of "m - (Suc k + 2)"] 1(2,3) e Suc True by (auto simp: trailer_lines.simps [of s])
      with True e Suc show ?thesis
        by (subst trailer_lines.simps) (simp add: strstr_take drop_take min_def)
    next
      case False
      with e Suc show ?thesis
        by (subst trailer_lines.simps) (simp add: strstr_take)
    qed
  qed
qed

lemma unchunk_take: "unchunk s n = Some d \<Longrightarrow> m < length s \<Longrightarrow> unchunk (take m s) n = None"
proof (induction s n arbitrary: m d rule: unchunk.induct)
  case (1 s n)
  then obtain k c where k: "strstr CRLF s = Some k" "\<not> (k > 64 \<or> k = 0)" "chunk_size (take k s) = Some c"
    by (auto simp: unchunk.simps [of s] split: option.splits if_splits)
  show ?case
  proof (cases "k + 2 \<le> m")
    case False
    with k show ?thesis
      by (subst unchunk.simps) (simp add: strstr_take)
  next
    case m: True
    have u: "unchunk (take m s) n =
        (if c = 0 then (if trailer_lines (take (m - (k + 2)) (drop (k + 2) s)) then Some [] else None)
         else if length (take (m - (k + 2)) (drop (k + 2) s)) < c + 2 \<or> n + c > Z80_WEATHER_BODY_MAX \<or>
           slice c 2 (take (m - (k + 2)) (drop (k + 2) s)) \<noteq> CRLF then None
         else map_option (append (take c (take (m - (k + 2)) (drop (k + 2) s))))
           (unchunk (drop (c + 2) (take (m - (k + 2)) (drop (k + 2) s))) (n + c)))"
      using k m by (subst unchunk.simps) (simp add: strstr_take drop_take min_def)
    show ?thesis
    proof (cases "c = 0")
      case True
      moreover have "m - (k + 2) < length (drop (k + 2) s)"
        using 1(3) m by auto
      ultimately show ?thesis
        using u k m 1(2) trailer_lines_take [of "drop (k + 2) s" "m - (k + 2)"] by (auto simp: unchunk.simps [of s] split: if_splits)
    next
      case False
      then obtain x where x: "unchunk (drop (c + 2) (drop (k + 2) s)) (n + c) = Some x"
          "\<not> (length (drop (k + 2) s) < c + 2 \<or> n + c > Z80_WEATHER_BODY_MAX \<or> slice c 2 (drop (k + 2) s) \<noteq> CRLF)"
        using 1(2) k by (auto simp: unchunk.simps [of s] Let_def split: if_splits)
      have "unchunk (take (m - (k + 2) - (c + 2)) (drop (c + 2) (drop (k + 2) s))) (n + c) = None" if "c + 2 \<le> m - (k + 2)"
        by (rule 1(1) [OF k(1,2,3) refl False x(2,1)]) (use 1(3) m that in auto)
      then show ?thesis
        unfolding u using False by (auto simp: drop_take simp del: drop_drop)
    qed
  qed
qed

lemma response_take:
  assumes "weather_response w = Some r" and "weather_header w = Some (status, data, f)"
    and "fr_chunked f \<or> fr_length f \<noteq> None" and "m < length w"
  shows "weather_response (take m w) = None"
proof (cases "data \<le> m")
  case False
  with assms(2) show ?thesis
    by (simp add: weather_response_def weather_header_take)
next
  case True
  have "framed_body f (drop data w) \<noteq> None"
    using assms(1,2) by (auto simp: weather_response_def split: if_splits)
  then have "framed_body f (take (m - data) (drop data w)) = None"
    using assms(3,4) True unchunk_take [of "drop data w" 0 _ "m - data"]
    by (auto simp: framed_body_def split: if_splits)
  with assms(2) True show ?thesis
    by (simp add: weather_response_def weather_header_take drop_take)
qed

section \<open>Responses in chunks\<close>

lemma size_digits_append:
  "59 \<notin> set xs \<Longrightarrow> size_digits xs v = Some w \<Longrightarrow> size_digits (xs @ ys) v = size_digits ys w"
  by (induction xs v rule: size_digits.induct) (auto split: option.splits if_splits)

lemma size_digits_hex: "n \<le> Z80_WEATHER_BODY_MAX \<Longrightarrow> size_digits (hex n) 0 = Some n"
proof (induction n rule: hex.induct)
  case (1 n)
  show ?case
  proof (cases "n < 16")
    case True
    then show ?thesis
      using hex_digit_value [OF True] by (subst hex.simps) (simp del: hex_digit.simps)
  next
    case False
    have "59 \<notin> set (hex (n div 16))"
      using hex_chars [of 59 "n div 16"] by auto
    moreover have "n div 16 \<le> (Z80_WEATHER_BODY_MAX - n mod 16) div 16"
    proof -
      have "16 * (n div 16) \<le> Z80_WEATHER_BODY_MAX - n mod 16"
        using 1(2) by (metis diff_le_mono minus_mod_eq_mult_div mult.commute)
      then show ?thesis
        by simp
    qed
    ultimately show ?thesis
      using 1 False hex_digit_value [of "n mod 16"]
      by (subst hex.simps) (simp add: size_digits_append [of _ 0 "n div 16"] del: hex_digit.simps)
  qed
qed

lemma chunk_size_hex: "n \<le> Z80_WEATHER_BODY_MAX \<Longrightarrow> chunk_size (hex n) = Some n"
  using hex_chars [of 59 n] size_digits_hex [of n] by (cases "hex n") (auto simp: chunk_size_def)

lemma strstr_hex: "strstr CRLF (hex n @ 13 # 10 # rest) = Some (length (hex n))"
  using hex_chars [of 13 n] by (intro strstr_CRLF) auto

lemma unchunk_chunks:
  "[] \<notin> set ds \<Longrightarrow> n + length (concat ds) \<le> Z80_WEATHER_BODY_MAX \<Longrightarrow>
    unchunk (concat (map chunk ds) @ last_chunk) n = Some (concat ds)"
proof (induction ds arbitrary: n)
  case Nil
  have "trailer_lines CRLF"
    by (simp add: trailer_lines.simps)
  then show ?case
    using hex_length [of 0 4] by (subst unchunk.simps) (simp add: last_chunk_def strstr_hex chunk_size_hex)
next
  case (Cons d ds)
  let ?rest = "concat (map chunk ds) @ last_chunk"
  have "length (hex (length d)) \<le> 4"
    using hex_length [of "length d" 4] Cons.prems(2) by simp
  moreover have "unchunk ?rest (n + length d) = Some (concat ds)"
    using Cons by simp
  ultimately show ?case
    using Cons.prems by (subst unchunk.simps) (auto simp: chunk_def strstr_hex chunk_size_hex slice_def Let_def)
qed

lemma weather_header_append:
  assumes "weather_header h = Some (status, data, f)"
  shows "weather_header (h @ t) = Some (status, data, f)"
  using weather_header_take [of "length h" "h @ t"] assms by (auto split: option.splits if_splits)

lemma response_of_chunks:
  assumes "weather_header h = Some (status, length h, \<lparr>fr_chunked = True, fr_length = None\<rparr>)"
    and "0 \<notin> set h" and "\<forall>d \<in> set ds. d \<noteq> [] \<and> 0 \<notin> set d" and "length (concat ds) \<le> Z80_WEATHER_BODY_MAX"
  shows "weather_response (h @ concat (map chunk ds) @ last_chunk) = Some (status, concat ds)"
proof -
  have "0 \<notin> set (concat (map chunk ds) @ last_chunk)"
    using assms(3) hex_chars by (auto simp: chunk_def last_chunk_def) (metis (no_types) not_less_zero word_not_simps(1) word_zero_le linorder_not_less)+
  then show ?thesis
    using weather_header_append [OF assms(1)] assms unchunk_chunks [of ds 0]
    by (auto simp: weather_response_def framed_body_def)
qed

text \<open>
  C23. The decoder of weather responses works in place and does what its reference definition says, on every response: it accepts the
  same ones, returns their status, and leaves their body of at most 8192 bytes in the buffer, terminated, at the offset it
  returns. No read or write leaves the buffer.
\<close>

theorem weather_decoder_in_place:
  assumes "z80_weather_http_decode (w @ [0]) (length w) = (r, b)"
  shows "length b = length w + 1 \<and>
    (case r of
       None \<Rightarrow> weather_response w = None
     | Some (status, data, n) \<Rightarrow> weather_response w = Some (status, slice data n b) \<and>
         data + n \<le> length w \<and> n \<le> Z80_WEATHER_BODY_MAX \<and> b ! (data + n) = 0)"
  using assms by (rule decode_response)

lemma decode_chunks:
  assumes "weather_header h = Some (status, length h, \<lparr>fr_chunked = True, fr_length = None\<rparr>)"
    and "0 \<notin> set h" and "\<forall>d \<in> set ds. d \<noteq> [] \<and> 0 \<notin> set d" and "length (concat ds) \<le> Z80_WEATHER_BODY_MAX"
    and "w = h @ concat (map chunk ds) @ last_chunk"
  shows "\<exists>data b. z80_weather_http_decode (w @ [0]) (length w) = (Some (status, data, length (concat ds)), b) \<and>
    slice data (length (concat ds)) b = concat ds \<and> b ! (data + length (concat ds)) = 0"
proof -
  obtain r b where d: "z80_weather_http_decode (w @ [0]) (length w) = (r, b)"
    by fastforce
  show ?thesis
    using decode_response [OF d] response_of_chunks [OF assms(1-4)] assms(5) d
    by (auto split: option.splits dest: arg_cong [of _ _ length])
qed

text \<open>
  A response in chunks is accepted, and the buffer then holds its chunks in order and in one piece, followed by a terminator.
\<close>

theorem weather_chunks_joined:
  assumes "weather_header h = Some (status, length h, \<lparr>fr_chunked = True, fr_length = None\<rparr>)"
    and "0 \<notin> set h" and "\<forall>d \<in> set ds. d \<noteq> [] \<and> 0 \<notin> set d" and "length (concat ds) \<le> Z80_WEATHER_BODY_MAX"
    and "w = h @ concat (map chunk ds) @ last_chunk"
  shows "\<exists>data b. z80_weather_http_decode (w @ [0]) (length w) = (Some (status, data, length (concat ds)), b) \<and>
    slice data (length (concat ds)) b = concat ds \<and> b ! (data + length (concat ds)) = 0"
  using assms by (rule decode_chunks)

text \<open>
  C24. A response that says how long it is, by chunks or by a length, is never accepted when it is cut short, wherever the cut is.
\<close>

theorem truncated_weather_refused:
  assumes "z80_weather_http_decode (w @ [0]) (length w) = (Some r, b)"
    and "weather_header w = Some (status, data, f)" and "fr_chunked f \<or> fr_length f \<noteq> None"
    and "m < length w"
  shows "fst (z80_weather_http_decode (take m w @ [0]) m) = None"
proof -
  obtain r' b' where d: "z80_weather_http_decode (take m w @ [0]) (length (take m w)) = (r', b')"
    by fastforce
  obtain r'' where "weather_response w = Some r''"
    using decode_response [OF assms(1)] by (auto split: prod.splits)
  then have "weather_response (take m w) = None"
    using response_take assms(2-4) by blast
  then show ?thesis
    using decode_response [OF d] d assms(4) by (auto split: option.splits)
qed

text \<open>The theorems at work.\<close>

definition sample_head :: bytes where
  "sample_head = ascii ''HTTP/1.1 200 OK'' @ CRLF @ ascii ''transfer-encoding: chunked'' @ CRLF @ CRLF"

lemma sample_header: "weather_header sample_head = Some (200, length sample_head, \<lparr>fr_chunked = True, fr_length = None\<rparr>)"
  by code_simp

definition sample_wire :: bytes where
  "sample_wire = sample_head @ concat (map chunk [[123], [125]]) @ last_chunk"

lemma sample_chunks:
  "0 \<notin> set sample_head" "\<forall>d \<in> set [[123], [125 :: u8]]. d \<noteq> [] \<and> 0 \<notin> set d" "length (concat [[123], [125 :: u8]]) \<le> Z80_WEATHER_BODY_MAX"
  by (simp_all add: sample_head_def ascii_def)

lemma sample_values: "concat [[123], [125 :: u8]] = [123, 125]" "length [123, 125 :: u8] = 2"
  by simp_all

lemma sample_decoded:
  obtains data b where "z80_weather_http_decode (sample_wire @ [0]) (length sample_wire) = (Some (200, data, 2), b)"
    and "slice data 2 b = [123, 125]"
  using decode_chunks [OF sample_header sample_chunks sample_wire_def] unfolding sample_values by blast

theorem weather_decoder_in_place_witness: "weather_response sample_wire = Some (200, [123, 125])"
  by (rule sample_decoded, drule weather_decoder_in_place) simp

theorem weather_chunks_joined_witness:
  "\<exists>data b. z80_weather_http_decode (sample_wire @ [0]) (length sample_wire) = (Some (200, data, 2), b) \<and>
    slice data 2 b = [123, 125] \<and> b ! (data + 2) = 0"
  using weather_chunks_joined [OF sample_header sample_chunks sample_wire_def] unfolding sample_values .

theorem truncated_weather_refused_witness:
  "fst (z80_weather_http_decode (take 60 sample_wire @ [0]) 60) = None"
proof -
  have "length sample_head = 47"
    by (simp add: sample_head_def length_ascii)
  then have "60 < length sample_wire"
    by (simp add: sample_wire_def chunk_def last_chunk_def hex.simps)
  moreover have "weather_header sample_wire = Some (200, length sample_head, \<lparr>fr_chunked = True, fr_length = None\<rparr>)"
    unfolding sample_wire_def by (rule weather_header_append [OF sample_header])
  ultimately show ?thesis
    by (rule_tac sample_decoded) (erule (1) truncated_weather_refused, simp_all)
qed

end
