(* ===== verification/Weather.thy ===== *)
theory Weather
  imports Json_Scan Weather_Http Environment_Values
begin

text \<open>
  The weather service of \<open>src/src/common/weather.c\<close>: it fetches the current conditions and then a forecast from a web service at intervals, with the
  settings of the environment, and hands the fields of the two responses to the Z80.

  \<^item> \<open>weather\<close> holds the static variables; each of the 15 text fields is the string in its buffer of 96 bytes.
  \<^item> The network functions that \<open>z80_weather_init\<close> installs are not part of the file. \<open>wx_calls\<close> records the calls made to them, and the answer of
    \<open>start_request\<close> is an argument. So is the clock: a call that reads it twice gets two times.
  \<^item> The forecast is requested after the current conditions have arrived: \<open>wx_phase\<close> is 1 and 3 while the two requests are under way, 2 between them.
\<close>

section \<open>State\<close>

abbreviation FIELD_COUNT :: nat where "FIELD_COUNT \<equiv> 15"
abbreviation FIELD_BYTES :: nat where "FIELD_BYTES \<equiv> 96"
abbreviation CONFIG_MS :: u64 where "CONFIG_MS \<equiv> 1000"
abbreviation SETTLE_MS :: u64 where "SETTLE_MS \<equiv> 5000"
abbreviation RETRY_MS :: u64 where "RETRY_MS \<equiv> 120000"
abbreviation REFRESH_MS :: u64 where "REFRESH_MS \<equiv> 1200000"

abbreviation Z80_WEATHER_NONE :: u8 where "Z80_WEATHER_NONE \<equiv> 0"
abbreviation Z80_WEATHER_FETCHING :: u8 where "Z80_WEATHER_FETCHING \<equiv> 1"
abbreviation Z80_WEATHER_READY :: u8 where "Z80_WEATHER_READY \<equiv> 2"
abbreviation Z80_WEATHER_ERROR :: u8 where "Z80_WEATHER_ERROR \<equiv> 3"

record weather_config =
  wc_key :: bytes
  wc_location :: bytes
  wc_units :: bytes
  wc_error :: bytes

definition empty_config :: weather_config where
  "empty_config = \<lparr>wc_key = [], wc_location = [], wc_units = [], wc_error = []\<rparr>"

datatype weather_call = Start_Request bytes | Cancel_Request

record weather =
  wx_config :: weather_config
  wx_fields :: "bytes list"
  wx_pending :: "bytes list"
  wx_enabled :: bool
  wx_have_data :: bool
  wx_was_online :: bool
  wx_status :: u8
  wx_phase :: nat
  wx_startup_retries :: u32
  wx_config_due :: u64
  wx_fetch_due :: u64
  wx_last_fetch :: u64
  wx_calls :: "weather_call list"

definition no_fields :: "bytes list" where
  "no_fields = replicate FIELD_COUNT []"

definition weather_boot :: weather where
  "weather_boot = \<lparr>wx_config = empty_config, wx_fields = no_fields, wx_pending = no_fields, wx_enabled = False, wx_have_data = False,
     wx_was_online = False, wx_status = Z80_WEATHER_NONE, wx_phase = 0, wx_startup_retries = 0, wx_config_due = 0, wx_fetch_due = 0,
     wx_last_fetch = 0, wx_calls = []\<rparr>"

text \<open>\<open>snprintf\<close> into a buffer of \<open>n\<close> bytes.\<close>

definition print_to :: "nat \<Rightarrow> bytes \<Rightarrow> bytes" where
  "print_to n s = take (n - 1) s"

definition cancel_request :: "weather \<Rightarrow> weather" where
  "cancel_request s = s\<lparr>wx_calls := wx_calls s @ [Cancel_Request]\<rparr>"

definition weather_fail :: "u64 \<Rightarrow> bytes \<Rightarrow> weather \<Rightarrow> weather" where
  "weather_fail now message s =
     s\<lparr>wx_fields := (wx_fields s)[12 := print_to FIELD_BYTES message], wx_status := Z80_WEATHER_ERROR, wx_phase := 0,
       wx_fetch_due := now + (if \<not> wx_have_data s \<and> wx_startup_retries s < 5 then RETRY_MS else REFRESH_MS),
       wx_startup_retries := (if wx_have_data s then wx_startup_retries s else wx_startup_retries s + 1)\<rparr>"

section \<open>Settings\<close>

text \<open>A setting that is missing keeps the value the buffer has, which is empty.\<close>

definition read_setting ::
    "string \<Rightarrow> nat \<Rightarrow> (bytes \<Rightarrow> weather_config \<Rightarrow> weather_config) \<Rightarrow> weather_config \<times> environment \<Rightarrow> weather_config \<times> environment" where
  "read_setting key capacity put ce =
     (case environment_io_get (ascii key) 256 (snd ce) of
        (None, en) \<Rightarrow> (fst ce, en)
      | (Some v, en) \<Rightarrow>
          (if length v \<ge> capacity then (fst ce)\<lparr>wc_error := print_to 64 (ascii key @ ascii '' is too long'')\<rparr>
           else put v (fst ce), en))"

definition check_config :: "weather_config \<Rightarrow> weather_config" where
  "check_config c0 =
     (let c = (if wc_units c0 = [] then c0\<lparr>wc_units := ascii ''metric''\<rparr> else c0);
          c = (if wc_error c = [] \<and> (wc_key c = [] \<or> wc_location c = [])
               then c\<lparr>wc_error := ascii ''Set OWM_KEY and OWM_LOCATION in ENV''\<rparr> else c)
      in if wc_error c = [] \<and> wc_units c \<noteq> ascii ''metric'' \<and> wc_units c \<noteq> ascii ''imperial'' \<and> wc_units c \<noteq> ascii ''standard''
         then c\<lparr>wc_error := ascii ''OWM_UNITS must be metric, imperial or standard''\<rparr> else c)"

definition read_config :: "environment \<Rightarrow> weather_config \<times> environment" where
  "read_config en0 =
     (let en = environment_io_init (environment_io_close en0)
      in if environment_input ENVIRONMENT_PORT_COMMAND en \<noteq> 0
         then (empty_config\<lparr>wc_error := ascii ''Cannot read weather ENV settings''\<rparr>, en)
         else
           let ce = read_setting ''OWM_KEY'' 41 (\<lambda>v c. c\<lparr>wc_key := v\<rparr>) (empty_config, en);
               ce = read_setting ''OWM_LOCATION'' 65 (\<lambda>v c. c\<lparr>wc_location := v\<rparr>) ce;
               ce = read_setting ''OWM_UNITS'' 12 (\<lambda>v c. c\<lparr>wc_units := v\<rparr>) ce
           in (check_config (fst ce), snd ce))"

definition unit_text :: "bytes \<Rightarrow> bytes" where
  "unit_text units = ascii (if units = ascii ''imperial'' then ''F'' else if units = ascii ''standard'' then ''K'' else ''C'')"

definition weather_load_config :: "u64 \<Rightarrow> environment \<Rightarrow> weather \<Rightarrow> bool \<times> environment \<times> weather" where
  "weather_load_config now en s0 =
     (case read_config en of (next, en) \<Rightarrow>
        if next = wx_config s0 then (False, en, s0)
        else
          let s = (cancel_request s0)\<lparr>wx_config := next, wx_fields := no_fields[11 := unit_text (wc_units next)], wx_have_data := False,
                    wx_phase := 0, wx_startup_retries := 0, wx_status := Z80_WEATHER_NONE\<rparr>
          in (True, en, if wc_error next \<noteq> [] then weather_fail now (wc_error next) s else s))"

section \<open>The path of a request\<close>

definition unreserved :: "u8 \<Rightarrow> bool" where
  "unreserved c \<longleftrightarrow> is_alpha c \<or> is_digit c \<or> c \<in> {45, 95, 46, 126}"

definition upper_hex :: "u8 \<Rightarrow> u8" where
  "upper_hex n = (if n < 10 then n + 48 else n + 55)"

fun url_encode :: "bytes \<Rightarrow> bytes" where
  "url_encode [] = []"
| "url_encode (c # s) =
     (if unreserved c then [c] else [37, upper_hex (drop_bit 4 c), upper_hex (c AND 15)]) @ url_encode s"

text \<open>The number at the start of the string, if it is finite and between \<open>- limit\<close> and \<open>limit\<close>: what follows it.\<close>

definition coordinate :: "rat \<Rightarrow> bytes \<Rightarrow> bytes option" where
  "coordinate limit s =
     (case strtod s of
        Some (Some v, _, r) \<Rightarrow> if v < - limit \<or> v > limit then None else Some r
      | _ \<Rightarrow> None)"

definition location_query :: "bytes \<Rightarrow> bytes option" where
  "location_query location =
     (if take 4 location = ascii ''lat='' then
        let lat = drop 4 location
        in case coordinate 90 lat of
             None \<Rightarrow> None
           | Some r \<Rightarrow>
               if take 5 r \<noteq> ascii ''&lon='' then None
               else
                 let lon = drop 5 r
                 in case coordinate 180 lon of
                      None \<Rightarrow> None
                    | Some r' \<Rightarrow>
                        if r' \<noteq> [] then None
                        else Some (ascii ''lat='' @ url_encode (take (length lat - length r) lat) @ ascii ''&lon='' @ url_encode lon)
      else Some (ascii ''q='' @ url_encode location))"

definition build_path :: "bool \<Rightarrow> weather_config \<Rightarrow> bytes option" where
  "build_path forecast c =
     (case location_query (wc_location c) of
        None \<Rightarrow> None
      | Some location \<Rightarrow>
          let path = ascii ''/data/2.5/'' @ ascii (if forecast then ''forecast'' else ''weather'') @ ascii ''?'' @ location @
                ascii ''&appid='' @ url_encode (wc_key c) @ ascii ''&units='' @ wc_units c @ (if forecast then ascii ''&cnt=1'' else [])
          in if length path < 512 then Some path else None)"

section \<open>Responses\<close>

text \<open>The operator \<open>&&\<close> on calls that fill the fields \<open>out\<close>.\<close>

definition weather_and :: "bool \<times> 'a \<Rightarrow> ('a \<Rightarrow> bool \<times> 'a) \<Rightarrow> bool \<times> 'a" where
  "weather_and r f = (if fst r then f (snd r) else r)"

definition get_string :: "json_scan_range \<Rightarrow> string \<Rightarrow> nat \<Rightarrow> bytes list \<Rightarrow> bool \<times> bytes list" where
  "get_string rg key i out = (case json_scan_get_string (fst rg) (ascii key) FIELD_BYTES of (ok, v) \<Rightarrow> (ok, out[i := v]))"

definition get_number :: "json_scan_range \<Rightarrow> string \<Rightarrow> nat \<Rightarrow> bytes list \<Rightarrow> bool \<times> bytes list" where
  "get_number rg key i out = (case json_scan_get_number rg (ascii key) FIELD_BYTES of (ok, v) \<Rightarrow> (ok, out[i := v]))"

definition with_object :: "json_scan_range option \<Rightarrow> (json_scan_range \<Rightarrow> bytes list \<Rightarrow> bool \<times> bytes list) \<Rightarrow> bytes list \<Rightarrow> bool \<times> bytes list" where
  "with_object found f out = (case found of None \<Rightarrow> (False, out) | Some rg \<Rightarrow> f rg out)"

definition capitalize :: "bytes \<Rightarrow> bytes" where
  "capitalize s = (case s of [] \<Rightarrow> [] | c # cs \<Rightarrow> (if 97 \<le> c \<and> c \<le> 122 then c - 32 else c) # cs)"

definition parse_conditions :: "bool \<Rightarrow> json_scan_range \<Rightarrow> bytes list \<Rightarrow> bool \<times> bytes list" where
  "parse_conditions forecast item =
     (let base = (if forecast then 6 else 1)
      in with_object (json_scan_object item (ascii ''main'')) (\<lambda>main.
         with_object (json_scan_first_array_object item (ascii ''weather'')) (\<lambda>weather out.
         weather_and (get_string weather ''main'' base out) (\<lambda>out.
         weather_and (get_string weather ''description'' (base + 1) out) (\<lambda>out.
         weather_and (get_number main ''temp'' (if forecast then 8 else 3) out) (\<lambda>out.
         weather_and (get_number main ''feels_like'' (if forecast then 14 else 13) out) (\<lambda>out.
         let out = out[base + 1 := capitalize (out ! (base + 1))]
         in if forecast then get_string item ''dt_txt'' 9 out
            else
              weather_and (get_string item ''name'' 0 out) (\<lambda>out.
              weather_and (get_number main ''humidity'' 4 out)
                (with_object (json_scan_object item (ascii ''wind'')) (\<lambda>wind. get_number wind ''speed'' 5))))))))))"

text \<open>The check of a body and what it fills in: whether it is good, and the pending fields.\<close>

definition parse_body :: "bool \<Rightarrow> bytes \<Rightarrow> bytes list \<Rightarrow> bool \<times> bytes list" where
  "parse_body forecast body pending =
     (let root = (body, []);
          text = rev (dropWhile json_scan_space (rev (json_scan_skip_ws body)))
      in if text \<noteq> [] \<and> hd text = 123 \<and> last text = 125 \<and> json_scan_get_int root (ascii ''cod'') = Some 200
         then if forecast
              then with_object (json_scan_first_array_object root (ascii ''list'')) (parse_conditions True) pending
              else parse_conditions False root pending
         else (False, pending))"

definition weather_message ::
    "nat \<Rightarrow> bool \<Rightarrow> bytes option \<Rightarrow> bytes option \<Rightarrow> bytes list \<Rightarrow> bytes \<times> bytes list" where
  "weather_message http_status forecast body error pending =
     (case error of
        Some e \<Rightarrow> (print_to FIELD_BYTES e, pending)
      | None \<Rightarrow>
          if http_status \<noteq> 200 then (print_to FIELD_BYTES (ascii ''OpenWeatherMap HTTP '' @ decimal http_status), pending)
          else case body of
            None \<Rightarrow> (ascii ''Invalid weather response'', pending)
          | Some text \<Rightarrow>
              if text = [] \<or> length text > Z80_WEATHER_BODY_MAX \<or> 0 \<in> set text
              then (ascii ''Invalid weather response'', pending)
              else case parse_body forecast text pending of (ok, pending) \<Rightarrow>
                (if ok then [] else ascii ''Invalid weather JSON fields'', pending))"

definition z80_weather_result :: "u64 \<Rightarrow> nat \<Rightarrow> bytes option \<Rightarrow> bytes option \<Rightarrow> weather \<Rightarrow> weather" where
  "z80_weather_result now http_status body error s0 =
     (if wx_phase s0 \<noteq> 1 \<and> wx_phase s0 \<noteq> 3 then s0
      else case weather_message http_status (wx_phase s0 = 3) body error (wx_pending s0) of (message, pending) \<Rightarrow>
        let s = s0\<lparr>wx_pending := pending\<rparr>
        in if wx_phase s = 1 then
             if message \<noteq> [] then weather_fail now message s
             else s\<lparr>wx_phase := 2, wx_fetch_due := now\<rparr>
           else
             let pending = (if message \<noteq> []
                   then pending[6 := [], 7 := [], 8 := [], 9 := [], 14 := [],
                          12 := print_to FIELD_BYTES (ascii ''Forecast: '' @ take 80 message)]
                   else pending)
             in s\<lparr>wx_pending := pending, wx_fields := pending, wx_have_data := True, wx_last_fetch := now,
                  wx_status := Z80_WEATHER_READY, wx_phase := 0, wx_fetch_due := now + REFRESH_MS\<rparr>)"

section \<open>Polling\<close>

definition z80_weather_init :: "weather \<Rightarrow> weather" where
  "z80_weather_init s = s\<lparr>wx_enabled := True\<rparr>"

definition go_offline :: "weather \<Rightarrow> weather" where
  "go_offline s =
     (if wx_phase s \<noteq> 0
      then (cancel_request s)\<lparr>wx_phase := 0, wx_status := (if wx_have_data s then Z80_WEATHER_READY else Z80_WEATHER_NONE),
             wx_fields := (wx_fields s)[12 := ascii ''Network or synchronized time unavailable'']\<rparr>
      else s)\<lparr>wx_was_online := False\<rparr>"

definition start_fetch :: "(bytes \<Rightarrow> bool) \<Rightarrow> u64 \<Rightarrow> weather \<Rightarrow> weather" where
  "start_fetch start later s0 =
     (let forecast = (wx_phase s0 = 2)
      in case build_path forecast (wx_config s0) of
           None \<Rightarrow> weather_fail later (ascii ''Invalid OWM_LOCATION; use a city or lat=...&lon=...'') s0
         | Some path \<Rightarrow>
             let s = (if forecast then s0 else s0\<lparr>wx_pending := no_fields[11 := wx_fields s0 ! 11]\<rparr>);
                 s = s\<lparr>wx_phase := (if forecast then 3 else 1), wx_status := Z80_WEATHER_FETCHING,
                       wx_calls := wx_calls s @ [Start_Request path]\<rparr>
             in if start path then s
                else z80_weather_result later 0 None (Some (ascii ''Cannot start weather HTTPS request'')) s)"

definition z80_weather_poll ::
    "(bytes \<Rightarrow> bool) \<Rightarrow> u64 \<Rightarrow> u64 \<Rightarrow> bool \<Rightarrow> environment \<Rightarrow> weather \<Rightarrow> environment \<times> weather" where
  "z80_weather_poll start now later online en0 s0 =
     (if \<not> wx_enabled s0 then (en0, s0)
      else case (if wx_config_due s0 \<le> now then weather_load_config later en0 (s0\<lparr>wx_config_due := now + CONFIG_MS\<rparr>)
                 else (False, en0, s0)) of (changed, en, s) \<Rightarrow>
        (en,
         if \<not> online then go_offline s
         else
           let s = (if \<not> wx_was_online s \<or> changed then s\<lparr>wx_fetch_due := now + SETTLE_MS\<rparr> else s)\<lparr>wx_was_online := True\<rparr>
           in if wc_error (wx_config s) \<noteq> [] \<or> wx_phase s \<noteq> 0 \<and> wx_phase s \<noteq> 2 \<or> now < wx_fetch_due s then s
              else start_fetch start later s))"

section \<open>The service\<close>

text \<open>The answer of the service: its error code, whether there is a response, and the bytes. \<open>request\<close> is the buffer, \<open>n\<close> the length.\<close>

definition z80_weather_service :: "u64 \<Rightarrow> bytes \<Rightarrow> nat \<Rightarrow> weather \<Rightarrow> (u8 \<times> bool \<times> bytes) \<times> weather" where
  "z80_weather_service now request n s =
     (if \<not> wx_enabled s then ((IO_SERVICE_UNAVAILABLE, False, []), s)
      else if request ! 0 > 1 then ((IO_SERVICE_UNKNOWN_OPERATION, False, []), s)
      else if n \<noteq> (if request ! 0 = 0 then 2 else 1) then ((IO_SERVICE_INVALID_LENGTH, False, []), s)
      else if request ! 0 = 1 then ((IO_SERVICE_OK, True, [wx_status s]), s)
      else
        let i = unat (request ! 1)
        in if i \<ge> FIELD_COUNT then ((IO_SERVICE_INVALID_PARAMETER, True, []), s)
           else if i \<noteq> 11 \<and> i \<noteq> 12 \<and> \<not> wx_have_data s then ((IO_SERVICE_UNAVAILABLE, True, []), s)
           else
             let s = (if i = 10 then s\<lparr>wx_fields := (wx_fields s)[10 := print_to FIELD_BYTES (decimal (unat ((now - wx_last_fetch s) div 1000)))]\<rparr>
                      else s)
             in ((IO_SERVICE_OK, True, wx_fields s ! i), s))"

section \<open>Fields fit their buffers\<close>

definition field_ok :: "bytes \<Rightarrow> bool" where
  "field_ok f \<longleftrightarrow> length f < FIELD_BYTES \<and> 0 \<notin> set f"

definition fields_ok :: "bytes list \<Rightarrow> bool" where
  "fields_ok fs \<longleftrightarrow> length fs = FIELD_COUNT \<and> (\<forall>f \<in> set fs. field_ok f)"

lemma fields_ok_update [intro]: "fields_ok fs \<Longrightarrow> field_ok v \<Longrightarrow> fields_ok (fs[i := v])"
  using set_update_subset_insert [of fs i v] by (auto simp: fields_ok_def)

lemma fields_ok_nth: "fields_ok fs \<Longrightarrow> i < FIELD_COUNT \<Longrightarrow> field_ok (fs ! i)"
  by (simp add: fields_ok_def)

lemma field_ok_Nil [simp]: "field_ok []"
  by (simp add: field_ok_def)

lemma no_fields_ok [simp]: "fields_ok no_fields"
  by (simp add: fields_ok_def no_fields_def)

lemma field_ok_print: "0 \<notin> set t \<Longrightarrow> field_ok (print_to FIELD_BYTES t)"
  by (auto simp: field_ok_def print_to_def dest: in_set_takeD)

lemma zero_ascii: "\<forall>c \<in> set t. of_char c \<noteq> (0 :: u8) \<Longrightarrow> 0 \<notin> set (ascii t)"
  by (auto simp: ascii_def image_iff)

lemma zero_decimal: "0 \<notin> set (decimal n)" "0 \<notin> set (decimal_int i)"
  using decimal_digits_only [of 0 n] decimal_digits_only [of 0 "nat i"] decimal_digits_only [of 0 "nat (- i)"]
  by (auto simp: is_digit_def decimal_int_def)

lemma scan_escape_byte: "c \<noteq> 0 \<Longrightarrow> fst (scan_escape c s) \<noteq> 0"
  by (auto simp: scan_escape_def Let_def)

lemma scan_string_fits:
  "length out < n \<Longrightarrow> 0 \<notin> set out \<Longrightarrow> length (snd (scan_string n s out)) < n \<and> 0 \<notin> set (snd (scan_string n s out))"
proof (induction n s out rule: scan_string.induct)
  case (2 n c s out)
  then show ?case
    using scan_escape_byte [of c s] by (cases "scan_escape c s") auto
qed simp

lemma field_ok_string: "field_ok (snd (json_scan_get_string s key FIELD_BYTES))"
  using scan_string_fits [of "[]" FIELD_BYTES] by (auto simp: json_scan_get_string_def field_ok_def split: option.splits)

lemma field_ok_number: "field_ok (snd (json_scan_get_number rg key FIELD_BYTES))"
  using field_ok_print [OF zero_decimal(2)]
  by (auto simp: json_scan_get_number_def print_to_def Let_def split: option.splits)

lemma fields_ok_get [intro]:
  "fields_ok out \<Longrightarrow> fields_ok (snd (get_string rg key i out))"
  "fields_ok out \<Longrightarrow> fields_ok (snd (get_number rg key i out))"
  using field_ok_string [of "fst rg" "ascii key"] field_ok_number [of rg "ascii key"]
  by (auto simp: get_string_def get_number_def split: prod.splits)

lemma fields_ok_and [intro]:
  "fields_ok (snd r) \<Longrightarrow> (\<And>out. fields_ok out \<Longrightarrow> fields_ok (snd (f out))) \<Longrightarrow> fields_ok (snd (weather_and r f))"
  by (simp add: weather_and_def)

lemma fields_ok_object [intro]:
  "fields_ok out \<Longrightarrow> (\<And>rg out. fields_ok out \<Longrightarrow> fields_ok (snd (f rg out))) \<Longrightarrow> fields_ok (snd (with_object found f out))"
  by (simp add: with_object_def split: option.split)

lemma field_ok_capitalize: "field_ok f \<Longrightarrow> field_ok (capitalize f)"
  by (auto simp: field_ok_def capitalize_def word_le_nat_alt split: list.splits)

lemma parse_conditions_ok: "fields_ok out \<Longrightarrow> fields_ok (snd (parse_conditions forecast item out))"
  unfolding parse_conditions_def Let_def
  by (intro fields_ok_object fields_ok_and fields_ok_get)
    (auto intro!: fields_ok_update field_ok_capitalize fields_ok_nth fields_ok_and fields_ok_object fields_ok_get split: if_splits)

lemma parse_body_ok: "fields_ok out \<Longrightarrow> fields_ok (snd (parse_body forecast body out))"
  using parse_conditions_ok by (auto simp: parse_body_def Let_def)

lemma message_ok:
  assumes "fields_ok pending" and "\<And>e. error = Some e \<Longrightarrow> 0 \<notin> set e"
    and "weather_message http_status forecast body error pending = (message, pending')"
  shows "field_ok message \<and> fields_ok pending'"
proof -
  have "0 \<notin> set (ascii ''OpenWeatherMap HTTP '' @ decimal http_status)"
    using zero_decimal by (simp add: ascii_def)
  note p = field_ok_print [OF this]
  have texts: "field_ok (ascii ''Invalid weather response'')" "field_ok (ascii ''Invalid weather JSON fields'')"
    by (simp_all add: field_ok_def length_ascii zero_ascii)
  show ?thesis
    using assms p texts parse_body_ok [OF assms(1), of forecast] field_ok_print
    by (auto simp: weather_message_def split: option.splits if_splits prod.splits) (metis snd_conv)+
qed

section \<open>Reachable states\<close>

text \<open>Settings that a request may be made with, and requests made with such settings.\<close>

definition good_config :: "weather_config \<Rightarrow> bool" where
  "good_config c \<longleftrightarrow> wc_key c \<noteq> [] \<and> wc_location c \<noteq> [] \<and> length (wc_key c) \<le> 40 \<and> length (wc_location c) \<le> 64 \<and>
     wc_units c \<in> {ascii ''metric'', ascii ''imperial'', ascii ''standard''}"

definition good_call :: "weather_call \<Rightarrow> bool" where
  "good_call call \<longleftrightarrow> (\<forall>path. call = Start_Request path \<longrightarrow> (\<exists>forecast c. good_config c \<and> build_path forecast c = Some path))"

definition config_inv :: "weather_config \<Rightarrow> bool" where
  "config_inv c \<longleftrightarrow> (wc_error c = [] \<longrightarrow> good_config c) \<and> length (wc_error c) < 64 \<and> 0 \<notin> set (wc_error c)"

definition weather_inv :: "weather \<Rightarrow> bool" where
  "weather_inv s \<longleftrightarrow> fields_ok (wx_fields s) \<and> fields_ok (wx_pending s) \<and>
     wx_phase s \<le> 3 \<and> (wx_status s = Z80_WEATHER_FETCHING \<longleftrightarrow> wx_phase s \<noteq> 0) \<and> wx_status s \<le> Z80_WEATHER_ERROR \<and>
     (wx_status s = Z80_WEATHER_READY \<longrightarrow> wx_have_data s) \<and>
     (config_inv (wx_config s) \<or> wx_config s = empty_config \<and> wx_config_due s = 0 \<and> wx_phase s = 0) \<and>
     (wc_error (wx_config s) \<noteq> [] \<longrightarrow> wx_phase s = 0 \<and> \<not> wx_have_data s) \<and>
     (\<forall>call \<in> set (wx_calls s). good_call call)"

inductive weather_reachable :: "weather \<Rightarrow> bool" where
  boot: "weather_reachable weather_boot"
| init: "weather_reachable s \<Longrightarrow> weather_reachable (z80_weather_init s)"
| poll: "weather_reachable s \<Longrightarrow> weather_reachable (snd (z80_weather_poll start now later online en s))"
| result: "weather_reachable s \<Longrightarrow> (\<And>e. error = Some e \<Longrightarrow> 0 \<notin> set e) \<Longrightarrow>
    weather_reachable (z80_weather_result now http_status body error s)"
| service: "weather_reachable s \<Longrightarrow> weather_reachable (snd (z80_weather_service now request n s))"

lemma read_setting_ok:
  assumes "length (wc_error (fst ce)) < 64" and "0 \<notin> set (wc_error (fst ce))" and "0 \<notin> set (ascii key)"
    and "\<And>v c. wc_error (put v c) = wc_error c"
  shows "length (wc_error (fst (read_setting key capacity put ce))) < 64 \<and> 0 \<notin> set (wc_error (fst (read_setting key capacity put ce)))"
proof -
  have "0 \<notin> set (ascii key @ ascii '' is too long'')"
    using assms(3) by (simp add: ascii_def)
  then have "0 \<notin> set (print_to 64 (ascii key @ ascii '' is too long''))"
    unfolding print_to_def by (metis in_set_takeD)
  then show ?thesis
    using assms by (auto simp: read_setting_def print_to_def split: prod.splits option.splits)
qed

lemma read_setting_lengths:
  assumes "\<And>v. length v < capacity \<Longrightarrow> length (get (put v (fst ce))) < m" and "length (get (fst ce)) < m"
    and "\<And>c e. get (c\<lparr>wc_error := e\<rparr>) = get c"
  shows "length (get (fst (read_setting key capacity put ce))) < m"
  using assms by (auto simp: read_setting_def split: prod.splits option.splits)

lemma config_texts:
  "length (ascii ''Set OWM_KEY and OWM_LOCATION in ENV'') < 64 \<and> 0 \<notin> set (ascii ''Set OWM_KEY and OWM_LOCATION in ENV'')"
  "length (ascii ''OWM_UNITS must be metric, imperial or standard'') < 64 \<and> 0 \<notin> set (ascii ''OWM_UNITS must be metric, imperial or standard'')"
  "length (ascii ''Cannot read weather ENV settings'') < 64 \<and> 0 \<notin> set (ascii ''Cannot read weather ENV settings'')"
  "ascii ''Set OWM_KEY and OWM_LOCATION in ENV'' \<noteq> []" "ascii ''OWM_UNITS must be metric, imperial or standard'' \<noteq> []"
  "ascii ''Cannot read weather ENV settings'' \<noteq> []" "ascii ''metric'' \<noteq> []"
  by (simp_all add: ascii_def)

lemma check_config_inv:
  assumes "length (wc_error c) < 64" and "0 \<notin> set (wc_error c)" and "length (wc_key c) \<le> 40" and "length (wc_location c) \<le> 64"
  shows "config_inv (check_config c)" and "wc_units (check_config c) \<noteq> []"
  using assms config_texts by (auto simp: check_config_def config_inv_def good_config_def Let_def)

lemma read_config_inv: "config_inv (fst (read_config en)) \<and> fst (read_config en) \<noteq> empty_config"
proof -
  let ?e = "environment_io_init (environment_io_close en)"
  let ?a = "read_setting ''OWM_KEY'' 41 (\<lambda>v c. c\<lparr>wc_key := v\<rparr>) (empty_config, ?e)"
  let ?b = "read_setting ''OWM_LOCATION'' 65 (\<lambda>v c. c\<lparr>wc_location := v\<rparr>) ?a"
  let ?c = "read_setting ''OWM_UNITS'' 12 (\<lambda>v c. c\<lparr>wc_units := v\<rparr>) ?b"
  have a: "length (wc_error (fst ?a)) < 64 \<and> 0 \<notin> set (wc_error (fst ?a))"
    by (rule read_setting_ok) (simp_all add: empty_config_def ascii_def)
  have b: "length (wc_error (fst ?b)) < 64 \<and> 0 \<notin> set (wc_error (fst ?b))"
    using a by (intro read_setting_ok) (simp_all add: ascii_def)
  have c: "length (wc_error (fst ?c)) < 64 \<and> 0 \<notin> set (wc_error (fst ?c))"
    using b by (intro read_setting_ok) (simp_all add: ascii_def)
  have "length (wc_key (fst ?a)) < 41" "length (wc_location (fst ?a)) < 65"
    by (rule read_setting_lengths; simp add: empty_config_def)+
  then have "length (wc_key (fst ?b)) < 41" "length (wc_location (fst ?b)) < 65"
    by - (rule read_setting_lengths; simp)+
  then have "length (wc_key (fst ?c)) < 41" "length (wc_location (fst ?c)) < 65"
    by - (rule read_setting_lengths; simp)+
  with c check_config_inv [of "fst ?c"] show ?thesis
    using config_texts by (auto simp: read_config_def Let_def config_inv_def empty_config_def)
qed

lemma weather_fail_inv:
  assumes "fields_ok (wx_fields s)" and "fields_ok (wx_pending s)" and "config_inv (wx_config s)"
    and "wc_error (wx_config s) \<noteq> [] \<longrightarrow> \<not> wx_have_data s" and "\<forall>call \<in> set (wx_calls s). good_call call" and "0 \<notin> set message"
  shows "weather_inv (weather_fail now message s)"
  using assms field_ok_print [OF assms(6)] by (auto simp: weather_fail_def weather_inv_def)

lemma weather_load_inv:
  assumes "weather_inv s" and "weather_load_config now en (s\<lparr>wx_config_due := due\<rparr>) = (changed, en', s')"
  shows "weather_inv s' \<and> config_inv (wx_config s') \<and> wx_was_online s' = wx_was_online s"
proof -
  obtain c en'' where c: "read_config en = (c, en'')"
    by fastforce
  then have ci: "config_inv c"
    using read_config_inv [of en] by simp
  show ?thesis
  proof (cases "c = wx_config s")
    case True
    with assms c ci show ?thesis
      by (auto simp: weather_load_config_def weather_inv_def)
  next
    case False
    let ?s = "(cancel_request (s\<lparr>wx_config_due := due\<rparr>))\<lparr>wx_config := c, wx_fields := no_fields[11 := unit_text (wc_units c)],
      wx_have_data := False, wx_phase := 0, wx_startup_retries := 0, wx_status := Z80_WEATHER_NONE\<rparr>"
    have f: "fields_ok (no_fields[11 := unit_text (wc_units c)])"
      by (intro fields_ok_update no_fields_ok) (auto simp: field_ok_def unit_text_def ascii_def)
    have calls: "\<forall>call \<in> set (wx_calls ?s). good_call call"
      using assms(1) by (auto simp: weather_inv_def cancel_request_def good_call_def)
    have "weather_inv (weather_fail now (wc_error c) ?s)"
      using f calls ci assms(1) by (intro weather_fail_inv) (auto simp: config_inv_def weather_inv_def cancel_request_def)
    moreover have "weather_inv ?s"
      using f calls ci assms(1) by (auto simp: weather_inv_def cancel_request_def)
    ultimately show ?thesis
      using assms(2) c ci False by (auto simp: weather_load_config_def Let_def weather_fail_def cancel_request_def split: if_splits)
  qed
qed

lemma weather_result_inv:
  assumes "weather_inv s" and "\<And>e. error = Some e \<Longrightarrow> 0 \<notin> set e"
  shows "weather_inv (z80_weather_result now http_status body error s)"
proof (cases "wx_phase s = 1 \<or> wx_phase s = 3")
  case True
  obtain message pending where m: "weather_message http_status (wx_phase s = 3) body error (wx_pending s) = (message, pending)"
    by fastforce
  have "field_ok message \<and> fields_ok pending"
    using message_ok [OF _ assms(2) m] assms(1) by (simp add: weather_inv_def)
  then have message: "field_ok message" and p: "fields_ok pending"
    by simp_all
  have ci: "config_inv (wx_config s)"
    using assms(1) True by (auto simp: weather_inv_def)
  have "0 \<notin> set (ascii ''Forecast: '' @ take 80 message)"
    using message by (auto simp: field_ok_def ascii_def dest: in_set_takeD)
  then have "fields_ok (pending[6 := [], 7 := [], 8 := [], 9 := [], 14 := [], 12 := print_to FIELD_BYTES (ascii ''Forecast: '' @ take 80 message)])"
    using p by (intro fields_ok_update field_ok_print field_ok_Nil)
  moreover have "weather_inv (weather_fail now message (s\<lparr>wx_pending := pending\<rparr>))"
    using assms(1) p ci message True by (intro weather_fail_inv) (auto simp: weather_inv_def field_ok_def)
  ultimately show ?thesis
    using True assms(1) p ci m by (auto simp: z80_weather_result_def Let_def weather_inv_def)
next
  case False
  with assms(1) show ?thesis
    by (simp add: z80_weather_result_def)
qed

lemma weather_start_inv:
  assumes "weather_inv s" and "config_inv (wx_config s)" and "wc_error (wx_config s) = []" and "wx_phase s = 0 \<or> wx_phase s = 2"
  shows "weather_inv (start_fetch start later s)"
proof (cases "build_path (wx_phase s = 2) (wx_config s)")
  case None
  have "0 \<notin> set (ascii ''Invalid OWM_LOCATION; use a city or lat=...&lon=...'')"
    by (simp add: ascii_def)
  then have "weather_inv (weather_fail later (ascii ''Invalid OWM_LOCATION; use a city or lat=...&lon=...'') s)"
    using assms by (intro weather_fail_inv) (auto simp: weather_inv_def)
  then show ?thesis
    using None by (simp add: start_fetch_def)
next
  case (Some path)
  let ?p = "if wx_phase s = 2 then wx_pending s else no_fields[11 := wx_fields s ! 11]"
  let ?s = "s\<lparr>wx_pending := ?p, wx_phase := (if wx_phase s = 2 then 3 else 1), wx_status := Z80_WEATHER_FETCHING,
      wx_calls := wx_calls s @ [Start_Request path]\<rparr>"
  have "good_config (wx_config s)"
    using assms(2,3) by (simp add: config_inv_def)
  then have "good_call (Start_Request path)"
    using Some by (auto simp: good_call_def)
  moreover have "fields_ok ?p"
    using assms(1) by (auto intro!: fields_ok_update fields_ok_nth simp: weather_inv_def)
  ultimately have i: "weather_inv ?s"
    using assms by (auto simp: weather_inv_def)
  have "0 \<notin> set (ascii ''Cannot start weather HTTPS request'')"
    by (simp add: ascii_def)
  then have "weather_inv (z80_weather_result later 0 None (Some (ascii ''Cannot start weather HTTPS request'')) ?s)"
    by (intro weather_result_inv i) auto
  moreover have "start_fetch start later s =
      (if start path then ?s else z80_weather_result later 0 None (Some (ascii ''Cannot start weather HTTPS request'')) ?s)"
    by (simp add: start_fetch_def Some Let_def)
  ultimately show ?thesis
    using i by simp
qed

lemma weather_poll_inv:
  assumes "weather_inv s"
  shows "weather_inv (snd (z80_weather_poll start now later online en s))"
proof (cases "wx_enabled s")
  case True
  obtain changed en' t where l: "(if wx_config_due s \<le> now then weather_load_config later en (s\<lparr>wx_config_due := now + CONFIG_MS\<rparr>)
      else (False, en, s)) = (changed, en', t)"
    by (metis prod_cases3)
  have t: "weather_inv t \<and> config_inv (wx_config t)"
    using weather_load_inv [OF assms, of later en "now + CONFIG_MS" changed en' t] l assms
    by (auto simp: weather_inv_def split: if_splits)
  have "field_ok (ascii ''Network or synchronized time unavailable'')"
    by (simp add: field_ok_def ascii_def)
  then have "weather_inv (go_offline t)"
    using t by (auto simp: go_offline_def weather_inv_def cancel_request_def good_call_def)
  moreover have i: "weather_inv (t\<lparr>wx_fetch_due := d, wx_was_online := w\<rparr>)" "weather_inv (t\<lparr>wx_was_online := w\<rparr>)" for w d
    using t by (simp_all add: weather_inv_def)
  moreover have "weather_inv (start_fetch start later (t\<lparr>wx_fetch_due := d, wx_was_online := w\<rparr>))"
      "weather_inv (start_fetch start later (t\<lparr>wx_was_online := w\<rparr>))"
    if "wc_error (wx_config t) = []" "wx_phase t = 0 \<or> wx_phase t = 2" for w d
    using that t by (auto intro!: weather_start_inv i)
  ultimately show ?thesis
    using True l unfolding z80_weather_poll_def Let_def by (simp split del: if_split) (auto split: if_splits)
qed (simp add: z80_weather_poll_def assms)

lemma weather_service_inv: "weather_inv s \<Longrightarrow> weather_inv (snd (z80_weather_service now request n s))"
  using field_ok_print [OF zero_decimal(1)] by (auto simp: z80_weather_service_def weather_inv_def Let_def)

lemma weather_boot_inv: "weather_inv weather_boot" and weather_init_inv: "weather_inv s \<Longrightarrow> weather_inv (z80_weather_init s)"
  by (auto simp: weather_inv_def weather_boot_def z80_weather_init_def empty_config_def)

lemma weather_reachable_inv: "weather_reachable s \<Longrightarrow> weather_inv s"
  by (induction rule: weather_reachable.induct) (auto intro: weather_boot_inv weather_init_inv weather_poll_inv weather_result_inv weather_service_inv)

section \<open>A sample run\<close>

text \<open>An environment with a key and a location, and the settings it gives.\<close>

lemma sample_settings:
  obtains en :: environment where "stored_entries (be_flash (en_backend en)) = (0, [(ascii ''OWM_KEY'', [75]), (ascii ''OWM_LOCATION'', [88])])"
proof -
  have w: "flash_device (ew_dev sample_world)" "bus_acquired (ew_first sample_world)" "bus_released (ew_first sample_world)"
    "lockout_ok (ew_first sample_world)" "bus_acquired (ew_second sample_world)" "bus_released (ew_second sample_world)"
    "lockout_ok (ew_second sample_world)"
    using host.flash_device_axioms by (simp_all add: sample_world_def bus_granted_def)
  have keys: "env_key_valid (ascii ''OWM_KEY'')" "clean (ascii ''OWM_KEY'')" "env_key_valid (ascii ''OWM_LOCATION'')"
    "clean (ascii ''OWM_LOCATION'')" "clean [75]" "clean [88]"
    by (simp_all add: env_key_valid_def ascii_def)
  have entries: "set_entry (ascii ''OWM_KEY'') [75] [] = [(ascii ''OWM_KEY'', [75])]"
    "set_entry (ascii ''OWM_LOCATION'') [88] [(ascii ''OWM_KEY'', [75])] = [(ascii ''OWM_KEY'', [75]), (ascii ''OWM_LOCATION'', [88])]"
    by (simp_all add: set_entry_def put_entry_def ascii_def)
  have "\<exists>s1 :: environment. stored_entries (be_flash (en_backend s1)) = (0, [(ascii ''OWM_KEY'', [75])])"
    using set_value_succeeds [OF w(1) sample_facts(7) _ w(2-7) keys(1,2,5)]
    by (auto simp: sample_facts blank_current entries entry_bytes_def length_ascii)
  then obtain s1 :: environment where s1: "stored_entries (be_flash (en_backend s1)) = (0, [(ascii ''OWM_KEY'', [75])])"
    by blast
  let ?s = "s1\<lparr>en_entries := [(ascii ''OWM_KEY'', [75])], en_initialized := True, en_request := [], en_status := 0\<rparr>"
  have "env_core ?s"
    by (simp add: env_core_def s1)
  moreover have "fst (current_slot (be_flash (en_backend ?s))) \<noteq> -2"
    using s1 by (auto simp: stored_entries_def z80_env_snapshot_load_def split: prod.splits if_splits)
  ultimately have "\<exists>s2 :: environment. stored_entries (be_flash (en_backend s2)) = (0, [(ascii ''OWM_KEY'', [75]), (ascii ''OWM_LOCATION'', [88])])"
    using set_value_succeeds [OF w(1) _ _ w(2-7) keys(3,4,6), of ?s]
    by (auto simp: entries entry_bytes_def length_ascii)
  then show thesis
    using that by blast
qed

definition sample_config :: weather_config where
  "sample_config = \<lparr>wc_key = [75], wc_location = [88], wc_units = ascii ''metric'', wc_error = []\<rparr>"

lemma sample_read:
  assumes "stored_entries (be_flash (en_backend en)) = (0, [(ascii ''OWM_KEY'', [75]), (ascii ''OWM_LOCATION'', [88])])"
  shows "fst (read_config en) = sample_config"
    and "stored_entries (be_flash (en_backend (snd (read_config en)))) = stored_entries (be_flash (en_backend en))"
proof -
  let ?e = "environment_io_init (environment_io_close en)"
  have e: "en_initialized ?e" "en_status ?e = 0" "en_entries ?e = [(ascii ''OWM_KEY'', [75]), (ascii ''OWM_LOCATION'', [88])]"
    "be_flash (en_backend ?e) = be_flash (en_backend en)"
    by (simp_all add: environment_io_init_def environment_io_close_def env_load_file_stored env_reset_request_def assms)
  then have "environment_io_get (ascii ''OWM_KEY'') 256 ?e = (Some [75], ?e)" "environment_io_get (ascii ''OWM_LOCATION'') 256 ?e = (Some [88], ?e)"
    "environment_io_get (ascii ''OWM_UNITS'') 256 ?e = (None, ?e)"
    by (simp_all add: environment_io_get_def environment_io_init_def env_get_value_def env_key_valid_def env_normalize_key_def
        ascii_def to_upper_def)
  then have r: "read_config en = (check_config \<lparr>wc_key = [75], wc_location = [88], wc_units = [], wc_error = []\<rparr>, ?e)"
    using e by (simp add: read_config_def read_setting_def environment_input_def Let_def empty_config_def)
  show "fst (read_config en) = sample_config"
    by (simp add: r check_config_def sample_config_def)
  show "stored_entries (be_flash (en_backend (snd (read_config en)))) = stored_entries (be_flash (en_backend en))"
    using e(4) by (simp add: r)
qed

definition sample_path :: bytes where
  "sample_path = ascii ''/data/2.5/weather?q=X&appid=K&units=metric''"

lemma sample_built: "build_path False sample_config = Some sample_path"
  by code_simp

lemma sample_fetch:
  obtains s where "weather_reachable s" and "wx_enabled s" and "wx_phase s = 1" and "wx_config s = sample_config"
    and "wx_calls s = [Cancel_Request, Start_Request sample_path]" and "wx_pending s = no_fields[11 := [67]]"
    and "wx_was_online s" and "wx_config_due s = 7000"
proof -
  obtain en :: environment where
    en: "stored_entries (be_flash (en_backend en)) = (0, [(ascii ''OWM_KEY'', [75]), (ascii ''OWM_LOCATION'', [88])])"
    by (rule sample_settings)
  obtain en' where r: "read_config en = (sample_config, en')"
    using sample_read(1) [OF en] by (cases "read_config en") auto
  let ?start = "\<lambda>_ :: bytes. True"
  let ?s0 = "z80_weather_init weather_boot"
  define t1 where "t1 = weather_boot\<lparr>wx_enabled := True, wx_config_due := 1000, wx_calls := [Cancel_Request],
      wx_config := sample_config, wx_fields := no_fields[11 := [67]], wx_fetch_due := 5000, wx_was_online := True\<rparr>"
  define t2 where "t2 = t1\<lparr>wx_config_due := 7000, wx_pending := no_fields[11 := [67]], wx_phase := 1,
      wx_status := Z80_WEATHER_FETCHING, wx_calls := [Cancel_Request, Start_Request sample_path]\<rparr>"
  have "snd (z80_weather_poll ?start 0 0 True en ?s0) = t1"
    by (simp add: z80_weather_poll_def z80_weather_init_def weather_load_config_def r cancel_request_def Let_def weather_boot_def
        sample_config_def empty_config_def unit_text_def t1_def) (simp add: ascii_def)
  then have "weather_reachable t1"
    by (metis weather_reachable.boot weather_reachable.init weather_reachable.poll)
  moreover have "snd (z80_weather_poll ?start 6000 6000 True en t1) = t2"
    by (simp add: z80_weather_poll_def weather_load_config_def r Let_def weather_boot_def start_fetch_def sample_built t1_def t2_def)
      (simp add: sample_config_def no_fields_def)
  ultimately have "weather_reachable t2"
    by (metis weather_reachable.poll)
  then show thesis
    by (rule that) (simp_all add: t1_def t2_def weather_boot_def)
qed

section \<open>Properties\<close>

text \<open>
  C19. In every state that polls, responses of any kind and requests of the Z80 can lead to, each field and the answer to every request is a
  string that fits its buffer, requests have been made only with complete settings of the allowed lengths, the status says that a fetch is under way
  exactly while one is, and data is shown as ready only when there is some; while the settings are wrong nothing is fetched.
\<close>

theorem weather_state_consistent:
  assumes "weather_reachable s"
  shows "(\<forall>f \<in> set (wx_fields s). length f < FIELD_BYTES \<and> 0 \<notin> set f) \<and> length (wx_fields s) = FIELD_COUNT \<and>
    length (snd (snd (fst (z80_weather_service now request n s)))) < FIELD_BYTES \<and>
    (wx_status s = Z80_WEATHER_FETCHING \<longleftrightarrow> wx_phase s \<noteq> 0) \<and> wx_phase s \<le> 3 \<and>
    (wx_status s = Z80_WEATHER_READY \<longrightarrow> wx_have_data s) \<and>
    (wc_error (wx_config s) \<noteq> [] \<longrightarrow> wx_phase s = 0 \<and> \<not> wx_have_data s) \<and>
    (\<forall>path. Start_Request path \<in> set (wx_calls s) \<longrightarrow> (\<exists>forecast c. good_config c \<and> build_path forecast c = Some path))"
proof -
  have i: "weather_inv s"
    by (rule weather_reachable_inv [OF assms])
  then have f: "fields_ok (wx_fields s)"
    by (simp add: weather_inv_def)
  have "length (snd (snd (fst (z80_weather_service now request n s)))) < FIELD_BYTES"
    using fields_ok_nth [OF f] fields_ok_nth [OF fields_ok_update [OF f field_ok_print [OF zero_decimal(1)]]]
    by (auto simp: z80_weather_service_def Let_def field_ok_def)
  with i show ?thesis
    by (auto simp: weather_inv_def fields_ok_def field_ok_def good_call_def)
qed

theorem weather_state_consistent_witness:
  "\<exists>s :: weather. Start_Request sample_path \<in> set (wx_calls s) \<and> wx_status s = Z80_WEATHER_FETCHING \<and>
    (\<exists>forecast c. good_config c \<and> build_path forecast c = Some sample_path)"
proof -
  obtain s where s: "weather_reachable s" "wx_phase s = 1" "wx_calls s = [Cancel_Request, Start_Request sample_path]"
    by (rule sample_fetch)
  from weather_state_consistent [OF s(1), of 0 "[]" 0] s(2,3) show ?thesis
    by (intro exI [of _ s]) auto
qed

end
