(* ===== verification/Weather_Report.thy ===== *)
theory Weather_Report
  imports Weather "HOL-Library.Sublist"
begin

text \<open>
  How the requests of the weather service read at the other end: the path and the query string as a web server takes them apart.
\<close>

section \<open>Requests\<close>

text \<open>A server's reading of a path: the target before the question mark, and the parameters behind it.\<close>

fun percent_decode :: "bytes \<Rightarrow> bytes" where
  "percent_decode (c # s) =
     (if c \<noteq> 37 then c # percent_decode s
      else case s of
        a # b # r \<Rightarrow> (case (digit_value a, digit_value b) of
            (Some x, Some y) \<Rightarrow> of_nat (16 * x + y) # percent_decode r
          | _ \<Rightarrow> c # percent_decode s)
      | _ \<Rightarrow> c # percent_decode s)"
| "percent_decode [] = []"

fun split_at :: "u8 \<Rightarrow> bytes \<Rightarrow> bytes list" where
  "split_at d [] = [[]]"
| "split_at d (c # s) = (if c = d then [] # split_at d s else (case split_at d s of p # ps \<Rightarrow> (c # p) # ps | [] \<Rightarrow> [[c]]))"

definition parameter :: "bytes \<Rightarrow> bytes \<times> bytes" where
  "parameter p = (takeWhile (\<lambda>c. c \<noteq> 61) p, percent_decode (drop 1 (dropWhile (\<lambda>c. c \<noteq> 61) p)))"

definition request_target :: "bytes \<Rightarrow> bytes" where
  "request_target path = takeWhile (\<lambda>c. c \<noteq> 63) path"

definition request_parameters :: "bytes \<Rightarrow> (bytes \<times> bytes) list" where
  "request_parameters path = map parameter (split_at 38 (drop 1 (dropWhile (\<lambda>c. c \<noteq> 63) path)))"

definition query_char :: "u8 \<Rightarrow> bool" where
  "query_char c \<longleftrightarrow> unreserved c \<or> c = 37"

lemma unreserved_char: "unreserved c \<Longrightarrow> c \<notin> {37, 38, 61, 63} \<and> 32 < c \<and> c < 127"
  by (auto simp: unreserved_def is_alpha_def is_digit_def word_le_nat_alt word_less_nat_alt)

lemma query_char: "query_char c \<Longrightarrow> c \<notin> {38, 61, 63} \<and> 32 < c \<and> c < 127"
  using unreserved_char by (auto simp: query_char_def)

lemma upper_hex_value:
  assumes "n < 16"
  shows "digit_value (upper_hex n) = Some (unat n)" and "unreserved (upper_hex n)"
proof -
  have "list_all (\<lambda>n. digit_value (upper_hex n) = Some (unat n) \<and> unreserved (upper_hex n)) (map of_nat [0..<16])"
    by code_simp
  moreover have "n \<in> set (map of_nat [0..<16])"
    using assms by (auto simp: word_less_nat_alt intro!: image_eqI [of _ _ "unat n"])
  ultimately show "digit_value (upper_hex n) = Some (unat n)" "unreserved (upper_hex n)"
    unfolding list_all_iff by blast+
qed

lemma nibbles: "unat (drop_bit 4 (c :: u8)) = unat c div 16" "unat (c AND 15) = unat c mod 16"
  using unsigned_drop_bit_eq [of 4 c, where 'a = nat] and_pow2_minus_1 [of "unat c" 4] unat_bound [of c]
    take_bit_nat_eq_self [of "unat c" 8]
  by (simp_all add: drop_bit_eq_div unsigned_and_eq)

lemma encoded_byte:
  "digit_value (upper_hex (drop_bit 4 c)) = Some (unat (drop_bit 4 c))" "digit_value (upper_hex (c AND 15)) = Some (unat (c AND 15))"
  "16 * unat (drop_bit 4 c) + unat (c AND 15) = unat c"
  "unreserved (upper_hex (drop_bit 4 c))" "unreserved (upper_hex (c AND 15))"
proof -
  have "drop_bit 4 c < 16" "c AND 15 < 16"
    using unat_bound [of c] by (simp_all add: word_less_nat_alt nibbles)
  then show "digit_value (upper_hex (drop_bit 4 c)) = Some (unat (drop_bit 4 c))"
      "digit_value (upper_hex (c AND 15)) = Some (unat (c AND 15))"
      "unreserved (upper_hex (drop_bit 4 c))" "unreserved (upper_hex (c AND 15))"
    by (simp_all add: upper_hex_value)
qed (simp add: nibbles)

lemma url_encode_chars: "c \<in> set (url_encode s) \<Longrightarrow> query_char c"
  by (induction s) (auto simp: query_char_def encoded_byte split: if_splits)

lemma percent_decode_encode [simp]: "percent_decode (url_encode s) = s"
  using unreserved_char by (induction s) (auto simp: encoded_byte)

lemma percent_decode_plain: "37 \<notin> set s \<Longrightarrow> percent_decode s = s"
  by (induction s) auto

lemma length_url_encode: "length (url_encode s) \<le> 3 * length s"
  by (induction s) auto

lemma split_at_none [simp]: "d \<notin> set s \<Longrightarrow> split_at d s = [s]"
  by (induction s) auto

lemma split_at_append [simp]: "d \<notin> set s \<Longrightarrow> split_at d (s @ d # t) = s # split_at d t"
  by (induction s) auto

lemma parameter_named [simp]: "61 \<notin> set k \<Longrightarrow> parameter (k @ 61 # v) = (k, percent_decode v)"
  by (induction k) (auto simp: parameter_def)

text \<open>The parameters of a location: a name, or a latitude and a longitude.\<close>

definition location_parameters :: "bytes \<Rightarrow> (bytes \<times> bytes) list \<Rightarrow> bool" where
  "location_parameters location ps \<longleftrightarrow>
     (if take 4 location = ascii ''lat=''
      then \<exists>lat lon. location = ascii ''lat='' @ lat @ ascii ''&lon='' @ lon \<and> ps = [(ascii ''lat'', lat), (ascii ''lon'', lon)]
      else ps = [(ascii ''q'', location)])"

lemma suffix_tl_trans [intro]: "suffix r (tl s) \<Longrightarrow> suffix r s" and suffix_drop_trans [intro]: "suffix r (drop n s) \<Longrightarrow> suffix r s"
    and suffix_dropWhile_trans [intro]: "suffix r (dropWhile P s) \<Longrightarrow> suffix r s"
  using suffix_order.trans suffix_tl suffix_drop suffix_dropWhile by blast+

lemma sign_suffix: "c_sign s = (neg, r) \<Longrightarrow> suffix r s"
  by (auto simp: c_sign_def split: if_splits)

lemma significand_suffix: "significand b s = Some (m, k, r) \<Longrightarrow> suffix r s"
  by (auto simp: significand_def Let_def suffix_dropWhile split: if_splits)

lemma exponent_suffix: "exponent_part m s = (e, r) \<Longrightarrow> suffix r s"
  by (auto simp: exponent_part_def Let_def split: if_splits prod.splits dest!: sign_suffix
      intro: suffix_order.trans [OF suffix_dropWhile])

lemma nan_suffix: "suffix (after_nan s) s"
  by (auto simp: after_nan_def Let_def intro: suffix_order.trans [OF suffix_tl])

lemma float_suffix: "read_float s = Some (v, r) \<Longrightarrow> suffix r s"
  using nan_suffix [of "drop 3 s"]
  by (auto simp: read_float_def suffix_drop split: if_splits option.splits prod.splits
      dest!: significand_suffix exponent_suffix intro: suffix_order.trans)

lemma strtod_suffix: "strtod s = Some (v, e, r) \<Longrightarrow> suffix r s"
  by (auto simp: strtod_def Let_def split: prod.splits option.splits if_splits dest!: sign_suffix float_suffix
      intro: suffix_order.trans)

lemma coordinate_split: "coordinate limit s = Some r \<Longrightarrow> s = take (length s - length r) s @ r"
  using strtod_suffix [of s] by (auto simp: coordinate_def suffix_def split: option.splits prod.splits if_splits)

text \<open>The literal parts of a path, with the characters that separate.\<close>

lemma query_texts:
  "ascii ''lat='' = ascii ''lat'' @ [61]" "ascii ''&lon='' = 38 # ascii ''lon'' @ [61]" "ascii ''q='' = ascii ''q'' @ [61]"
  "ascii ''&appid='' = 38 # ascii ''appid'' @ [61]" "ascii ''&units='' = 38 # ascii ''units'' @ [61]"
  "ascii ''&cnt=1'' = 38 # ascii ''cnt'' @ 61 # ascii ''1''" "ascii ''?'' = [63]"
  by (simp_all add: ascii_def)

lemma plain_texts:
  "\<forall>k \<in> {''lat'', ''lon'', ''q'', ''appid'', ''units'', ''cnt'', ''1'', ''metric'', ''imperial'', ''standard''}.
    \<forall>c \<in> set (ascii k). unreserved c"
  by (simp add: ascii_def unreserved_def is_alpha_def is_digit_def)

lemma plain_text:
  assumes "k \<in> {''lat'', ''lon'', ''q'', ''appid'', ''units'', ''cnt'', ''1'', ''metric'', ''imperial'', ''standard''}"
  shows "38 \<notin> set (ascii k)" "61 \<notin> set (ascii k)" "37 \<notin> set (ascii k)" "63 \<notin> set (ascii k)"
    "\<forall>c \<in> set (ascii k). 32 < c \<and> c < 127"
proof -
  have "unreserved c" if "c \<in> set (ascii k)" for c
    by (rule bspec [OF bspec [OF plain_texts assms] that])
  then show "38 \<notin> set (ascii k)" "61 \<notin> set (ascii k)" "37 \<notin> set (ascii k)" "63 \<notin> set (ascii k)"
      "\<forall>c \<in> set (ascii k). 32 < c \<and> c < 127"
    using unreserved_char by fastforce+
qed

lemma encoded_text: "38 \<notin> set (url_encode v)" "63 \<notin> set (url_encode v)" "\<forall>c \<in> set (url_encode v). 32 < c \<and> c < 127"
  using url_encode_chars query_char by blast+

lemma location_read:
  assumes "location_query location = Some q"
  shows "\<exists>ps. location_parameters location ps \<and>
    (\<forall>r. map parameter (split_at 38 (q @ 38 # r)) = ps @ map parameter (split_at 38 r))"
    and "length q \<le> 12 + 3 * length location"
    and "\<forall>c \<in> set q. 32 < c \<and> c < 127 \<and> c \<noteq> 63"
proof -
  have "\<exists>ps. location_parameters location ps \<and>
    (\<forall>r. map parameter (split_at 38 (q @ 38 # r)) = ps @ map parameter (split_at 38 r)) \<and>
    length q \<le> 12 + 3 * length location \<and> (\<forall>c \<in> set q. 32 < c \<and> c < 127 \<and> c \<noteq> 63)"
  proof (cases "take 4 location = ascii ''lat=''")
    case True
    define lat where "lat = drop 4 location"
    obtain r where r: "coordinate 90 lat = Some r" "take 5 r = ascii ''&lon=''"
      and q: "q = ascii ''lat='' @ url_encode (take (length lat - length r) lat) @ ascii ''&lon='' @ url_encode (drop 5 r)"
      using assms True by (auto simp: location_query_def lat_def Let_def split: option.splits if_splits)
    define x where "x = take (length lat - length r) lat"
    have "location = ascii ''lat='' @ x @ ascii ''&lon='' @ drop 5 r"
      using coordinate_split [OF r(1)] True r(2) by (metis append_take_drop_id lat_def x_def)
    then have location: "location = ascii ''lat='' @ x @ ascii ''&lon='' @ drop 5 r"
      and q': "q = (ascii ''lat'' @ 61 # url_encode x) @ 38 # ascii ''lon'' @ 61 # url_encode (drop 5 r)"
      using q by (simp_all add: x_def query_texts)
    let ?ps = "[(ascii ''lat'', x), (ascii ''lon'', drop 5 r)]"
    note plain = plain_text [of "''lat''", simplified] plain_text [of "''lon''", simplified]
    note encoded = encoded_text [of x] encoded_text [of "drop 5 r"]
    have "location_parameters location ?ps"
      unfolding location_parameters_def if_P [OF True] by (intro exI conjI, rule location, rule refl)
    moreover have "map parameter (split_at 38 (q @ 38 # t)) = ?ps @ map parameter (split_at 38 t)" for t
      using plain encoded split_at_append [of 38 "ascii ''lat'' @ 61 # url_encode x"]
        split_at_append [of 38 "ascii ''lon'' @ 61 # url_encode (drop 5 r)" t]
      by (simp add: q')
    moreover have "length q \<le> 12 + 3 * length location"
      using length_url_encode [of x] length_url_encode [of "drop 5 r"] by (simp add: q' location length_ascii)
    moreover have "\<forall>c \<in> set q. 32 < c \<and> c < 127 \<and> c \<noteq> 63"
      using plain encoded by (auto simp: q')
    ultimately show ?thesis
      by blast
  next
    case False
    with assms have "q = ascii ''q'' @ 61 # url_encode location"
      by (simp add: location_query_def query_texts)
    with False show ?thesis
      using encoded_text [of location] length_url_encode [of location] plain_text [of "''q''"]
        split_at_append [of 38 "ascii ''q'' @ 61 # url_encode location"]
      by (auto simp: location_parameters_def length_ascii)
  qed
  then show "\<exists>ps. location_parameters location ps \<and>
      (\<forall>r. map parameter (split_at 38 (q @ 38 # r)) = ps @ map parameter (split_at 38 r))"
    "length q \<le> 12 + 3 * length location" "\<forall>c \<in> set q. 32 < c \<and> c < 127 \<and> c \<noteq> 63"
    by blast+
qed

lemma path_read:
  assumes "good_config c" and "build_path forecast c = Some path"
  shows "request_target path = ascii ''/data/2.5/'' @ ascii (if forecast then ''forecast'' else ''weather'')"
    and "\<exists>ps. location_parameters (wc_location c) ps \<and>
      request_parameters path = ps @ [(ascii ''appid'', wc_key c), (ascii ''units'', wc_units c)] @
        (if forecast then [(ascii ''cnt'', ascii ''1'')] else [])"
    and "\<forall>c \<in> set path. 32 < c \<and> c < 127"
proof -
  let ?t = "ascii ''/data/2.5/'' @ ascii (if forecast then ''forecast'' else ''weather'')"
  let ?k = "ascii ''appid'' @ 61 # url_encode (wc_key c)" and ?u = "ascii ''units'' @ 61 # wc_units c"
  let ?n = "if forecast then 38 # ascii ''cnt'' @ 61 # ascii ''1'' else []"
  obtain q where q: "location_query (wc_location c) = Some q" and path: "path = ?t @ 63 # q @ 38 # ?k @ 38 # ?u @ ?n"
    using assms(2) by (cases forecast) (auto simp: build_path_def Let_def query_texts split: option.splits if_splits)
  have t: "63 \<notin> set ?t" "\<forall>c \<in> set ?t. 32 < c \<and> c < 127"
    by (simp_all add: ascii_def)
  have split: "takeWhile (\<lambda>c. c \<noteq> 63) (a @ 63 # b) = a" "dropWhile (\<lambda>c. c \<noteq> 63) (a @ 63 # b) = 63 # b" if "63 \<notin> set a" for a b :: bytes
    using that by (induction a) auto
  show "request_target path = ?t"
    unfolding request_target_def path by (rule split [OF t(1)])
  note plain = plain_text [of "''appid''", simplified] plain_text [of "''units''", simplified] plain_text [of "''cnt''", simplified]
    plain_text [of "''1''", simplified]
  have units: "38 \<notin> set (wc_units c)" "37 \<notin> set (wc_units c)" "\<forall>x \<in> set (wc_units c). 32 < x \<and> x < 127"
    using assms(1) plain_text [of "''metric''"] plain_text [of "''imperial''"] plain_text [of "''standard''"] by (auto simp: good_config_def)
  note encoded = encoded_text [of "wc_key c"]
  obtain ps where ps: "location_parameters (wc_location c) ps"
      "\<And>r. map parameter (split_at 38 (q @ 38 # r)) = ps @ map parameter (split_at 38 r)"
    using location_read(1) [OF q] by blast
  have "map parameter (split_at 38 (?k @ 38 # ?u @ ?n)) = [(ascii ''appid'', wc_key c), (ascii ''units'', wc_units c)] @
      (if forecast then [(ascii ''cnt'', ascii ''1'')] else [])"
    using plain units encoded split_at_append [of 38 ?k "?u @ ?n"] split_at_append [of 38 ?u "ascii ''cnt'' @ 61 # ascii ''1''"]
    by (simp add: percent_decode_plain)
  then show "\<exists>ps. location_parameters (wc_location c) ps \<and>
      request_parameters path = ps @ [(ascii ''appid'', wc_key c), (ascii ''units'', wc_units c)] @
        (if forecast then [(ascii ''cnt'', ascii ''1'')] else [])"
    using ps unfolding request_parameters_def path split(2) [OF t(1)] by (intro exI [of _ ps]) simp
  show "\<forall>c \<in> set path. 32 < c \<and> c < 127"
    using t(2) location_read(3) [OF q] plain units encoded by (auto simp: path)
qed

lemma path_fits: "good_config c \<Longrightarrow> build_path forecast c = None \<longleftrightarrow> location_query (wc_location c) = None"
proof -
  assume c: "good_config c"
  have "length (wc_units c) \<le> 8"
    using c by (auto simp: good_config_def length_ascii)
  moreover have "length (url_encode (wc_key c)) \<le> 120"
    using length_url_encode [of "wc_key c"] c by (simp add: good_config_def)
  moreover have "length q \<le> 204" if "location_query (wc_location c) = Some q" for q
    using location_read(2) [OF that] c by (simp add: good_config_def)
  ultimately show ?thesis
    by (auto simp: build_path_def Let_def length_ascii split: option.splits)
qed



end
