(* ===== verification/Weather_Fields.thy ===== *)
theory Weather_Fields
  imports Weather
begin

text \<open>
  What the weather service of \<open>Weather\<close> does with good responses: the texts of the two responses as the web service writes them, and the fields
  that they become. A number in a response is its sign, its whole part and its digits after the point, at most four.
\<close>

section \<open>The texts of the responses\<close>

type_synonym decimal_number = "bool \<times> nat \<times> bytes"

definition number_text :: "decimal_number \<Rightarrow> bytes" where
  "number_text x = (case x of (neg, n, fs) \<Rightarrow> decimal_text neg n fs)"

definition number_ok :: "decimal_number \<Rightarrow> bool" where
  "number_ok x \<longleftrightarrow> (case x of (neg, n, fs) \<Rightarrow> list_all is_digit fs \<and> length fs \<le> 4 \<and> ten_thousandths n fs < 2147483647 * 10000)"

definition number_field :: "decimal_number \<Rightarrow> bytes" where
  "number_field x = (case x of (neg, n, fs) \<Rightarrow> decimal_int (nearest neg n fs))"

text \<open>A string value and a member of an object.\<close>

abbreviation quoted :: "bytes \<Rightarrow> bytes" where "quoted s \<equiv> json_scan_pattern s"

definition member :: "string \<Rightarrow> bytes \<Rightarrow> bytes" where
  "member k v = quoted (ascii k) @ 58 # v"

record conditions =
  cd_main :: bytes
  cd_description :: bytes
  cd_temp :: decimal_number
  cd_feels_like :: decimal_number

record current_weather = conditions +
  cw_name :: bytes
  cw_humidity :: decimal_number
  cw_speed :: decimal_number

record forecast_weather = conditions +
  fw_time :: bytes

definition object_text :: "bytes \<Rightarrow> bytes" where
  "object_text s = 123 # s @ [125]"

definition array_text :: "bytes \<Rightarrow> bytes" where
  "array_text s = 91 # s @ [93]"

definition sky_text :: "'a conditions_scheme \<Rightarrow> bytes" where
  "sky_text w = member ''main'' (quoted (cd_main w)) @ 44 # member ''description'' (quoted (cd_description w))"

definition temperature_text :: "'a conditions_scheme \<Rightarrow> bytes" where
  "temperature_text w = member ''temp'' (number_text (cd_temp w)) @ 44 # member ''feels_like'' (number_text (cd_feels_like w))"

text \<open>The conditions: the weather, and the member \<open>main\<close> with the temperatures and \<open>extra\<close>.\<close>

definition conditions_text :: "'a conditions_scheme \<Rightarrow> bytes \<Rightarrow> bytes" where
  "conditions_text w extra = member ''weather'' (array_text (object_text (sky_text w))) @
     44 # member ''main'' (object_text (temperature_text w @ extra))"

definition current_text :: "current_weather \<Rightarrow> bytes" where
  "current_text w = object_text (member ''cod'' (ascii ''200'') @ 44 # member ''name'' (quoted (cw_name w)) @
     44 # conditions_text w (44 # member ''humidity'' (number_text (cw_humidity w))) @
     44 # member ''wind'' (object_text (member ''speed'' (number_text (cw_speed w)))))"

definition forecast_item :: "forecast_weather \<Rightarrow> bytes" where
  "forecast_item w = object_text (conditions_text w [] @ 44 # member ''dt_txt'' (quoted (fw_time w)))"

definition forecast_text :: "forecast_weather \<Rightarrow> bytes" where
  "forecast_text w = object_text (member ''cod'' (quoted (ascii ''200'')) @ 44 # member ''list'' (array_text (forecast_item w)))"

definition conditions_ok :: "'a conditions_scheme \<Rightarrow> bool" where
  "conditions_ok w \<longleftrightarrow> json_plain (cd_main w) \<and> json_plain (cd_description w) \<and> number_ok (cd_temp w) \<and> number_ok (cd_feels_like w)"

section \<open>Finding the members\<close>

lemma ascii_inject [simp]: "ascii a = ascii b \<longleftrightarrow> a = b"
proof -
  have "unat (of_char c :: u8) = of_char c" for c
    by (simp add: of_char_def unat_of_nat take_bit_nat_eq_self)
  then have "inj (of_char :: char \<Rightarrow> u8)"
    by (metis injI of_char_eq_iff)
  then show ?thesis
    by (simp add: ascii_def inj_map_eq_map)
qed

text \<open>Names of members, and the bytes between values.\<close>

definition name_ok :: "string \<Rightarrow> bool" where
  "name_ok k \<longleftrightarrow> json_plain (ascii k) \<and> k \<noteq> [] \<and> is_alpha (hd (ascii k)) \<and> length k < 60"

definition separator :: "u8 \<Rightarrow> bool" where
  "separator c \<longleftrightarrow> c \<in> {44, 58, 91, 93, 123, 125}"

lemma names: "\<forall>k \<in> {''cod'', ''name'', ''weather'', ''main'', ''description'', ''temp'', ''feels_like'', ''humidity'', ''wind'', ''speed'',
    ''list'', ''dt_txt''}. name_ok k"
  by (simp add: name_ok_def json_plain_def ascii_def is_alpha_def)

lemma name_ok_simps [simp]:
  "name_ok ''cod''" "name_ok ''name''" "name_ok ''weather''" "name_ok ''main''" "name_ok ''description''" "name_ok ''temp''"
  "name_ok ''feels_like''" "name_ok ''humidity''" "name_ok ''wind''" "name_ok ''speed''" "name_ok ''list''" "name_ok ''dt_txt''"
  using names by simp_all

lemma name_head: "name_ok k \<Longrightarrow> ascii k \<noteq> [] \<and> json_plain (ascii k) \<and> hd (ascii k) \<notin> {0, 34, 44, 58, 91, 93, 123, 125}"
  by (auto simp: name_ok_def is_alpha_def ascii_def)

lemma separator_byte: "separator c \<Longrightarrow> c \<noteq> 0 \<and> c \<noteq> 34 \<and> \<not> json_scan_space c"
  by (auto simp: separator_def json_scan_space_def)

lemma find_key_name: "name_ok k \<Longrightarrow> json_scan_find_key s (ascii k) = find_pattern (quoted (ascii k)) s"
  by (simp add: json_scan_find_key_def json_scan_pattern_def name_ok_def length_ascii)

lemma find_separator [simp]: "separator c \<Longrightarrow> find_pattern (quoted k) (c # s) = find_pattern (quoted k) s"
  using separator_byte by (intro find_skip_byte) auto

lemma find_member [simp]: "find_pattern (quoted (ascii k)) (member k v @ s) = Some (json_scan_skip_ws (v @ s))"
  by (simp add: member_def find_key_here)

lemma find_other_member [simp]:
  assumes "name_ok key" and "name_ok k" and "k \<noteq> key"
  shows "find_pattern (quoted (ascii key)) (member k v @ s) = find_pattern (quoted (ascii key)) (v @ s)"
  using assms name_head by (simp add: member_def find_other_string separator_def)

lemma find_string_value [simp]:
  assumes "name_ok key" and "json_plain str" and "c \<in> {44, 93, 125}"
  shows "find_pattern (quoted (ascii key)) (quoted str @ c # s) = find_pattern (quoted (ascii key)) s"
  using assms name_head [OF assms(1)] by (intro find_value_string) (auto simp: json_scan_space_def)

lemma find_string_tail:
  assumes "name_ok key" and "json_plain str" and "c \<in> {44, 93, 125}"
  shows "find_pattern (quoted (ascii key)) (str @ 34 # c # s) = find_pattern (quoted (ascii key)) s"
proof -
  have "find_pattern (quoted (ascii key)) (str @ 34 # c # s) = find_pattern (quoted (ascii key)) (34 # c # s)"
    using assms(2) by (intro find_skip) (auto simp: json_plain_def)
  also have "\<dots> = find_pattern (quoted (ascii key)) (c # s)"
    using assms(3) name_head [OF assms(1)] by (intro find_after_quote) auto
  also have "\<dots> = find_pattern (quoted (ascii key)) s"
    using assms(3) by (intro find_separator) (auto simp: separator_def)
  finally show ?thesis .
qed

lemma skip_ws_byte [simp]: "\<not> json_scan_space c \<Longrightarrow> json_scan_skip_ws (c # s) = c # s"
  by (simp add: json_scan_skip_ws_def)

lemma number_bytes:
  assumes "number_ok x"
  shows "\<forall>c \<in> set (number_text x). is_digit c \<or> c \<in> {45, 46}"
proof -
  obtain neg n fs where x: "x = (neg, n, fs)"
    by (cases x)
  with assms have "list_all is_digit fs"
    by (simp add: number_ok_def)
  from decimal_text_bytes [OF this, of neg n] show ?thesis
    by (simp add: x number_text_def)
qed

lemma number_text_byte: "is_digit c \<or> c \<in> {45, 46} \<Longrightarrow> \<not> json_scan_space c \<and> c \<notin> {0, 34, 44, 58, 91, 93, 123, 125}"
  by (auto simp: json_scan_space_def is_digit_def word_le_nat_alt)

lemma number_head:
  assumes "number_ok x"
  obtains c t where "number_text x = c # t" and "\<not> json_scan_space c" and "c \<notin> {34, 123}"
proof -
  obtain c t where t: "number_text x = c # t"
    by (cases "number_text x") (auto simp: number_text_def decimal_text_def split: prod.splits if_splits)
  then have "is_digit c \<or> c \<in> {45, 46}"
    using number_bytes [OF assms] by simp
  then show thesis
    using that t number_text_byte by blast
qed

lemma skip_ws_number [simp]: "number_ok x \<Longrightarrow> json_scan_skip_ws (number_text x @ s) = number_text x @ s"
  by (rule number_head) auto

lemma find_number [simp]: "number_ok x \<Longrightarrow> find_pattern (quoted k) (number_text x @ s) = find_pattern (quoted k) s"
  using number_bytes [of x] number_text_byte by (intro find_skip) blast+

lemma find_plain [simp]: "find_pattern (quoted k) (ascii ''200'' @ s) = find_pattern (quoted k) s"
  by (intro find_skip) (auto simp: ascii_def)

lemma skip_ws_quoted [simp]: "json_scan_skip_ws (quoted v @ s) = quoted v @ s"
  by (simp add: json_scan_pattern_def json_scan_space_def)

section \<open>Brackets\<close>

definition balanced :: "u8 \<Rightarrow> u8 \<Rightarrow> int \<Rightarrow> bytes \<Rightarrow> bool" where
  "balanced opn cls d xs \<longleftrightarrow>
     (\<forall>s. match_loop opn cls d False False (xs @ s) = map_option (\<lambda>n. n + length xs) (match_loop opn cls d False False s))"

lemma balanced_append: "balanced opn cls d xs \<Longrightarrow> balanced opn cls d ys \<Longrightarrow> balanced opn cls d (xs @ ys)"
  by (simp add: balanced_def option.map_comp comp_def ac_simps)

lemma balanced_bytes: "\<forall>c \<in> set xs. c \<notin> {0, 34, opn, cls} \<Longrightarrow> balanced opn cls d xs"
  unfolding balanced_def by (intro allI match_skip)

lemma balanced_Cons: "c \<notin> {0, 34, opn, cls} \<Longrightarrow> balanced opn cls d xs \<Longrightarrow> balanced opn cls d (c # xs)"
  using balanced_append [OF balanced_bytes [of "[c]"]] by simp

lemma balanced_quoted: "json_plain str \<Longrightarrow> balanced opn cls d (quoted str)"
  unfolding balanced_def by (intro allI match_string)

lemma balanced_member:
  "name_ok k \<Longrightarrow> 58 \<notin> {opn, cls} \<Longrightarrow> balanced opn cls d v \<Longrightarrow> balanced opn cls d (member k v)"
  unfolding member_def using name_head by (intro balanced_append balanced_quoted balanced_Cons) auto

lemma balanced_number:
  assumes "number_ok x" and "\<not> is_digit opn" "\<not> is_digit cls" and "{45, 46} \<inter> {opn, cls} = {}"
  shows "balanced opn cls d (number_text x)"
  using number_bytes [OF assms(1)] number_text_byte assms(2-4) by (intro balanced_bytes ballI) blast

lemma balanced_nested:
  assumes "balanced opn cls (d + 1) xs" and "0 < d" and "opn \<notin> {0, 34}" and "cls \<notin> {0, 34, opn}"
  shows "balanced opn cls d (opn # xs @ [cls])"
  using assms by (auto simp: balanced_def option.map_comp comp_def)

lemma match_object: "balanced 123 125 1 xs \<Longrightarrow> json_scan_match_end (123 # xs @ 125 # s) = Some (length xs + 2)"
  by (simp add: json_scan_match_end_def balanced_def)

lemma match_array: "balanced 91 93 1 xs \<Longrightarrow> json_scan_match_end (91 # xs @ 93 # s) = Some (length xs + 2)"
  by (simp add: json_scan_match_end_def balanced_def)

lemma balanced_texts:
  "balanced 123 125 d s \<Longrightarrow> balanced 123 125 d (array_text s)" "balanced 91 93 d s \<Longrightarrow> balanced 91 93 d (object_text s)"
  "balanced 123 125 (d + 1) s \<Longrightarrow> 0 < d \<Longrightarrow> balanced 123 125 d (object_text s)"
  "balanced 91 93 (d + 1) s \<Longrightarrow> 0 < d \<Longrightarrow> balanced 91 93 d (array_text s)"
proof -
  have last: "balanced opn cls d [c]" if "c \<notin> {0, 34, opn, cls}" for opn cls c
    using that by (intro balanced_bytes) auto
  show "balanced 123 125 d s \<Longrightarrow> balanced 123 125 d (array_text s)" "balanced 91 93 d s \<Longrightarrow> balanced 91 93 d (object_text s)"
    unfolding array_text_def object_text_def by (intro balanced_Cons balanced_append last; simp)+
  show "balanced 123 125 (d + 1) s \<Longrightarrow> 0 < d \<Longrightarrow> balanced 123 125 d (object_text s)"
    "balanced 91 93 (d + 1) s \<Longrightarrow> 0 < d \<Longrightarrow> balanced 91 93 d (array_text s)"
    unfolding array_text_def object_text_def by (intro balanced_nested; simp)+
qed

lemma balanced_numbers:
  "number_ok x \<Longrightarrow> balanced 123 125 d (number_text x)" "number_ok x \<Longrightarrow> balanced 91 93 d (number_text x)"
  by (intro balanced_number; simp add: is_digit_def)+

lemma balanced_conditions:
  assumes "conditions_ok w"
  shows "balanced 123 125 d (sky_text w)" and "balanced 91 93 d (sky_text w)"
    and "balanced 123 125 d (temperature_text w)" and "balanced 91 93 d (temperature_text w)"
  using assms unfolding conditions_ok_def sky_text_def temperature_text_def
  by (intro balanced_append balanced_Cons balanced_member balanced_quoted balanced_numbers; simp)+

section \<open>Reading the members\<close>

lemma find_name [simp]: "name_ok k \<Longrightarrow> json_scan_find_key s (ascii k) = find_pattern (quoted (ascii k)) s"
  by (rule find_key_name)

lemma find_text [simp]: "find_pattern (quoted k) (object_text v @ s) = find_pattern (quoted k) (v @ 125 # s)"
  "find_pattern (quoted k) (array_text v @ s) = find_pattern (quoted k) (v @ 93 # s)"
  by (simp_all add: object_text_def array_text_def separator_def)

lemma scan_object_step:
  assumes "name_ok k" and "find_pattern (quoted (ascii k)) s = Some (c # r)" and "\<not> json_scan_space c"
  shows "scan_object (ascii k) s =
    (if c = 123 then map_option (\<lambda>n. (take n (c # r), drop n (c # r))) (json_scan_match_end (c # r)) else scan_object (ascii k) r)"
proof -
  have "s \<noteq> []"
    using assms(2) by (auto simp: find_pattern.simps [of _ "[]"])
  with assms show ?thesis
    by (subst scan_object.simps) (simp add: Let_def)
qed

lemma scan_array_step:
  assumes "name_ok k" and "find_pattern (quoted (ascii k)) s = Some (91 # r)"
  shows "scan_array (ascii k) s = first_object (91 # r)"
proof -
  have "s \<noteq> []"
    using assms(2) by (auto simp: find_pattern.simps [of _ "[]"])
  with assms show ?thesis
    by (subst scan_array.simps) (simp add: json_scan_space_def)
qed

lemma scan_object_here:
  assumes "name_ok k" and "find_pattern (quoted (ascii k)) s = Some (object_text v @ r)" and "balanced 123 125 1 v"
  shows "scan_object (ascii k) s = Some (object_text v, r)"
  using assms by (subst scan_object_step) (auto simp: object_text_def json_scan_space_def match_object)

lemma scan_object_later:
  assumes "name_ok k" and "find_pattern (quoted (ascii k)) s = Some (quoted v @ r)"
  shows "scan_object (ascii k) s = scan_object (ascii k) (v @ 34 # r)"
  using assms by (subst scan_object_step) (auto simp: json_scan_pattern_def json_scan_space_def)

lemma scan_array_here:
  assumes "name_ok k" and "find_pattern (quoted (ascii k)) s = Some (array_text (object_text v) @ r)"
    and "balanced 123 125 1 v" and "balanced 91 93 1 v"
  shows "scan_array (ascii k) s = Some (object_text v, 93 # r)"
proof -
  have "json_scan_match_end (array_text (object_text v) @ r) = Some (length v + 4)"
    using match_array [OF balanced_texts(2) [OF assms(4)], of r] by (simp add: array_text_def object_text_def)
  moreover have "json_scan_match_end (object_text v @ [93]) = Some (length v + 2)"
    using match_object [OF assms(3), of "[93]"] by (simp add: object_text_def)
  moreover have "length (array_text (object_text v)) = length v + 4"
    by (simp add: array_text_def object_text_def)
  then have "take (length v + 4) (array_text (object_text v) @ r) = array_text (object_text v)"
    "drop (length v + 4) (array_text (object_text v) @ r) = r"
    by simp_all
  moreover have "dropWhile (\<lambda>x. x \<noteq> 0 \<and> x \<noteq> 123) (json_scan_skip_ws (tl (array_text (object_text v)))) = object_text v @ [93]"
    by (simp add: array_text_def object_text_def json_scan_space_def)
  moreover have "take (length v + 2) (object_text v @ [93]) = object_text v" "drop (length v + 2) (object_text v @ [93]) = [93]"
    "object_text v @ [93] \<noteq> [] \<and> hd (object_text v @ [93]) = 123"
    by (simp_all add: object_text_def)
  ultimately have "first_object (array_text (object_text v) @ r) = Some (object_text v, 93 # r)"
    by (simp add: first_object_def Let_def)
  moreover have "scan_array (ascii k) s = first_object (array_text (object_text v) @ r)"
    using assms(1,2) by (simp add: array_text_def scan_array_step)
  ultimately show ?thesis
    by simp
qed

lemma get_string_found:
  assumes "name_ok k" and "find_pattern (quoted (ascii k)) s = Some (quoted v @ r)" and "json_plain v"
  shows "get_string (s, t) k i out = (True, out[i := print_to FIELD_BYTES v])"
proof -
  have "json_scan_get_string s (ascii k) FIELD_BYTES = (True, print_to FIELD_BYTES v)"
    using assms scan_plain [of v "[]" FIELD_BYTES r]
    by (simp add: json_scan_get_string_def) (simp add: json_scan_pattern_def print_to_def)
  then show ?thesis
    by (simp add: get_string_def)
qed

lemma length_decimal: "n < 10 ^ Suc k \<Longrightarrow> length (decimal n) \<le> Suc k"
proof (induction k arbitrary: n)
  case (Suc k)
  then show ?case
    using Suc.IH [of "n div 10"] by (subst decimal.simps) (simp add: less_mult_imp_div_less)
qed (subst decimal.simps, simp)

lemma length_number_field:
  assumes "number_ok x"
  shows "length (number_field x) \<le> 11"
proof -
  obtain neg n fs where x: "x = (neg, n, fs)"
    by (cases x)
  let ?n = "(ten_thousandths n fs + 5000) div 10000"
  have "?n < 10 ^ Suc 9"
    using assms div_le_mono [of "ten_thousandths n fs + 5000" 21474836475000 10000] by (simp add: x number_ok_def)
  then have "length (decimal ?n) \<le> 10"
    using length_decimal [of ?n 9] by simp
  moreover have "length (decimal 0) \<le> 10"
    using length_decimal [of 0 0] by simp
  ultimately show ?thesis
    by (simp add: x number_field_def nearest_def decimal_int_def)
qed

lemma get_number_found:
  assumes "name_ok k" and "find_pattern (quoted (ascii k)) s = Some (number_text x @ c # r)" and "c \<in> {44, 125, 93}" and "number_ok x"
  shows "get_number (s, t) k i out = (True, out[i := number_field x])"
proof -
  obtain neg n fs where x: "x = (neg, n, fs)"
    by (cases x)
  have "json_scan_get_number (s, t) (ascii k) FIELD_BYTES = (True, take (FIELD_BYTES - 1) (decimal_int (nearest neg n fs)))"
    using assms by (intro number_read) (simp_all add: x number_ok_def number_text_def)
  then show ?thesis
    using length_number_field [OF assms(4)] by (simp add: get_number_def x number_field_def)
qed

lemma skip_ws_text [simp]: "json_scan_skip_ws (object_text v @ s) = object_text v @ s" "json_scan_skip_ws (array_text v @ s) = array_text v @ s"
  by (simp_all add: object_text_def array_text_def json_scan_space_def)

lemma find_text_alone [simp]: "find_pattern (quoted k) (object_text v) = find_pattern (quoted k) (v @ [125])"
  using find_text(1) [of k v "[]"] by simp

lemma find_conditions:
  assumes "conditions_ok w"
  shows "find_pattern (quoted (ascii ''main'')) (conditions_text w extra @ s) =
      Some (quoted (cd_main w) @ 44 # member ''description'' (quoted (cd_description w)) @ 125 # 93 #
        44 # member ''main'' (object_text (temperature_text w @ extra)) @ s)"
    and "find_pattern (quoted (ascii ''weather'')) (conditions_text w extra @ s) =
      Some (array_text (object_text (sky_text w)) @ 44 # member ''main'' (object_text (temperature_text w @ extra)) @ s)"
    and "\<lbrakk>name_ok k; k \<notin> {''weather'', ''main'', ''description'', ''temp'', ''feels_like''}\<rbrakk> \<Longrightarrow>
      find_pattern (quoted (ascii k)) (conditions_text w extra @ s) = find_pattern (quoted (ascii k)) (extra @ 125 # s)"
proof -
  note texts = conditions_text_def sky_text_def temperature_text_def separator_def
  show "find_pattern (quoted (ascii ''main'')) (conditions_text w extra @ s) =
      Some (quoted (cd_main w) @ 44 # member ''description'' (quoted (cd_description w)) @ 125 # 93 #
        44 # member ''main'' (object_text (temperature_text w @ extra)) @ s)"
    using assms by (simp add: conditions_ok_def texts)
  show "find_pattern (quoted (ascii ''weather'')) (conditions_text w extra @ s) =
      Some (array_text (object_text (sky_text w)) @ 44 # member ''main'' (object_text (temperature_text w @ extra)) @ s)"
    using assms by (simp add: conditions_ok_def texts)
  show "find_pattern (quoted (ascii k)) (conditions_text w extra @ s) = find_pattern (quoted (ascii k)) (extra @ 125 # s)"
    if "name_ok k" and "k \<notin> {''weather'', ''main'', ''description'', ''temp'', ''feels_like''}"
  proof -
    have "''weather'' \<noteq> k" "''main'' \<noteq> k" "''description'' \<noteq> k" "''temp'' \<noteq> k" "''feels_like'' \<noteq> k"
      using that(2) by auto
    with assms that(1) show ?thesis
      by (simp add: conditions_ok_def texts)
  qed
qed

section \<open>Reading the conditions\<close>

lemma read_conditions:
  assumes "conditions_ok w" and "extra = [] \<or> hd extra = 44" and "\<And>d. balanced 123 125 d extra"
    and "find_pattern (quoted (ascii ''main'')) item = find_pattern (quoted (ascii ''main'')) (conditions_text w extra @ r)"
    and "find_pattern (quoted (ascii ''weather'')) item = find_pattern (quoted (ascii ''weather'')) (conditions_text w extra @ r)"
  shows "json_scan_object (item, t) (ascii ''main'') = Some (object_text (temperature_text w @ extra), r @ t)"
    and "\<exists>r'. json_scan_first_array_object (item, t) (ascii ''weather'') = Some (object_text (sky_text w), r')"
    and "get_string (object_text (sky_text w), t') ''main'' i out = (True, out[i := print_to FIELD_BYTES (cd_main w)])"
    and "get_string (object_text (sky_text w), t') ''description'' i out = (True, out[i := print_to FIELD_BYTES (cd_description w)])"
    and "get_number (object_text (temperature_text w @ extra), t') ''temp'' i out = (True, out[i := number_field (cd_temp w)])"
    and "get_number (object_text (temperature_text w @ extra), t') ''feels_like'' i out = (True, out[i := number_field (cd_feels_like w)])"
proof -
  note ok = assms(1) [unfolded conditions_ok_def]
  note found = find_conditions [OF assms(1)]
  have "balanced 123 125 1 (temperature_text w @ extra)"
    using balanced_conditions(3) [OF assms(1)] assms(3) by (rule balanced_append)
  then have "scan_object (ascii ''main'') (cd_main w @ 34 # 44 # member ''description'' (quoted (cd_description w)) @ 125 # 93 #
      44 # member ''main'' (object_text (temperature_text w @ extra)) @ r) = Some (object_text (temperature_text w @ extra), r)"
    using ok by (intro scan_object_here) (simp_all add: find_string_tail separator_def)
  moreover have "scan_object (ascii ''main'') item = scan_object (ascii ''main'') (cd_main w @ 34 # 44 #
      member ''description'' (quoted (cd_description w)) @ 125 # 93 # 44 # member ''main'' (object_text (temperature_text w @ extra)) @ r)"
    by (rule scan_object_later) (simp_all add: assms(4) found(1))
  ultimately show "json_scan_object (item, t) (ascii ''main'') = Some (object_text (temperature_text w @ extra), r @ t)"
    by (simp add: json_scan_object_def)
  have "scan_array (ascii ''weather'') item =
      Some (object_text (sky_text w), 93 # 44 # member ''main'' (object_text (temperature_text w @ extra)) @ r)"
    using balanced_conditions(1,2) [OF assms(1)] by (intro scan_array_here) (simp_all add: assms(5) found(2))
  then show "\<exists>r'. json_scan_first_array_object (item, t) (ascii ''weather'') = Some (object_text (sky_text w), r')"
    by (simp add: json_scan_first_array_object_def)
  show "get_string (object_text (sky_text w), t') ''main'' i out = (True, out[i := print_to FIELD_BYTES (cd_main w)])"
    by (rule get_string_found) (simp_all add: ok sky_text_def separator_def)
  show "get_string (object_text (sky_text w), t') ''description'' i out = (True, out[i := print_to FIELD_BYTES (cd_description w)])"
    by (rule get_string_found) (simp_all add: ok sky_text_def separator_def)
  show "get_number (object_text (temperature_text w @ extra), t') ''temp'' i out = (True, out[i := number_field (cd_temp w)])"
    by (rule get_number_found [where c = 44]) (simp_all add: ok temperature_text_def separator_def)
  show "get_number (object_text (temperature_text w @ extra), t') ''feels_like'' i out = (True, out[i := number_field (cd_feels_like w)])"
  proof -
    obtain c e where e: "extra @ [125] = c # e" "c \<in> {44, 125, 93}"
      using assms(2) by (cases extra) auto
    from e(2) show ?thesis
      by (intro get_number_found) (simp_all add: ok temperature_text_def separator_def e(1))
  qed
qed

lemma read_shared:
  assumes "conditions_ok w" and "extra = [] \<or> hd extra = 44" and "\<And>d. balanced 123 125 d extra"
    and "find_pattern (quoted (ascii ''main'')) item = find_pattern (quoted (ascii ''main'')) (conditions_text w extra @ r)"
    and "find_pattern (quoted (ascii ''weather'')) item = find_pattern (quoted (ascii ''weather'')) (conditions_text w extra @ r)"
  shows "parse_conditions forecast (item, t) out =
    (let base = (if forecast then 6 else 1);
         out = out[base := print_to FIELD_BYTES (cd_main w), base + 1 := print_to FIELD_BYTES (cd_description w),
           (if forecast then 8 else 3) := number_field (cd_temp w), (if forecast then 14 else 13) := number_field (cd_feels_like w)];
         out = out[base + 1 := capitalize (out ! (base + 1))]
     in if forecast then get_string (item, t) ''dt_txt'' 9 out
        else weather_and (get_string (item, t) ''name'' 0 out) (\<lambda>out.
             weather_and (get_number (object_text (temperature_text w @ extra), r @ t) ''humidity'' 4 out)
               (with_object (json_scan_object (item, t) (ascii ''wind'')) (\<lambda>wind. get_number wind ''speed'' 5))))"
proof -
  obtain r' where r': "json_scan_first_array_object (item, t) (ascii ''weather'') = Some (object_text (sky_text w), r')"
    using read_conditions(2) [OF assms] by blast
  show ?thesis
    by (simp add: parse_conditions_def with_object_def [of "Some _"] weather_and_def [of "(True, _)"] Let_def r'
        read_conditions(1,3-6) [OF assms])
qed

lemma parse_current:
  assumes "conditions_ok w" and "json_plain (cw_name w)" and "number_ok (cw_humidity w)" and "number_ok (cw_speed w)"
  shows "parse_conditions False (current_text w, []) out = (True,
    let out = out[1 := print_to FIELD_BYTES (cd_main w), 2 := print_to FIELD_BYTES (cd_description w),
          3 := number_field (cd_temp w), 13 := number_field (cd_feels_like w)]
    in out[2 := capitalize (out ! 2), 0 := print_to FIELD_BYTES (cw_name w), 4 := number_field (cw_humidity w), 5 := number_field (cw_speed w)])"
proof -
  let ?e = "44 # member ''humidity'' (number_text (cw_humidity w))"
  let ?wind = "member ''speed'' (number_text (cw_speed w))"
  let ?r = "44 # member ''wind'' (object_text ?wind) @ [125]"
  have skip: "find_pattern (quoted (ascii k)) (current_text w) = find_pattern (quoted (ascii k)) (conditions_text w ?e @ ?r)"
    if "name_ok k" and "k \<noteq> ''cod''" and "k \<noteq> ''name''" for k
  proof -
    have "''cod'' \<noteq> k" "''name'' \<noteq> k"
      using that by auto
    with assms(2) that(1) show ?thesis
      by (simp add: current_text_def separator_def)
  qed
  have "\<And>d. balanced 123 125 d ?e"
    using assms(3) by (intro balanced_Cons balanced_member balanced_numbers) simp_all
  note shared = read_shared [OF assms(1) _ this skip skip, of False "[]" out]
  note found = find_conditions(3) [OF assms(1), of _ ?e ?r]
  have "get_string (current_text w, []) ''name'' i out = (True, out[i := print_to FIELD_BYTES (cw_name w)])" for i out
    by (rule get_string_found) (simp_all add: current_text_def separator_def assms(2))
  moreover have "get_number (object_text (temperature_text w @ ?e), t) ''humidity'' i out = (True, out[i := number_field (cw_humidity w)])" for t i out
    using assms(1,3) by (intro get_number_found [where c = 125]) (simp_all add: temperature_text_def separator_def conditions_ok_def)
  moreover have "scan_object (ascii ''wind'') (current_text w) = Some (object_text ?wind, [125])"
    using assms(3,4) by (intro scan_object_here balanced_member balanced_numbers) (simp_all add: skip found separator_def)
  moreover have "get_number (object_text ?wind, t) ''speed'' i out = (True, out[i := number_field (cw_speed w)])" for t i out
    using assms(4) by (intro get_number_found [where c = 125]) (simp_all add: separator_def)
  ultimately show ?thesis
    by (simp add: shared Let_def with_object_def weather_and_def json_scan_object_def numeral_2_eq_2)
qed

lemma parse_forecast:
  assumes "conditions_ok w" and "json_plain (fw_time w)"
  shows "parse_conditions True (forecast_item w, t) out = (True,
    let out = out[6 := print_to FIELD_BYTES (cd_main w), 7 := print_to FIELD_BYTES (cd_description w),
          8 := number_field (cd_temp w), 14 := number_field (cd_feels_like w)]
    in out[7 := capitalize (out ! 7), 9 := print_to FIELD_BYTES (fw_time w)])"
proof -
  let ?r = "44 # member ''dt_txt'' (quoted (fw_time w)) @ [125]"
  have skip: "find_pattern (quoted (ascii k)) (forecast_item w) = find_pattern (quoted (ascii k)) (conditions_text w [] @ ?r)" for k
    by (simp add: forecast_item_def separator_def)
  note shared = read_shared [OF assms(1) _ _ skip skip, of True t out]
  have "get_string (forecast_item w, t) ''dt_txt'' i out = (True, out[i := print_to FIELD_BYTES (fw_time w)])" for i out
    by (rule get_string_found) (simp_all add: skip find_conditions(3) [OF assms(1), of _ "[]"] separator_def assms(2))
  then show ?thesis
    by (simp add: shared Let_def balanced_bytes)
qed

lemma parse_object:
  "json_scan_get_int (object_text v, []) (ascii ''cod'') = Some 200 \<Longrightarrow>
    parse_body forecast (object_text v) out =
      (if forecast then with_object (json_scan_first_array_object (object_text v, []) (ascii ''list'')) (parse_conditions True) out
       else parse_conditions False (object_text v, []) out)"
proof -
  have "rev (dropWhile json_scan_space (rev (json_scan_skip_ws (object_text v)))) = object_text v"
    "object_text v \<noteq> [] \<and> hd (object_text v) = 123 \<and> last (object_text v) = 125"
    by (simp_all add: object_text_def json_scan_space_def)
  then show "json_scan_get_int (object_text v, []) (ascii ''cod'') = Some 200 \<Longrightarrow> ?thesis"
    by (simp add: parse_body_def Let_def)
qed

lemma plain_200 [simp]: "json_plain (ascii ''200'')"
  by (simp add: json_plain_def ascii_def)

lemma code_number: "json_scan_get_int (current_text w, []) (ascii ''cod'') = Some 200"
proof -
  have found: "\<exists>r. find_pattern (quoted (ascii ''cod'')) (current_text w) = Some (ascii ''200'' @ 44 # r)"
    by (simp add: current_text_def separator_def) (simp add: ascii_def json_scan_space_def)
  have read: "strtol (50 # 48 # 48 # 44 # s) = Some (200, False, 44 # s)" for s
    by (simp add: strtol_def c_sign_def c_isspace_def is_digit_def number_of_def digit_value_def)
  from found obtain r where r: "find_pattern (quoted (ascii ''cod'')) (current_text w) = Some (ascii ''200'' @ 44 # r)"
    by blast
  have "length (cstr r) \<le> length r"
    by (simp add: cstr_def length_takeWhile_le)
  with r show ?thesis
    by (simp add: json_scan_get_int_def) (simp add: ascii_def cstr_def read)
qed

lemma code_string: "json_scan_get_int (forecast_text w, []) (ascii ''cod'') = Some 200"
proof -
  have found: "\<exists>r. find_pattern (quoted (ascii ''cod'')) (forecast_text w) = Some (quoted (ascii ''200'') @ r)"
    by (simp add: forecast_text_def separator_def)
  have read: "strtol (ascii ''200'') = Some (200, False, [])"
    by code_simp
  from found obtain r where r: "find_pattern (quoted (ascii ''cod'')) (forecast_text w) = Some (quoted (ascii ''200'') @ r)"
    by blast
  then have "json_scan_get_string (forecast_text w) (ascii ''cod'') 12 = (True, ascii ''200'')"
    using scan_plain [OF plain_200, of "[]" 12 r] by (simp add: json_scan_get_string_def) (simp add: json_scan_pattern_def length_ascii)
  with r show ?thesis
    by (simp add: json_scan_get_int_def read) (simp add: json_scan_pattern_def)
qed

lemma scan_list:
  assumes "conditions_ok w" and "json_plain (fw_time w)"
  shows "\<exists>r. json_scan_first_array_object (forecast_text w, []) (ascii ''list'') = Some (forecast_item w, r)"
proof -
  let ?item = "conditions_text w [] @ 44 # member ''dt_txt'' (quoted (fw_time w))"
  have "balanced 123 125 1 ?item" "balanced 91 93 1 ?item"
    using assms unfolding conditions_text_def
    by (intro balanced_append balanced_Cons balanced_member balanced_quoted balanced_texts balanced_conditions; simp add: balanced_bytes)+
  then have "scan_array (ascii ''list'') (forecast_text w) = Some (forecast_item w, 93 # [125])"
    unfolding forecast_item_def by (intro scan_array_here) (simp_all add: forecast_text_def forecast_item_def separator_def find_string_value)
  then show ?thesis
    by (simp add: json_scan_first_array_object_def)
qed

lemma body_current: "parse_body False (current_text w) out = parse_conditions False (current_text w, []) out"
  using code_number [of w] by (simp add: current_text_def parse_object)

lemma body_forecast:
  assumes "conditions_ok w" and "json_plain (fw_time w)"
  shows "\<exists>t. parse_body True (forecast_text w) out = parse_conditions True (forecast_item w, t) out"
proof -
  obtain r where "json_scan_first_array_object (forecast_text w, []) (ascii ''list'') = Some (forecast_item w, r)"
    using scan_list [OF assms] by blast
  then show ?thesis
    using code_string [of w] by (intro exI [of _ r]) (simp add: forecast_text_def parse_object with_object_def)
qed

section \<open>Good responses\<close>

definition current_ok :: "current_weather \<Rightarrow> bool" where
  "current_ok w \<longleftrightarrow> conditions_ok w \<and> json_plain (cw_name w) \<and> number_ok (cw_humidity w) \<and> number_ok (cw_speed w) \<and>
     length (current_text w) \<le> Z80_WEATHER_BODY_MAX"

definition forecast_ok :: "forecast_weather \<Rightarrow> bool" where
  "forecast_ok w \<longleftrightarrow> conditions_ok w \<and> json_plain (fw_time w) \<and> length (forecast_text w) \<le> Z80_WEATHER_BODY_MAX"

lemma zero_free [simp]:
  "name_ok k \<Longrightarrow> 0 \<notin> set v \<Longrightarrow> 0 \<notin> set (member k v)" "0 \<notin> set v \<Longrightarrow> 0 \<notin> set (object_text v)" "0 \<notin> set v \<Longrightarrow> 0 \<notin> set (array_text v)"
  "number_ok x \<Longrightarrow> 0 \<notin> set (number_text x)" "json_plain s \<Longrightarrow> 0 \<notin> set (quoted s)"
proof -
  show "number_ok x \<Longrightarrow> 0 \<notin> set (number_text x)"
    using number_bytes [of x] number_text_byte by blast
qed (auto simp: member_def object_text_def array_text_def name_ok_def json_plain_def json_scan_pattern_def)

lemma zero_texts: "current_ok w \<Longrightarrow> 0 \<notin> set (current_text w)" "forecast_ok f \<Longrightarrow> 0 \<notin> set (forecast_text f)"
  using plain_200
  by (simp_all add: current_ok_def forecast_ok_def conditions_ok_def current_text_def forecast_text_def forecast_item_def conditions_text_def
      sky_text_def temperature_text_def) (simp add: ascii_def)

lemma message_current:
  assumes "current_ok w"
  shows "weather_message 200 False (Some (current_text w)) None out = ([],
    let out = out[1 := print_to FIELD_BYTES (cd_main w), 2 := print_to FIELD_BYTES (cd_description w),
          3 := number_field (cd_temp w), 13 := number_field (cd_feels_like w)]
    in out[2 := capitalize (out ! 2), 0 := print_to FIELD_BYTES (cw_name w), 4 := number_field (cw_humidity w), 5 := number_field (cw_speed w)])"
proof -
  have "current_text w \<noteq> []"
    by (simp add: current_text_def object_text_def)
  moreover have "parse_body False (current_text w) out = (True,
    let out = out[1 := print_to FIELD_BYTES (cd_main w), 2 := print_to FIELD_BYTES (cd_description w),
          3 := number_field (cd_temp w), 13 := number_field (cd_feels_like w)]
    in out[2 := capitalize (out ! 2), 0 := print_to FIELD_BYTES (cw_name w), 4 := number_field (cw_humidity w), 5 := number_field (cw_speed w)])"
    using assms unfolding current_ok_def body_current by (intro parse_current) simp_all
  ultimately show ?thesis
    using assms zero_texts(1) [OF assms] by (simp add: weather_message_def current_ok_def)
qed

lemma message_forecast:
  assumes "forecast_ok w"
  shows "weather_message 200 True (Some (forecast_text w)) None out = ([],
    let out = out[6 := print_to FIELD_BYTES (cd_main w), 7 := print_to FIELD_BYTES (cd_description w),
          8 := number_field (cd_temp w), 14 := number_field (cd_feels_like w)]
    in out[7 := capitalize (out ! 7), 9 := print_to FIELD_BYTES (fw_time w)])"
proof -
  have w: "conditions_ok w" "json_plain (fw_time w)"
    using assms by (simp_all add: forecast_ok_def)
  have "forecast_text w \<noteq> []"
    by (simp add: forecast_text_def object_text_def)
  moreover obtain t where "parse_body True (forecast_text w) out = parse_conditions True (forecast_item w, t) out"
    using body_forecast [OF w] by blast
  note this [unfolded parse_forecast [OF w]]
  ultimately show ?thesis
    using assms zero_texts(2) [OF assms] by (simp add: weather_message_def forecast_ok_def)
qed

text \<open>
  C21. A fetch reports what the web service said: when the response with the current conditions arrives, the next poll requests the forecast, and
  with the response to that the data is ready and every field shows its part of the two texts: names and descriptions as they are, up to the size
  of a field, descriptions with a capital letter, and every number rounded to the nearest whole number, away from zero in between, without a sign
  for zero.
\<close>

theorem weather_reported:
  assumes "weather_reachable s" and "wx_phase s = 1" and "wx_enabled s" and "wx_was_online s"
    and "current_ok c" and "forecast_ok f"
    and "now1 \<le> now2" and "now2 < wx_config_due s" and "build_path True (wx_config s) = Some path" and "start path"
    and "s1 = z80_weather_result now1 200 (Some (current_text c)) None s"
    and "s2 = snd (z80_weather_poll start now2 later True en s1)"
    and "s3 = z80_weather_result now3 200 (Some (forecast_text f)) None s2"
  shows "wx_calls s2 = wx_calls s @ [Start_Request path] \<and> wx_status s3 = Z80_WEATHER_READY \<and> wx_have_data s3 \<and> wx_last_fetch s3 = now3 \<and>
    wx_fields s3 =
      [take 95 (cw_name c), take 95 (cd_main c), capitalize (take 95 (cd_description c)), number_field (cd_temp c), number_field (cw_humidity c),
       number_field (cw_speed c), take 95 (cd_main f), capitalize (take 95 (cd_description f)), number_field (cd_temp f), take 95 (fw_time f),
       wx_pending s ! 10, wx_pending s ! 11, wx_pending s ! 12, number_field (cd_feels_like c), number_field (cd_feels_like f)]"
proof -
  have i: "weather_inv s"
    by (rule weather_reachable_inv [OF assms(1)])
  then have len: "length (wx_pending s) = 15" and e: "wc_error (wx_config s) = []"
    using assms(2) by (auto simp: weather_inv_def fields_ok_def)
  obtain p1 where p1: "weather_message 200 False (Some (current_text c)) None (wx_pending s) = ([], p1)"
      and f1: "length p1 = 15" "map ((!) p1) [0,1,2,3,4,5,10,11,12,13] =
        [take 95 (cw_name c), take 95 (cd_main c), capitalize (take 95 (cd_description c)), number_field (cd_temp c), number_field (cw_humidity c),
         number_field (cw_speed c), wx_pending s ! 10, wx_pending s ! 11, wx_pending s ! 12, number_field (cd_feels_like c)]"
    using message_current [OF assms(5), of "wx_pending s"] len by (simp add: Let_def print_to_def)
  obtain p2 where p2: "weather_message 200 True (Some (forecast_text f)) None p1 = ([], p2)"
      and f2: "length p2 = 15" "map ((!) p2) [6,7,8,9,14] =
        [take 95 (cd_main f), capitalize (take 95 (cd_description f)), number_field (cd_temp f), take 95 (fw_time f), number_field (cd_feels_like f)]"
      "map ((!) p2) [0,1,2,3,4,5,10,11,12,13] = map ((!) p1) [0,1,2,3,4,5,10,11,12,13]"
    using message_forecast [OF assms(6), of p1] f1(1) by (simp add: Let_def print_to_def)
  have s1: "s1 = s\<lparr>wx_pending := p1, wx_phase := 2, wx_fetch_due := now1\<rparr>"
    using assms(2,11) p1 by (simp add: z80_weather_result_def)
  have "\<not> wx_config_due s \<le> now2" "\<not> now2 < now1"
    using assms(7,8) by simp_all
  then have s2: "wx_phase s2 = 3" "wx_pending s2 = p1" "wx_calls s2 = wx_calls s @ [Start_Request path]"
    using assms(3,4,9,10,12) e by (simp_all add: s1 z80_weather_poll_def start_fetch_def Let_def)
  have "p2 = map ((!) p2) [0..<15]"
    using f2(1) by (metis map_nth)
  then have "p2 = [p2 ! 0, p2 ! 1, p2 ! 2, p2 ! 3, p2 ! 4, p2 ! 5, p2 ! 6, p2 ! 7, p2 ! 8, p2 ! 9, p2 ! 10, p2 ! 11, p2 ! 12, p2 ! 13, p2 ! 14]"
    by (simp add: upt_rec numeral_eq_Suc)
  moreover have "wx_status s3 = Z80_WEATHER_READY \<and> wx_have_data s3 \<and> wx_last_fetch s3 = now3 \<and> wx_fields s3 = p2"
    using assms(13) s2 p2 by (simp add: z80_weather_result_def)
  ultimately show ?thesis
    using s2(3) f1(2) f2(2,3) by simp
qed

definition sample_current :: current_weather where
  "sample_current = \<lparr>cd_main = ascii ''Clouds'', cd_description = ascii ''broken clouds'', cd_temp = (True, 3, [54]), cd_feels_like = (True, 5, [53]),
     cw_name = ascii ''New York'', cw_humidity = (False, 82, []), cw_speed = (False, 2, [54])\<rparr>"

definition sample_forecast :: forecast_weather where
  "sample_forecast = \<lparr>cd_main = ascii ''Rain'', cd_description = ascii ''light rain'', cd_temp = (False, 4, [53]), cd_feels_like = (False, 1, [50]),
     fw_time = ascii ''2026-10-22 03:00:00''\<rparr>"

lemma sample_numbers:
  "number_ok (True, 3, [54])" "number_ok (True, 5, [53])" "number_ok (False, 82, [])" "number_ok (False, 2, [54])" "number_ok (False, 4, [53])"
  "number_ok (False, 1, [50])"
  by (simp_all add: number_ok_def ten_thousandths_def number_of_def is_digit_def digit_value_def)

lemma sample_texts: "current_ok sample_current" "forecast_ok sample_forecast"
proof -
  have "length (current_text sample_current) \<le> 255" "length (forecast_text sample_forecast) \<le> 255"
    by code_simp+
  then show "current_ok sample_current" "forecast_ok sample_forecast"
    by (simp_all add: current_ok_def forecast_ok_def conditions_ok_def sample_current_def sample_forecast_def sample_numbers sample_numbers(6) [unfolded One_nat_def])
      (simp_all add: json_plain_def ascii_def)
qed

lemma sample_forecast_path: "\<exists>path. build_path True sample_config = Some path"
proof -
  have "build_path True sample_config \<noteq> None"
    by code_simp
  then show ?thesis
    by simp
qed

theorem weather_reported_witness:
  "\<exists>s :: weather. wx_status s = Z80_WEATHER_READY \<and> wx_fields s ! 0 = ascii ''New York'' \<and> wx_fields s ! 2 = ascii ''Broken clouds'' \<and>
    wx_fields s ! 3 = ascii ''-4'' \<and> wx_fields s ! 6 = ascii ''Rain'' \<and> wx_fields s ! 8 = ascii ''5'' \<and> wx_fields s ! 13 = ascii ''-6''"
proof -
  obtain s where s: "weather_reachable s" "wx_enabled s" "wx_phase s = 1" "wx_config s = sample_config" "wx_was_online s" "wx_config_due s = 7000"
    by (rule sample_fetch)
  obtain path where path: "build_path True (wx_config s) = Some path"
    using sample_forecast_path s(4) by auto
  obtain en :: environment where "stored_entries (be_flash (en_backend en)) = (0, [(ascii ''OWM_KEY'', [75]), (ascii ''OWM_LOCATION'', [88])])"
    by (rule sample_settings)
  define s3 where "s3 = z80_weather_result 6700 200 (Some (forecast_text sample_forecast)) None
      (snd (z80_weather_poll (\<lambda>_. True) 6600 6600 True en (z80_weather_result 6500 200 (Some (current_text sample_current)) None s)))"
  note reported = weather_reported [OF s(1,3,2,5) sample_texts _ _ path _ refl refl s3_def]
  have shown: "take 95 (cw_name sample_current) = ascii ''New York''" "capitalize (take 95 (cd_description sample_current)) = ascii ''Broken clouds''"
    "take 95 (cd_main sample_forecast) = ascii ''Rain''"
    by (simp_all add: sample_current_def sample_forecast_def) (simp_all add: ascii_def capitalize_def)
  have "decimal 4 = [52]" "decimal 5 = [53]" "decimal 6 = [54]"
    by (subst decimal.simps, simp)+
  then have numbers: "number_field (cd_temp sample_current) = ascii ''-4''" "number_field (cd_temp sample_forecast) = ascii ''5''"
    "number_field (cd_feels_like sample_current) = ascii ''-6''"
    by (simp_all add: sample_current_def sample_forecast_def number_field_def nearest_def ten_thousandths_def number_of_def digit_value_def
        decimal_int_def is_digit_def ascii_def)
  show ?thesis
    using reported s(6) by (intro exI [of _ s3]) (simp add: shown numbers)
qed

end
