(* ===== verification/Spec2Isabelle.thy ===== *)
theory Spec2Isabelle
  imports Terminal_Queue Ansi_Input Disk_Device Prefetch_Lock Environment_Values Http_Session Chat_Service Io_Transport Io_Trap Weather_Report Weather_Fields
begin

text \<open>
  Verification of the firmware of the Z80 ROMless SBC, a Z80 computer whose memory, disks, terminal and network are provided
  by a two-core microcontroller. Core 0 runs the Z80's bus: an I/O trap calls a port handler for every IN and OUT. Core 1 does the slow
  work: it writes flash, talks to the network and serves requests. The two cores share mailboxes and rings, and nothing else.

  \<^bold>\<open>Parts and theories.\<close> File names are relative to \<open>src/src/common\<close> unless given in full.

  \<^item> \<open>Prelude\<close>: words, slices of lists, little-endian fields, C strings, and the locale \<open>machine_refinement\<close> (one step of a machine
    simulates one step of its specification).
  \<^item> \<open>Terminal_Queue\<close>: \<open>terminal_queue.c\<close>. The rings between the Z80's console ports and the USB or browser client that owns the
    terminal. The ring is an instance of \<open>bounded_fifo\<close>, the terminal an instance of \<open>machine_refinement\<close> over a specification on lists.
  \<^item> \<open>Checksum\<close>, \<open>Flash_Backend\<close>, \<open>Flash_Journal\<close>, \<open>Flash_Records\<close>: \<open>flash_backend.c\<close>. A one-sector write-back cache over flash with a
    journal of eight pairs. \<open>Flash_Backend\<close> has the operations, with a power cut as the outcome \<open>Rebooted\<close>; \<open>Flash_Journal\<close> states what is
    assumed of the flash chip (\<open>flash_frame\<close>, \<open>journal_flash\<close>, \<open>flash_device\<close>, interpreted on the flash of the repository's own test) and
    proves recovery; \<open>Flash_Records\<close> proves crash safety and the behaviour record by record.
  \<^item> \<open>Disk_Device\<close>: \<open>disk_device.c\<close>. The disk ports, the command mailbox, the core 1 service and the read-ahead slots.
    \<open>Prefetch_Lock\<close> has the sequence lock of one slot, one step per load and store.
  \<^item> \<open>Environment_Store\<close>: \<open>environment_store.c\<close>, two checksummed snapshot slots. \<open>Environment_IO\<close> and \<open>Environment_Values\<close>:
    \<open>src/src/cpm/dcc_io_adapter/host/PortDrivers/environment_io.c\<close>, the variables, their ports and the ENV command line, in
    the flash build.
  \<^item> \<open>Http_Stream\<close>: \<open>http_stream.c\<close>, URLs and the incremental response parser. \<open>Http_Io\<close> and \<open>Http_Session\<close>: \<open>http_io.c\<close>, the
    download ports, the slot mailbox and the worker.
  \<^item> \<open>Chat_Json\<close>, \<open>Chat_Stream\<close> and \<open>Chat_Text\<close>: \<open>chat_stream.c\<close>, the JSON reader of chat events and the response parser around it.
    \<open>Chat\<close> and \<open>Chat_Service\<close>: \<open>chat.c\<close> and \<open>chat_endpoint.h\<close>, the chat service. The levels of the JSON reader meet in the locale
    \<open>json_reader\<close>, the parser and its output queue in \<open>byte_sink\<close>.
  \<^item> \<open>Weather_Http\<close>: \<open>weather_http.c\<close>, the decoder of weather responses. \<open>C_Numbers\<close> and \<open>Json_Scan\<close>:
    \<open>src/src/cpm/dcc_io_adapter/port_drivers/json_scan.c\<close> and the number readers of the C library under it, with doubles as rationals. \<open>Weather\<close>,
    \<open>Weather_Report\<close> and \<open>Weather_Fields\<close>: \<open>weather.c\<close>, the weather service, how its requests read, and what becomes of good responses.
  \<^item> \<open>Ansi_Input\<close>: \<open>src/src/stage09_flash_storage/ansi_input.c\<close>, the decoder of terminal key sequences.
  \<^item> \<open>Io_Service\<close>: \<open>io_service.c\<close>, the service mailbox and the services behind it. \<open>Io_Ports\<close> and \<open>Io_Transport\<close>: \<open>io_ports.c\<close>, the
    request and response transport, the timers and the port dispatch.
  \<^item> \<open>Board\<close>: \<open>supervisor.c\<close>, \<open>bus.c\<close>, \<open>clock.c\<close> and \<open>cpu.c\<close>, the pins of the controller, the two buffers of the data bus, the Z80's clock, and
    reset and bus handshakes, in the build that makes the clock with the PWM (without \<open>Z80_BANKED_PIO\<close>). \<open>Board_Bus\<close> proves that the bus is never
    contended, that the handshakes end and what the clock search finds; its locale \<open>ticking\<close> says that time passes.
  \<^item> \<open>Sram_Loader\<close>: \<open>sram.c\<close>, which writes and reads SRAM by feeding instructions to the Z80. The locale \<open>sram_bus\<close> is what it needs of Z80 and SRAM,
    \<open>sram_good\<close> an SRAM that stores; both are interpreted on \<open>bench\<close>, the Z80 of the repository's own \<open>tests/loader_test.c\<close>.
  \<^item> \<open>Boot_Loader\<close>: the boot in \<open>flash_backend.c\<close>: recovery, manifest, checksum, load and read-back. \<open>Io_Trap\<close>: \<open>io_trap.c\<close>, the interrupt that
    serves one IN or OUT of the Z80, and core 0's answers to bus requests in \<open>flash_backend.c\<close>.

  \<^bold>\<open>State and operations.\<close> The static variables of a file are one record; a C function is one definition of the same name from
  that state to that state (its inner branches are named helper definitions). Fixed-size buffers that are indexed are
  lists of their length; a buffer filled from the front is the list of what is in it. Integers whose wrap-around matters are words; indices
  and counts are naturals that the invariants bound. Functions that can lose power or restart return a \<open>fate\<close>. Code outside the repository
  (the flash chip, the network stack, the clock, random numbers) is an argument: \<open>flash_dev\<close>, \<open>flush_env\<close>, \<open>service_world\<close>, and the
  \<open>start\<close> arguments of the download worker and the chat service. What is on the other side of the pins is the argument \<open>'d hw\<close>: what the pins read,
  the time, and how the device changes when a pin is set or time passes.

  \<^bold>\<open>Concurrency.\<close> A port access and a call of a core 1 service are steps, taken in any order (\<open>disk_step\<close>, \<open>http_step\<close>, \<open>ports_step\<close>,
  \<open>chat_step\<close>, \<open>env_reachable\<close>). That a step can be taken as a whole is what the mailboxes are for: a buffer is owned by the core that the mailbox state
  names, and the invariants show that the other core does not touch it. Where the code does let both cores touch a buffer, in the
  read-ahead slots, \<open>Prefetch_Lock\<close> models single loads and stores, sequentially consistent.

  \<^bold>\<open>What is shown.\<close>
  \<^item> Flash: wherever a power cut hits a flush, recovery yields the old or the new sector and nothing else changes; recovery replays
    pairs in order; a write that reported success is read back; a flush makes it durable; quiescent means durable; the checksum
    notices every burst of four bytes.
  \<^item> Disk: an invariant of every interleaving; sectors are delivered and stored as the Z80 sent them; a busy controller is not
    disturbed; a failure is sticky; the read-ahead never shows a torn or stale record.
  \<^item> Environment: the table in memory is the table in flash in every reachable state; SET then GET, also after a power cycle;
    refused commands change nothing; responses fit; 64-bit arithmetic is exact or refused; snapshots survive an interrupted save.
  \<^item> Terminal: refinement of the list specification; lossless sessions; ownership.
  \<^item> Downloads: chunked bodies are decoded exactly, however the network cuts them; the parser stays in bounds; redirects keep origin and
    security; the Z80 reads the body in order and complete.
  \<^item> Chat: the JSON reader returns on every input; the texts of the events are delivered exactly; reads return the reply in order; a
    stored key goes only to its provider.
  \<^item> Weather: the decoder joins chunks in its buffer as its reference definition says and refuses every truncated response; requests read
    back as the settings say; the fields show what the responses say; in every reachable state fields fit, and the status tells what is going on.
  \<^item> Keys: every key sequence yields its control character.
  \<^item> Board: the two drivers of the data bus are never on together, in any sequence of operations; the bus handshakes end; the clock is the fastest
    that the rate asked for allows.
  \<^item> Boot: an accepted boot has put the verified image into SRAM; a refused one stops the processor and names its error; a good board
    boots.
  \<^item> I/O trap: every trapped cycle ends, with the bus and the clock restored or with a recorded reset; the port handlers see exactly the port and byte
    on the pins; every bus request is answered; the reason of a reset survives it.
  \<^item> Services: requests and answers pass the transport unchanged; a reset drops a late answer; timers and stopwatches are exact; the reboot
    service restarts only when everything is in flash.

  \<^bold>\<open>Bounds.\<close> The recovery loop is bounded by the number of journal pairs: each round clears a pair, and \<open>recovery_replays_in_order\<close> shows
  that the bound is never what ends it. The loops that poll pins until a deadline are \<open>partial_function (option)\<close>, and
  \<open>bus_handshake\<close> and \<open>trapped_cycle_ends\<close> show that they return when time passes. The two loops of the JSON reader are bounded by the bytes that are left, and
  \<open>json_reader_returns\<close> shows that they never use up that bound; the nesting bound of 16 is the code's own. The other loops of the model run over a list or a count. Timer arithmetic is stated below
  \<open>2 ^ 63\<close> microseconds of uptime.

  \<^bold>\<open>Not modelled.\<close> The PIO and DMA programs of the other bus build (\<open>banked_pio.c\<close>), the light of the radio chip, the USB menu, the
  bring-up programs, the clients of the network libraries and the desktop debugger with its third-party emulator: they are hardware access, or
  calls of libraries that are not part of the repository. Weak memory orderings are not modelled. The weather service is an
  argument of the service worker, as are the texts of clock and device; its client of the network library is an argument of the weather service.
\<close>

end
